(* ===== verification/Nvm_Prelude.thy ===== *)
theory Nvm_Prelude
  imports Main "HOL-Library.Word" "HOL-Library.Multiset"
begin

text \<open>
  Shared vocabulary of the development: the machine-integer types of
  \<^verbatim>\<open>include/NVMTypes.h\<close>, the error values that stand for a failed assertion, an
  \<^verbatim>\<open>exit\<close> or undefined behaviour of the C++ code, and the generic facts on lists,
  words and association lists that the component theories use.
\<close>

unbundle bit_operations_syntax

type_synonym u8 = "8 word"
type_synonym u64 = "64 word"
type_synonym ncycle_t = "64 word"
type_synonym ncounter_t = "64 word"

text \<open>
  Every way in which a modelled operation does not return: an \<open>assert\<close> that
  fails, an \<open>exit\<close>, and the undefined behaviours the code can reach (an index
  outside an array, a write past a buffer, a read of a deleted object, a call
  through a null pointer, a division by zero). \<open>OutOfFuel\<close> is the bound of a recursion the code does not bound; the theories
  that use it prove that it is not reached.
\<close>

datatype nvm_error =
    AssertFailed
  | ExitCalled
  | OutOfBounds
  | BufferOverflow
  | UseAfterFree
  | DivisionByZero
  | OutOfFuel
  | NullPointer

named_theorems nvm_defs
  \<open>definitions the component proofs unfold together\<close>

named_theorems nvm_inv
  \<open>preservation lemmas of the component invariants\<close>

definition max_u64 :: u64 where
  "max_u64 = - 1"

lemma le_max_u64 [simp]: "x \<le> max_u64"
  by (simp add: max_u64_def)

lemma not_max_u64_less [simp]: "\<not> max_u64 < x"
  by (simp add: not_less)

lemma max_u64_le_iff [simp]: "max_u64 \<le> x \<longleftrightarrow> x = max_u64"
  by (metis antisym le_max_u64)

lemma unat_max_u64: "unat max_u64 = 2 ^ 64 - 1"
  by (simp add: max_u64_def unsigned_minus_1_eq_mask mask_eq_exp_minus_1)

subsection \<open>Result monad\<close>

text \<open>Sequencing of fallible steps: the first error stops the run.\<close>

definition bind_res :: "nvm_error + 'a \<Rightarrow> ('a \<Rightarrow> nvm_error + 'b) \<Rightarrow> nvm_error + 'b" where
  "bind_res m f = (case m of Inl e \<Rightarrow> Inl e | Inr x \<Rightarrow> f x)"

lemma bind_res_simps [simp]:
  "bind_res (Inl e) f = Inl e"
  "bind_res (Inr x) f = f x"
  by (simp_all add: bind_res_def)

lemma bind_res_eq_Inr: "bind_res m f = Inr y \<longleftrightarrow> (\<exists>x. m = Inr x \<and> f x = Inr y)"
  by (cases m) auto

lemma bind_res_elim:
  assumes "bind_res m f = Inr y"
  obtains x where "m = Inr x" "f x = Inr y"
  using assms by (auto simp: bind_res_eq_Inr)

definition assert_res :: "bool \<Rightarrow> nvm_error + unit" where
  "assert_res b = (if b then Inr () else Inl AssertFailed)"

lemma assert_res_eq_Inr [simp]: "assert_res b = Inr u \<longleftrightarrow> b"
  by (simp add: assert_res_def)

lemma assert_res_False [simp]: "assert_res False = Inl AssertFailed"
  by (simp add: assert_res_def)

lemma assert_res_True [simp]: "assert_res True = Inr ()"
  by (simp add: assert_res_def)

text \<open>A \<^verbatim>\<open>for\<close> loop over the elements of a list whose body may fail.\<close>

fun fold_res :: "('a \<Rightarrow> 'b \<Rightarrow> nvm_error + 'b) \<Rightarrow> 'a list \<Rightarrow> 'b \<Rightarrow> nvm_error + 'b" where
  "fold_res f [] s = Inr s"
| "fold_res f (x # xs) s = bind_res (f x s) (fold_res f xs)"

lemma fold_res_append: "fold_res f (xs @ ys) s = bind_res (fold_res f xs s) (fold_res f ys)"
proof (induction xs arbitrary: s)
  case (Cons x xs)
  then show ?case by (cases "f x s") auto
qed simp

lemma fold_res_fold:
  assumes "P s" "\<And>x s. x \<in> set xs \<Longrightarrow> P s \<Longrightarrow> f x s = Inr (g x s) \<and> P (g x s)"
  shows "fold_res f xs s = Inr (fold g xs s) \<and> P (fold g xs s)"
  using assms by (induction xs arbitrary: s) auto

lemma fold_res_inv:
  assumes "P s" "\<And>x s. x \<in> set xs \<Longrightarrow> P s \<Longrightarrow> \<exists>s'. f x s = Inr s' \<and> P s'"
  shows "\<exists>s'. fold_res f xs s = Inr s' \<and> P s'"
  using assms
proof (induction xs arbitrary: s)
  case (Cons x xs)
  then obtain s' where "f x s = Inr s'" "P s'" by (meson list.set_intros(1))
  then show ?case using Cons.IH Cons.prems(2) by auto
qed simp

lemma fold_res_map: "fold_res f (map g xs) s = fold_res (\<lambda>x. f (g x)) xs s"
proof (induction xs arbitrary: s)
  case (Cons x xs)
  then show ?case by (cases "f (g x) s") auto
qed simp

lemma fold_res_noop: "(\<And>x. x \<in> set xs \<Longrightarrow> f x s = Inr s) \<Longrightarrow> fold_res f xs s = Inr s"
  by (induction xs) auto

lemma fold_res_upt_split:
  assumes "h < n" "\<And>i. i < h \<Longrightarrow> f i s = Inr s"
  shows "fold_res f [0..<n] s = bind_res (f h s) (fold_res f [Suc h..<n])"
proof -
  have "[0..<n] = [0..<h] @ h # [Suc h..<n]"
    using assms(1) upt_add_eq_append [of 0 h "n - h"] by (simp add: upt_conv_Cons)
  moreover have "fold_res f [0..<h] s = Inr s" by (rule fold_res_noop) (simp add: assms(2))
  ultimately show ?thesis by (simp add: fold_res_append)
qed

text \<open>
  The conversion of a 64-bit value to \<^verbatim>\<open>int\<close>, which keeps the low 32 bits as a signed number.
\<close>

definition to_int32 :: "u64 \<Rightarrow> int" where
  "to_int32 x = sint (ucast x :: 32 word)"

subsection \<open>Words as numbers\<close>

lemma unat_drop_bit_u64: "unat (drop_bit n (x :: u64)) = unat x div 2 ^ n"
proof -
  have "unat (drop_bit n x) = drop_bit n (unat x)"
    by (rule unat_drop_bit_eq)
  then show ?thesis by (simp only: drop_bit_eq_div)
qed

lemma unat_two_power: "n < 64 \<Longrightarrow> unat (2 ^ n :: u64) = 2 ^ n"
proof -
  assume "n < 64"
  then have "(2 ^ n :: nat) < 2 ^ 64"
    by (rule power_strict_increasing) simp
  moreover have "(2 ^ n :: u64) = of_nat (2 ^ n)" by simp
  ultimately show "unat (2 ^ n :: u64) = 2 ^ n"
    by (simp only: unat_of_nat) simp
qed

lemma unat_push_bit_one: "n < 64 \<Longrightarrow> unat (push_bit n (1 :: u64)) = 2 ^ n"
  by (simp add: push_bit_eq_mult unat_two_power)

lemma unat_mod_push_bit_one:
  "n < 64 \<Longrightarrow> unat (x mod push_bit n (1 :: u64)) = unat x mod 2 ^ n"
  by (simp only: unat_mod unat_push_bit_one)

lemma unat_less_u64: "unat (x :: u64) < 2 ^ 64"
  using le_max_u64 [of x] unfolding word_le_nat_alt unat_max_u64 by simp

lemma u64_eq_iff_unat: "(x :: u64) = y \<longleftrightarrow> unat x = unat y"
  by (rule word_unat_eq_iff)

lemma to_int32_small: "unat x < 2 ^ 31 \<Longrightarrow> to_int32 x = int (unat x)"
proof -
  assume a: "unat x < 2 ^ 31"
  then have "int (unat x) < int (2 ^ 31)" by (simp only: of_nat_less_iff)
  then have lt: "uint x < 2 ^ 31" by simp
  have "uint (ucast x :: 32 word) = take_bit 32 (uint x)" by (simp add: unsigned_ucast_eq)
  also have "\<dots> = uint x" using lt by (intro take_bit_int_eq_self) simp_all
  finally have u: "uint (ucast x :: 32 word) = uint x" .
  have "sint (ucast x :: 32 word) = signed_take_bit 31 (uint x)" unfolding sint_uint u by simp
  also have "\<dots> = uint x" using lt by (intro signed_take_bit_int_eq_self) (simp_all, smt (verit) uint_nonnegative)
  finally show ?thesis by (simp add: to_int32_def)
qed

lemma unat_of_nat_small: "k < 2 ^ 64 \<Longrightarrow> unat (of_nat k :: u64) = k"
  by (simp add: unat_of_nat)

lemma of_nat_u64_eq_0: "k < 2 ^ 64 \<Longrightarrow> (of_nat k :: u64) = 0 \<longleftrightarrow> k = 0"
  unfolding u64_eq_iff_unat by (simp only: unat_of_nat_small unsigned_0)

text \<open>The comparison of one bit of two bytes, as the sources write it.\<close>

lemma bit_test: "drop_bit j (a :: u8) AND 1 = drop_bit j b AND 1 \<longleftrightarrow> bit a j = bit b j"
proof -
  have "drop_bit j x AND 1 = of_bool (bit x j)" for x :: u8
    by (cases "bit x j") (simp_all add: and_one_eq bit_iff_odd_drop_bit odd_iff_mod_2_eq_one)
  then show ?thesis by (simp only: of_bool_eq_iff)
qed

subsection \<open>Ordered association lists\<close>

text \<open>
  \<^verbatim>\<open>std::map\<close> iterates in the order of its keys: an association list whose keys strictly
  increase. \<open>omap_upd\<close> is \<open>m[k] = v\<close>, \<open>omap_del\<close> is \<open>m.erase(k)\<close>, \<open>map_of\<close> looks up.
\<close>

abbreviation keys :: "('k \<times> 'v) list \<Rightarrow> 'k list" where
  "keys m \<equiv> map fst m"

fun omap_upd :: "'k::linorder \<Rightarrow> 'v \<Rightarrow> ('k \<times> 'v) list \<Rightarrow> ('k \<times> 'v) list" where
  "omap_upd k v [] = [(k, v)]"
| "omap_upd k v ((k', v') # m) =
     (if k < k' then (k, v) # (k', v') # m
      else if k = k' then (k, v) # m
      else (k', v') # omap_upd k v m)"

fun omap_del :: "'k \<Rightarrow> ('k \<times> 'v) list \<Rightarrow> ('k \<times> 'v) list" where
  "omap_del k [] = []"
| "omap_del k ((k', v') # m) = (if k = k' then m else (k', v') # omap_del k m)"

locale ordered_map =
  fixes upd :: "'k::linorder \<Rightarrow> 'v \<Rightarrow> 'm \<Rightarrow> 'm"
    and del :: "'k \<Rightarrow> 'm \<Rightarrow> 'm"
    and look :: "'m \<Rightarrow> 'k \<Rightarrow> 'v option"
    and first :: "'m \<Rightarrow> 'k option"
    and wf :: "'m \<Rightarrow> bool"
  assumes look_upd: "look (upd k v m) = (look m)(k \<mapsto> v)"
    and look_del: "wf m \<Longrightarrow> look (del k m) = (look m)(k := None)"
    and wf_upd: "wf m \<Longrightarrow> wf (upd k v m)"
    and wf_del: "wf m \<Longrightarrow> wf (del k m)"
    and first_None: "first m = None \<longleftrightarrow> look m = Map.empty"
    and first_look: "first m = Some k \<Longrightarrow> look m k \<noteq> None"
    and first_least: "wf m \<Longrightarrow> first m = Some k \<Longrightarrow> look m k' = Some v \<Longrightarrow> k \<le> k'"
begin

lemma first_eqI:
  assumes "wf m" and "look m k \<noteq> None" and "\<And>k' v. look m k' = Some v \<Longrightarrow> k \<le> k'"
  shows "first m = Some k"
proof (cases "first m")
  case None
  then show ?thesis using assms(2) first_None by auto
next
  case (Some k0)
  then have "k0 \<le> k" using assms(1,2) first_least by blast
  moreover have "k \<le> k0" using Some first_look assms(3) by blast
  ultimately show ?thesis using Some by simp
qed

lemma first_del_greater:
  assumes "wf m" and "first m = Some k" and "first (del k m) = Some k'"
  shows "k < k'"
proof -
  have "look (del k m) k' \<noteq> None" using assms(3) by (rule first_look)
  then have "k' \<noteq> k" and "look m k' \<noteq> None"
    using look_del [OF assms(1)] by (auto split: if_splits)
  then show ?thesis using first_least [OF assms(1,2)] by force
qed

end

definition omap_first :: "('k \<times> 'v) list \<Rightarrow> 'k option" where
  "omap_first m = (case m of [] \<Rightarrow> None | (k, _) # _ \<Rightarrow> Some k)"

definition omap_wf :: "('k::linorder \<times> 'v) list \<Rightarrow> bool" where
  "omap_wf m \<longleftrightarrow> sorted_wrt (<) (keys m)"

lemma set_keys_omap_upd: "set (keys (omap_upd k v m)) = insert k (set (keys m))"
  by (induction k v m rule: omap_upd.induct) auto

lemma set_keys_omap_del: "set (keys (omap_del k m)) \<subseteq> set (keys m)"
  by (induction k m rule: omap_del.induct) auto

lemma omap_wf_upd: "omap_wf m \<Longrightarrow> omap_wf (omap_upd k v m)"
proof (induction k v m rule: omap_upd.induct)
  case (2 k v k' v' m)
  have "k' < x" if "x \<in> set (keys (omap_upd k v m))" "\<not> k < k'" "k \<noteq> k'" for x
    using that "2.prems" by (auto simp: set_keys_omap_upd omap_wf_def simp del: set_map)
  with 2 show ?case by (auto simp: omap_wf_def)
qed (simp add: omap_wf_def)

lemma omap_wf_del: "omap_wf m \<Longrightarrow> omap_wf (omap_del k m)"
  unfolding omap_wf_def
  by (induction k m rule: omap_del.induct) (use set_keys_omap_del in fastforce)+

lemma map_of_omap_upd: "map_of (omap_upd k v m) = (map_of m)(k \<mapsto> v)"
  by (induction k v m rule: omap_upd.induct) auto

lemma map_of_omap_del: "omap_wf m \<Longrightarrow> map_of (omap_del k m) = (map_of m)(k := None)"
proof (induction k m rule: omap_del.induct)
  case (2 k k' v' m)
  then have "omap_wf m" "k' \<notin> set (keys m)" by (auto simp: omap_wf_def)
  with 2 show ?case by (auto simp: fun_eq_iff map_of_eq_None_iff)
qed (simp add: fun_eq_iff)

lemma map_of_omap_del_other: "k' \<noteq> k \<Longrightarrow> map_of (omap_del k m) k' = map_of m k'"
  by (induction k m rule: omap_del.induct) auto

interpretation omap: ordered_map omap_upd omap_del map_of omap_first omap_wf
proof unfold_locales
  show "omap_wf m \<Longrightarrow> omap_first m = Some k \<Longrightarrow> map_of m k' = Some v \<Longrightarrow> k \<le> k'"
    for m :: "('a \<times> 'b) list" and k k' v
    by (cases m) (auto simp: omap_first_def omap_wf_def split: if_splits dest!: map_of_SomeD)
qed (auto simp: map_of_omap_upd map_of_omap_del omap_wf_upd omap_wf_del omap_first_def
      split: list.splits)

lemma omap_upd_del_fresh:
  "omap_wf m \<Longrightarrow> map_of m k = None \<Longrightarrow> omap_del k (omap_upd k v m) = m"
  by (induction k v m rule: omap_upd.induct) (auto simp: omap_wf_def split: if_splits)

lemma omap_upd_same: "omap_wf m \<Longrightarrow> map_of m k = Some v \<Longrightarrow> omap_upd k v m = m"
  by (induction k v m rule: omap_upd.induct)
    (auto simp: omap_wf_def split: if_splits dest!: map_of_SomeD)

lemma omap_upd_upd: "omap_wf m \<Longrightarrow> omap_upd k v (omap_upd k v' m) = omap_upd k v m"
  by (induction k v m rule: omap_upd.induct) (auto simp: omap_wf_def)

end
