(* ===== verification/Nvm_Address.thy ===== *)
theory Nvm_Address
  imports Nvm_Prelude
begin

text \<open>
  The address path of the NVMain memory model: \<^verbatim>\<open>NVMAddress\<close>
  (\<^verbatim>\<open>include/NVMAddress.cpp\<close>), the logarithm of \<^verbatim>\<open>include/NVMHelpers.cpp\<close>, the mapping
  of partitions to bit widths and orders (\<^verbatim>\<open>src/TranslationMethod.cpp\<close>) and the two
  directions of translation (\<^verbatim>\<open>src/AddressTranslator.cpp\<close>).

  The arrays \<^verbatim>\<open>bitWidths\<close>, \<^verbatim>\<open>order\<close> and \<^verbatim>\<open>count\<close>, indexed by \<^verbatim>\<open>MemoryPartition\<close>, are
  functions on the enumeration. Shifts are \<open>push_bit\<close> and \<open>drop_bit\<close> on 64-bit words,
  which agree with C++ for shift amounts below 64; the well-formedness predicate asks
  for that. Writing \<^verbatim>\<open>partitions[MEM_UNKNOWN]\<close> (index 100 of an array of six) is the
  error \<open>OutOfBounds\<close>.
\<close>

section \<open>NVMAddress\<close>

record NVMAddress =
  translated :: bool
  hasPhysicalAddress :: bool
  physicalAddress :: u64
  na_subarray :: u64
  na_row :: u64
  na_col :: u64
  na_bank :: u64
  na_rank :: u64
  na_channel :: u64
  na_bit :: u64

text \<open>The default constructor leaves \<^verbatim>\<open>bit\<close> uninitialised; it is an argument here.\<close>

definition NVMAddress_init :: "u64 \<Rightarrow> NVMAddress" where
  "NVMAddress_init garbage =
     \<lparr> translated = False, hasPhysicalAddress = False, physicalAddress = 0,
       na_subarray = 0, na_row = 0, na_col = 0, na_bank = 0, na_rank = 0,
       na_channel = 0, na_bit = garbage \<rparr>"

definition SetTranslatedAddress ::
  "NVMAddress \<Rightarrow> u64 \<Rightarrow> u64 \<Rightarrow> u64 \<Rightarrow> u64 \<Rightarrow> u64 \<Rightarrow> u64 \<Rightarrow> NVMAddress" where
  "SetTranslatedAddress a addrRow addrCol addrBank addrRank addrChannel addrSA =
     a\<lparr> translated := True, na_row := addrRow, na_col := addrCol, na_bank := addrBank,
        na_rank := addrRank, na_channel := addrChannel, na_subarray := addrSA \<rparr>"

definition SetPhysicalAddress :: "NVMAddress \<Rightarrow> u64 \<Rightarrow> NVMAddress" where
  "SetPhysicalAddress a pAddress =
     a\<lparr> hasPhysicalAddress := True, physicalAddress := pAddress \<rparr>"

definition SetBitAddress :: "NVMAddress \<Rightarrow> u8 \<Rightarrow> NVMAddress" where
  "SetBitAddress a bitAddr = a\<lparr> na_bit := ucast bitAddr \<rparr>"

section \<open>mlog2\<close>

text \<open>
  The guard \<^verbatim>\<open>num < 2\<close> leaves only positive numbers for the loop, whose right shift
  then is the division of a natural number by two.
\<close>

fun mlog2_loop :: "nat \<Rightarrow> int \<Rightarrow> int" where
  "mlog2_loop newNum retVal =
     (if newNum \<noteq> 0 then mlog2_loop (newNum div 2) (retVal + 1) else retVal)"

declare mlog2_loop.simps [simp del]

definition mlog2 :: "int \<Rightarrow> int" where
  "mlog2 num = (if num < 2 then 0 else mlog2_loop (nat num) (- 1))"

section \<open>TranslationMethod\<close>

datatype MemoryPartition =
    MEM_ROW | MEM_COL | MEM_BANK | MEM_RANK | MEM_CHANNEL | MEM_SUBARRAY | MEM_UNKNOWN

record TranslationMethod =
  bitWidths :: "MemoryPartition \<Rightarrow> nat"
  tm_count :: "MemoryPartition \<Rightarrow> u64"
  tm_order :: "MemoryPartition \<Rightarrow> int"

definition SetBitWidths ::
  "TranslationMethod \<Rightarrow> nat \<Rightarrow> nat \<Rightarrow> nat \<Rightarrow> nat \<Rightarrow> nat \<Rightarrow> nat \<Rightarrow> TranslationMethod" where
  "SetBitWidths m rowBits colBits bankBits rankBits channelBits subarrayBits =
     m\<lparr> bitWidths := (bitWidths m)(MEM_ROW := rowBits, MEM_COL := colBits,
          MEM_BANK := bankBits, MEM_RANK := rankBits, MEM_CHANNEL := channelBits,
          MEM_SUBARRAY := subarrayBits) \<rparr>"

text \<open>Orders that are not unique are only reported on the standard output.\<close>

definition SetOrder ::
  "TranslationMethod \<Rightarrow> int \<Rightarrow> int \<Rightarrow> int \<Rightarrow> int \<Rightarrow> int \<Rightarrow> int \<Rightarrow> TranslationMethod" where
  "SetOrder m row col bank rank channel subarray =
     m\<lparr> tm_order := (tm_order m)(MEM_ROW := row - 1, MEM_COL := col - 1,
          MEM_BANK := bank - 1, MEM_RANK := rank - 1, MEM_CHANNEL := channel - 1,
          MEM_SUBARRAY := subarray - 1) \<rparr>"

definition SetCount ::
  "TranslationMethod \<Rightarrow> u64 \<Rightarrow> u64 \<Rightarrow> u64 \<Rightarrow> u64 \<Rightarrow> u64 \<Rightarrow> u64 \<Rightarrow> TranslationMethod" where
  "SetCount m rows cols banks ranks channels subarrays =
     m\<lparr> tm_count := (tm_count m)(MEM_ROW := rows, MEM_COL := cols, MEM_BANK := banks,
          MEM_RANK := ranks, MEM_CHANNEL := channels, MEM_SUBARRAY := subarrays) \<rparr>"

text \<open>The getters fill their six out-parameters in the order of the signature.\<close>

definition GetBitWidths :: "TranslationMethod \<Rightarrow> nat \<times> nat \<times> nat \<times> nat \<times> nat \<times> nat" where
  "GetBitWidths m =
     (bitWidths m MEM_ROW, bitWidths m MEM_COL, bitWidths m MEM_BANK,
      bitWidths m MEM_RANK, bitWidths m MEM_CHANNEL, bitWidths m MEM_SUBARRAY)"

definition GetOrder :: "TranslationMethod \<Rightarrow> int \<times> int \<times> int \<times> int \<times> int \<times> int" where
  "GetOrder m =
     (tm_order m MEM_ROW, tm_order m MEM_COL, tm_order m MEM_BANK,
      tm_order m MEM_RANK, tm_order m MEM_CHANNEL, tm_order m MEM_SUBARRAY)"

definition GetCount :: "TranslationMethod \<Rightarrow> u64 \<times> u64 \<times> u64 \<times> u64 \<times> u64 \<times> u64" where
  "GetCount m =
     (tm_count m MEM_ROW, tm_count m MEM_COL, tm_count m MEM_BANK,
      tm_count m MEM_RANK, tm_count m MEM_CHANNEL, tm_count m MEM_SUBARRAY)"

text \<open>The constructor; \<open>garbage\<close> is the uninitialised array \<^verbatim>\<open>count\<close>.\<close>

definition TranslationMethod_init :: "(MemoryPartition \<Rightarrow> u64) \<Rightarrow> TranslationMethod" where
  "TranslationMethod_init garbage =
     (let m = \<lparr> bitWidths = (\<lambda>_. 0), tm_count = garbage, tm_order = (\<lambda>_. 0) \<rparr>;
          m = SetBitWidths m 10 8 3 1 1 6
      in SetOrder m 4 1 3 5 6 2)"

subsection \<open>SetAddressMappingScheme\<close>

text \<open>
  \<^verbatim>\<open>strtok_r\<close> with the separator \<^verbatim>\<open>":"\<close>: the maximal non-empty runs of other characters.
\<close>

fun strtok_colon :: "string \<Rightarrow> string \<Rightarrow> string list" where
  "strtok_colon acc [] = (if acc = [] then [] else [rev acc])"
| "strtok_colon acc (c # cs) =
     (if c = CHR '':'' then (if acc = [] then [] else [rev acc]) @ strtok_colon [] cs
      else strtok_colon (c # acc) cs)"

text \<open>
  The string comparisons of the loop body, in their order; \<open>None\<close> is the branch that
  only prints an error.
\<close>

definition scheme_token :: "string \<Rightarrow> MemoryPartition option" where
  "scheme_token tok =
     (if tok = ''R'' then Some MEM_ROW
      else if tok = ''C'' then Some MEM_COL
      else if tok = ''BK'' then Some MEM_BANK
      else if tok = ''RK'' then Some MEM_RANK
      else if tok = ''CH'' then Some MEM_CHANNEL
      else if tok = ''SA'' then Some MEM_SUBARRAY
      else None)"

text \<open>The six local variables \<^verbatim>\<open>row\<close>, \<dots>, \<^verbatim>\<open>subarray\<close> are a function of the partition.\<close>

fun scheme_loop ::
  "string list \<Rightarrow> (MemoryPartition \<Rightarrow> int) \<Rightarrow> int \<Rightarrow> (MemoryPartition \<Rightarrow> int) \<times> int" where
  "scheme_loop [] v currentOrder = (v, currentOrder)"
| "scheme_loop (tok # toks) v currentOrder =
     scheme_loop toks
       (case scheme_token tok of Some part \<Rightarrow> v(part := currentOrder) | None \<Rightarrow> v)
       (currentOrder - 1)"

text \<open>\<^verbatim>\<open>if( x == 0 ) { x = currentOrder--; }\<close>, in the order of the source.\<close>

definition set_unset ::
  "MemoryPartition \<Rightarrow> (MemoryPartition \<Rightarrow> int) \<times> int \<Rightarrow> (MemoryPartition \<Rightarrow> int) \<times> int" where
  "set_unset part = (\<lambda>(v, currentOrder).
     if v part = 0 then (v(part := currentOrder), currentOrder - 1) else (v, currentOrder))"

text \<open>
  The scheme is copied by \<^verbatim>\<open>strcpy\<close> into \<^verbatim>\<open>char addrMappingScheme[16]\<close>: a scheme of
  sixteen characters or more writes past the buffer.
\<close>

definition SetAddressMappingScheme ::
  "TranslationMethod \<Rightarrow> string \<Rightarrow> nvm_error + TranslationMethod" where
  "SetAddressMappingScheme m scheme =
     (if length scheme \<ge> 16 then Inl BufferOverflow
      else let st = scheme_loop (strtok_colon [] scheme) (\<lambda>_. 0) 6;
               st = set_unset MEM_SUBARRAY st;
               st = set_unset MEM_CHANNEL st;
               st = set_unset MEM_RANK st;
               st = set_unset MEM_BANK st;
               st = set_unset MEM_ROW st;
               (v, _) = set_unset MEM_COL st
           in Inr (SetOrder m (v MEM_ROW) (v MEM_COL) (v MEM_BANK) (v MEM_RANK)
                     (v MEM_CHANNEL) (v MEM_SUBARRAY)))"

section \<open>AddressTranslator\<close>

datatype TranslationField =
    NO_FIELD | ROW_FIELD | COL_FIELD | BANK_FIELD | RANK_FIELD | CHANNEL_FIELD
  | SUBARRAY_FIELD

record AddressTranslator =
  at_method :: "TranslationMethod option"
  defaultField :: TranslationField
  busWidth :: int
  burstLength :: int
  lowColBits :: int

definition AddressTranslator_init :: AddressTranslator where
  "AddressTranslator_init =
     \<lparr> at_method = None, defaultField = NO_FIELD, busWidth = 64, burstLength = 8,
       lowColBits = 0 \<rparr>"

definition SetTranslationMethod :: "AddressTranslator \<Rightarrow> TranslationMethod \<Rightarrow> AddressTranslator" where
  "SetTranslationMethod t m = t\<lparr> at_method := Some m \<rparr>"

definition SetBusWidth :: "AddressTranslator \<Rightarrow> int \<Rightarrow> AddressTranslator" where
  "SetBusWidth t bits = t\<lparr> busWidth := bits \<rparr>"

definition SetBurstLength :: "AddressTranslator \<Rightarrow> int \<Rightarrow> AddressTranslator" where
  "SetBurstLength t beat = t\<lparr> burstLength := beat \<rparr>"

definition SetDefaultField :: "AddressTranslator \<Rightarrow> TranslationField \<Rightarrow> AddressTranslator" where
  "SetDefaultField t f = t\<lparr> defaultField := f \<rparr>"

definition FindOrder :: "TranslationMethod \<Rightarrow> int \<Rightarrow> MemoryPartition" where
  "FindOrder m ord =
     (let (rowOrder, colOrder, bankOrder, rankOrder, channelOrder, subarrayOrder) = GetOrder m
      in if rowOrder = ord then MEM_ROW
         else if colOrder = ord then MEM_COL
         else if bankOrder = ord then MEM_BANK
         else if rankOrder = ord then MEM_RANK
         else if channelOrder = ord then MEM_CHANNEL
         else if subarrayOrder = ord then MEM_SUBARRAY
         else MEM_UNKNOWN)"

definition Divide :: "TranslationMethod \<Rightarrow> u64 \<Rightarrow> MemoryPartition \<Rightarrow> u64" where
  "Divide m partSize part =
     (let (rowBits, colBits, bankBits, rankBits, channelBits, subarrayBits) = GetBitWidths m
      in case part of
           MEM_ROW \<Rightarrow> drop_bit rowBits partSize
         | MEM_COL \<Rightarrow> drop_bit colBits partSize
         | MEM_BANK \<Rightarrow> drop_bit bankBits partSize
         | MEM_RANK \<Rightarrow> drop_bit rankBits partSize
         | MEM_CHANNEL \<Rightarrow> drop_bit channelBits partSize
         | MEM_SUBARRAY \<Rightarrow> drop_bit subarrayBits partSize
         | MEM_UNKNOWN \<Rightarrow> partSize)"

definition Modulo :: "TranslationMethod \<Rightarrow> u64 \<Rightarrow> MemoryPartition \<Rightarrow> u64" where
  "Modulo m partialAddr part =
     (let (rowBits, colBits, bankBits, rankBits, channelBits, subarrayBits) = GetBitWidths m;
          moduloSize =
            (case part of
               MEM_ROW \<Rightarrow> push_bit rowBits 1
             | MEM_COL \<Rightarrow> push_bit colBits 1
             | MEM_BANK \<Rightarrow> push_bit bankBits 1
             | MEM_RANK \<Rightarrow> push_bit rankBits 1
             | MEM_CHANNEL \<Rightarrow> push_bit channelBits 1
             | MEM_SUBARRAY \<Rightarrow> push_bit subarrayBits 1
             | MEM_UNKNOWN \<Rightarrow> 1)
      in partialAddr mod moduloSize)"

text \<open>The out-parameters of a translation: the six values, by partition.\<close>

type_synonym partition_vals = "MemoryPartition \<Rightarrow> u64"

fun Translate_loop ::
  "TranslationMethod \<Rightarrow> int list \<Rightarrow> u64 \<Rightarrow> partition_vals \<Rightarrow> nvm_error + partition_vals" where
  "Translate_loop m [] refAddress vals = Inr vals"
| "Translate_loop m (i # is) refAddress vals =
     (let part = FindOrder m i in
      if part = MEM_UNKNOWN then Inl OutOfBounds
      else Translate_loop m is (Divide m refAddress part)
             (vals(part := Modulo m refAddress part)))"

definition calc_lowColBits :: "AddressTranslator \<Rightarrow> int \<times> int" where
  "calc_lowColBits t =
     (let busOffsetBits = mlog2 (busWidth t div 8);
          burstBits = mlog2 ((busWidth t * burstLength t) div 8)
      in (busOffsetBits, burstBits - busOffsetBits))"

text \<open>
  \<^verbatim>\<open>Translate( address, row, col, bank, rank, channel, subarray )\<close>: without a method it
  returns with the out-parameters as they were.
\<close>

definition Translate ::
  "AddressTranslator \<Rightarrow> u64 \<Rightarrow> partition_vals
     \<Rightarrow> nvm_error + AddressTranslator \<times> partition_vals" where
  "Translate t address vals =
     (case at_method t of
        None \<Rightarrow> Inr (t, vals)
      | Some m \<Rightarrow>
          let (busOffsetBits, low) = calc_lowColBits t;
              refAddress = drop_bit (nat busOffsetBits) address;
              refAddress = drop_bit (nat low) refAddress
          in bind_res (Translate_loop m [0, 1, 2, 3, 4, 5] refAddress vals)
               (\<lambda>vals'. Inr (t\<lparr> lowColBits := low \<rparr>, vals')))"

definition select_field :: "TranslationField \<Rightarrow> partition_vals \<Rightarrow> u64" where
  "select_field f vals =
     (case f of
        ROW_FIELD \<Rightarrow> vals MEM_ROW
      | COL_FIELD \<Rightarrow> vals MEM_COL
      | BANK_FIELD \<Rightarrow> vals MEM_BANK
      | RANK_FIELD \<Rightarrow> vals MEM_RANK
      | CHANNEL_FIELD \<Rightarrow> vals MEM_CHANNEL
      | SUBARRAY_FIELD \<Rightarrow> vals MEM_SUBARRAY
      | NO_FIELD \<Rightarrow> 0)"

text \<open>\<^verbatim>\<open>Translate( uint64_t address )\<close>; \<open>garbage\<close> are its uninitialised locals.\<close>

definition Translate_default ::
  "AddressTranslator \<Rightarrow> u64 \<Rightarrow> partition_vals \<Rightarrow> nvm_error + AddressTranslator \<times> u64" where
  "Translate_default t address garbage =
     bind_res (Translate t address garbage)
       (\<lambda>(t', vals). Inr (t', select_field (defaultField t) vals))"

definition address_vals :: "NVMAddress \<Rightarrow> partition_vals" where
  "address_vals a part =
     (case part of
        MEM_ROW \<Rightarrow> na_row a | MEM_COL \<Rightarrow> na_col a | MEM_BANK \<Rightarrow> na_bank a
      | MEM_RANK \<Rightarrow> na_rank a | MEM_CHANNEL \<Rightarrow> na_channel a
      | MEM_SUBARRAY \<Rightarrow> na_subarray a | MEM_UNKNOWN \<Rightarrow> 0)"

text \<open>\<^verbatim>\<open>Translate( NVMainRequest *request )\<close>, on the request's address.\<close>

definition Translate_request ::
  "AddressTranslator \<Rightarrow> NVMAddress \<Rightarrow> partition_vals \<Rightarrow> nvm_error + AddressTranslator \<times> u64" where
  "Translate_request t a garbage =
     (if translated a then Inr (t, select_field (defaultField t) (address_vals a))
      else Translate_default t (physicalAddress a) garbage)"

fun ReverseTranslate_loop ::
  "TranslationMethod \<Rightarrow> int list \<Rightarrow> u64 \<Rightarrow> u64 \<Rightarrow> partition_vals \<Rightarrow> u64" where
  "ReverseTranslate_loop m [] unitAddr phyAddr vals = phyAddr"
| "ReverseTranslate_loop m (i # is) unitAddr phyAddr vals =
     (let (rowBits, colBits, bankBits, rankBits, channelBits, subarrayBits) = GetBitWidths m;
          (unitAddr', phyAddr') =
            (case FindOrder m i of
               MEM_ROW \<Rightarrow> (push_bit rowBits unitAddr, phyAddr + vals MEM_ROW * unitAddr)
             | MEM_COL \<Rightarrow> (push_bit colBits unitAddr, phyAddr + vals MEM_COL * unitAddr)
             | MEM_BANK \<Rightarrow> (push_bit bankBits unitAddr, phyAddr + vals MEM_BANK * unitAddr)
             | MEM_RANK \<Rightarrow> (push_bit rankBits unitAddr, phyAddr + vals MEM_RANK * unitAddr)
             | MEM_CHANNEL \<Rightarrow>
                 (push_bit channelBits unitAddr, phyAddr + vals MEM_CHANNEL * unitAddr)
             | MEM_SUBARRAY \<Rightarrow>
                 (push_bit subarrayBits unitAddr, phyAddr + vals MEM_SUBARRAY * unitAddr)
             | MEM_UNKNOWN \<Rightarrow> (unitAddr, phyAddr))
      in ReverseTranslate_loop m is unitAddr' phyAddr' vals)"

definition ReverseTranslate ::
  "AddressTranslator \<Rightarrow> partition_vals \<Rightarrow> nvm_error + AddressTranslator \<times> u64" where
  "ReverseTranslate t vals =
     (case at_method t of
        None \<Rightarrow> Inl ExitCalled
      | Some m \<Rightarrow>
          let (busOffsetBits, low) = calc_lowColBits t;
              unitAddr = push_bit (nat low) (push_bit (nat busOffsetBits) 1)
          in Inr (t\<lparr> lowColBits := low \<rparr>,
                  ReverseTranslate_loop m [0, 1, 2, 3, 4, 5] unitAddr 0 vals))"

section \<open>Specification: mixed-radix numbers\<close>

text \<open>
  What the two translation loops compute, over natural numbers: \<open>mix\<close> is the number
  whose digits, least significant first, are the values of the listed partitions;
  \<open>digit\<close> takes it apart again.
\<close>

abbreviation parts :: "MemoryPartition list" where
  "parts \<equiv> [MEM_ROW, MEM_COL, MEM_BANK, MEM_RANK, MEM_CHANNEL, MEM_SUBARRAY]"

fun mix :: "('p \<Rightarrow> nat) \<Rightarrow> 'p list \<Rightarrow> ('p \<Rightarrow> nat) \<Rightarrow> nat" where
  "mix w [] v = 0"
| "mix w (p # ps) v = v p + 2 ^ w p * mix w ps v"

fun digit :: "('p \<Rightarrow> nat) \<Rightarrow> 'p list \<Rightarrow> nat \<Rightarrow> 'p \<Rightarrow> nat" where
  "digit w [] n q = 0"
| "digit w (p # ps) n q = (if q = p then n mod 2 ^ w p else digit w ps (n div 2 ^ w p) q)"

definition total_width :: "TranslationMethod \<Rightarrow> nat" where
  "total_width m = sum_list (map (bitWidths m) parts)"

text \<open>The orders of the six partitions are the numbers 0 to 5, each once.\<close>

definition order_ok :: "TranslationMethod \<Rightarrow> bool" where
  "order_ok m \<longleftrightarrow> distinct (map (tm_order m) parts) \<and> set (map (tm_order m) parts) = {0..5}"

definition offset_bits :: "AddressTranslator \<Rightarrow> nat" where
  "offset_bits t = (let (busOffsetBits, low) = calc_lowColBits t in nat busOffsetBits + nat low)"

text \<open>
  A translator that can be used: it has a method with unique orders, every shift amount
  is below the word width, and the address it composes has at most 64 bits.
\<close>

definition translator_ok :: "AddressTranslator \<Rightarrow> bool" where
  "translator_ok t \<longleftrightarrow>
     (case at_method t of None \<Rightarrow> False
      | Some m \<Rightarrow> order_ok m \<and> list_all (\<lambda>p. bitWidths m p < 64) parts
          \<and> offset_bits t < 64 \<and> offset_bits t + total_width m \<le> 64)"

text \<open>The values fit the widths of their partitions.\<close>

definition vals_ok :: "AddressTranslator \<Rightarrow> partition_vals \<Rightarrow> bool" where
  "vals_ok t v \<longleftrightarrow>
     (case at_method t of None \<Rightarrow> False
      | Some m \<Rightarrow> list_all (\<lambda>p. unat (v p) < 2 ^ bitWidths m p) parts)"

text \<open>
  The state of the scheme parser: the partitions that have got an order hold, each once,
  the numbers above \<open>c\<close>.
\<close>

definition scheme_set :: "(MemoryPartition \<Rightarrow> int) \<Rightarrow> MemoryPartition set" where
  "scheme_set v = {p. p \<noteq> MEM_UNKNOWN \<and> v p \<noteq> 0}"

definition scheme_inv :: "(MemoryPartition \<Rightarrow> int) \<Rightarrow> int \<Rightarrow> bool" where
  "scheme_inv v c \<longleftrightarrow> inj_on v (scheme_set v) \<and> v ` scheme_set v = {c + 1..6} \<and> 0 \<le> c \<and> c \<le> 6"

section \<open>The interface of a decoder\<close>

text \<open>
  What the clients of a decoder rely on: a composed address decodes to the coordinates it
  was composed from.
\<close>

locale address_codec =
  fixes ok :: "'d \<Rightarrow> bool"
    and fits :: "'d \<Rightarrow> partition_vals \<Rightarrow> bool"
    and encode :: "'d \<Rightarrow> partition_vals \<Rightarrow> u64"
    and decode :: "'d \<Rightarrow> u64 \<Rightarrow> partition_vals"
  assumes decode_encode: "ok d \<Longrightarrow> fits d v \<Longrightarrow> p \<in> set parts \<Longrightarrow> decode d (encode d v) p = v p"
begin

lemma encode_injective:
  "ok d \<Longrightarrow> fits d v \<Longrightarrow> fits d v' \<Longrightarrow> encode d v = encode d v' \<Longrightarrow> p \<in> set parts \<Longrightarrow> v p = v' p"
  using decode_encode by metis

end

section \<open>Facts about mlog2\<close>

lemma mlog2_loop_spec:
  "0 < n \<Longrightarrow> \<exists>k. mlog2_loop n r = r + 1 + int k \<and> 2 ^ k \<le> n \<and> n < 2 ^ Suc k"
proof (induction n r rule: mlog2_loop.induct)
  case (1 n r)
  show ?case
  proof (cases "n div 2 = 0")
    case True
    then have "mlog2_loop n r = r + 1 + int 0"
      using 1 by (simp add: mlog2_loop.simps [of n] mlog2_loop.simps [of 0])
    moreover have "n = 1" using True 1 by linarith
    ultimately show ?thesis by (intro exI [of _ 0]) simp
  next
    case False
    then obtain k where k: "mlog2_loop (n div 2) (r + 1) = r + 1 + 1 + int k"
      "2 ^ k \<le> n div 2" "n div 2 < 2 ^ Suc k"
      using 1 by blast
    have "mlog2_loop n r = r + 1 + int (Suc k)"
      using 1 k(1) by (simp add: mlog2_loop.simps [of n])
    moreover have "2 ^ Suc k \<le> n" "n < 2 ^ Suc (Suc k)" using k(2,3) by auto
    ultimately show ?thesis by blast
  qed
qed

lemma mlog2_spec: "1 \<le> n \<Longrightarrow> 2 ^ nat (mlog2 n) \<le> n \<and> n < 2 ^ (nat (mlog2 n) + 1)"
proof (cases "n < 2")
  case True
  then show "1 \<le> n \<Longrightarrow> ?thesis" by (simp add: mlog2_def)
next
  case False
  then obtain k where k: "mlog2 n = int k" "2 ^ k \<le> nat n" "nat n < 2 ^ Suc k"
    using mlog2_loop_spec [of "nat n" "- 1"] by (auto simp: mlog2_def)
  have "int (2 ^ k) \<le> n" "n < int (2 ^ Suc k)"
    using k(2,3) False by linarith+
  then show ?thesis using k(1) by simp
qed

lemma mlog2_nonneg [simp]: "0 \<le> mlog2 n"
  using mlog2_loop_spec [of "nat n" "- 1"] by (auto simp: mlog2_def)

lemma mlog2_power: "mlog2 (2 ^ k) = int k"
proof -
  have spec: "(2::int) ^ nat (mlog2 (2 ^ k)) \<le> 2 ^ k" "(2::int) ^ k < 2 ^ (nat (mlog2 (2 ^ k)) + 1)"
    using mlog2_spec [of "2 ^ k"] by simp_all
  have "nat (mlog2 (2 ^ k)) \<le> k"
    by (rule power_le_imp_le_exp [OF _ spec(1)]) simp
  moreover have "k < nat (mlog2 (2 ^ k)) + 1"
    by (rule power_less_imp_less_exp [OF _ spec(2)]) simp
  ultimately show ?thesis using mlog2_nonneg [of "2 ^ k"] by linarith
qed

lemma mlog2_mono: "1 \<le> a \<Longrightarrow> a \<le> b \<Longrightarrow> mlog2 a \<le> mlog2 b"
proof -
  assume "1 \<le> a" "a \<le> b"
  then have "(2::int) ^ nat (mlog2 a) < 2 ^ (nat (mlog2 b) + 1)"
    using mlog2_spec [of a] mlog2_spec [of b] by linarith
  then have "nat (mlog2 a) < nat (mlog2 b) + 1"
    by (rule power_less_imp_less_exp [rotated]) simp
  then show ?thesis using mlog2_nonneg [of a] mlog2_nonneg [of b] by linarith
qed

section \<open>Mixed-radix numbers\<close>

lemma mix_bound:
  "list_all (\<lambda>p. v p < 2 ^ w p) ps \<Longrightarrow> mix w ps v < 2 ^ sum_list (map w ps)"
proof (induction ps)
  case (Cons p ps)
  then have IH: "mix w ps v + 1 \<le> 2 ^ sum_list (map w ps)" and v: "v p < 2 ^ w p" by auto
  have "mix w (p # ps) v < 2 ^ w p * (mix w ps v + 1)" using v by simp
  also have "\<dots> \<le> 2 ^ w p * 2 ^ sum_list (map w ps)" using IH by (rule mult_le_mono2)
  finally show ?case by (simp add: power_add)
qed simp

lemma digit_mix:
  "distinct ps \<Longrightarrow> list_all (\<lambda>p. v p < 2 ^ w p) ps \<Longrightarrow> q \<in> set ps
     \<Longrightarrow> digit w ps (mix w ps v) q = v q"
proof (induction ps)
  case (Cons p ps)
  then show ?case by (cases "q = p") auto
qed simp

lemma digit_cong: "q \<in> set ps \<Longrightarrow> digit w ps n q < 2 ^ w q"
  by (induction ps arbitrary: n) auto

lemma mix_cong: "(\<And>p. p \<in> set ps \<Longrightarrow> v p = v' p) \<Longrightarrow> mix w ps v = mix w ps v'"
  by (induction ps) auto

lemma mix_digit:
  "distinct ps \<Longrightarrow> mix w ps (digit w ps n) = n mod 2 ^ sum_list (map w ps)"
proof (induction ps arbitrary: n)
  case (Cons p ps)
  have "mix w (p # ps) (digit w (p # ps) n) = n mod 2 ^ w p + 2 ^ w p * mix w ps (digit w (p # ps) n)"
    by simp
  also have "mix w ps (digit w (p # ps) n) = mix w ps (digit w ps (n div 2 ^ w p))"
    using Cons.prems by (intro mix_cong) auto
  also have "\<dots> = n div 2 ^ w p mod 2 ^ sum_list (map w ps)" using Cons by simp
  finally show ?case by (simp add: power_add mod_mult2_eq)
qed simp

section \<open>The translation loops\<close>

lemmas method_simps = GetBitWidths_def GetOrder_def Divide_def Modulo_def

lemma Divide_eq: "p \<in> set parts \<Longrightarrow> Divide m x p = drop_bit (bitWidths m p) x"
  by (auto simp: method_simps)

lemma Modulo_eq: "p \<in> set parts \<Longrightarrow> Modulo m x p = x mod push_bit (bitWidths m p) 1"
  by (auto simp: method_simps)

lemma FindOrder_order:
  assumes "order_ok m" and "p \<in> set parts"
  shows "FindOrder m (tm_order m p) = p"
  using assms by (auto simp: FindOrder_def GetOrder_def order_ok_def)

lemma FindOrder_perm:
  assumes "order_ok m"
  shows "distinct (map (FindOrder m) [0, 1, 2, 3, 4, 5])"
    and "set (map (FindOrder m) [0, 1, 2, 3, 4, 5]) = set parts"
proof -
  have range: "set (map (tm_order m) parts) = {0..5}"
    using assms by (simp add: order_ok_def)
  have ints: "set [0, 1, 2, 3, 4, 5] = {0..5::int}" by auto
  have "set (map (FindOrder m) [0, 1, 2, 3, 4, 5]) = FindOrder m ` set (map (tm_order m) parts)"
    by (simp only: set_map ints range [unfolded set_map])
  also have "\<dots> = (\<lambda>p. p) ` set parts"
    unfolding set_map image_image by (rule image_cong) (simp_all only: FindOrder_order [OF assms])
  finally show eq: "set (map (FindOrder m) [0, 1, 2, 3, 4, 5]) = set parts" by simp
  then show "distinct (map (FindOrder m) [0, 1, 2, 3, 4, 5])"
    by (intro card_distinct) (simp only: eq, simp)
qed

lemma sum_list_perm:
  assumes "distinct ps" "set ps = set qs" "distinct qs"
  shows "sum_list (map (f :: _ \<Rightarrow> nat) ps) = sum_list (map f qs)"
  using assms by (simp add: sum_list_distinct_conv_sum_set)

lemma total_width_perm:
  "order_ok m \<Longrightarrow>
     sum_list (map (bitWidths m) (map (FindOrder m) [0, 1, 2, 3, 4, 5])) = total_width m"
  unfolding total_width_def by (rule sum_list_perm) (simp_all only: FindOrder_perm, simp)

lemma set_parts: "p \<in> set parts \<longleftrightarrow> p \<noteq> MEM_UNKNOWN"
  by (cases p) auto

lemma Translate_loop_spec:
  assumes "\<forall>i \<in> set is. FindOrder m i \<noteq> MEM_UNKNOWN \<and> bitWidths m (FindOrder m i) < 64"
    and "distinct (map (FindOrder m) is)"
  shows "\<exists>vals'. Translate_loop m is x vals = Inr vals' \<and>
     (\<forall>p. if p \<in> set (map (FindOrder m) is)
          then unat (vals' p) = digit (bitWidths m) (map (FindOrder m) is) (unat x) p
          else vals' p = vals p)"
  using assms
proof (induction "is" arbitrary: x vals)
  case (Cons i "is")
  let ?p = "FindOrder m i"
  have nu: "?p \<noteq> MEM_UNKNOWN" and w: "bitWidths m ?p < 64"
    using Cons.prems(1) by simp_all
  then have p: "?p \<in> set parts" by (simp only: set_parts not_False_eq_True)
  obtain vals' where v: "Translate_loop m is (Divide m x ?p) (vals(?p := Modulo m x ?p)) = Inr vals'"
    "\<And>q. if q \<in> set (map (FindOrder m) is)
          then unat (vals' q) = digit (bitWidths m) (map (FindOrder m) is) (unat (Divide m x ?p)) q
          else vals' q = (vals(?p := Modulo m x ?p)) q"
    using Cons.IH [of "Divide m x ?p" "vals(?p := Modulo m x ?p)"] Cons.prems
    unfolding list.set list.map distinct.simps by blast
  have "unat (Divide m x ?p) = unat x div 2 ^ bitWidths m ?p"
    by (simp only: Divide_eq [OF p] unat_drop_bit_u64)
  moreover have "unat (Modulo m x ?p) = unat x mod 2 ^ bitWidths m ?p"
    by (simp only: Modulo_eq [OF p] unat_mod_push_bit_one [OF w])
  moreover have "?p \<notin> set (map (FindOrder m) is)" using Cons.prems by simp
  ultimately have "if q \<in> set (map (FindOrder m) (i # is))
          then unat (vals' q) = digit (bitWidths m) (map (FindOrder m) (i # is)) (unat x) q
          else vals' q = vals q" for q
    using v(2) [of q] by (cases "q = ?p") simp_all
  then show ?case using v(1) nu by (auto simp: Let_def)
qed simp

lemma ReverseTranslate_loop_spec:
  assumes "set (map (FindOrder m) is) \<subseteq> set parts"
  shows "ReverseTranslate_loop m is (2 ^ k) phy vals =
     phy + of_nat (2 ^ k * mix (bitWidths m) (map (FindOrder m) is) (\<lambda>p. unat (vals p)))"
  using assms
proof (induction "is" arbitrary: k phy)
  case (Cons i "is")
  let ?p = "FindOrder m i"
  have p: "?p \<in> set parts" using Cons.prems by auto
  have push: "push_bit n (2 ^ k) = (2 ^ (k + n) :: u64)" for n
    by (simp add: push_bit_eq_mult power_add)
  have "ReverseTranslate_loop m (i # is) (2 ^ k) phy vals =
      ReverseTranslate_loop m is (2 ^ (k + bitWidths m ?p)) (phy + vals ?p * 2 ^ k) vals"
    using p by (auto simp: GetBitWidths_def push)
  also have "\<dots> = phy + vals ?p * 2 ^ k + of_nat (2 ^ (k + bitWidths m ?p)
      * mix (bitWidths m) (map (FindOrder m) is) (\<lambda>p. unat (vals p)))"
    using Cons by simp
  finally show ?case by (simp add: power_add algebra_simps)
qed simp

section \<open>Translation and its inverse\<close>

lemma translator_okE:
  assumes "translator_ok t"
  obtains m where "at_method t = Some m" "order_ok m" "list_all (\<lambda>p. bitWidths m p < 64) parts"
    "offset_bits t < 64" "offset_bits t + total_width m \<le> 64"
  using assms by (auto simp: translator_ok_def split: option.splits)

lemma drop_offset_bits:
  "calc_lowColBits t = (b, l) \<Longrightarrow>
     unat (drop_bit (nat l) (drop_bit (nat b) (x :: u64))) = unat x div 2 ^ offset_bits t"
  by (simp add: offset_bits_def unat_drop_bit_u64 power_add div_mult2_eq del: drop_bit_drop_bit)

lemma Translate_spec:
  assumes ok: "translator_ok t" and m: "at_method t = Some m"
  obtains vals' where
    "Translate t x vals = Inr (t\<lparr> lowColBits := snd (calc_lowColBits t) \<rparr>, vals')"
    "\<And>p. p \<in> set parts \<Longrightarrow> unat (vals' p) =
       digit (bitWidths m) (map (FindOrder m) [0, 1, 2, 3, 4, 5]) (unat x div 2 ^ offset_bits t) p"
proof -
  from ok m have om: "order_ok m" "list_all (\<lambda>p. bitWidths m p < 64) parts"
    by (auto elim: translator_okE)
  obtain b l where bl: "calc_lowColBits t = (b, l)" by (cases "calc_lowColBits t")
  let ?x = "drop_bit (nat l) (drop_bit (nat b) x)"
  note perm = FindOrder_perm [OF om(1)]
  have good: "\<forall>i \<in> set [0, 1, 2, 3, 4, 5]. FindOrder m i \<noteq> MEM_UNKNOWN
      \<and> bitWidths m (FindOrder m i) < 64"
    using perm(2) om(2) unfolding list_all_iff set_map set_parts [symmetric] by blast
  obtain vals' where v: "Translate_loop m [0, 1, 2, 3, 4, 5] ?x vals = Inr vals'"
    "\<And>p. if p \<in> set (map (FindOrder m) [0, 1, 2, 3, 4, 5])
          then unat (vals' p) = digit (bitWidths m) (map (FindOrder m) [0, 1, 2, 3, 4, 5]) (unat ?x) p
          else vals' p = vals p"
    using Translate_loop_spec [OF good perm(1), of ?x vals] by blast
  have "unat (vals' p) =
       digit (bitWidths m) (map (FindOrder m) [0, 1, 2, 3, 4, 5]) (unat x div 2 ^ offset_bits t) p"
    if "p \<in> set parts" for p
    using v(2) [of p] that by (simp only: perm(2) if_True drop_offset_bits [OF bl])
  moreover have "Translate t x vals = Inr (t\<lparr> lowColBits := l \<rparr>, vals')"
    using v(1) by (simp add: Translate_def m bl)
  ultimately show ?thesis using that bl by simp
qed

lemma ReverseTranslate_spec:
  assumes ok: "translator_ok t" and m: "at_method t = Some m"
  shows "ReverseTranslate t vals = Inr (t\<lparr> lowColBits := snd (calc_lowColBits t) \<rparr>,
     of_nat (2 ^ offset_bits t *
       mix (bitWidths m) (map (FindOrder m) [0, 1, 2, 3, 4, 5]) (\<lambda>p. unat (vals p))))"
proof -
  from ok m have om: "order_ok m" by (auto elim: translator_okE)
  obtain b l where bl: "calc_lowColBits t = (b, l)" by (cases "calc_lowColBits t")
  have sub: "set (map (FindOrder m) [0, 1, 2, 3, 4, 5]) \<subseteq> set parts"
    by (simp only: FindOrder_perm [OF om])
  have "push_bit (nat l) (push_bit (nat b) 1) = (2 ^ offset_bits t :: u64)"
    by (simp add: offset_bits_def bl push_bit_eq_mult power_add)
  then show ?thesis
    using ReverseTranslate_loop_spec [OF sub, of "offset_bits t" 0 vals]
    by (simp add: ReverseTranslate_def m bl del: ReverseTranslate_loop.simps list.map)
qed

lemma reverse_bound:
  assumes ok: "translator_ok t" and m: "at_method t = Some m" and v: "vals_ok t vals"
  shows "2 ^ offset_bits t * mix (bitWidths m) (map (FindOrder m) [0, 1, 2, 3, 4, 5])
           (\<lambda>p. unat (vals p)) < 2 ^ 64"
proof -
  from ok m have om: "order_ok m" "offset_bits t + total_width m \<le> 64"
    by (auto elim: translator_okE)
  have "\<forall>p \<in> set (map (FindOrder m) [0, 1, 2, 3, 4, 5]). unat (vals p) < 2 ^ bitWidths m p"
    using v m unfolding FindOrder_perm(2) [OF om(1)] by (simp add: vals_ok_def)
  then have "mix (bitWidths m) (map (FindOrder m) [0, 1, 2, 3, 4, 5]) (\<lambda>p. unat (vals p))
      < 2 ^ total_width m"
    unfolding total_width_perm [OF om(1), symmetric] by (intro mix_bound) (simp only: list_all_iff)
  then have "2 ^ offset_bits t * mix (bitWidths m) (map (FindOrder m) [0, 1, 2, 3, 4, 5])
      (\<lambda>p. unat (vals p)) < 2 ^ offset_bits t * 2 ^ total_width m"
    by simp
  also have "\<dots> = 2 ^ (offset_bits t + total_width m)" by (simp add: power_add)
  also have "\<dots> \<le> 2 ^ 64" using om(2) by (rule power_increasing) simp
  finally show ?thesis .
qed

lemma Translate_ReverseTranslate_aux:
  assumes ok: "translator_ok t" and v: "vals_ok t vals"
  shows "\<exists>t' addr vals'. ReverseTranslate t vals = Inr (t', addr) \<and> Translate t addr garbage = Inr (t', vals')
    \<and> list_all (\<lambda>p. vals' p = vals p) parts"
proof -
  from ok obtain m where m: "at_method t = Some m" and om: "order_ok m" by (auto elim: translator_okE)
  let ?ps = "map (FindOrder m) [0, 1, 2, 3, 4, 5]"
  let ?n = "mix (bitWidths m) ?ps (\<lambda>p. unat (vals p))"
  let ?addr = "of_nat (2 ^ offset_bits t * ?n) :: u64"
  have "unat ?addr = 2 ^ offset_bits t * ?n"
    using reverse_bound [OF ok m v] by (simp only: unat_of_nat) simp
  then have addr: "unat ?addr div 2 ^ offset_bits t = ?n" by simp
  obtain vals' where tr: "Translate t ?addr garbage = Inr (t\<lparr> lowColBits := snd (calc_lowColBits t) \<rparr>, vals')"
    "\<And>p. p \<in> set parts \<Longrightarrow> unat (vals' p) = digit (bitWidths m) ?ps ?n p"
    using Translate_spec [OF ok m, of ?addr garbage] unfolding addr by blast
  have vb: "list_all (\<lambda>p. unat (vals p) < 2 ^ bitWidths m p) ?ps"
    using v m unfolding list_all_iff FindOrder_perm(2) [OF om] by (simp add: vals_ok_def)
  have "vals' p = vals p" if "p \<in> set parts" for p
    using tr(2) [OF that] digit_mix [OF FindOrder_perm(1) [OF om] vb, of p] that
    unfolding FindOrder_perm(2) [OF om] by (simp add: u64_eq_iff_unat)
  then show ?thesis
    using tr(1) ReverseTranslate_spec [OF ok m, of vals] by (auto simp only: list_all_iff)
qed

lemma ReverseTranslate_Translate_aux:
  assumes ok: "translator_ok t" and m: "at_method t = Some m"
    and small: "unat addr < 2 ^ (offset_bits t + total_width m)"
  shows "\<exists>t' vals'. Translate t addr garbage = Inr (t', vals') \<and> vals_ok t vals'
    \<and> ReverseTranslate t vals' = Inr (t', addr - addr mod 2 ^ offset_bits t)"
proof -
  from ok m have om: "order_ok m" "offset_bits t < 64" by (auto elim: translator_okE)
  let ?ps = "map (FindOrder m) [0, 1, 2, 3, 4, 5]"
  let ?k = "offset_bits t"
  obtain vals' where tr: "Translate t addr garbage = Inr (t\<lparr> lowColBits := snd (calc_lowColBits t) \<rparr>, vals')"
    "\<And>p. p \<in> set parts \<Longrightarrow> unat (vals' p) = digit (bitWidths m) ?ps (unat addr div 2 ^ ?k) p"
    using Translate_spec [OF ok m, of addr garbage] by blast
  note perm = FindOrder_perm [OF om(1)]
  have "mix (bitWidths m) ?ps (\<lambda>p. unat (vals' p)) =
      mix (bitWidths m) ?ps (digit (bitWidths m) ?ps (unat addr div 2 ^ ?k))"
    by (rule mix_cong) (simp only: perm(2) tr(2))
  also have "\<dots> = unat addr div 2 ^ ?k"
  proof -
    have "unat addr div 2 ^ ?k < 2 ^ total_width m"
      using small by (simp add: power_add less_mult_imp_div_less mult.commute)
    then show ?thesis
      unfolding mix_digit [OF perm(1)] total_width_perm [OF om(1)] by simp
  qed
  finally have mixeq: "mix (bitWidths m) ?ps (\<lambda>p. unat (vals' p)) = unat addr div 2 ^ ?k" .
  have "addr = of_nat (2 ^ ?k * (unat addr div 2 ^ ?k) + unat addr mod 2 ^ ?k)"
    unfolding mult_div_mod_eq by simp
  moreover have "of_nat (unat addr mod 2 ^ ?k) = addr mod 2 ^ ?k"
    using arg_cong [OF unat_mod [of addr "2 ^ ?k"], of "of_nat :: nat \<Rightarrow> u64"]
    by (simp add: unat_two_power [OF om(2)])
  ultimately have "of_nat (2 ^ ?k * (unat addr div 2 ^ ?k)) = addr - addr mod 2 ^ ?k"
    by (metis eq_diff_eq of_nat_add)
  moreover have "vals_ok t vals'"
    using tr(2) digit_cong [of _ ?ps "bitWidths m"] unfolding perm(2)
    by (simp only: vals_ok_def m list_all_iff option.case) simp
  ultimately show ?thesis
    using tr(1) ReverseTranslate_spec [OF ok m, of vals'] mixeq by (simp only: ) blast
qed

definition encode_address :: "AddressTranslator \<Rightarrow> partition_vals \<Rightarrow> u64" where
  "encode_address t v = (case ReverseTranslate t v of Inl _ \<Rightarrow> 0 | Inr (_, addr) \<Rightarrow> addr)"

definition decode_address :: "AddressTranslator \<Rightarrow> u64 \<Rightarrow> partition_vals" where
  "decode_address t addr = (case Translate t addr (\<lambda>_. 0) of Inl _ \<Rightarrow> (\<lambda>_. 0) | Inr (_, v) \<Rightarrow> v)"

interpretation nvm_codec: address_codec translator_ok vals_ok encode_address decode_address
proof unfold_locales
  fix d v p
  assume "translator_ok d" "vals_ok d v" "p \<in> set parts"
  then obtain t' addr v' where "ReverseTranslate d v = Inr (t', addr)"
    "Translate d addr (\<lambda>_. 0) = Inr (t', v')" "v' p = v p"
    using Translate_ReverseTranslate_aux [of d v "\<lambda>_. 0"] unfolding list_all_iff by blast
  then show "decode_address d (encode_address d v) p = v p"
    by (simp add: encode_address_def decode_address_def)
qed

lemma ReverseTranslate_encode:
  "translator_ok t \<Longrightarrow>
     ReverseTranslate t v = Inr (t\<lparr> lowColBits := snd (calc_lowColBits t) \<rparr>, encode_address t v)"
  by (erule translator_okE) (simp add: ReverseTranslate_spec encode_address_def translator_ok_def)

section \<open>The mapping scheme\<close>

lemma finite_known: "finite {p. p \<noteq> MEM_UNKNOWN}" and card_known: "card {p. p \<noteq> MEM_UNKNOWN} = 6"
proof -
  have "{p. p \<noteq> MEM_UNKNOWN} = set parts" using set_parts by blast
  then show "finite {p. p \<noteq> MEM_UNKNOWN}" "card {p. p \<noteq> MEM_UNKNOWN} = 6" by simp_all
qed

lemma finite_scheme_set: "finite (scheme_set v)"
  unfolding scheme_set_def by (rule finite_subset [OF _ finite_known]) auto

lemma scheme_inv_card: "scheme_inv v c \<Longrightarrow> int (card (scheme_set v)) = 6 - c"
  by (auto simp: scheme_inv_def dest: card_image)

lemma scheme_inv_unset_pos:
  assumes "scheme_inv v c" "p \<noteq> MEM_UNKNOWN" "v p = 0"
  shows "1 \<le> c"
proof -
  have "scheme_set v \<subset> {p. p \<noteq> MEM_UNKNOWN}" using assms by (auto simp: scheme_set_def)
  then have "card (scheme_set v) < 6"
    using psubset_card_mono [OF finite_known] card_known by metis
  then show ?thesis using scheme_inv_card [OF assms(1)] by linarith
qed

lemma scheme_inv_assign:
  assumes inv: "scheme_inv v c" and p: "p \<noteq> MEM_UNKNOWN" "v p = 0"
  shows "scheme_inv (v(p := c)) (c - 1)"
proof -
  have c: "1 \<le> c" "c \<le> 6"
    using scheme_inv_unset_pos [OF inv p] inv by (auto simp: scheme_inv_def)
  have notin: "p \<notin> scheme_set v" using p by (simp add: scheme_set_def)
  have S: "scheme_set (v(p := c)) = insert p (scheme_set v)"
    using p c by (auto simp: scheme_set_def)
  have img: "(v(p := c)) ` scheme_set v = {c + 1..6}"
    using inv notin unfolding scheme_inv_def by (metis fun_upd_image)
  have "inj_on (v(p := c)) (insert p (scheme_set v))"
    using inv notin img by (auto simp: scheme_inv_def inj_on_fun_updI)
  moreover have "(v(p := c)) ` insert p (scheme_set v) = {c..6}"
    unfolding image_insert img using c by auto
  ultimately show ?thesis using S c by (simp add: scheme_inv_def)
qed

lemma scheme_inv_init: "scheme_inv (\<lambda>_. 0) 6"
  by (simp add: scheme_inv_def scheme_set_def)

lemma scheme_token_known: "scheme_token tok = Some p \<Longrightarrow> p \<noteq> MEM_UNKNOWN"
  by (auto simp: scheme_token_def split: if_splits)

lemma scheme_loop_inv:
  assumes "map scheme_token toks = map Some ps" "distinct ps" "\<forall>p \<in> set ps. v p = 0"
    "scheme_inv v c" "scheme_loop toks v c = (v', c')"
  shows "scheme_inv v' c' \<and> (\<forall>i < length ps. v' (ps ! i) = c - int i)
    \<and> (\<forall>p. p \<notin> set ps \<longrightarrow> v' p = v p)"
  using assms
proof (induction toks arbitrary: ps v c)
  case (Cons tok toks)
  then obtain p ps' where ps: "ps = p # ps'" "scheme_token tok = Some p"
    "map scheme_token toks = map Some ps'" by auto
  have inv: "scheme_inv (v(p := c)) (c - 1)"
    using Cons.prems ps scheme_token_known [of tok p] by (intro scheme_inv_assign) auto
  have IH: "scheme_inv v' c' \<and> (\<forall>i < length ps'. v' (ps' ! i) = c - 1 - int i)
    \<and> (\<forall>q. q \<notin> set ps' \<longrightarrow> v' q = (v(p := c)) q)"
  proof (rule Cons.IH [OF ps(3) _ _ inv])
    show "distinct ps'" "scheme_loop toks (v(p := c)) (c - 1) = (v', c')"
      using Cons.prems ps by simp_all
    show "\<forall>q \<in> set ps'. (v(p := c)) q = 0" using Cons.prems ps by auto
  qed
  then show ?case
    using Cons.prems(2) ps(1) by (auto simp: nth_Cons split: nat.splits)
qed simp

lemma set_unset_inv:
  assumes "scheme_inv v c" "p \<noteq> MEM_UNKNOWN" "set_unset p (v, c) = (v', c')"
  shows "scheme_inv v' c' \<and> v' p \<noteq> 0 \<and> (\<forall>q. v q \<noteq> 0 \<longrightarrow> v' q = v q)"
  using assms scheme_inv_assign [of v c p] scheme_inv_unset_pos [of v c p]
  by (auto simp: set_unset_def split: if_splits)

lemma scheme_inv_full:
  assumes "scheme_inv v c" "\<forall>p. p \<noteq> MEM_UNKNOWN \<longrightarrow> v p \<noteq> 0"
  shows "distinct (map (\<lambda>p. v p - 1) parts)" "set (map (\<lambda>p. v p - 1) parts) = {0..5}"
proof -
  have S: "scheme_set v = set parts"
    using assms(2) set_parts unfolding scheme_set_def by blast
  then have c: "c = 0" using scheme_inv_card [OF assms(1)] by simp
  have img: "v ` set parts = {1..6}" and inj: "inj_on v (set parts)"
    using assms(1) S c unfolding scheme_inv_def by simp_all
  have inj': "inj_on (\<lambda>p. v p - 1) (set parts)" using inj by (simp only: inj_on_def diff_right_commute) simp
  show "distinct (map (\<lambda>p. v p - 1) parts)"
    unfolding distinct_map using inj' by simp
  have "set (map (\<lambda>p. v p - 1) parts) = (\<lambda>x. x - 1) ` v ` set parts"
    by (simp only: set_map image_image)
  also have "\<dots> = {0..5}" unfolding img by (simp only: image_minus_const_atLeastAtMost') simp
  finally show "set (map (\<lambda>p. v p - 1) parts) = {0..5}" .
qed

lemma SetOrder_order: 
  "tm_order (SetOrder m (v MEM_ROW) (v MEM_COL) (v MEM_BANK) (v MEM_RANK) (v MEM_CHANNEL) (v MEM_SUBARRAY)) p
    = (if p = MEM_UNKNOWN then tm_order m p else v p - 1)"
  by (cases p) (simp_all add: SetOrder_def)

lemma scheme_order_aux:
  assumes len: "length scheme < 16"
    and toks: "map scheme_token (strtok_colon [] scheme) = map Some ps" and dist: "distinct ps"
  shows "\<exists>m'. SetAddressMappingScheme m scheme = Inr m' \<and> order_ok m'
    \<and> bitWidths m' = bitWidths m \<and> (\<forall>i < length ps. tm_order m' (ps ! i) = 5 - int i)"
proof -
  obtain v0 c0 where l: "scheme_loop (strtok_colon [] scheme) (\<lambda>_. 0) 6 = (v0, c0)"
    by fastforce
  obtain v1 c1 where s1: "set_unset MEM_SUBARRAY (v0, c0) = (v1, c1)" by fastforce
  obtain v2 c2 where s2: "set_unset MEM_CHANNEL (v1, c1) = (v2, c2)" by fastforce
  obtain v3 c3 where s3: "set_unset MEM_RANK (v2, c2) = (v3, c3)" by fastforce
  obtain v4 c4 where s4: "set_unset MEM_BANK (v3, c3) = (v4, c4)" by fastforce
  obtain v5 c5 where s5: "set_unset MEM_ROW (v4, c4) = (v5, c5)" by fastforce
  obtain v6 c6 where s6: "set_unset MEM_COL (v5, c5) = (v6, c6)" by fastforce
  have L: "scheme_inv v0 c0" "\<forall>i < length ps. v0 (ps ! i) = 6 - int i"
    using scheme_loop_inv [OF toks dist _ scheme_inv_init l] by simp_all
  note I1 = set_unset_inv [OF L(1) _ s1, simplified]
  note I2 = set_unset_inv [OF I1 [THEN conjunct1] _ s2, simplified]
  note I3 = set_unset_inv [OF I2 [THEN conjunct1] _ s3, simplified]
  note I4 = set_unset_inv [OF I3 [THEN conjunct1] _ s4, simplified]
  note I5 = set_unset_inv [OF I4 [THEN conjunct1] _ s5, simplified]
  note I6 = set_unset_inv [OF I5 [THEN conjunct1] _ s6, simplified]
  have full: "v6 p \<noteq> 0" if "p \<noteq> MEM_UNKNOWN" for p
    using that I1 I2 I3 I4 I5 I6 by (cases p) auto
  have keep: "v6 p = v0 p" if "v0 p \<noteq> 0" for p
    using that I1 I2 I3 I4 I5 I6 by metis
  let ?m = "SetOrder m (v6 MEM_ROW) (v6 MEM_COL) (v6 MEM_BANK) (v6 MEM_RANK) (v6 MEM_CHANNEL) (v6 MEM_SUBARRAY)"
  have eq: "map (tm_order ?m) parts = map (\<lambda>p. v6 p - 1) parts"
    by (simp add: SetOrder_order)
  have ok: "order_ok ?m"
    unfolding order_ok_def eq using scheme_inv_full [OF I6 [THEN conjunct1]] full by blast
  have known: "p \<noteq> MEM_UNKNOWN" if "p \<in> set ps" for p
  proof -
    have "Some p \<in> set (map scheme_token (strtok_colon [] scheme))" using toks that by simp
    then show ?thesis using scheme_token_known by (metis ex_map_conv)
  qed
  have "length ps \<le> 6"
    using card_mono [OF finite_known, of "set ps"] known distinct_card [OF dist] card_known by auto
  then have "tm_order ?m (ps ! i) = 5 - int i" if "i < length ps" for i
    using that L(2) keep [of "ps ! i"] known [of "ps ! i"] by (simp add: SetOrder_order)
  moreover have "SetAddressMappingScheme m scheme = Inr ?m"
    using len l s1 s2 s3 s4 s5 s6 by (simp add: SetAddressMappingScheme_def)
  moreover have "bitWidths ?m = bitWidths m" by (simp add: SetOrder_def)
  ultimately show ?thesis using ok by blast
qed

lemma Translate_loop_total:
  "(\<exists>r. Translate_loop m is x vals = Inr r) \<longleftrightarrow> (\<forall>i \<in> set is. FindOrder m i \<noteq> MEM_UNKNOWN)"
  by (induction "is" arbitrary: x vals) (auto simp: Let_def)

lemma Translate_loop_err:
  "Translate_loop m is x vals = Inl e \<Longrightarrow> e = OutOfBounds"
  by (induction "is" arbitrary: x vals) (auto simp: Let_def split: if_splits)

lemma FindOrder_unknown: "FindOrder m i = MEM_UNKNOWN \<longleftrightarrow> i \<notin> tm_order m ` set parts"
  by (auto simp: FindOrder_def GetOrder_def)

section \<open>Properties\<close>

text \<open>
  C4: Composing a physical address from coordinates that fit their partitions and
  translating it again returns the same coordinates, and neither direction fails.
\<close>

theorem Translate_ReverseTranslate:
  assumes "translator_ok t" and "vals_ok t vals"
  shows "\<exists>t' addr vals'. ReverseTranslate t vals = Inr (t', addr)
    \<and> Translate t addr garbage = Inr (t', vals')
    \<and> list_all (\<lambda>p. vals' p = vals p) parts"
  using assms by (rule Translate_ReverseTranslate_aux)

text \<open>The default translator with the default method, 64-bit bus and burst length 8.\<close>

definition default_translator :: AddressTranslator where
  "default_translator = SetTranslationMethod AddressTranslator_init (TranslationMethod_init (\<lambda>_. 0))"

definition sample_vals :: partition_vals where
  "sample_vals = (\<lambda>_. 0)(MEM_ROW := 513, MEM_COL := 17, MEM_BANK := 5, MEM_RANK := 1, MEM_SUBARRAY := 33)"

lemma mlog2_8: "mlog2 8 = 3" and mlog2_64: "mlog2 64 = 6"
  using mlog2_power [of 3] mlog2_power [of 6] by simp_all

lemmas default_simps = default_translator_def SetTranslationMethod_def AddressTranslator_init_def
  TranslationMethod_init_def SetBitWidths_def SetOrder_def Let_def

lemma default_offset: "offset_bits default_translator = 6"
  by (simp add: offset_bits_def calc_lowColBits_def default_simps mlog2_8 mlog2_64)

lemma default_translator_ok: "translator_ok default_translator"
proof -
  have "{3, 0, 2, 4, 5, 1} = {0..5::int}" by auto
  then show ?thesis
    unfolding translator_ok_def default_offset
    by (simp add: default_simps order_ok_def total_width_def)
qed

lemma sample_vals_ok: "vals_ok default_translator sample_vals"
  by (simp add: vals_ok_def default_simps sample_vals_def)

theorem Translate_ReverseTranslate_witness:
  "translator_ok default_translator \<and> vals_ok default_translator sample_vals \<and>
   (\<exists>t' addr vals'. ReverseTranslate default_translator sample_vals = Inr (t', addr)
    \<and> Translate default_translator addr (\<lambda>_. 7) = Inr (t', vals')
    \<and> list_all (\<lambda>p. vals' p = sample_vals p) parts)"
  using Translate_ReverseTranslate [OF default_translator_ok sample_vals_ok]
    default_translator_ok sample_vals_ok by blast

text \<open>
  C32: Translating a physical address inside the memory yields coordinates that fit their
  partitions, and composing them again returns the address with its offset inside the
  burst (the low \<open>offset_bits\<close> bits) cleared.
\<close>

theorem ReverseTranslate_Translate:
  assumes "translator_ok t" and "at_method t = Some m"
    and "unat addr < 2 ^ (offset_bits t + total_width m)"
  shows "\<exists>t' vals'. Translate t addr garbage = Inr (t', vals') \<and> vals_ok t vals'
    \<and> ReverseTranslate t vals' = Inr (t', addr - addr mod 2 ^ offset_bits t)"
  using assms by (rule ReverseTranslate_Translate_aux)

lemma default_method: "at_method default_translator = Some (TranslationMethod_init (\<lambda>_. 0))"
  by (simp add: default_translator_def SetTranslationMethod_def)

lemma default_width: "total_width (TranslationMethod_init (\<lambda>_. 0)) = 29"
  by (simp add: total_width_def TranslationMethod_init_def SetBitWidths_def SetOrder_def Let_def)

theorem ReverseTranslate_Translate_witness:
  "\<exists>t' vals'. Translate default_translator 123456789 (\<lambda>_. 7) = Inr (t', vals')
    \<and> vals_ok default_translator vals'
    \<and> ReverseTranslate default_translator vals' = Inr (t', 123456789 - 123456789 mod 2 ^ 6)"
  using ReverseTranslate_Translate [OF default_translator_ok default_method, of 123456789 "\<lambda>_. 7"]
  by (simp add: default_offset default_width)

text \<open>
  Two coordinates that fit and differ in some partition never get the same physical
  address.
\<close>

theorem ReverseTranslate_injective:
  assumes "translator_ok t" "vals_ok t v" "vals_ok t v'"
    and "ReverseTranslate t v = Inr (t1, addr)" "ReverseTranslate t v' = Inr (t2, addr')"
    and "p \<noteq> MEM_UNKNOWN" and "v p \<noteq> v' p"
  shows "addr \<noteq> addr'"
proof -
  have "p \<in> set parts" using assms(6) by (simp only: set_parts not_False_eq_True)
  then have "encode_address t v \<noteq> encode_address t v'"
    using nvm_codec.encode_injective assms(1-3,7) by blast
  then show ?thesis
    using assms(4,5) ReverseTranslate_encode [OF assms(1)] by auto
qed

lemma sample_vals_ok': "vals_ok default_translator (sample_vals(MEM_BANK := 4))"
  by (simp add: vals_ok_def default_simps sample_vals_def)

theorem ReverseTranslate_injective_witness:
  "encode_address default_translator sample_vals
     \<noteq> encode_address default_translator (sample_vals(MEM_BANK := 4))"
  by (rule ReverseTranslate_injective [OF default_translator_ok sample_vals_ok sample_vals_ok'
      ReverseTranslate_encode [OF default_translator_ok] ReverseTranslate_encode [OF default_translator_ok],
      of MEM_BANK]) (simp_all add: sample_vals_def)

text \<open>
  Every mapping scheme that fits the parser's buffer and lists known partitions at
  most once gives the six partitions the orders 0 to 5, each once; the first one listed
  is the most significant, and the partitions left out come below the listed ones.
\<close>

theorem SetAddressMappingScheme_order_ok:
  assumes "length scheme < 16"
    and "map scheme_token (strtok_colon [] scheme) = map Some ps" and "distinct ps"
  shows "\<exists>m'. SetAddressMappingScheme m scheme = Inr m' \<and> order_ok m'
    \<and> bitWidths m' = bitWidths m \<and> (\<forall>i < length ps. tm_order m' (ps ! i) = 5 - int i)"
  using assms by (rule scheme_order_aux)

theorem SetAddressMappingScheme_order_ok_witness:
  "\<exists>m'. SetAddressMappingScheme (TranslationMethod_init (\<lambda>_. 0)) ''R:RK:BK:CH:C'' = Inr m'
    \<and> order_ok m' \<and> tm_order m' MEM_ROW = 5 \<and> tm_order m' MEM_COL = 1"
proof -
  have "map scheme_token (strtok_colon [] ''R:RK:BK:CH:C'') =
      map Some [MEM_ROW, MEM_RANK, MEM_BANK, MEM_CHANNEL, MEM_COL]"
    by (simp add: scheme_token_def)
  from SetAddressMappingScheme_order_ok [OF _ this, of "TranslationMethod_init (\<lambda>_. 0)"]
  obtain m' where "SetAddressMappingScheme (TranslationMethod_init (\<lambda>_. 0)) ''R:RK:BK:CH:C'' = Inr m'"
    "order_ok m'"
    and ord: "\<And>i. i < 5 \<Longrightarrow> tm_order m' ([MEM_ROW, MEM_RANK, MEM_BANK, MEM_CHANNEL, MEM_COL] ! i) = 5 - int i"
    by auto
  then show ?thesis
    using ord [of 0] ord [of 4] by (intro exI [of _ m']) simp
qed

text \<open>
  With a method set, a translation fails exactly when some order between 0 and 5 is
  given to no partition, and then by indexing its array of six out of bounds.
\<close>

theorem Translate_fails_iff:
  "Translate (t\<lparr> at_method := Some m \<rparr>) addr vals = Inl e \<longleftrightarrow>
     e = OutOfBounds \<and> \<not> {0..5} \<subseteq> tm_order m ` set parts"
proof -
  obtain b l where bl: "calc_lowColBits (t\<lparr> at_method := Some m \<rparr>) = (b, l)" by fastforce
  let ?r = "Translate_loop m [0, 1, 2, 3, 4, 5] (drop_bit (nat l) (drop_bit (nat b) addr)) vals"
  have tr: "Translate (t\<lparr> at_method := Some m \<rparr>) addr vals = Inl e \<longleftrightarrow> ?r = Inl e"
    by (cases ?r) (simp_all add: Translate_def bl del: Translate_loop.simps)
  have "{0..5} \<subseteq> tm_order m ` set parts \<longleftrightarrow> (\<exists>r. ?r = Inr r)"
  proof -
    have "(\<forall>i \<in> set [0, 1, 2, 3, 4, 5]. FindOrder m i \<noteq> MEM_UNKNOWN) \<longleftrightarrow>
        {0..5} \<subseteq> tm_order m ` set parts"
    proof -
      have "set [0, 1, 2, 3, 4, 5] = {0..5::int}" by auto
      then show ?thesis unfolding FindOrder_unknown by blast
    qed
    then show ?thesis unfolding Translate_loop_total by simp
  qed
  then show ?thesis
    unfolding tr using Translate_loop_err [of m "[0, 1, 2, 3, 4, 5]"] by (cases ?r) auto
qed

text \<open>
  \<^verbatim>\<open>mlog2\<close> terminates on every argument and returns the integer binary logarithm of a
  positive one.
\<close>

theorem mlog2_correct:
  assumes "1 \<le> n"
  shows "2 ^ nat (mlog2 n) \<le> n \<and> n < 2 ^ (nat (mlog2 n) + 1) \<and> 0 \<le> mlog2 n"
  using mlog2_spec [OF assms] by simp

theorem mlog2_correct_witness: "(2::int) ^ nat (mlog2 100) \<le> 100 \<and> 100 < (2::int) ^ (nat (mlog2 100) + 1)"
  using mlog2_correct [of 100] by simp

end
