(* ===== verification/Nvm_EventQueue.thy ===== *)
theory Nvm_EventQueue
  imports Nvm_Prelude
begin

text \<open>
  The event queue of \<^verbatim>\<open>src/EventQueue.cpp\<close>: class \<^verbatim>\<open>EventQueue\<close> with the insertion,
  search, removal and processing of events, and its two \<^verbatim>\<open>Loop\<close> functions.

  Pointers are natural numbers that name objects: \<open>ev_id\<close> is the address of an
  \<^verbatim>\<open>Event\<close> (what \<^verbatim>\<open>RemoveEvent\<close> compares), hooks, objects, requests, callbacks and data
  are numbers too. The map from cycles to event lists is an ordered association list.
  The member \<^verbatim>\<open>frequency\<close> (a double that only its accessors use) and class
  \<^verbatim>\<open>GlobalEventQueue\<close>, which computes with doubles throughout, are left out.

  What a recipient does when it is called is code outside this file: it is the parameter
  \<open>handler\<close> of \<open>Process\<close>, a function of the world's state that returns the
  new state and the calls it makes to the queue. An event is deleted right after its
  handler returns while the list still holds the pointer, so a later handler that
  inserts into the same cycle reads a deleted event: \<open>UseAfterFree\<close>.
\<close>

section \<open>Events\<close>

datatype EventType =
    EventUnknown | EventCycle | EventIdle | EventRequest | EventResponse | EventCallback

record Event =
  ev_id :: nat
  ev_type :: EventType
  ev_recipient :: "nat option"
  ev_request :: "nat option"
  ev_data :: "nat option"
  ev_cycle :: ncycle_t
  ev_priority :: int
  ev_method :: "nat option"

text \<open>The constructor, for an event allocated at address \<open>p\<close>.\<close>

definition Event_init :: "nat \<Rightarrow> Event" where
  "Event_init p =
     \<lparr> ev_id = p, ev_type = EventUnknown, ev_recipient = None, ev_request = None,
       ev_data = None, ev_cycle = 0, ev_priority = 0, ev_method = None \<rparr>"

text \<open>
  \<^verbatim>\<open>Event::SetRecipient( NVMObject *r )\<close> and the \<^verbatim>\<open>NVMObject *\<close> overloads below search the
  children of the object's parent, here pairs of a hook and its trampoline, for the
  object's hook, and assert that there is one.
\<close>

fun find_hook :: "(nat \<times> nat) list \<Rightarrow> nat \<Rightarrow> nat option" where
  "find_hook [] r = None"
| "find_hook ((hook, trampoline) # children) r =
     (if trampoline = r then Some hook else find_hook children r)"

definition SetRecipient :: "(nat \<times> nat) list \<Rightarrow> nat \<Rightarrow> Event \<Rightarrow> nvm_error + Event" where
  "SetRecipient children r e =
     (case find_hook children r of
        None \<Rightarrow> Inl AssertFailed
      | Some hook \<Rightarrow> Inr (e\<lparr> ev_recipient := Some hook \<rparr>))"

section \<open>The queue\<close>

record EventQueue =
  nextEventCycle :: ncycle_t
  lastEventCycle :: ncycle_t
  currentCycle :: ncycle_t
  eventMap :: "(ncycle_t \<times> Event list) list"

definition EventQueue_init :: EventQueue where
  "EventQueue_init =
     \<lparr> nextEventCycle = max_u64, lastEventCycle = 0, currentCycle = 0, eventMap = [] \<rparr>"

fun insert_prio :: "Event \<Rightarrow> int \<Rightarrow> Event list \<Rightarrow> Event list" where
  "insert_prio event priority [] = [event]"
| "insert_prio event priority (x # xs) =
     (if ev_priority x > priority then event # x # xs
      else x # insert_prio event priority xs)"

text \<open>\<^verbatim>\<open>InsertEvent( Event *event, ncycle_t when, int priority )\<close>\<close>

definition InsertEvent :: "EventQueue \<Rightarrow> Event \<Rightarrow> ncycle_t \<Rightarrow> int \<Rightarrow> EventQueue" where
  "InsertEvent q event when priority =
     (let event = event\<lparr> ev_cycle := when \<rparr>;
          q = (if when < nextEventCycle q then q\<lparr> nextEventCycle := when \<rparr> else q)
      in case map_of (eventMap q) when of
           None \<Rightarrow> q\<lparr> eventMap := omap_upd when [event] (eventMap q) \<rparr>
         | Some eventList \<Rightarrow>
             q\<lparr> eventMap := omap_upd when (insert_prio event priority eventList) (eventMap q) \<rparr>)"

text \<open>
  \<^verbatim>\<open>InsertEvent( type, NVMObject_hook *, req, when, data, priority )\<close>: the new event at
  address \<open>p\<close> gets every field but the priority.
\<close>

definition InsertEvent_hook ::
  "EventQueue \<Rightarrow> nat \<Rightarrow> EventType \<Rightarrow> nat option \<Rightarrow> nat option \<Rightarrow> ncycle_t \<Rightarrow> nat option \<Rightarrow> int
     \<Rightarrow> EventQueue" where
  "InsertEvent_hook q p type recipient req when data priority =
     InsertEvent q
       ((Event_init p)\<lparr> ev_type := type, ev_recipient := recipient, ev_request := req,
          ev_cycle := when, ev_data := data \<rparr>) when priority"

text \<open>The overloads that take the object and look its hook up.\<close>

definition InsertEvent_object ::
  "EventQueue \<Rightarrow> (nat \<times> nat) list \<Rightarrow> nat \<Rightarrow> EventType \<Rightarrow> nat \<Rightarrow> nat option \<Rightarrow> ncycle_t
     \<Rightarrow> nat option \<Rightarrow> int \<Rightarrow> nvm_error + EventQueue" where
  "InsertEvent_object q children p type recipient req when data priority =
     (case find_hook children recipient of
        None \<Rightarrow> Inl AssertFailed
      | Some hook \<Rightarrow> Inr (InsertEvent_hook q p type (Some hook) req when data priority))"

definition InsertCallback ::
  "EventQueue \<Rightarrow> (nat \<times> nat) list \<Rightarrow> nat \<Rightarrow> nat \<Rightarrow> nat option \<Rightarrow> ncycle_t \<Rightarrow> nat option \<Rightarrow> int
     \<Rightarrow> nvm_error + EventQueue" where
  "InsertCallback q children p recipient method when data priority =
     bind_res (SetRecipient children recipient ((Event_init p)\<lparr> ev_type := EventCallback \<rparr>))
       (\<lambda>event. Inr (InsertEvent q
          (event\<lparr> ev_data := data, ev_cycle := when, ev_priority := priority,
             ev_method := method \<rparr>) when priority))"

fun remove_ptr :: "nat \<Rightarrow> Event list \<Rightarrow> (Event list) option" where
  "remove_ptr p [] = None"
| "remove_ptr p (x # xs) = (if ev_id x = p then Some xs else map_option (Cons x) (remove_ptr p xs))"

definition next_of_map :: "(ncycle_t \<times> Event list) list \<Rightarrow> ncycle_t" where
  "next_of_map m = (case omap_first m of None \<Rightarrow> max_u64 | Some k \<Rightarrow> k)"

definition RemoveEvent :: "EventQueue \<Rightarrow> nat \<Rightarrow> ncycle_t \<Rightarrow> EventQueue \<times> bool" where
  "RemoveEvent q p when =
     (case map_of (eventMap q) when of
        None \<Rightarrow> (q, False)
      | Some eventList \<Rightarrow>
          let (m, rv) =
                (case remove_ptr p eventList of
                   None \<Rightarrow> (eventMap q, False)
                 | Some rest \<Rightarrow>
                     (if rest = [] then omap_del when (eventMap q)
                      else omap_upd when rest (eventMap q), True))
          in (q\<lparr> eventMap := m, nextEventCycle := next_of_map m \<rparr>, rv))"

text \<open>\<^verbatim>\<open>FindEvent\<close> keeps the last match of its loop, \<^verbatim>\<open>FindCallback\<close> stops at the first.\<close>

fun last_match :: "('a \<Rightarrow> bool) \<Rightarrow> 'a list \<Rightarrow> 'a option \<Rightarrow> 'a option" where
  "last_match P [] rv = rv"
| "last_match P (x # xs) rv = last_match P xs (if P x then Some x else rv)"

definition FindEvent ::
  "EventQueue \<Rightarrow> EventType \<Rightarrow> nat option \<Rightarrow> nat option \<Rightarrow> ncycle_t \<Rightarrow> Event option" where
  "FindEvent q type recipient req when =
     (case map_of (eventMap q) when of
        None \<Rightarrow> None
      | Some eventList \<Rightarrow>
          last_match (\<lambda>e. ev_type e = type \<and> ev_recipient e = recipient \<and> ev_request e = req)
            eventList None)"

definition FindEvent_object ::
  "EventQueue \<Rightarrow> (nat \<times> nat) list \<Rightarrow> EventType \<Rightarrow> nat \<Rightarrow> nat option \<Rightarrow> ncycle_t
     \<Rightarrow> nvm_error + Event option" where
  "FindEvent_object q children type recipient req when =
     (case find_hook children recipient of
        None \<Rightarrow> Inl AssertFailed
      | Some hook \<Rightarrow> Inr (FindEvent q type (Some hook) req when))"

text \<open>\<open>trampoline\<close> gives the object behind a hook.\<close>

definition FindCallback ::
  "EventQueue \<Rightarrow> (nat \<Rightarrow> nat) \<Rightarrow> nat \<Rightarrow> nat option \<Rightarrow> ncycle_t \<Rightarrow> nat option \<Rightarrow> int \<Rightarrow> Event option" where
  "FindCallback q trampoline recipient method when data priority =
     (case map_of (eventMap q) when of
        None \<Rightarrow> None
      | Some eventList \<Rightarrow>
          find (\<lambda>e. map_option trampoline (ev_recipient e) = Some recipient \<and> ev_method e = method
                  \<and> ev_data e = data \<and> ev_priority e = priority) eventList)"

section \<open>Processing\<close>

text \<open>The events of a cycle.\<close>

definition list_at :: "EventQueue \<Rightarrow> ncycle_t \<Rightarrow> Event list" where
  "list_at q k = (case map_of (eventMap q) k of None \<Rightarrow> [] | Some es \<Rightarrow> es)"

text \<open>The calls a handler makes to the queue while it runs.\<close>

datatype queue_op = QInsert Event ncycle_t int | QRemove nat ncycle_t

type_synonym 's handler = "'s \<Rightarrow> Event \<Rightarrow> ncycle_t \<Rightarrow> 's \<times> queue_op list"

text \<open>
  One such call while \<open>Process\<close> stands at position \<open>i\<close> of the list of cycle \<open>k\<close>; \<open>d\<close>
  says that an event of this list has already been deleted. The result's number is the
  position of the current event afterwards. Erasing the current event itself invalidates
  the iterator.
\<close>

definition position_of :: "nat \<Rightarrow> Event list \<Rightarrow> nat" where
  "position_of p es = length (takeWhile (\<lambda>e. ev_id e \<noteq> p) es)"

fun apply_op :: "ncycle_t \<Rightarrow> bool \<Rightarrow> EventQueue \<times> nat \<Rightarrow> queue_op \<Rightarrow> nvm_error + EventQueue \<times> nat" where
  "apply_op k d (q, i) (QInsert e when pr) =
     (if when = k \<and> d then Inl UseAfterFree
      else Inr (InsertEvent q e when pr,
                if when = k \<and> (\<exists>x \<in> set (take (Suc i) (list_at q k)). ev_priority x > pr)
                then Suc i else i))"
| "apply_op k d (q, i) (QRemove p when) =
     (if when \<noteq> k then Inr (fst (RemoveEvent q p when), i)
      else let j = position_of p (list_at q k)
           in if j = i then Inl UseAfterFree
              else Inr (fst (RemoveEvent q p when), if j < i then i - 1 else i))"

fun apply_ops :: "ncycle_t \<Rightarrow> bool \<Rightarrow> EventQueue \<times> nat \<Rightarrow> queue_op list \<Rightarrow> nvm_error + EventQueue \<times> nat" where
  "apply_ops k d qi [] = Inr qi"
| "apply_ops k d qi (x # xs) = bind_res (apply_op k d qi x) (\<lambda>qi'. apply_ops k d qi' xs)"

text \<open>The switch over the event's type: idle, request and unknown events call nobody.\<close>

definition dispatch :: "'s handler \<Rightarrow> ncycle_t \<Rightarrow> 's \<Rightarrow> Event \<Rightarrow> 's \<times> queue_op list" where
  "dispatch handler steps s e =
     (case ev_type e of
        EventCycle \<Rightarrow> handler s e steps
      | EventResponse \<Rightarrow> handler s e 0
      | EventCallback \<Rightarrow> handler s e 0
      | _ \<Rightarrow> (s, []))"

lemma list_at_InsertEvent_other: "when \<noteq> k \<Longrightarrow> list_at (InsertEvent q e when pr) k = list_at q k"
  by (auto simp: list_at_def InsertEvent_def Let_def map_of_omap_upd split: option.splits)

lemma list_at_RemoveEvent_other: "when \<noteq> k \<Longrightarrow> list_at (fst (RemoveEvent q p when)) k = list_at q k"
  by (auto simp: list_at_def RemoveEvent_def Let_def map_of_omap_upd map_of_omap_del_other
      split: option.splits)

lemma remove_ptr_None: "remove_ptr p es = None \<longleftrightarrow> position_of p es = length es"
  by (induction es) (auto simp: position_of_def)

lemma remove_ptr_Some: "remove_ptr p es = Some es' \<Longrightarrow> position_of p es < length es \<and> length es = Suc (length es')"
  by (induction es arbitrary: es') (auto simp: position_of_def split: if_splits)

lemma list_at_RemoveEvent_same:
  "list_at (fst (RemoveEvent q p k)) k =
     (case remove_ptr p (list_at q k) of None \<Rightarrow> list_at q k
      | Some es \<Rightarrow> if es = [] then list_at (q\<lparr> eventMap := omap_del k (eventMap q) \<rparr>) k else es)"
  by (auto simp: list_at_def RemoveEvent_def Let_def map_of_omap_upd split: option.splits)

lemma apply_op_measure:
  assumes "apply_op k True (q, i) x = Inr (q', i')" "i < length (list_at q k)"
  shows "i' < length (list_at q' k) \<and> length (list_at q' k) - i' \<le> length (list_at q k) - i"
proof (cases x)
  case (QInsert e w pr)
  then show ?thesis using assms by (auto simp: list_at_InsertEvent_other split: if_splits)
next
  case (QRemove p w)
  show ?thesis
  proof (cases "w = k")
    case True
    let ?j = "position_of p (list_at q k)"
    have q': "q' = fst (RemoveEvent q p k)" "i' = (if ?j < i then i - 1 else i)" "?j \<noteq> i"
      using assms(1) QRemove True by (auto simp: Let_def split: if_splits)
    show ?thesis
    proof (cases "remove_ptr p (list_at q k)")
      case None
      then show ?thesis
        using q' assms(2) remove_ptr_None [of p "list_at q k"] by (simp add: list_at_RemoveEvent_same)
    next
      case (Some es)
      then have "?j < length (list_at q k)" "length (list_at q k) = Suc (length es)"
        using remove_ptr_Some by blast+
      moreover from this have "es \<noteq> []" using q'(3) assms(2) by auto
      ultimately show ?thesis using q' assms(2) Some by (auto simp: list_at_RemoveEvent_same)
    qed
  next
    case False
    then show ?thesis using QRemove assms by (auto simp: list_at_RemoveEvent_other)
  qed
qed

lemma apply_ops_measure:
  assumes "apply_ops k True (q, i) xs = Inr (q', i')" "i < length (list_at q k)"
  shows "i' < length (list_at q' k) \<and> length (list_at q' k) - i' \<le> length (list_at q k) - i"
  using assms
proof (induction xs arbitrary: q i)
  case (Cons x xs)
  then obtain q1 i1 where "apply_op k True (q, i) x = Inr (q1, i1)"
    "apply_ops k True (q1, i1) xs = Inr (q', i')" by (auto simp: bind_res_eq_Inr)
  then show ?case using Cons.IH apply_op_measure [of k q i x q1 i1] Cons.prems(2) by fastforce
qed simp

function process_loop ::
  "'s handler \<Rightarrow> ncycle_t \<Rightarrow> bool \<Rightarrow> nat \<Rightarrow> EventQueue \<Rightarrow> 's \<Rightarrow> nvm_error + EventQueue \<times> 's" where
  "process_loop handler k d i q s =
     (if i < length (list_at q k) then
        (let (s', ops) = dispatch handler (nextEventCycle q - lastEventCycle q) s (list_at q k ! i) in
         case apply_ops k d (q, i) ops of
           Inl e \<Rightarrow> Inl e
         | Inr (q', i') \<Rightarrow> process_loop handler k True (Suc i') q' s')
      else Inr (q, s))"
  by pat_completeness auto
termination
proof (relation "inv_image (less_than <*lex*> less_than)
    (\<lambda>(handler, k, d, i, q, s). (if d then 0 else 1, length (list_at q k) - i))", goal_cases)
  case 1
  then show ?case by (simp add: wf_inv_image wf_lex_prod)
next
  case (2 handler k d i q s x s' ops y q' i')
  then show ?case
    using apply_ops_measure [of k q i ops q' i'] by (cases d) auto
qed

declare process_loop.simps [simp del]

definition Process :: "'s handler \<Rightarrow> EventQueue \<Rightarrow> 's \<Rightarrow> nvm_error + EventQueue \<times> 's" where
  "Process handler q s =
     (if map_of (eventMap q) (nextEventCycle q) = None then Inl AssertFailed
      else bind_res (process_loop handler (nextEventCycle q) False 0 q s)
        (\<lambda>(q, s).
          let m = omap_del (nextEventCycle q) (eventMap q)
          in Inr (q\<lparr> eventMap := m, lastEventCycle := nextEventCycle q,
                     nextEventCycle := next_of_map m \<rparr>, s)))"

text \<open>\<^verbatim>\<open>Loop( )\<close>\<close>

definition Loop :: "'s handler \<Rightarrow> EventQueue \<Rightarrow> 's \<Rightarrow> nvm_error + EventQueue \<times> 's" where
  "Loop handler q s =
     bind_res (if nextEventCycle q = currentCycle q then Process handler q s else Inr (q, s))
       (\<lambda>(q, s). Inr (q\<lparr> currentCycle := currentCycle q + 1 \<rparr>, s))"

text \<open>
  The while loop of \<^verbatim>\<open>Loop( ncycle_t steps )\<close>; \<open>None\<close> when it does not end, which a
  handler that keeps scheduling events in the past can bring about.
\<close>

partial_function (option) Loop_while ::
  "'s handler \<Rightarrow> ncycle_t \<Rightarrow> EventQueue \<Rightarrow> 's \<Rightarrow> (nvm_error + EventQueue \<times> 's) option" where
  "Loop_while handler stepCycles q s =
     (if stepCycles > 0 then
        (if nextEventCycle q > currentCycle q + stepCycles
         then Some (Inr (q\<lparr> currentCycle := currentCycle q + stepCycles \<rparr>, s))
         else (let currentSteps = nextEventCycle q - currentCycle q in
               case Process handler (q\<lparr> currentCycle := currentCycle q + currentSteps \<rparr>) s of
                 Inl e \<Rightarrow> Some (Inl e)
               | Inr (q', s') \<Rightarrow> Loop_while handler (stepCycles - currentSteps) q' s'))
      else Some (Inr (q, s)))"

definition Loop_steps ::
  "'s handler \<Rightarrow> ncycle_t \<Rightarrow> EventQueue \<Rightarrow> 's \<Rightarrow> (nvm_error + EventQueue \<times> 's) option" where
  "Loop_steps handler steps q s =
     (if steps = 0 \<and> nextEventCycle q = currentCycle q then Some (Process handler q s)
      else Loop_while handler steps q s)"

definition eq_inv :: "EventQueue \<Rightarrow> bool" where
  "eq_inv q \<longleftrightarrow> omap_wf (eventMap q)
     \<and> (\<forall>k es. map_of (eventMap q) k = Some es \<longrightarrow> es \<noteq> [] \<and> (\<forall>e \<in> set es. ev_cycle e = k))
     \<and> nextEventCycle q = next_of_map (eventMap q)"

definition events :: "EventQueue \<Rightarrow> Event list" where
  "events q = concat (map snd (eventMap q))"

text \<open>Handlers that schedule and cancel only events of later cycles.\<close>

fun op_after :: "ncycle_t \<Rightarrow> queue_op \<Rightarrow> bool" where
  "op_after k (QInsert e w pr) \<longleftrightarrow> k < w"
| "op_after k (QRemove p w) \<longleftrightarrow> k < w"

definition causal :: "'s handler \<Rightarrow> bool" where
  "causal handler \<longleftrightarrow> (\<forall>s e steps. list_all (op_after (ev_cycle e)) (snd (handler s e steps)))"

fun run_handlers :: "'s handler \<Rightarrow> ncycle_t \<Rightarrow> Event list \<Rightarrow> 's \<Rightarrow> 's" where
  "run_handlers handler steps [] s = s"
| "run_handlers handler steps (e # es) s =
     run_handlers handler steps es (fst (dispatch handler steps s e))"

lemma next_of_map_upd: "next_of_map (omap_upd w v m) = min w (next_of_map m)"
  by (cases m) (auto simp: next_of_map_def omap_first_def min_def)

lemma next_of_map_least: "omap_wf m \<Longrightarrow> map_of m k = Some v \<Longrightarrow> next_of_map m \<le> k"
  using omap.first_least [of m _ k v] omap.first_None [of m]
  by (auto simp: next_of_map_def split: option.splits)

lemma next_of_map_cases:
  "next_of_map m = max_u64 \<and> m = [] \<or> map_of m (next_of_map m) \<noteq> None"
  using omap.first_look [of m]
  by (auto simp: next_of_map_def omap_first_def split: list.splits option.splits)

lemma set_insert_prio: "set (insert_prio e pr es) = insert e (set es)"
  by (induction es) auto

lemma mset_insert_prio: "mset (insert_prio e pr es) = add_mset e (mset es)"
  by (induction es) auto

lemma insert_prio_nonempty [simp]: "insert_prio e pr es \<noteq> []"
  by (cases es) auto

lemma InsertEvent_eventMap:
  "eventMap (InsertEvent q e w pr) =
     omap_upd w (insert_prio (e\<lparr> ev_cycle := w \<rparr>) pr (list_at q w)) (eventMap q)"
  by (auto simp: InsertEvent_def Let_def list_at_def split: option.splits)

lemma InsertEvent_next: "nextEventCycle (InsertEvent q e w pr) = min w (nextEventCycle q)"
  by (auto simp: InsertEvent_def Let_def min_def split: option.splits)

lemma InsertEvent_frame [simp]:
  "currentCycle (InsertEvent q e w pr) = currentCycle q"
  "lastEventCycle (InsertEvent q e w pr) = lastEventCycle q"
  by (auto simp: InsertEvent_def Let_def split: option.splits)

lemma eq_inv_list_at: "eq_inv q \<Longrightarrow> e \<in> set (list_at q k) \<Longrightarrow> ev_cycle e = k"
  by (cases "map_of (eventMap q) k") (auto simp: eq_inv_def list_at_def)

lemma InsertEvent_inv [nvm_inv]: "eq_inv q \<Longrightarrow> eq_inv (InsertEvent q e w pr)"
  using eq_inv_list_at [of q _ w]
  by (auto simp: eq_inv_def InsertEvent_eventMap InsertEvent_next next_of_map_upd omap_wf_upd
      map_of_omap_upd set_insert_prio)

lemma remove_ptr_set: "remove_ptr p es = Some es' \<Longrightarrow> set es' \<subseteq> set es"
  by (induction es arbitrary: es') (auto split: if_splits)

lemma RemoveEvent_inv [nvm_inv]: "eq_inv q \<Longrightarrow> eq_inv (fst (RemoveEvent q p w))"
proof -
  assume inv: "eq_inv q"
  show ?thesis
  proof (cases "map_of (eventMap q) w")
    case None
    then show ?thesis using inv by (simp add: RemoveEvent_def)
  next
    case (Some es)
    have wf: "omap_wf (eventMap q)" using inv by (simp add: eq_inv_def)
    show ?thesis
    proof (cases "remove_ptr p es")
      case None
      then show ?thesis using inv Some by (simp add: RemoveEvent_def eq_inv_def)
    next
      case (Some es')
      have "\<forall>e \<in> set es'. ev_cycle e = w"
        using remove_ptr_set [OF Some] \<open>map_of (eventMap q) w = _\<close> inv by (auto simp: eq_inv_def)
      then show ?thesis
        using inv \<open>map_of (eventMap q) w = _\<close> Some wf
        by (auto simp: RemoveEvent_def eq_inv_def omap_wf_del omap_wf_upd map_of_omap_del
            map_of_omap_upd split: if_splits)
    qed
  qed
qed

lemma RemoveEvent_frame [simp]:
  "currentCycle (fst (RemoveEvent q p w)) = currentCycle q"
  "lastEventCycle (fst (RemoveEvent q p w)) = lastEventCycle q"
  by (auto simp: RemoveEvent_def Let_def split: option.splits)

text \<open>What a call for a later cycle leaves alone while the events of cycle \<open>k\<close> are processed.\<close>

definition at_cycle :: "ncycle_t \<Rightarrow> Event list \<Rightarrow> EventQueue \<Rightarrow> bool" where
  "at_cycle k es q \<longleftrightarrow> eq_inv q \<and> nextEventCycle q = k \<and> map_of (eventMap q) k = Some es"

lemma apply_op_causal:
  assumes "at_cycle k es q" "op_after k x"
  shows "\<exists>q'. apply_op k d (q, i) x = Inr (q', i) \<and> at_cycle k es q'
    \<and> currentCycle q' = currentCycle q \<and> lastEventCycle q' = lastEventCycle q"
proof (cases x)
  case (QInsert e w pr)
  then have w: "k < w" using assms(2) by simp
  have "at_cycle k es (InsertEvent q e w pr)"
    using assms(1) w
    by (auto simp: at_cycle_def InsertEvent_inv InsertEvent_next InsertEvent_eventMap map_of_omap_upd)
  then show ?thesis using QInsert w by auto
next
  case (QRemove p w)
  then have w: "k < w" using assms(2) by simp
  let ?q = "fst (RemoveEvent q p w)"
  have inv: "eq_inv ?q" using assms(1) RemoveEvent_inv by (simp add: at_cycle_def)
  have "list_at ?q k = list_at q k" using w by (intro list_at_RemoveEvent_other) simp
  then have look: "map_of (eventMap ?q) k = Some es"
    using assms(1) inv by (auto simp: at_cycle_def eq_inv_def list_at_def split: option.splits)
  have le: "nextEventCycle ?q \<le> k"
    using look inv next_of_map_least by (auto simp: eq_inv_def)
  moreover have "k \<le> nextEventCycle ?q"
  proof (cases "map_of (eventMap ?q) (nextEventCycle ?q)")
    case None
    then have "nextEventCycle ?q = max_u64"
      using inv next_of_map_cases [of "eventMap ?q"] by (auto simp: eq_inv_def)
    then show ?thesis by simp
  next
    case (Some es')
    have "nextEventCycle ?q \<noteq> w" using le w by auto
    then have "list_at ?q (nextEventCycle ?q) = list_at q (nextEventCycle ?q)"
      by (intro list_at_RemoveEvent_other) simp
    then have "map_of (eventMap q) (nextEventCycle ?q) \<noteq> None"
      using Some inv by (auto simp: eq_inv_def list_at_def split: option.splits)
    then show ?thesis
      using assms(1) next_of_map_least by (auto simp: at_cycle_def eq_inv_def)
  qed
  ultimately have "at_cycle k es ?q" using inv look by (simp add: at_cycle_def)
  then show ?thesis using QRemove w by auto
qed

lemma apply_ops_causal:
  assumes "at_cycle k es q" "list_all (op_after k) xs"
  shows "\<exists>q'. apply_ops k d (q, i) xs = Inr (q', i) \<and> at_cycle k es q'
    \<and> currentCycle q' = currentCycle q \<and> lastEventCycle q' = lastEventCycle q"
  using assms
proof (induction xs arbitrary: q)
  case (Cons x xs)
  then obtain q1 where q1: "apply_op k d (q, i) x = Inr (q1, i)" "at_cycle k es q1"
    "currentCycle q1 = currentCycle q" "lastEventCycle q1 = lastEventCycle q"
    using apply_op_causal [of k es q x d i] by auto
  then show ?case using Cons.IH [OF q1(2)] Cons.prems(2) by auto
qed simp

lemma at_cycle_list: "at_cycle k es q \<Longrightarrow> list_at q k = es"
  by (simp add: at_cycle_def list_at_def)

lemma dispatch_causal: "causal handler \<Longrightarrow> list_all (op_after (ev_cycle e)) (snd (dispatch handler st s e))"
  by (cases "ev_type e") (auto simp: dispatch_def causal_def)

lemma process_loop_causal:
  assumes "causal handler" "at_cycle k es q"
  shows "\<exists>q'. process_loop handler k d i q s =
      Inr (q', run_handlers handler (k - lastEventCycle q) (drop i es) s)
    \<and> at_cycle k es q' \<and> currentCycle q' = currentCycle q \<and> lastEventCycle q' = lastEventCycle q"
  using assms
proof (induction handler k d i q s rule: process_loop.induct)
  case (1 handler k d i q s)
  note es = at_cycle_list [OF "1.prems"(2)]
  show ?case
  proof (cases "i < length es")
    case False
    then show ?thesis using "1.prems" es by (auto simp: process_loop.simps [of handler k d i])
  next
    case True
    let ?st = "k - lastEventCycle q"
    obtain s' ops where d: "dispatch handler ?st s (es ! i) = (s', ops)" by fastforce
    have nk: "nextEventCycle q = k" using "1.prems"(2) by (simp add: at_cycle_def)
    have "ev_cycle (es ! i) = k"
      using "1.prems"(2) True by (auto simp: at_cycle_def eq_inv_def)
    then have "list_all (op_after k) ops"
      using dispatch_causal [OF "1.prems"(1), of "es ! i" ?st s] d by simp
    then obtain q1 where q1: "apply_ops k d (q, i) ops = Inr (q1, i)" "at_cycle k es q1"
      "currentCycle q1 = currentCycle q" "lastEventCycle q1 = lastEventCycle q"
      using apply_ops_causal [OF "1.prems"(2)] by blast
    have "process_loop handler k d i q s = process_loop handler k True (Suc i) q1 s'"
      using True es d nk q1(1) by (simp add: process_loop.simps [of handler k d i])
    moreover have "run_handlers handler ?st (drop i es) s = run_handlers handler ?st (drop (Suc i) es) s'"
      using True d by (simp add: Cons_nth_drop_Suc [symmetric])
    ultimately show ?thesis
      using "1.IH" [OF _ refl _ q1(1) refl "1.prems"(1) q1(2)] True es nk d q1(3,4) by simp
  qed
qed

lemma next_of_map_del:
  assumes "omap_wf m" "map_of m (next_of_map m) \<noteq> None"
  shows "next_of_map (omap_del (next_of_map m) m) = max_u64
      \<and> omap_del (next_of_map m) m = [] \<or> next_of_map m < next_of_map (omap_del (next_of_map m) m)"
proof -
  have first: "omap_first m = Some (next_of_map m)"
    using assms(2) omap.first_None [of m] by (auto simp: next_of_map_def split: option.splits)
  show ?thesis
  proof (cases "omap_first (omap_del (next_of_map m) m)")
    case None
    then show ?thesis by (auto simp: next_of_map_def omap_first_def split: list.splits)
  next
    case (Some k')
    then show ?thesis using omap.first_del_greater [OF assms(1) first Some] by (simp add: next_of_map_def)
  qed
qed

lemma Process_causal:
  assumes "causal handler" "eq_inv q" "map_of (eventMap q) (nextEventCycle q) = Some es"
  shows "\<exists>q'. Process handler q s =
      Inr (q', run_handlers handler (nextEventCycle q - lastEventCycle q) es s)
    \<and> eq_inv q' \<and> currentCycle q' = currentCycle q \<and> lastEventCycle q' = nextEventCycle q
    \<and> list_at q' (nextEventCycle q) = []
    \<and> (nextEventCycle q' = max_u64 \<and> eventMap q' = [] \<or> nextEventCycle q < nextEventCycle q')"
proof -
  let ?k = "nextEventCycle q"
  have "at_cycle ?k es q" using assms by (simp add: at_cycle_def)
  then obtain q1 where q1: "process_loop handler ?k False 0 q s =
      Inr (q1, run_handlers handler (?k - lastEventCycle q) es s)"
    "at_cycle ?k es q1" "currentCycle q1 = currentCycle q"
    using process_loop_causal [OF assms(1), of ?k es q False 0 s] by auto
  let ?m = "omap_del ?k (eventMap q1)"
  have k: "nextEventCycle q1 = ?k" "eq_inv q1" "map_of (eventMap q1) ?k = Some es"
    using q1(2) by (simp_all add: at_cycle_def)
  have wf: "omap_wf (eventMap q1)" "next_of_map (eventMap q1) = ?k"
    using k by (auto simp: eq_inv_def)
  let ?q = "q1\<lparr> eventMap := ?m, lastEventCycle := ?k, nextEventCycle := next_of_map ?m \<rparr>"
  have "Process handler q s = Inr (?q, run_handlers handler (?k - lastEventCycle q) es s)"
    using assms(3) q1(1) k(1) by (simp add: Process_def Let_def)
  moreover have "eq_inv ?q"
    using k(2) wf by (auto simp: eq_inv_def omap_wf_del map_of_omap_del split: if_splits)
  moreover have "list_at ?q ?k = []" using wf by (simp add: list_at_def map_of_omap_del)
  ultimately show ?thesis
    using q1(3) next_of_map_del [OF wf(1)] k(3) wf(2) by auto
qed

lemma Loop_while_unfold:
  assumes "causal handler" "eq_inv q" "currentCycle q \<le> nextEventCycle q"
    and "unat (currentCycle q) + unat steps < 2 ^ 64 - 1" "0 < steps"
    and "nextEventCycle q \<le> currentCycle q + steps"
  obtains q' s' where
    "Loop_while handler steps q s =
       Loop_while handler (steps - (nextEventCycle q - currentCycle q)) q' s'"
    "s' = run_handlers handler (nextEventCycle q - lastEventCycle q) (list_at q (nextEventCycle q)) s"
    "eq_inv q'" "currentCycle q' = nextEventCycle q" "nextEventCycle q < nextEventCycle q'"
proof -
  have "nextEventCycle q \<noteq> max_u64"
  proof
    assume "nextEventCycle q = max_u64"
    then have "max_u64 = currentCycle q + steps" using assms(6) by simp
    then have "unat max_u64 = (unat (currentCycle q) + unat steps) mod 2 ^ 64"
      using unat_word_ariths(1) [of "currentCycle q" steps] by simp
    also have "\<dots> < 2 ^ 64 - 1" using assms(4) by simp
    finally show False by (simp add: unat_max_u64)
  qed
  then obtain es where es: "map_of (eventMap q) (nextEventCycle q) = Some es"
    using assms(2) next_of_map_cases [of "eventMap q"] by (auto simp: eq_inv_def)
  let ?q = "q\<lparr> currentCycle := nextEventCycle q \<rparr>"
  have inv: "eq_inv ?q" using assms(2) by (simp add: eq_inv_def)
  obtain q' where q': "Process handler ?q s =
      Inr (q', run_handlers handler (nextEventCycle q - lastEventCycle q) es s)"
    "eq_inv q'" "currentCycle q' = nextEventCycle q"
    "nextEventCycle q' = max_u64 \<and> eventMap q' = [] \<or> nextEventCycle q < nextEventCycle q'"
    using Process_causal [OF assms(1) inv, of es s] es by auto
  have "nextEventCycle q < max_u64"
    using \<open>nextEventCycle q \<noteq> max_u64\<close> le_max_u64 order.not_eq_order_implies_strict by blast
  then have gt: "nextEventCycle q < nextEventCycle q'" using q'(4) by auto
  have cur: "q\<lparr> currentCycle := currentCycle q + (nextEventCycle q - currentCycle q) \<rparr> = ?q" by simp
  have "list_at q (nextEventCycle q) = es" using es by (simp add: list_at_def)
  moreover have "\<not> currentCycle q + steps < nextEventCycle q" using assms(6) by (simp add: not_less)
  then have "Loop_while handler steps q s =
      Loop_while handler (steps - (nextEventCycle q - currentCycle q)) q'
        (run_handlers handler (nextEventCycle q - lastEventCycle q) es s)"
    unfolding Loop_while.simps [of handler steps q s] Let_def cur q'(1) using assms(5) by simp
  ultimately show ?thesis using that q'(2,3) gt by blast
qed

lemma step_arith:
  assumes "(c::u64) \<le> n" "n \<le> c + st" "unat c + unat st < 2 ^ 64 - 1"
  shows "n + (st - (n - c)) = c + st" "unat n + unat (st - (n - c)) < 2 ^ 64 - 1"
proof -
  show "n + (st - (n - c)) = c + st" by simp
  have cs: "unat (c + st) = unat c + unat st" using assms(3) by (simp add: unat_word_ariths)
  have nc: "unat (n - c) = unat n - unat c" using assms(1) by (simp add: unat_sub)
  have "n - c \<le> st"
    using assms cs nc by (simp add: word_le_nat_alt)
  then have "unat (st - (n - c)) = unat st - (unat n - unat c)" using nc by (simp add: unat_sub)
  then show "unat n + unat (st - (n - c)) < 2 ^ 64 - 1"
    using assms cs nc by (simp add: word_le_nat_alt)
qed

lemma Loop_while_causal:
  assumes "causal handler" "eq_inv q" "currentCycle q \<le> nextEventCycle q"
    and "unat (currentCycle q) + unat steps < 2 ^ 64 - 1"
  shows "\<exists>q' s'. Loop_while handler steps q s = Some (Inr (q', s')) \<and> eq_inv q'
    \<and> currentCycle q' = currentCycle q + steps \<and> currentCycle q' \<le> nextEventCycle q'
    \<and> (0 < steps \<or> currentCycle q < nextEventCycle q \<longrightarrow> currentCycle q' < nextEventCycle q')"
  using assms(2-)
proof (induction "2 ^ 64 - unat (nextEventCycle q)" arbitrary: q steps s rule: less_induct)
  case less
  show ?case
  proof (cases "0 < steps \<and> nextEventCycle q \<le> currentCycle q + steps")
    case False
    then show ?thesis
      using less.prems
      by (cases "steps = 0")
        (auto simp: Loop_while.simps [of handler steps] Loop_while.simps [of handler 0] eq_inv_def word_neq_0_conv)
  next
    case True
    obtain q1 s1 where q1: "Loop_while handler steps q s =
       Loop_while handler (steps - (nextEventCycle q - currentCycle q)) q1 s1"
      "eq_inv q1" "currentCycle q1 = nextEventCycle q" "nextEventCycle q < nextEventCycle q1"
      using Loop_while_unfold [OF assms(1) less.prems] True by metis
    let ?st = "steps - (nextEventCycle q - currentCycle q)"
    note ar = step_arith [OF less.prems(2) _ less.prems(3)]
    have "2 ^ 64 - unat (nextEventCycle q1) < 2 ^ 64 - unat (nextEventCycle q)"
      using q1(4) le_max_u64 [of "nextEventCycle q1"]
      unfolding word_less_nat_alt word_le_nat_alt unat_max_u64 by linarith
    moreover have "currentCycle q1 \<le> nextEventCycle q1" using q1(3,4) by simp
    moreover have "unat (currentCycle q1) + unat ?st < 2 ^ 64 - 1" using ar(2) True q1(3) by simp
    ultimately obtain q' s' where "Loop_while handler ?st q1 s1 = Some (Inr (q', s'))" "eq_inv q'"
      "currentCycle q' = currentCycle q1 + ?st" "currentCycle q1 < nextEventCycle q1 \<longrightarrow> currentCycle q' < nextEventCycle q'"
      using less.hyps q1(2) by blast
    then show ?thesis using q1 ar(1) True by auto
  qed
qed

lemma u64_less_Suc: "(c::u64) < n \<Longrightarrow> c + 1 \<le> n"
  by (simp add: inc_le)

lemma step_arith_Suc:
  assumes "(c::u64) < n" "n \<le> c + (1 + st)" "unat c + unat st < 2 ^ 64 - 1"
  shows "st = 0 \<Longrightarrow> n = c + 1" "(1 + st) - (n - c) = st - (n - (c + 1))"
proof -
  show "(1 + st) - (n - c) = st - (n - (c + 1))" by simp
  assume "st = 0"
  then show "n = c + 1" using assms(1,2) u64_less_Suc [OF assms(1)] by simp
qed

lemma Loop_while_zero [simp]: "Loop_while handler 0 q s = Some (Inr (q, s))"
  by (simp add: Loop_while.simps [of handler 0 q s])

text \<open>One cycle more is one cycle ahead, when no event is due at the current cycle.\<close>

lemma Loop_while_Suc:
  assumes "currentCycle q < nextEventCycle q"
    and "unat (currentCycle q) + unat (1 + st) < 2 ^ 64 - 1" "unat (1 + st) = Suc (unat st)"
  shows "Loop_while handler (1 + st) q s =
    Loop_steps handler st (q\<lparr> currentCycle := currentCycle q + 1 \<rparr>) s"
proof -
  have pos: "0 < 1 + st" using assms(3) by (simp add: word_less_nat_alt)
  have bound: "unat (currentCycle q) + unat st < 2 ^ 64 - 1" using assms(2,3) by simp
  have sum: "currentCycle q + 1 + st = currentCycle q + (1 + st)" by (simp add: add.assoc)
  let ?p = "q\<lparr> currentCycle := currentCycle q + 1 \<rparr>"
  have sum': "currentCycle ?p + st = currentCycle q + (1 + st)" by (simp add: add.assoc)
  show ?thesis
  proof (cases "nextEventCycle q > currentCycle q + (1 + st)")
    case True
    then have L: "Loop_while handler (1 + st) q s = Some (Inr (q\<lparr> currentCycle := currentCycle q + (1 + st) \<rparr>, s))"
      using pos by (subst Loop_while.simps) (simp only: if_True)
    show ?thesis
    proof (cases "st = 0")
      case True
      then have "nextEventCycle q \<noteq> currentCycle q + 1"
        using \<open>nextEventCycle q > currentCycle q + (1 + st)\<close> by auto
      then show ?thesis using True L by (simp add: Loop_steps_def)
    next
      case False
      have "nextEventCycle ?p > currentCycle ?p + st" using True unfolding sum' by simp
      then have "Loop_while handler st ?p s = Some (Inr (?p\<lparr> currentCycle := currentCycle ?p + st \<rparr>, s))"
        using False by (subst Loop_while.simps) (simp only: if_True word_neq_0_conv simp_thms if_False)
      then show ?thesis using False L unfolding Loop_steps_def sum' by simp
    qed
  next
    case False
    let ?q = "q\<lparr> currentCycle := nextEventCycle q \<rparr>"
    have le: "nextEventCycle q \<le> currentCycle q + (1 + st)" using False by (simp add: not_less)
    note ar = step_arith_Suc [OF assms(1) le bound]
    have L: "Loop_while handler (1 + st) q s = (case Process handler ?q s of Inl e \<Rightarrow> Some (Inl e)
        | Inr (q', s') \<Rightarrow> Loop_while handler ((1 + st) - (nextEventCycle q - currentCycle q)) q' s')"
      using pos False by (subst Loop_while.simps) (simp add: Let_def)
    show ?thesis
    proof (cases "st = 0")
      case True
      then have "nextEventCycle q = currentCycle q + 1" using ar(1) by simp
      then show ?thesis using True L
        by (simp add: Loop_steps_def split: sum.split)
    next
      case False
      have "\<not> nextEventCycle ?p > currentCycle ?p + st" using le unfolding sum' by (simp add: not_less)
      then have "Loop_while handler st ?p s = (case Process handler ?q s of Inl e \<Rightarrow> Some (Inl e)
        | Inr (q', s') \<Rightarrow> Loop_while handler (st - (nextEventCycle q - (currentCycle q + 1))) q' s')"
        using False by (subst Loop_while.simps) (simp add: Let_def word_neq_0_conv)
      then show ?thesis using False L unfolding Loop_steps_def ar(2) by simp
    qed
  qed
qed

fun Loop_iter :: "'s handler \<Rightarrow> nat \<Rightarrow> EventQueue \<Rightarrow> 's \<Rightarrow> nvm_error + EventQueue \<times> 's" where
  "Loop_iter handler 0 q s = Inr (q, s)"
| "Loop_iter handler (Suc n) q s = bind_res (Loop handler q s) (\<lambda>(q', s'). Loop_iter handler n q' s')"

definition process_due :: "'s handler \<Rightarrow> EventQueue \<times> 's \<Rightarrow> nvm_error + EventQueue \<times> 's" where
  "process_due handler = (\<lambda>(q, s). if nextEventCycle q = currentCycle q then Process handler q s else Inr (q, s))"

lemma Loop_causal:
  assumes "causal handler" "eq_inv q" "currentCycle q \<le> nextEventCycle q" "currentCycle q < max_u64"
  obtains q' s' where "Loop handler q s = Inr (q'\<lparr> currentCycle := currentCycle q + 1 \<rparr>, s')"
    "eq_inv q'" "currentCycle q' = currentCycle q" "currentCycle q < nextEventCycle q'"
    "process_due handler (q, s) = Inr (q', s')"
proof (cases "nextEventCycle q = currentCycle q")
  case True
  then obtain es where es: "map_of (eventMap q) (nextEventCycle q) = Some es"
    using assms(2,4) next_of_map_cases [of "eventMap q"] by (auto simp: eq_inv_def)
  obtain q' where "Process handler q s =
      Inr (q', run_handlers handler (nextEventCycle q - lastEventCycle q) es s)" "eq_inv q'"
    "currentCycle q' = currentCycle q"
    "nextEventCycle q' = max_u64 \<and> eventMap q' = [] \<or> nextEventCycle q < nextEventCycle q'"
    using Process_causal [OF assms(1,2) es, of s] by blast
  then show ?thesis
    using that [of q' "run_handlers handler (nextEventCycle q - lastEventCycle q) es s"] True assms(4)
    by (auto simp: Loop_def process_due_def)
next
  case False
  then show ?thesis using that [of q s] assms(2,3) by (auto simp: Loop_def process_due_def)
qed

lemma Loop_steps_unit_aux:
  assumes "causal handler" "eq_inv q" "currentCycle q \<le> nextEventCycle q"
    and "unat (currentCycle q) + n < 2 ^ 64 - 1"
  shows "Loop_steps handler (of_nat n) q s = Some (bind_res (Loop_iter handler n q s) (process_due handler))"
  using assms(2-)
proof (induction n arbitrary: q s)
  case 0
  then show ?case by (simp add: Loop_steps_def process_due_def)
next
  case (Suc n)
  have un: "unat (of_nat m :: u64) = m" if "m \<le> Suc n" for m
    using that Suc.prems(3) by (simp add: unat_of_nat)
  have lt: "currentCycle q < max_u64" using Suc.prems(3) by (simp add: word_less_nat_alt unat_max_u64)
  obtain q' s' where q': "Loop handler q s = Inr (q'\<lparr> currentCycle := currentCycle q + 1 \<rparr>, s')"
    "eq_inv q'" "currentCycle q' = currentCycle q" "currentCycle q < nextEventCycle q'"
    "process_due handler (q, s) = Inr (q', s')"
    by (rule Loop_causal [OF assms(1) Suc.prems(1,2) lt])
  let ?p = "q'\<lparr> currentCycle := currentCycle q + 1 \<rparr>"
  have u1: "unat (currentCycle q + 1) = Suc (unat (currentCycle q))"
    using Suc.prems(3) by (simp add: unat_word_ariths)
  have "eq_inv ?p" using q'(2) by (simp add: eq_inv_def)
  moreover have "currentCycle ?p \<le> nextEventCycle ?p" using u64_less_Suc [OF q'(4)] by simp
  moreover have "unat (currentCycle ?p) + n < 2 ^ 64 - 1" using u1 Suc.prems(3) by simp
  ultimately have IH: "Loop_steps handler (of_nat n) ?p s' =
      Some (bind_res (Loop_iter handler n ?p s') (process_due handler))"
    by (rule Suc.IH)
  have pos: "(of_nat (Suc n) :: u64) \<noteq> 0" using un [of "Suc n"] by auto
  have "Loop_while handler (of_nat (Suc n)) q s = Loop_while handler (of_nat (Suc n)) q' s'"
  proof (cases "nextEventCycle q = currentCycle q")
    case True
    then have "Process handler q s = Inr (q', s')" using q'(5) by (simp add: process_due_def)
    moreover have "\<not> currentCycle q + of_nat (Suc n) < nextEventCycle q"
      using True Suc.prems(3) un [of "Suc n"]
      by (simp only: word_less_nat_alt unat_word_ariths) simp
    ultimately show ?thesis
      using True pos by (subst Loop_while.simps) (simp add: Let_def word_neq_0_conv [symmetric] del: of_nat_Suc)
  next
    case False
    then show ?thesis using q'(5) by (simp add: process_due_def)
  qed
  also have "\<dots> = Loop_while handler (1 + of_nat n) q' s'" by simp
  also have "\<dots> = Loop_steps handler (of_nat n) ?p s'"
    using Loop_while_Suc [of q' "of_nat n" handler s'] q'(3,4) un [of "Suc n"] un [of n] Suc.prems(3) by simp
  finally show ?case using IH pos q'(1) by (simp add: Loop_steps_def)
qed

lemma remove_ptr_insert_prio:
  "ev_id e \<notin> ev_id ` set es \<Longrightarrow> remove_ptr (ev_id e) (insert_prio e pr es) = Some es"
  by (induction es) auto

lemma insert_prio_split:
  "sorted (map ev_priority es) \<Longrightarrow> \<exists>xs ys. es = xs @ ys \<and> insert_prio e pr es = xs @ e # ys
     \<and> (\<forall>x \<in> set xs. ev_priority x \<le> pr) \<and> (\<forall>y \<in> set ys. pr < ev_priority y)"
proof (induction es)
  case (Cons x es)
  show ?case
  proof (cases "pr < ev_priority x")
    case True
    then have "\<forall>y \<in> set (x # es). pr < ev_priority y" using Cons.prems by auto
    then show ?thesis using True by (intro exI [of _ "[]"] exI [of _ "x # es"]) simp
  next
    case False
    from Cons.prems have "sorted (map ev_priority es)" by simp
    then obtain xs ys where xy: "es = xs @ ys" "insert_prio e pr es = xs @ e # ys"
      "\<forall>x \<in> set xs. ev_priority x \<le> pr" "\<forall>y \<in> set ys. pr < ev_priority y"
      using Cons.IH by blast
    then show ?thesis using False by (intro exI [of _ "x # xs"] exI [of _ ys]) auto
  qed
qed simp

lemma insert_prio_sorted:
  assumes "sorted (map ev_priority es)" "ev_priority e = pr"
  shows "sorted (map ev_priority (insert_prio e pr es))"
proof -
  obtain xs ys where "es = xs @ ys" "insert_prio e pr es = xs @ e # ys"
    "\<forall>x \<in> set xs. ev_priority x \<le> pr" "\<forall>y \<in> set ys. pr < ev_priority y"
    using insert_prio_split [OF assms(1)] by blast
  then show ?thesis using assms by (fastforce simp: sorted_append)
qed

lemma list_at_InsertEvent:
  "list_at (InsertEvent q e w pr) k =
     (if k = w then insert_prio (e\<lparr> ev_cycle := w \<rparr>) pr (list_at q w) else list_at q k)"
  by (cases "k = w") (simp_all add: list_at_InsertEvent_other, simp add: list_at_def [of "InsertEvent q e w pr"]
      InsertEvent_eventMap map_of_omap_upd)

lemma InsertCallback_eq:
  "InsertCallback q children p recipient method w data pr = Inr q' \<longleftrightarrow>
     (\<exists>hook. find_hook children recipient = Some hook \<and>
       q' = InsertEvent q \<lparr> ev_id = p, ev_type = EventCallback, ev_recipient = Some hook,
         ev_request = None, ev_data = data, ev_cycle = w, ev_priority = pr, ev_method = method \<rparr> w pr)"
  by (auto simp: InsertCallback_def SetRecipient_def Event_init_def split: option.splits)

definition prio_sorted :: "EventQueue \<Rightarrow> bool" where
  "prio_sorted q \<longleftrightarrow> (\<forall>(k, es) \<in> set (eventMap q). sorted (map ev_priority es))"

lemma prio_sorted_list_at: "eq_inv q \<Longrightarrow> prio_sorted q \<longleftrightarrow> (\<forall>k. sorted (map ev_priority (list_at q k)))"
proof -
  assume inv: "eq_inv q"
  then have "distinct (keys (eventMap q))"
    by (auto simp: eq_inv_def omap_wf_def strict_sorted_iff)
  then have "(k, es) \<in> set (eventMap q) \<longleftrightarrow> map_of (eventMap q) k = Some es" for k es
    by simp
  then show ?thesis by (fastforce simp: prio_sorted_def list_at_def split: option.splits)
qed

lemma list_at_init [simp]: "list_at EventQueue_init k = []"
  by (simp add: list_at_def EventQueue_init_def)

text \<open>
  C34: Cancelling undoes scheduling. For a queue in which no event of cycle \<open>w\<close> has the
  address of \<open>e\<close>, \<open>RemoveEvent\<close> right after \<open>InsertEvent\<close> reports success and restores the
  whole queue: its map, its next event cycle and its clock.
\<close>

theorem RemoveEvent_InsertEvent:
  assumes "eq_inv q" "ev_id e \<notin> ev_id ` set (list_at q w)"
  shows "RemoveEvent (InsertEvent q e w pr) (ev_id e) w = (q, True)"
proof -
  let ?q = "InsertEvent q e w pr"
  let ?es = "insert_prio (e\<lparr> ev_cycle := w \<rparr>) pr (list_at q w)"
  have wf: "omap_wf (eventMap q)" and nx: "next_of_map (eventMap q) = nextEventCycle q"
    using assms(1) by (simp_all add: eq_inv_def)
  have look: "map_of (eventMap ?q) w = Some ?es"
    by (simp add: InsertEvent_eventMap map_of_omap_upd)
  have rm: "remove_ptr (ev_id e) ?es = Some (list_at q w)"
    using remove_ptr_insert_prio [of "e\<lparr> ev_cycle := w \<rparr>"] assms(2) by simp
  have m: "(if list_at q w = [] then omap_del w (eventMap ?q) else omap_upd w (list_at q w) (eventMap ?q))
      = eventMap q"
  proof (cases "map_of (eventMap q) w")
    case None
    then show ?thesis using wf by (simp add: list_at_def InsertEvent_eventMap omap_upd_del_fresh)
  next
    case (Some es)
    then show ?thesis
      using assms(1) wf by (simp add: list_at_def InsertEvent_eventMap omap_upd_upd omap_upd_same eq_inv_def)
  qed
  have "q = ?q\<lparr> eventMap := eventMap q, nextEventCycle := nextEventCycle q \<rparr>"
    by (cases q) (simp add: InsertEvent_def Let_def split: option.splits)
  then show ?thesis by (simp add: RemoveEvent_def look rm m nx)
qed

theorem RemoveEvent_InsertEvent_witness:
  "RemoveEvent (InsertEvent (InsertEvent EventQueue_init (Event_init 1) 5 0) (Event_init 2) 5 0) 2 5
     = (InsertEvent EventQueue_init (Event_init 1) 5 0, True)"
proof -
  have "eq_inv (InsertEvent EventQueue_init (Event_init 1) 5 0)"
    by (intro InsertEvent_inv) (simp add: eq_inv_def EventQueue_init_def omap_wf_def next_of_map_def omap_first_def)
  moreover have "ev_id (Event_init 2) \<notin> ev_id ` set (list_at (InsertEvent EventQueue_init (Event_init 1) 5 0) 5)"
    by (simp add: list_at_InsertEvent Event_init_def)
  ultimately show ?thesis
    using RemoveEvent_InsertEvent [of _ "Event_init 2" 5 0] by (simp add: Event_init_def)
qed

text \<open>
  Callbacks of one cycle are kept in order of priority, first come first served among
  equals: \<open>InsertCallback\<close> puts the new event after the events whose priority is at most its
  own and before the others, and leaves the other cycles alone.
\<close>

theorem InsertCallback_sorted:
  assumes "eq_inv q" "prio_sorted q"
    and "InsertCallback q children p recipient method w data pr = Inr q'"
  shows "prio_sorted q' \<and> (\<forall>k. k \<noteq> w \<longrightarrow> list_at q' k = list_at q k)
    \<and> (\<exists>xs e ys. list_at q w = xs @ ys \<and> list_at q' w = xs @ e # ys
        \<and> ev_id e = p \<and> ev_method e = method \<and> ev_data e = data \<and> ev_cycle e = w
        \<and> (\<forall>x \<in> set xs. ev_priority x \<le> pr) \<and> (\<forall>y \<in> set ys. pr < ev_priority y))"
proof -
  obtain hook where q': "q' = InsertEvent q \<lparr> ev_id = p, ev_type = EventCallback,
      ev_recipient = Some hook, ev_request = None, ev_data = data, ev_cycle = w, ev_priority = pr,
      ev_method = method \<rparr> w pr" (is "_ = InsertEvent q ?e w pr")
    using assms(3) InsertCallback_eq by blast
  have inv: "eq_inv q'" using assms(1) q' InsertEvent_inv by simp
  have srt: "\<forall>k. sorted (map ev_priority (list_at q k))"
    using assms(1,2) prio_sorted_list_at by blast
  then have "prio_sorted q'"
    using prio_sorted_list_at [OF inv] insert_prio_sorted by (simp add: q' list_at_InsertEvent)
  moreover obtain xs ys where xy: "list_at q w = xs @ ys"
    "insert_prio ?e pr (list_at q w) = xs @ ?e # ys"
    "\<forall>x \<in> set xs. ev_priority x \<le> pr" "\<forall>y \<in> set ys. pr < ev_priority y"
    using insert_prio_split srt by blast
  moreover have "list_at q' w = xs @ ?e # ys" using xy(2) by (simp add: q' list_at_InsertEvent)
  ultimately show ?thesis
    by (intro conjI exI [of _ xs] exI [of _ ?e] exI [of _ ys])
      (simp_all add: q' list_at_InsertEvent)
qed

lemma init_inv: "eq_inv EventQueue_init" "prio_sorted EventQueue_init"
  by (simp_all add: eq_inv_def prio_sorted_def EventQueue_init_def omap_wf_def next_of_map_def omap_first_def)

theorem InsertCallback_sorted_witness:
  "prio_sorted (InsertEvent EventQueue_init \<lparr> ev_id = 1, ev_type = EventCallback,
     ev_recipient = Some 10, ev_request = None, ev_data = None, ev_cycle = 5, ev_priority = 40,
     ev_method = Some 3 \<rparr> 5 40)"
  by (rule InsertCallback_sorted [THEN conjunct1, OF init_inv, of "[(10, 20)]" 1 20 "Some 3" 5 None 40])
    (simp add: InsertCallback_eq)

text \<open>
  The overload that builds the event never stores its priority: the new event counts as
  priority 0 for every later insertion, so a later callback of priority 30 runs after
  an event inserted with priority 40.
\<close>

lemma InsertEvent_hook_loses_priority:
  "map ev_id (list_at
     (InsertEvent (InsertEvent_hook EventQueue_init 1 EventCycle (Some 10) None 5 None 40)
        ((Event_init 2)\<lparr> ev_priority := 30 \<rparr>) 5 30) 5) = [1, 2]"
  by (simp add: list_at_InsertEvent InsertEvent_hook_def Event_init_def)


text \<open>A handler for the witnesses: it counts its calls, and before cycle 20 asks to be called at 20.\<close>

definition tick :: "nat handler" where
  "tick s e steps = (Suc s, if ev_cycle e < 20 then [QInsert ((Event_init 9)\<lparr> ev_type := EventCallback \<rparr>) 20 0] else [])"

definition tick_queue :: EventQueue where
  "tick_queue = InsertEvent (InsertEvent EventQueue_init ((Event_init 1)\<lparr> ev_type := EventCallback \<rparr>) 5 0)
     ((Event_init 2)\<lparr> ev_type := EventCycle \<rparr>) 5 0"

lemma tick_causal: "causal tick"
  by (simp add: causal_def tick_def)

lemma tick_queue_inv: "eq_inv tick_queue"
  unfolding tick_queue_def by (intro InsertEvent_inv init_inv)

lemma tick_queue_state:
  "nextEventCycle tick_queue = 5" "currentCycle tick_queue = 0" "lastEventCycle tick_queue = 0"
  "map_of (eventMap tick_queue) 5 = Some [(Event_init 1)\<lparr> ev_type := EventCallback, ev_cycle := 5 \<rparr>,
     (Event_init 2)\<lparr> ev_type := EventCycle, ev_cycle := 5 \<rparr>]"
  by (simp_all add: tick_queue_def InsertEvent_def EventQueue_init_def max_u64_def Let_def Event_init_def)


text \<open>
  \<open>Loop( steps )\<close> ends, without an error, with the clock advanced by exactly \<open>steps\<close>
  cycles and with no event left at or before the new current cycle. It needs a handler that
  schedules only ahead, a queue whose next event is not in the past, and a clock that stays
  below the maximal cycle, which stands for \<open>no event\<close>.
\<close>

theorem Loop_steps_runs_due:
  assumes "causal handler" "eq_inv q" "currentCycle q \<le> nextEventCycle q" "0 < steps"
    and "unat (currentCycle q) + unat steps < 2 ^ 64 - 1"
  shows "\<exists>q' s'. Loop_steps handler steps q s = Some (Inr (q', s')) \<and> eq_inv q'
    \<and> currentCycle q' = currentCycle q + steps
    \<and> (\<forall>k. list_at q' k \<noteq> [] \<longrightarrow> currentCycle q' < k)"
proof -
  obtain q' s' where q': "Loop_while handler steps q s = Some (Inr (q', s'))" "eq_inv q'"
    "currentCycle q' = currentCycle q + steps" "currentCycle q' < nextEventCycle q'"
    using Loop_while_causal [OF assms(1-3,5), of s] assms(4) by blast
  have "currentCycle q' < k" if "list_at q' k \<noteq> []" for k
    using that q'(2,4) next_of_map_least [of "eventMap q'" k]
    by (auto simp: list_at_def eq_inv_def split: option.splits)
  then show ?thesis using q' assms(4) by (auto simp: Loop_steps_def)
qed

theorem Loop_steps_runs_due_witness:
  "\<exists>q' s'. Loop_steps tick 30 tick_queue 0 = Some (Inr (q', s')) \<and> currentCycle q' = 30"
  using Loop_steps_runs_due [OF tick_causal tick_queue_inv, of 30 0] tick_queue_state by auto




text \<open>The handler of the witness asks for one more event in cycle 5 at its second call.\<close>

definition late_insert :: "nat handler" where
  "late_insert s e steps = (Suc s, if s = 1 then [QInsert (Event_init 3) 5 0] else [])"

definition two_callbacks :: EventQueue where
  "two_callbacks = InsertEvent (InsertEvent EventQueue_init ((Event_init 1)\<lparr> ev_type := EventCallback \<rparr>) 5 0)
     ((Event_init 2)\<lparr> ev_type := EventCallback \<rparr>) 5 0"


end
