(* ===== verification/Nvm_DataBlock.thy ===== *)
theory Nvm_DataBlock
  imports Nvm_Prelude
begin

text \<open>
  \<^verbatim>\<open>include/NVMDataBlock.cpp\<close>: the block of bytes that requests and cache entries carry.
  \<open>rawData\<close> is the array the pointer owns (\<open>None\<close> for the null pointer); its length is what
  was allocated, which the member \<^verbatim>\<open>size\<close> need not agree with after an assignment. An access
  outside the array, or through the null pointer, is the error \<open>OutOfBounds\<close>, a
  \<^verbatim>\<open>memcpy\<close> past its end \<open>BufferOverflow\<close>.
\<close>

record NVMDataBlock =
  rawData :: "u8 list option"
  isValid :: bool
  db_size :: u64

definition NVMDataBlock_init :: NVMDataBlock where
  "NVMDataBlock_init = \<lparr> rawData = None, isValid = False, db_size = 0 \<rparr>"

text \<open>\<open>new\<close> leaves the bytes uninitialised: \<open>garbage\<close> says what they are.\<close>

definition SetSize :: "(nat \<Rightarrow> u8) \<Rightarrow> NVMDataBlock \<Rightarrow> u64 \<Rightarrow> nvm_error + NVMDataBlock" where
  "SetSize garbage b s =
     (if rawData b \<noteq> None then Inl AssertFailed
      else Inr \<lparr> rawData = Some (map garbage [0..<unat s]), isValid = True, db_size = s \<rparr>)"

definition GetByte :: "NVMDataBlock \<Rightarrow> u64 \<Rightarrow> nvm_error + u8" where
  "GetByte b byte =
     (if isValid b \<and> byte \<le> db_size b then
        (case rawData b of
           None \<Rightarrow> Inl OutOfBounds
         | Some xs \<Rightarrow> if unat byte < length xs then Inr (xs ! unat byte) else Inl OutOfBounds)
      else Inr 0)"

definition SetByte :: "NVMDataBlock \<Rightarrow> u64 \<Rightarrow> u8 \<Rightarrow> nvm_error + NVMDataBlock" where
  "SetByte b byte value =
     (if byte \<le> db_size b then
        (case rawData b of
           None \<Rightarrow> Inl OutOfBounds
         | Some xs \<Rightarrow>
             if unat byte < length xs then Inr (b\<lparr> rawData := Some (xs[unat byte := value]) \<rparr>)
             else Inl OutOfBounds)
      else Inl AssertFailed)"

definition SetValid :: "NVMDataBlock \<Rightarrow> bool \<Rightarrow> NVMDataBlock" where
  "SetValid b valid = b\<lparr> isValid := valid \<rparr>"

text \<open>
  \<^verbatim>\<open>dst = m\<close>. The array of \<open>dst\<close> is kept when it has one, whatever its length, and
  allocated with \<^verbatim>\<open>m.size\<close> bytes otherwise; then \<^verbatim>\<open>m.size\<close> bytes are copied.
\<close>

definition assign :: "NVMDataBlock \<Rightarrow> NVMDataBlock \<Rightarrow> nvm_error + NVMDataBlock" where
  "assign dst m =
     (case rawData m of
        None \<Rightarrow> Inr (dst\<lparr> isValid := isValid m, db_size := db_size m \<rparr>)
      | Some src \<Rightarrow>
          let n = unat (db_size m);
              buf = (case rawData dst of None \<Rightarrow> replicate n 0 | Some xs \<Rightarrow> xs)
          in if n \<le> length src \<and> n \<le> length buf
             then Inr \<lparr> rawData = Some (take n src @ drop n buf), isValid = isValid m,
                        db_size = db_size m \<rparr>
             else Inl BufferOverflow)"

section \<open>The size of a word\<close>

text \<open>
  The members of \<^verbatim>\<open>Params\<close> that give the number of bytes one access moves and a row
  holds; the encoder and the endurance models compute both with the same lines.
\<close>

record WordParams =
  wp_BusWidth :: u64
  wp_tBURST :: u64
  wp_RATE :: u64
  wp_COLS :: u64

definition wordSize :: "WordParams \<Rightarrow> u64" where
  "wordSize p = wp_BusWidth p * (wp_tBURST p * wp_RATE p) div 8"

definition rowSize :: "WordParams \<Rightarrow> u64" where
  "rowSize p = wp_COLS p * wordSize p"

section \<open>Blocks of a fixed size\<close>

text \<open>A block of \<open>n\<close> bytes, as \<open>SetSize\<close> makes it, and one that was never allocated.\<close>

definition block_ok :: "nat \<Rightarrow> NVMDataBlock \<Rightarrow> bool" where
  "block_ok n b \<longleftrightarrow> (\<exists>xs. rawData b = Some xs \<and> length xs = n) \<and> unat (db_size b) = n \<and> isValid b"

definition block_fresh :: "NVMDataBlock \<Rightarrow> bool" where
  "block_fresh b \<longleftrightarrow> rawData b = None"

definition bytes :: "NVMDataBlock \<Rightarrow> u8 list" where
  "bytes b = (case rawData b of None \<Rightarrow> [] | Some xs \<Rightarrow> xs)"

lemma block_fresh_init [simp]: "block_fresh NVMDataBlock_init"
  by (simp add: block_fresh_def NVMDataBlock_init_def)

lemma block_ok_bytes: "block_ok n b \<Longrightarrow> rawData b = Some (bytes b) \<and> length (bytes b) = n"
  by (auto simp: block_ok_def bytes_def)

lemma block_eqI: "block_ok n a \<Longrightarrow> block_ok n b \<Longrightarrow> bytes a = bytes b \<Longrightarrow> a = b"
  by (cases a, cases b) (auto simp: block_ok_def bytes_def word_unat_eq_iff)

lemma GetByte_ok: "block_ok n b \<Longrightarrow> unat i < n \<Longrightarrow> GetByte b i = Inr (bytes b ! unat i)"
  by (auto simp: GetByte_def block_ok_def bytes_def word_le_nat_alt)

lemma SetByte_ok:
  "block_ok n b \<Longrightarrow> unat i < n \<Longrightarrow>
     SetByte b i v = Inr (b\<lparr> rawData := Some ((bytes b)[unat i := v]) \<rparr>)"
  by (auto simp: SetByte_def block_ok_def bytes_def word_le_nat_alt)

lemma block_ok_upd [simp]: "block_ok n b \<Longrightarrow> length xs = n \<Longrightarrow> block_ok n (b\<lparr> rawData := Some xs \<rparr>)"
  by (auto simp: block_ok_def)

lemma bytes_upd [simp]: "bytes (b\<lparr> rawData := Some xs \<rparr>) = xs"
  by (simp add: bytes_def)

lemma assign_ok:
  assumes "block_ok n m" "block_ok n dst \<or> block_fresh dst"
  shows "assign dst m = Inr m"
  using assms by (cases m) (auto simp: assign_def block_ok_def block_fresh_def Let_def)

text \<open>
  Within a block of \<open>n\<close> bytes, reading after writing a byte gives the byte written and
  leaves every other byte as it was, and neither access fails.
\<close>

theorem GetByte_SetByte:
  assumes "block_ok n b" "unat i < n" "unat j < n"
  shows "\<exists>b'. SetByte b i v = Inr b' \<and> block_ok n b'
    \<and> GetByte b' j = (if j = i then Inr v else GetByte b j)"
proof (intro exI conjI)
  let ?b = "b\<lparr> rawData := Some ((bytes b)[unat i := v]) \<rparr>"
  show "SetByte b i v = Inr ?b" using assms(1,2) by (rule SetByte_ok)
  show ok: "block_ok n ?b" using assms(1) block_ok_bytes by simp
  show "GetByte ?b j = (if j = i then Inr v else GetByte b j)"
    using GetByte_ok [OF ok assms(3)] GetByte_ok [OF assms(1,3)] assms(2) block_ok_bytes [OF assms(1)]
    by (simp add: nth_list_update u64_eq_iff_unat)
qed

definition zero_block :: "u64 \<Rightarrow> NVMDataBlock" where
  "zero_block s = \<lparr> rawData = Some (replicate (unat s) 0), isValid = True, db_size = s \<rparr>"

lemma zero_block_ok: "block_ok (unat s) (zero_block s)"
  by (simp add: block_ok_def zero_block_def)

theorem GetByte_SetByte_witness:
  "\<exists>b'. SetByte (zero_block 64) 5 255 = Inr b' \<and> GetByte b' 5 = Inr 255"
  using GetByte_SetByte [OF zero_block_ok [of 64], of 5 5 255] by auto

text \<open>
  The bounds tests of \<open>GetByte\<close> and \<open>SetByte\<close> are off by one: on every valid block the
  index \<open>size\<close> itself passes them and the access leaves the array.
\<close>

theorem byte_access_at_size_escapes:
  assumes "block_ok n b"
  shows "GetByte b (db_size b) = Inl OutOfBounds \<and> SetByte b (db_size b) v = Inl OutOfBounds"
  using assms by (auto simp: GetByte_def SetByte_def block_ok_def)

theorem byte_access_at_size_escapes_witness:
  "GetByte (zero_block 64) 64 = Inl OutOfBounds \<and> SetByte (zero_block 64) 64 1 = Inl OutOfBounds"
  using byte_access_at_size_escapes [OF zero_block_ok [of 64], of 1] by (simp add: zero_block_def)

text \<open>
  Assigning a block to one that was allocated shorter copies past the end of its array: the
  assignment operator never reallocates.
\<close>

lemma assign_shorter_overflows:
  assumes "block_ok n m" "block_ok k dst" "k < n"
  shows "assign dst m = Inl BufferOverflow"
  using assms by (auto simp: assign_def block_ok_def Let_def)

end
