(* ===== verification/Nvm_Request.thy ===== *)
theory Nvm_Request
  imports Nvm_Address Nvm_EventQueue Nvm_DataBlock
begin

text \<open>
  \<^verbatim>\<open>include/NVMainRequest.h\<close>, the parameters of \<^verbatim>\<open>src/Params.h\<close> the memory controllers read,
  and the interface of the module below a controller.

  Of a request the members the modelled parts read or write are kept (\<^verbatim>\<open>bulkCmd\<close> never holds anything but
  \<^verbatim>\<open>CMD_NOP\<close>); \<open>rq_id\<close> is its address.
  Objects (owners) are named by numbers. The child module (interconnect, ranks, banks and
  subarrays) is reached through virtual calls: \<open>child\<close> holds them as functions of the child's
  state and the current cycle, \<open>ch_subarray\<close> is what \<^verbatim>\<open>FindChild( req, SubArray )\<close> and the
  queries \<^verbatim>\<open>IsWriting\<close> and \<^verbatim>\<open>BetweenWriteIterations\<close> return.
\<close>

datatype OpType =
    NOP | ACTIVATE | READ | READ_PRECHARGE | WRITE | WRITE_PRECHARGE | PRECHARGE | PRECHARGE_ALL
  | POWERDOWN_PDA | POWERDOWN_PDPF | POWERDOWN_PDPS | POWERUP | REFRESH | BUS_READ | BUS_WRITE
  | CACHED_READ | CACHED_WRITE

datatype MemRequestStatus = MEM_REQUEST_INCOMPLETE | MEM_REQUEST_COMPLETE | MEM_REQUEST_RETRY

definition FLAG_LAST_REQUEST :: u64 where "FLAG_LAST_REQUEST = 1"
definition FLAG_CANCELLED :: u64 where "FLAG_CANCELLED = 8"
definition FLAG_PAUSED :: u64 where "FLAG_PAUSED = 16"
definition FLAG_FORCED :: u64 where "FLAG_FORCED = 32"
definition FLAG_PRIORITY :: u64 where "FLAG_PRIORITY = 64"
definition FLAG_ISSUED :: u64 where "FLAG_ISSUED = 128"

record NVMainRequest =
  rq_id :: nat
  rq_type :: OpType
  rq_address :: NVMAddress
  rq_flags :: u64
  rq_status :: MemRequestStatus
  rq_owner :: nat
  rq_arrivalCycle :: ncycle_t
  rq_issueCycle :: ncycle_t
  rq_completionCycle :: ncycle_t
  rq_data :: NVMDataBlock
  rq_oldData :: NVMDataBlock
  rq_burstCount :: u64
  rq_writeProgress :: ncycle_t
  rq_cancellations :: ncycle_t
  rq_isPrefetch :: bool
  rq_programCounter :: u64
  rq_tag :: int

definition has_flag :: "u64 \<Rightarrow> NVMainRequest \<Rightarrow> bool" where
  "has_flag f r \<longleftrightarrow> rq_flags r AND f \<noteq> 0"

definition add_flag :: "u64 \<Rightarrow> NVMainRequest \<Rightarrow> NVMainRequest" where
  "add_flag f r = r\<lparr> rq_flags := rq_flags r OR f \<rparr>"

definition del_flag :: "u64 \<Rightarrow> NVMainRequest \<Rightarrow> NVMainRequest" where
  "del_flag f r = r\<lparr> rq_flags := rq_flags r AND NOT f \<rparr>"

text \<open>
  The constructor; it leaves the status uninitialised, here incomplete. The default address
  is untranslated.
\<close>

definition NVMainRequest_init :: "nat \<Rightarrow> NVMainRequest" where
  "NVMainRequest_init p =
     \<lparr> rq_id = p, rq_type = NOP, rq_address = NVMAddress_init 0, rq_flags = 0,
       rq_status = MEM_REQUEST_INCOMPLETE, rq_owner = 0, rq_arrivalCycle = 0, rq_issueCycle = 0,
       rq_completionCycle = 0, rq_data = NVMDataBlock_init, rq_oldData = NVMDataBlock_init,
       rq_burstCount = 1, rq_writeProgress = 0, rq_cancellations = 0,
       rq_isPrefetch = False, rq_programCounter = 0, rq_tag = 0 \<rparr>"

text \<open>
  \<^verbatim>\<open>NVMainRequest *c = new NVMainRequest( ); *c = *m;\<close>: the assignment leaves the flags, the
  burst count, the write progress and the cancellations of the new request at their defaults.
  The blocks of a new request are empty, so their assignment is a copy.
\<close>

definition copy_request :: "nat \<Rightarrow> NVMainRequest \<Rightarrow> NVMainRequest" where
  "copy_request p m =
     (NVMainRequest_init p)\<lparr> rq_address := rq_address m, rq_type := rq_type m, rq_data := rq_data m,
        rq_oldData := rq_oldData m, rq_status := rq_status m, rq_owner := rq_owner m,
        rq_arrivalCycle := rq_arrivalCycle m, rq_issueCycle := rq_issueCycle m,
        rq_completionCycle := rq_completionCycle m,
        rq_isPrefetch := rq_isPrefetch m, rq_programCounter := rq_programCounter m, rq_tag := rq_tag m \<rparr>"

definition WasIssued :: "NVMainRequest \<Rightarrow> bool" where
  "WasIssued r \<longleftrightarrow> has_flag FLAG_ISSUED r"

datatype PauseMode = PauseMode_Normal | PauseMode_IIWC | PauseMode_Optimal

record MCParams =
  EventDriven :: bool
  UseLowPower :: bool
  PowerDownMode :: string
  InitPD :: bool
  RefreshRows :: u64
  UseRefresh :: bool
  UsePrecharge :: bool
  ROWS :: u64
  RANKS :: u64
  BANKS :: u64
  RBSize :: u64
  tREFW :: u64
  ClosePage :: u64
  ScheduleScheme :: int
  BanksPerRefresh :: u64
  DelayedRefreshThreshold :: u64
  DeadlockTimer :: u64
  WritePausing :: bool
  pauseMode :: PauseMode

record 'c child =
  ch_IsIssuable :: "'c \<Rightarrow> ncycle_t \<Rightarrow> NVMainRequest \<Rightarrow> bool"
  ch_NextIssuable :: "'c \<Rightarrow> ncycle_t \<Rightarrow> NVMainRequest \<Rightarrow> ncycle_t"
  ch_IssueCommand :: "'c \<Rightarrow> EventQueue \<Rightarrow> NVMainRequest \<Rightarrow> 'c \<times> EventQueue"
  ch_Cycle :: "'c \<Rightarrow> ncycle_t \<Rightarrow> 'c"
  ch_subarray :: "'c \<Rightarrow> NVMainRequest \<Rightarrow> (bool \<times> bool) option"
  ch_rank_idle :: "'c \<Rightarrow> NVMainRequest \<Rightarrow> bool"

end
