(* ===== verification/Nvm_Controller.thy ===== *)
theory Nvm_Controller
  imports Nvm_Request
begin

text \<open>
  \<^verbatim>\<open>src/MemoryController.cpp\<close>: the base of the memory controllers. Transactions (reads and
  writes) wait in transaction queues; the scheduling functions \<^verbatim>\<open>Find...\<close> take one out,
  \<^verbatim>\<open>IssueMemoryCommands\<close> turns it into commands of a command queue and updates the bank
  state, \<^verbatim>\<open>CycleCommandQueues\<close> sends queue heads to the memory.

  The arrays \<^verbatim>\<open>activateQueued[rank][bank]\<close> and the like are functions of their indices; an
  operation whose index is outside the allocated array is the error \<open>OutOfBounds\<close>. New
  events and requests get the addresses \<open>mc_fresh\<close>, \<open>mc_fresh + 1\<close>, and so on. The three
  functions \<^verbatim>\<open>ScheduleCommandWake\<close>, \<^verbatim>\<open>NextIssuable\<close> and \<^verbatim>\<open>HandleRefresh\<close> call one another;
  \<open>wake\<close> ties the knot with a depth bound.
\<close>

datatype QueueModel = PerRankQueues | PerBankQueues | PerSubArrayQueues

definition transactionQueuePriority :: int where "transactionQueuePriority = 30"
definition commandQueuePriority :: int where "commandQueuePriority = 40"
definition refreshPriority :: int where "refreshPriority = 20"
definition cleanupPriority :: int where "cleanupPriority = - 10"

text \<open>Names for the member functions that are scheduled as callbacks.\<close>

definition cb_CommandQueue :: nat where "cb_CommandQueue = 1"
definition cb_Cleanup :: nat where "cb_Cleanup = 2"
definition cb_Refresh :: nat where "cb_Refresh = 3"

record 'c MemoryController =
  mc_p :: MCParams
  mc_id :: u64
  mc_this :: nat
  mc_children :: "(nat \<times> nat) list"
  mc_trampoline :: "nat \<Rightarrow> nat"
  mc_decoder :: AddressTranslator
  mc_queue :: EventQueue
  mc_fresh :: nat
  mc_child :: 'c
  transactionQueues :: "NVMainRequest list list"
  commandQueues :: "u64 \<Rightarrow> NVMainRequest list"
  commandQueueCount :: u64
  queueModel :: QueueModel
  subArrayNum :: u64
  starvationThreshold :: u64
  activateQueued :: "u64 \<Rightarrow> u64 \<Rightarrow> bool"
  refreshQueued :: "u64 \<Rightarrow> u64 \<Rightarrow> bool"
  bankNeedRefresh :: "u64 \<Rightarrow> u64 \<Rightarrow> bool"
  effectiveRow :: "u64 \<Rightarrow> u64 \<Rightarrow> u64 \<Rightarrow> u64"
  effectiveMuxedRow :: "u64 \<Rightarrow> u64 \<Rightarrow> u64 \<Rightarrow> u64"
  activeSubArray :: "u64 \<Rightarrow> u64 \<Rightarrow> u64 \<Rightarrow> bool"
  starvationCounter :: "u64 \<Rightarrow> u64 \<Rightarrow> u64 \<Rightarrow> u64"
  rankPowerDown :: "u64 \<Rightarrow> bool"
  delayedRefreshCounter :: "u64 \<Rightarrow> u64 \<Rightarrow> u64"
  m_tREFI :: u64
  m_refreshBankNum :: u64
  lastCommandWake :: ncycle_t
  wakeupCount :: u64
  lastIssueCycle :: ncycle_t
  handledRefresh :: ncycle_t
  curQueue :: u64
  nextRefreshRank :: u64
  nextRefreshBank :: u64

abbreviation now :: "'c MemoryController \<Rightarrow> ncycle_t" where
  "now m \<equiv> currentCycle (mc_queue m)"

definition upd2 :: "('a \<Rightarrow> 'b \<Rightarrow> 'v) \<Rightarrow> 'a \<Rightarrow> 'b \<Rightarrow> 'v \<Rightarrow> 'a \<Rightarrow> 'b \<Rightarrow> 'v" where
  "upd2 f a b v = f(a := (f a)(b := v))"

definition upd3 :: "('a \<Rightarrow> 'b \<Rightarrow> 'c \<Rightarrow> 'v) \<Rightarrow> 'a \<Rightarrow> 'b \<Rightarrow> 'c \<Rightarrow> 'v \<Rightarrow> 'a \<Rightarrow> 'b \<Rightarrow> 'c \<Rightarrow> 'v" where
  "upd3 f a b c v = f(a := (f a)(b := (f a b)(c := v)))"

definition in_bank :: "'c MemoryController \<Rightarrow> u64 \<Rightarrow> u64 \<Rightarrow> bool" where
  "in_bank m rank bank \<longleftrightarrow> rank < RANKS (mc_p m) \<and> bank < BANKS (mc_p m)"

definition in_subarray :: "'c MemoryController \<Rightarrow> u64 \<Rightarrow> u64 \<Rightarrow> u64 \<Rightarrow> bool" where
  "in_subarray m rank bank sa \<longleftrightarrow> in_bank m rank bank \<and> sa < subArrayNum m"

definition bound_res :: "bool \<Rightarrow> nvm_error + unit" where
  "bound_res b = (if b then Inr () else Inl OutOfBounds)"

section \<open>Queues\<close>

text \<open>\<^verbatim>\<open>NVMAddress( 0, 0, bank, rank, 0, 0 )\<close>\<close>

definition bank_address :: "u64 \<Rightarrow> u64 \<Rightarrow> NVMAddress" where
  "bank_address rank bank = SetTranslatedAddress (NVMAddress_init 0) 0 0 bank rank 0 0"

definition GetCommandQueueId :: "'c MemoryController \<Rightarrow> NVMAddress \<Rightarrow> nvm_error + u64" where
  "GetCommandQueueId m addr =
     (let queueId =
        (case queueModel m of
           PerRankQueues \<Rightarrow> na_rank addr
         | PerBankQueues \<Rightarrow>
             (if ScheduleScheme (mc_p m) = 1 then na_bank addr * RANKS (mc_p m) + na_rank addr
              else if ScheduleScheme (mc_p m) = 2 then na_rank addr * BANKS (mc_p m) + na_bank addr
              else max_u64)
         | PerSubArrayQueues \<Rightarrow>
             na_rank addr * BANKS (mc_p m) * subArrayNum m + na_bank addr * subArrayNum m
               + na_subarray addr)
      in if queueId < commandQueueCount m then Inr queueId else Inl AssertFailed)"

definition push_command :: "'c MemoryController \<Rightarrow> u64 \<Rightarrow> NVMainRequest \<Rightarrow> 'c MemoryController" where
  "push_command m q r = m\<lparr> commandQueues := (commandQueues m)(q := commandQueues m q @ [r]) \<rparr>"

definition EffectivelyEmpty :: "'c MemoryController \<Rightarrow> u64 \<Rightarrow> nvm_error + bool" where
  "EffectivelyEmpty m queueId =
     (if queueId < commandQueueCount m then
        Inr (case commandQueues m queueId of [] \<Rightarrow> True | [r] \<Rightarrow> WasIssued r | _ \<Rightarrow> False)
      else Inl AssertFailed)"

definition RankQueueEmpty :: "'c MemoryController \<Rightarrow> u64 \<Rightarrow> nvm_error + bool" where
  "RankQueueEmpty m rankId =
     fold_res (\<lambda>i rv. if \<not> rv then Inr False
       else bind_res (GetCommandQueueId m (bank_address rankId (of_nat i))) (\<lambda>queueId.
         Inr (commandQueues m queueId = []))) [0..<unat (BANKS (mc_p m))] True"

definition MoveCurrentQueue :: "'c MemoryController \<Rightarrow> 'c MemoryController" where
  "MoveCurrentQueue m =
     (if ScheduleScheme (mc_p m) \<noteq> 0 then
        let c = curQueue m + 1 in m\<lparr> curQueue := if c > commandQueueCount m then 0 else c \<rparr>
      else m)"

text \<open>
  A request of a transaction queue for command queue \<open>queueId\<close>: the outer loop of the source
  goes on after a match, the inner one stops.
\<close>

fun available_in :: "'c MemoryController \<Rightarrow> u64 \<Rightarrow> NVMainRequest list \<Rightarrow> nvm_error + bool" where
  "available_in m queueId [] = Inr False"
| "available_in m queueId (r # rs) =
     bind_res (GetCommandQueueId m (rq_address r)) (\<lambda>q.
     if q = queueId then Inr True else available_in m queueId rs)"

definition TransactionAvailable :: "'c MemoryController \<Rightarrow> u64 \<Rightarrow> nvm_error + bool" where
  "TransactionAvailable m queueId =
     fold_res (\<lambda>rs rv. bind_res (available_in m queueId rs) (\<lambda>b. Inr (rv \<or> b)))
       (transactionQueues m) False"

section \<open>Events\<close>

definition insert_callback ::
  "'c MemoryController \<Rightarrow> nat \<Rightarrow> ncycle_t \<Rightarrow> nat option \<Rightarrow> int \<Rightarrow> nvm_error + 'c MemoryController" where
  "insert_callback m method when data priority =
     bind_res (InsertCallback (mc_queue m) (mc_children m) (mc_fresh m) (mc_this m) (Some method) when data priority)
       (\<lambda>q. Inr (m\<lparr> mc_queue := q, mc_fresh := Suc (mc_fresh m) \<rparr>))"

definition callback_scheduled ::
  "'c MemoryController \<Rightarrow> nat \<Rightarrow> ncycle_t \<Rightarrow> int \<Rightarrow> bool" where
  "callback_scheduled m method when priority \<longleftrightarrow>
     FindCallback (mc_queue m) (mc_trampoline m) (mc_this m) (Some method) when None priority \<noteq> None"

definition insert_cycle ::
  "'c MemoryController \<Rightarrow> ncycle_t \<Rightarrow> nvm_error + 'c MemoryController" where
  "insert_cycle m when =
     bind_res (InsertEvent_object (mc_queue m) (mc_children m) (mc_fresh m) EventCycle (mc_this m) None when None
        transactionQueuePriority)
       (\<lambda>q. Inr (m\<lparr> mc_queue := q, mc_fresh := Suc (mc_fresh m) \<rparr>))"

definition cycle_scheduled :: "'c MemoryController \<Rightarrow> ncycle_t \<Rightarrow> nvm_error + bool" where
  "cycle_scheduled m when =
     bind_res (FindEvent_object (mc_queue m) (mc_children m) EventCycle (mc_this m) None when)
       (\<lambda>e. Inr (e \<noteq> None))"

section \<open>Transactions\<close>

definition Prequeue :: "'c MemoryController \<Rightarrow> nat \<Rightarrow> NVMainRequest \<Rightarrow> nvm_error + 'c MemoryController" where
  "Prequeue m queueNum request =
     (if queueNum < length (transactionQueues m) then
        Inr (m\<lparr> transactionQueues :=
               (transactionQueues m)[queueNum := request # transactionQueues m ! queueNum] \<rparr>)
      else Inl AssertFailed)"

text \<open>\<open>Enqueue\<close> after the translation: the new state, and the wake-up of an idle queue.\<close>

definition enqueue_wake :: "'c MemoryController \<Rightarrow> NVMAddress \<Rightarrow> nvm_error + 'c MemoryController" where
  "enqueue_wake m a =
     (if EventDriven (mc_p m) then
        bind_res (GetCommandQueueId m a) (\<lambda>queueId.
        bind_res (EffectivelyEmpty m queueId) (\<lambda>e.
        if e then
          bind_res (cycle_scheduled m (now m)) (\<lambda>s. if s then Inr m else insert_cycle m (now m))
        else Inr m))
      else Inr m)"

text \<open>\<open>garbage\<close>: the uninitialised locals \<^verbatim>\<open>Translate\<close> may leave as they are.\<close>

definition Enqueue ::
  "partition_vals \<Rightarrow> 'c MemoryController \<Rightarrow> nat \<Rightarrow> NVMainRequest \<Rightarrow> nvm_error + 'c MemoryController" where
  "Enqueue garbage m queueNum request =
     bind_res (Translate (mc_decoder m) (physicalAddress (rq_address request)) garbage) (\<lambda>(d, v).
     let a = rq_address request;
         a = SetTranslatedAddress a (v MEM_ROW) (v MEM_COL) (v MEM_BANK) (v MEM_RANK) (na_channel a) (v MEM_SUBARRAY);
         request = request\<lparr> rq_address := a \<rparr>;
         m = m\<lparr> mc_decoder := d \<rparr>
     in if queueNum < length (transactionQueues m) then
          enqueue_wake (m\<lparr> transactionQueues :=
             (transactionQueues m)[queueNum := transactionQueues m ! queueNum @ [request]] \<rparr>) a
        else Inl AssertFailed)"

section \<open>Commands\<close>

text \<open>\<^verbatim>\<open>new NVMainRequest\<close> with the members every \<^verbatim>\<open>Make...Request\<close> sets.\<close>

definition new_request ::
  "'c MemoryController \<Rightarrow> OpType \<Rightarrow> NVMAddress \<Rightarrow> 'c MemoryController \<times> NVMainRequest" where
  "new_request m type address =
     (m\<lparr> mc_fresh := Suc (mc_fresh m) \<rparr>,
      (NVMainRequest_init (mc_fresh m))\<lparr> rq_type := type, rq_issueCycle := now m,
         rq_address := address, rq_owner := mc_this m \<rparr>)"

text \<open>The overloads that build the address from its parts.\<close>

definition make_at ::
  "'c MemoryController \<Rightarrow> OpType \<Rightarrow> u64 \<Rightarrow> u64 \<Rightarrow> u64 \<Rightarrow> u64 \<Rightarrow> u64
     \<Rightarrow> nvm_error + 'c MemoryController \<times> NVMainRequest" where
  "make_at m type row col bank rank subarray =
     bind_res (ReverseTranslate (mc_decoder m)
        (\<lambda>part. case part of MEM_ROW \<Rightarrow> row | MEM_COL \<Rightarrow> col | MEM_BANK \<Rightarrow> bank | MEM_RANK \<Rightarrow> rank
           | MEM_CHANNEL \<Rightarrow> mc_id m | MEM_SUBARRAY \<Rightarrow> subarray | MEM_UNKNOWN \<Rightarrow> 0))
       (\<lambda>(d, phys).
         Inr (new_request (m\<lparr> mc_decoder := d \<rparr>) type
           (SetTranslatedAddress (SetPhysicalAddress (NVMAddress_init 0) phys) row col bank rank (mc_id m) subarray)))"

definition MakeCachedRequest :: "'c MemoryController \<Rightarrow> NVMainRequest \<Rightarrow> nvm_error + NVMainRequest" where
  "MakeCachedRequest m r =
     (if rq_type r = READ \<or> rq_type r = WRITE then
        Inr ((copy_request (mc_fresh m) r)\<lparr> rq_type := if rq_type r = READ then CACHED_READ else CACHED_WRITE,
               rq_owner := mc_this m \<rparr>)
      else Inl AssertFailed)"

definition MakeActivateRequest ::
  "'c MemoryController \<Rightarrow> NVMainRequest \<Rightarrow> 'c MemoryController \<times> NVMainRequest" where
  "MakeActivateRequest m r = new_request m ACTIVATE (rq_address r)"

definition MakePrechargeRequest ::
  "'c MemoryController \<Rightarrow> u64 \<Rightarrow> u64 \<Rightarrow> u64 \<Rightarrow> u64 \<Rightarrow> u64 \<Rightarrow> nvm_error + 'c MemoryController \<times> NVMainRequest" where
  "MakePrechargeRequest m = make_at m PRECHARGE"

definition MakePrechargeAllRequest ::
  "'c MemoryController \<Rightarrow> u64 \<Rightarrow> u64 \<Rightarrow> u64 \<Rightarrow> u64 \<Rightarrow> u64 \<Rightarrow> nvm_error + 'c MemoryController \<times> NVMainRequest" where
  "MakePrechargeAllRequest m = make_at m PRECHARGE_ALL"

definition MakeRefreshRequest ::
  "'c MemoryController \<Rightarrow> u64 \<Rightarrow> u64 \<Rightarrow> u64 \<Rightarrow> u64 \<Rightarrow> u64 \<Rightarrow> nvm_error + 'c MemoryController \<times> NVMainRequest" where
  "MakeRefreshRequest m = make_at m REFRESH"

definition MakePowerdownRequest ::
  "'c MemoryController \<Rightarrow> OpType \<Rightarrow> u64 \<Rightarrow> nvm_error + 'c MemoryController \<times> NVMainRequest" where
  "MakePowerdownRequest m pdOp rank = make_at m pdOp 0 0 0 rank 0"

definition MakePowerupRequest ::
  "'c MemoryController \<Rightarrow> u64 \<Rightarrow> nvm_error + 'c MemoryController \<times> NVMainRequest" where
  "MakePowerupRequest m rank = make_at m POWERUP 0 0 0 rank 0"

definition MakeImplicitPrechargeRequest :: "'c MemoryController \<Rightarrow> NVMainRequest \<Rightarrow> NVMainRequest" where
  "MakeImplicitPrechargeRequest m r =
     r\<lparr> rq_type := (if rq_type r = READ then READ_PRECHARGE
                    else if rq_type r = WRITE then WRITE_PRECHARGE else rq_type r),
        rq_issueCycle := now m \<rparr>"

section \<open>Scheduling\<close>

definition same_row :: "NVMAddress \<Rightarrow> NVMAddress \<Rightarrow> bool" where
  "same_row a b \<longleftrightarrow> na_rank a = na_rank b \<and> na_bank a = na_bank b \<and> na_row a = na_row b
     \<and> na_subarray a = na_subarray b"

definition IsLastRequest :: "'c MemoryController \<Rightarrow> NVMainRequest list \<Rightarrow> NVMainRequest \<Rightarrow> bool" where
  "IsLastRequest m transactionQueue request \<longleftrightarrow>
     (if ClosePage (mc_p m) = 0 then False
      else if ClosePage (mc_p m) = 1
      then \<not> list_ex (\<lambda>r. same_row (rq_address r) (rq_address request)) transactionQueue
      else True)"

text \<open>
  The loop the scheduling functions share: the first request that satisfies the condition
  leaves the queue.
\<close>

fun find_request ::
  "(NVMainRequest \<Rightarrow> nvm_error + bool) \<Rightarrow> NVMainRequest list
     \<Rightarrow> nvm_error + (NVMainRequest \<times> NVMainRequest list) option" where
  "find_request P [] = Inr None"
| "find_request P (r # rs) =
     bind_res (P r) (\<lambda>b.
     if b then Inr (Some (r, rs))
     else bind_res (find_request P rs) (\<lambda>x. Inr (map_option (\<lambda>(y, ys). (y, r # ys)) x)))"

definition mark_last ::
  "'c MemoryController \<Rightarrow> (NVMainRequest \<times> NVMainRequest list) option
     \<Rightarrow> (NVMainRequest \<times> NVMainRequest list) option" where
  "mark_last m = map_option (\<lambda>(r, rs).
     (if IsLastRequest m rs r then add_flag FLAG_LAST_REQUEST r else r, rs))"

definition muxLevel :: "'c MemoryController \<Rightarrow> NVMAddress \<Rightarrow> u64" where
  "muxLevel m a = na_col a div RBSize (mc_p m)"

text \<open>The row buffer of the request's subarray holds its row and its part of the columns.\<close>

definition row_hit :: "'c MemoryController \<Rightarrow> NVMAddress \<Rightarrow> bool" where
  "row_hit m a \<longleftrightarrow>
     activeSubArray m (na_rank a) (na_bank a) (na_subarray a)
     \<and> effectiveRow m (na_rank a) (na_bank a) (na_subarray a) = na_row a
     \<and> effectiveMuxedRow m (na_rank a) (na_bank a) (na_subarray a) = muxLevel m a"

text \<open>
  The common shape of a condition: the command queue of the request is empty and the bank's
  flags allow it; \<open>cond\<close> is the rest. The bounds are those of the arrays the condition reads:
  the arrays by subarray are read only when the bank is active.
\<close>

definition ready ::
  "'c MemoryController \<Rightarrow> bool \<Rightarrow> (NVMainRequest \<Rightarrow> bool) \<Rightarrow> NVMainRequest \<Rightarrow> nvm_error + bool" where
  "ready m rows cond r =
     bind_res (GetCommandQueueId m (rq_address r)) (\<lambda>queueId.
     if commandQueues m queueId \<noteq> [] then Inr False
     else if rows \<and> RBSize (mc_p m) = 0 then Inl DivisionByZero
     else let a = rq_address r in
       bind_res (bound_res (in_bank m (na_rank a) (na_bank a)
           \<and> (rows \<and> activateQueued m (na_rank a) (na_bank a) \<longrightarrow> na_subarray a < subArrayNum m))) (\<lambda>_.
       Inr (cond r \<and> \<not> bankNeedRefresh m (na_rank a) (na_bank a)
            \<and> \<not> refreshQueued m (na_rank a) (na_bank a) \<and> rq_arrivalCycle r \<noteq> now m)))"

definition bank_active :: "'c MemoryController \<Rightarrow> NVMainRequest \<Rightarrow> bool" where
  "bank_active m r = activateQueued m (na_rank (rq_address r)) (na_bank (rq_address r))"

definition FindStarvedRequest ::
  "'c MemoryController \<Rightarrow> (NVMainRequest \<Rightarrow> bool) \<Rightarrow> NVMainRequest list
     \<Rightarrow> nvm_error + (NVMainRequest \<times> NVMainRequest list) option" where
  "FindStarvedRequest m pred transactionQueue =
     bind_res (find_request (ready m True (\<lambda>r.
        bank_active m r \<and> \<not> row_hit m (rq_address r)
        \<and> starvationCounter m (na_rank (rq_address r)) (na_bank (rq_address r)) (na_subarray (rq_address r))
            \<ge> starvationThreshold m
        \<and> pred r)) transactionQueue) (\<lambda>x. Inr (mark_last m x))"

definition FindRowBufferHit ::
  "'c MemoryController \<Rightarrow> (NVMainRequest \<Rightarrow> bool) \<Rightarrow> NVMainRequest list
     \<Rightarrow> nvm_error + (NVMainRequest \<times> NVMainRequest list) option" where
  "FindRowBufferHit m pred transactionQueue =
     bind_res (find_request (ready m True (\<lambda>r. bank_active m r \<and> row_hit m (rq_address r) \<and> pred r))
        transactionQueue) (\<lambda>x. Inr (mark_last m x))"

definition FindOldestReadyRequest ::
  "'c MemoryController \<Rightarrow> (NVMainRequest \<Rightarrow> bool) \<Rightarrow> NVMainRequest list
     \<Rightarrow> nvm_error + (NVMainRequest \<times> NVMainRequest list) option" where
  "FindOldestReadyRequest m pred transactionQueue =
     bind_res (find_request (ready m False (\<lambda>r. bank_active m r \<and> pred r)) transactionQueue)
       (\<lambda>x. Inr (mark_last m x))"

definition FindClosedBankRequest ::
  "'c MemoryController \<Rightarrow> (NVMainRequest \<Rightarrow> bool) \<Rightarrow> NVMainRequest list
     \<Rightarrow> nvm_error + (NVMainRequest \<times> NVMainRequest list) option" where
  "FindClosedBankRequest m pred transactionQueue =
     bind_res (find_request (ready m False (\<lambda>r. \<not> bank_active m r \<and> pred r)) transactionQueue)
       (\<lambda>x. Inr (mark_last m x))"

definition FindCachedAddress ::
  "'c child \<Rightarrow> 'c MemoryController \<Rightarrow> (NVMainRequest \<Rightarrow> bool) \<Rightarrow> NVMainRequest list
     \<Rightarrow> nvm_error + (NVMainRequest \<times> NVMainRequest list) option" where
  "FindCachedAddress ch m pred transactionQueue =
     find_request (\<lambda>r.
       bind_res (GetCommandQueueId m (rq_address r)) (\<lambda>queueId.
       bind_res (MakeCachedRequest m r) (\<lambda>cachedRequest.
       Inr (commandQueues m queueId = [] \<and> ch_IsIssuable ch (mc_child m) (now m) cachedRequest
            \<and> rq_arrivalCycle r \<noteq> now m \<and> pred r)))) transactionQueue"

text \<open>
  \<^verbatim>\<open>FindWriteStalledRead\<close> has two more ways to stop: it gives up when the memory has no
  subarrays, and it stalls the scheduler, found but without a request, while a write pulse
  is running.
\<close>

datatype stalled_verdict = Skip | GiveUp | Stall | Take

definition stalled_check ::
  "'c child \<Rightarrow> 'c MemoryController \<Rightarrow> (NVMainRequest \<Rightarrow> bool) \<Rightarrow> NVMainRequest \<Rightarrow> nvm_error + stalled_verdict" where
  "stalled_check ch m pred r =
     (if rq_type r \<noteq> READ then Inr Skip
      else bind_res (GetCommandQueueId m (rq_address r)) (\<lambda>queueId.
        if commandQueues m queueId \<noteq> [] then Inr Skip
        else case ch_subarray ch (mc_child m) r of
          None \<Rightarrow> Inr GiveUp
        | Some (writing, between) \<Rightarrow>
            let a = rq_address r;
                testActivate = add_flag FLAG_PRIORITY (snd (MakeActivateRequest m r))
            in bind_res (bound_res (in_bank m (na_rank a) (na_bank a))) (\<lambda>_.
               if \<not> bankNeedRefresh m (na_rank a) (na_bank a) \<and> \<not> refreshQueued m (na_rank a) (na_bank a)
                  \<and> writing
                  \<and> (ch_IsIssuable ch (mc_child m) (now m) r
                     \<or> ch_IsIssuable ch (mc_child m) (now m) testActivate)
                  \<and> rq_arrivalCycle r \<noteq> now m \<and> pred r
               then Inr (if \<not> between \<and> pauseMode (mc_p m) = PauseMode_Normal then Stall else Take)
               else Inr Skip)))"

fun stalled_loop ::
  "(NVMainRequest \<Rightarrow> nvm_error + stalled_verdict) \<Rightarrow> NVMainRequest list
     \<Rightarrow> nvm_error + bool \<times> (NVMainRequest \<times> NVMainRequest list) option" where
  "stalled_loop P [] = Inr (False, None)"
| "stalled_loop P (r # rs) =
     bind_res (P r) (\<lambda>v. case v of
       Skip \<Rightarrow> bind_res (stalled_loop P rs) (\<lambda>(rv, x). Inr (rv, map_option (\<lambda>(y, ys). (y, r # ys)) x))
     | GiveUp \<Rightarrow> Inr (False, None)
     | Stall \<Rightarrow> Inr (True, None)
     | Take \<Rightarrow> Inr (True, Some (r, rs)))"

definition FindWriteStalledRead ::
  "'c child \<Rightarrow> 'c MemoryController \<Rightarrow> (NVMainRequest \<Rightarrow> bool) \<Rightarrow> NVMainRequest list
     \<Rightarrow> nvm_error + bool \<times> (NVMainRequest \<times> NVMainRequest list) option" where
  "FindWriteStalledRead ch m pred transactionQueue =
     (if \<not> WritePausing (mc_p m) then Inr (False, None)
      else bind_res (stalled_loop (stalled_check ch m pred) transactionQueue) (\<lambda>(rv, x).
        Inr (rv, mark_last m x)))"

definition DummyPredicate :: "NVMainRequest \<Rightarrow> bool" where
  "DummyPredicate r \<longleftrightarrow> True"

section \<open>Refresh\<close>

definition NeedRefresh :: "'c MemoryController \<Rightarrow> u64 \<Rightarrow> u64 \<Rightarrow> nvm_error + bool" where
  "NeedRefresh m bank rank =
     (if UseRefresh (mc_p m) then
        if BanksPerRefresh (mc_p m) = 0 then Inl DivisionByZero
        else let g = bank div BanksPerRefresh (mc_p m) in
          bind_res (bound_res (rank < RANKS (mc_p m) \<and> g < m_refreshBankNum m)) (\<lambda>_.
          Inr (delayedRefreshCounter m rank g \<ge> DelayedRefreshThreshold (mc_p m)))
      else Inr False)"

definition bankHead :: "'c MemoryController \<Rightarrow> u64 \<Rightarrow> u64" where
  "bankHead m bank = bank div BanksPerRefresh (mc_p m) * BanksPerRefresh (mc_p m)"

definition set_need :: "bool \<Rightarrow> 'c MemoryController \<Rightarrow> u64 \<Rightarrow> u64 \<Rightarrow> nvm_error + 'c MemoryController" where
  "set_need v m bank rank =
     fold_res (\<lambda>i m.
        bind_res (bound_res (in_bank m rank (bankHead m bank + of_nat i))) (\<lambda>_.
        Inr (m\<lparr> bankNeedRefresh := upd2 (bankNeedRefresh m) rank (bankHead m bank + of_nat i) v \<rparr>)))
       [0..<unat (BanksPerRefresh (mc_p m))] m"

definition SetRefresh :: "'c MemoryController \<Rightarrow> u64 \<Rightarrow> u64 \<Rightarrow> nvm_error + 'c MemoryController" where
  "SetRefresh m bank rank = set_need True m bank rank"

definition ResetRefresh :: "'c MemoryController \<Rightarrow> u64 \<Rightarrow> u64 \<Rightarrow> nvm_error + 'c MemoryController" where
  "ResetRefresh m bank rank = set_need False m bank rank"

definition ResetRefreshQueued :: "'c MemoryController \<Rightarrow> u64 \<Rightarrow> u64 \<Rightarrow> nvm_error + 'c MemoryController" where
  "ResetRefreshQueued m bank rank =
     fold_res (\<lambda>i m.
        bind_res (bound_res (in_bank m rank (bankHead m bank + of_nat i))) (\<lambda>_.
        bind_res (assert_res (refreshQueued m rank (bankHead m bank + of_nat i))) (\<lambda>_.
        Inr (m\<lparr> refreshQueued := upd2 (refreshQueued m) rank (bankHead m bank + of_nat i) False \<rparr>))))
       [0..<unat (BanksPerRefresh (mc_p m))] m"

definition add_counter :: "u64 \<Rightarrow> 'c MemoryController \<Rightarrow> u64 \<Rightarrow> u64 \<Rightarrow> nvm_error + 'c MemoryController" where
  "add_counter d m bank rank =
     (if BanksPerRefresh (mc_p m) = 0 then Inl DivisionByZero
      else let g = bank div BanksPerRefresh (mc_p m) in
        bind_res (bound_res (rank < RANKS (mc_p m) \<and> g < m_refreshBankNum m)) (\<lambda>_.
        Inr (m\<lparr> delayedRefreshCounter :=
                 upd2 (delayedRefreshCounter m) rank g (delayedRefreshCounter m rank g + d) \<rparr>)))"

definition IncrementRefreshCounter :: "'c MemoryController \<Rightarrow> u64 \<Rightarrow> u64 \<Rightarrow> nvm_error + 'c MemoryController" where
  "IncrementRefreshCounter = add_counter 1"

definition DecrementRefreshCounter :: "'c MemoryController \<Rightarrow> u64 \<Rightarrow> u64 \<Rightarrow> nvm_error + 'c MemoryController" where
  "DecrementRefreshCounter = add_counter (- 1)"

definition IsRefreshBankQueueEmpty :: "'c MemoryController \<Rightarrow> u64 \<Rightarrow> u64 \<Rightarrow> nvm_error + bool" where
  "IsRefreshBankQueueEmpty m bank rank =
     fold_res (\<lambda>i rv. if \<not> rv then Inr False
        else bind_res (GetCommandQueueId m (bank_address rank (bankHead m bank + of_nat i))) (EffectivelyEmpty m))
       [0..<unat (BanksPerRefresh (mc_p m))] True"

text \<open>The precharge of one bank of the group before its refresh.\<close>

definition close_bank :: "'c MemoryController \<Rightarrow> u64 \<Rightarrow> u64 \<Rightarrow> 'c MemoryController" where
  "close_bank m rank bank =
     m\<lparr> activeSubArray := upd2 (activeSubArray m) rank bank
          (\<lambda>sa. if sa < subArrayNum m then False else activeSubArray m rank bank sa),
        effectiveRow := upd2 (effectiveRow m) rank bank
          (\<lambda>sa. if sa < subArrayNum m then ROWS (mc_p m) else effectiveRow m rank bank sa),
        effectiveMuxedRow := upd2 (effectiveMuxedRow m) rank bank
          (\<lambda>sa. if sa < subArrayNum m then ROWS (mc_p m) else effectiveMuxedRow m rank bank sa),
        activateQueued := upd2 (activateQueued m) rank bank False \<rparr>"

definition refresh_precharge :: "u64 \<Rightarrow> u64 \<Rightarrow> nat \<Rightarrow> 'c MemoryController \<Rightarrow> nvm_error + 'c MemoryController" where
  "refresh_precharge i j tmpBank m =
     (let refBank = (of_nat tmpBank + j) mod BANKS (mc_p m) in
      bind_res (GetCommandQueueId m (bank_address i refBank)) (\<lambda>queueId.
      if activateQueued m i refBank then
        bind_res (MakePrechargeAllRequest m 0 0 refBank i 0) (\<lambda>(m, cmdRefPre).
        Inr (close_bank (push_command m queueId cmdRefPre) i refBank))
      else Inr m))"

text \<open>The work of \<^verbatim>\<open>HandleRefresh\<close> for the bank group of bank \<open>j\<close> of rank \<open>i\<close>.\<close>

definition refresh_group ::
  "('c MemoryController \<Rightarrow> nvm_error + 'c MemoryController) \<Rightarrow> u64 \<Rightarrow> u64 \<Rightarrow> 'c MemoryController
     \<Rightarrow> nvm_error + 'c MemoryController" where
  "refresh_group wake_up i j m =
     bind_res (MakeRefreshRequest m 0 0 j i 0) (\<lambda>(m, cmdRefresh).
     bind_res (if UsePrecharge (mc_p m)
               then fold_res (refresh_precharge i j) [0..<unat (BanksPerRefresh (mc_p m))] m else Inr m) (\<lambda>m.
     bind_res (GetCommandQueueId m (bank_address i j)) (\<lambda>queueId.
     let m = push_command m queueId (cmdRefresh\<lparr> rq_issueCycle := now m \<rparr>);
         m = m\<lparr> refreshQueued := fold (\<lambda>tmpBank f. upd2 f i ((of_nat tmpBank + j) mod BANKS (mc_p m)) True)
                  [0..<unat (BanksPerRefresh (mc_p m))] (refreshQueued m) \<rparr>
     in bind_res (DecrementRefreshCounter m j i) (\<lambda>m.
     bind_res (NeedRefresh m j i) (\<lambda>need.
     bind_res (if \<not> need then ResetRefresh m j i else Inr m) (\<lambda>m.
     let nb = nextRefreshBank m + BanksPerRefresh (mc_p m);
         nr = nextRefreshRank m + 1;
         m = (if nb \<ge> BANKS (mc_p m)
              then m\<lparr> nextRefreshBank := 0, nextRefreshRank := if nr = RANKS (mc_p m) then 0 else nr \<rparr>
              else m\<lparr> nextRefreshBank := nb \<rparr>);
         m = m\<lparr> handledRefresh := now m \<rparr>
     in wake_up m))))))"

fun refresh_loop ::
  "('c MemoryController \<Rightarrow> nvm_error + 'c MemoryController) \<Rightarrow> (nat \<times> nat) list \<Rightarrow> 'c MemoryController
     \<Rightarrow> nvm_error + 'c MemoryController \<times> bool" where
  "refresh_loop wake_up [] m = Inr (m, False)"
| "refresh_loop wake_up ((rankIdx, bankIdx) # xs) m =
     (let i = (nextRefreshRank m + of_nat rankIdx) mod RANKS (mc_p m);
          j = (nextRefreshBank m + of_nat bankIdx * BanksPerRefresh (mc_p m)) mod BANKS (mc_p m)
      in bind_res (NeedRefresh m j i) (\<lambda>need.
         if need then bind_res (refresh_group wake_up i j m) (\<lambda>m. Inr (m, True))
         else refresh_loop wake_up xs m))"

definition HandleRefresh_with ::
  "('c MemoryController \<Rightarrow> nvm_error + 'c MemoryController) \<Rightarrow> 'c MemoryController
     \<Rightarrow> nvm_error + 'c MemoryController \<times> bool" where
  "HandleRefresh_with wake_up m =
     refresh_loop wake_up
       (List.product [0..<unat (RANKS (mc_p m))] [0..<unat (m_refreshBankNum m)]) m"

section \<open>Wake-ups\<close>

definition next_step ::
  "'c child \<Rightarrow> ('c MemoryController \<Rightarrow> nvm_error + 'c MemoryController \<times> bool) \<Rightarrow> nat \<times> nat
     \<Rightarrow> 'c MemoryController \<times> ncycle_t \<Rightarrow> nvm_error + 'c MemoryController \<times> ncycle_t" where
  "next_step ch refresh = (\<lambda>(rankIdx, bankIdx) (m, nextWakeup).
     bind_res (GetCommandQueueId m (bank_address (of_nat rankIdx) (of_nat bankIdx))) (\<lambda>queueIdx.
     bind_res (NeedRefresh m (of_nat bankIdx) (of_nat rankIdx)) (\<lambda>need.
     bind_res (if need then IsRefreshBankQueueEmpty m (of_nat bankIdx) (of_nat rankIdx) else Inr False) (\<lambda>due.
     bind_res (if due then
                 if lastIssueCycle m \<noteq> now m then bind_res (refresh m) (\<lambda>(m, _). Inr (m, nextWakeup))
                 else Inr (m, now m + 1)
               else Inr (m, nextWakeup)) (\<lambda>(m, nextWakeup).
     case commandQueues m queueIdx of
       [] \<Rightarrow> Inr (m, nextWakeup)
     | queueHead # _ \<Rightarrow> Inr (m, min nextWakeup (ch_NextIssuable ch (mc_child m) (now m) queueHead)))))))"

definition NextIssuable_with ::
  "'c child \<Rightarrow> ('c MemoryController \<Rightarrow> nvm_error + 'c MemoryController \<times> bool) \<Rightarrow> 'c MemoryController
     \<Rightarrow> nvm_error + 'c MemoryController \<times> ncycle_t" where
  "NextIssuable_with ch refresh m =
     bind_res (fold_res (next_step ch refresh)
        (List.product [0..<unat (RANKS (mc_p m))] [0..<unat (BANKS (mc_p m))]) (m, max_u64)) (\<lambda>(m, nextWakeup).
     Inr (m, if nextWakeup \<le> now m then now m + 1 else nextWakeup))"

definition ScheduleCommandWake_with ::
  "('c MemoryController \<Rightarrow> nvm_error + 'c MemoryController \<times> ncycle_t) \<Rightarrow> 'c MemoryController
     \<Rightarrow> nvm_error + 'c MemoryController" where
  "ScheduleCommandWake_with next m =
     (if EventDriven (mc_p m) then
        bind_res (next m) (\<lambda>(m, nextWakeup).
        if callback_scheduled m cb_CommandQueue nextWakeup commandQueuePriority then Inr m
        else insert_callback m cb_CommandQueue nextWakeup None commandQueuePriority)
      else Inr m)"

fun wake :: "'c child \<Rightarrow> nat \<Rightarrow> 'c MemoryController \<Rightarrow> nvm_error + 'c MemoryController" where
  "wake ch 0 m = Inl OutOfFuel"
| "wake ch (Suc n) m = ScheduleCommandWake_with (NextIssuable_with ch (HandleRefresh_with (wake ch n))) m"

text \<open>The refreshes still owed bound the depth of the recursion: each level pays one.\<close>

definition refresh_debt :: "'c MemoryController \<Rightarrow> nat" where
  "refresh_debt m =
     (\<Sum>i < unat (RANKS (mc_p m)). \<Sum>g < unat (m_refreshBankNum m).
        unat (delayedRefreshCounter m (of_nat i) (of_nat g)))"

definition ScheduleCommandWake :: "'c child \<Rightarrow> 'c MemoryController \<Rightarrow> nvm_error + 'c MemoryController" where
  "ScheduleCommandWake ch m = wake ch (Suc (Suc (refresh_debt m))) m"

definition HandleRefresh :: "'c child \<Rightarrow> 'c MemoryController \<Rightarrow> nvm_error + 'c MemoryController \<times> bool" where
  "HandleRefresh ch m = HandleRefresh_with (wake ch (Suc (refresh_debt m))) m"

definition NextIssuable :: "'c child \<Rightarrow> 'c MemoryController \<Rightarrow> nvm_error + 'c MemoryController \<times> ncycle_t" where
  "NextIssuable ch m = NextIssuable_with ch (HandleRefresh_with (wake ch (Suc (refresh_debt m)))) m"

definition ProcessRefreshPulse ::
  "'c MemoryController \<Rightarrow> NVMainRequest \<Rightarrow> nvm_error + 'c MemoryController" where
  "ProcessRefreshPulse m refresh =
     bind_res (assert_res (rq_type refresh = REFRESH)) (\<lambda>_.
     let rank = na_rank (rq_address refresh); bank = na_bank (rq_address refresh) in
     bind_res (IncrementRefreshCounter m bank rank) (\<lambda>m.
     bind_res (NeedRefresh m bank rank) (\<lambda>need.
     bind_res (if need then SetRefresh m bank rank else Inr m) (\<lambda>m.
     insert_callback m cb_Refresh (now m + m_tREFI m) (Some (rq_id refresh)) refreshPriority))))"

section \<open>Issuing\<close>

text \<open>The three updates of the bank state.\<close>

definition open_row :: "'c MemoryController \<Rightarrow> NVMAddress \<Rightarrow> 'c MemoryController" where
  "open_row m a =
     m\<lparr> activateQueued := upd2 (activateQueued m) (na_rank a) (na_bank a) True,
        activeSubArray := upd3 (activeSubArray m) (na_rank a) (na_bank a) (na_subarray a) True,
        effectiveRow := upd3 (effectiveRow m) (na_rank a) (na_bank a) (na_subarray a) (na_row a),
        effectiveMuxedRow := upd3 (effectiveMuxedRow m) (na_rank a) (na_bank a) (na_subarray a) (muxLevel m a) \<rparr>"

definition close_row :: "'c MemoryController \<Rightarrow> NVMAddress \<Rightarrow> 'c MemoryController" where
  "close_row m a =
     m\<lparr> activeSubArray := upd3 (activeSubArray m) (na_rank a) (na_bank a) (na_subarray a) False,
        effectiveRow := upd3 (effectiveRow m) (na_rank a) (na_bank a) (na_subarray a) (ROWS (mc_p m)),
        effectiveMuxedRow := upd3 (effectiveMuxedRow m) (na_rank a) (na_bank a) (na_subarray a) (ROWS (mc_p m)) \<rparr>"

definition set_starvation :: "'c MemoryController \<Rightarrow> NVMAddress \<Rightarrow> u64 \<Rightarrow> 'c MemoryController" where
  "set_starvation m a v =
     m\<lparr> starvationCounter := upd3 (starvationCounter m) (na_rank a) (na_bank a) (na_subarray a) v \<rparr>"

text \<open>\<open>idle\<close>: no subarray of the bank is active.\<close>

definition bank_idle :: "'c MemoryController \<Rightarrow> u64 \<Rightarrow> u64 \<Rightarrow> bool" where
  "bank_idle m rank bank \<longleftrightarrow>
     list_all (\<lambda>i. \<not> activeSubArray m rank bank (of_nat i)) [0..<unat (subArrayNum m)]"

definition push_activate ::
  "'c child \<Rightarrow> 'c MemoryController \<Rightarrow> u64 \<Rightarrow> NVMainRequest \<Rightarrow> 'c MemoryController" where
  "push_activate ch m queueId req =
     (let writing = (case ch_subarray ch (mc_child m) req of None \<Rightarrow> False | Some (w, _) \<Rightarrow> w);
          (m, act) = MakeActivateRequest m req
      in push_command m queueId (if writing then add_flag FLAG_PRIORITY act else act))"

text \<open>Closing a row and clearing the bank's flag when it was the last one.\<close>

definition close_and_settle :: "'c MemoryController \<Rightarrow> NVMAddress \<Rightarrow> 'c MemoryController" where
  "close_and_settle m a =
     (let m = close_row m a
      in if bank_idle m (na_rank a) (na_bank a)
         then m\<lparr> activateQueued := upd2 (activateQueued m) (na_rank a) (na_bank a) False \<rparr> else m)"

text \<open>A row conflict: the old row, if there is one, is closed by a precharge first.\<close>

definition conflict_precharge :: "'c MemoryController \<Rightarrow> u64 \<Rightarrow> NVMAddress \<Rightarrow> nvm_error + 'c MemoryController" where
  "conflict_precharge m q a =
     (if activeSubArray m (na_rank a) (na_bank a) (na_subarray a) \<and> UsePrecharge (mc_p m)
      then bind_res (MakePrechargeRequest m (effectiveRow m (na_rank a) (na_bank a) (na_subarray a)) 0 (na_bank a) (na_rank a)
             (na_subarray a)) (\<lambda>(m, pre). Inr (push_command m q pre))
      else Inr m)"

text \<open>
  The body of \<^verbatim>\<open>IssueMemoryCommands\<close> up to the wake-up: the new state, whether commands were
  queued, and whether the function goes on to schedule a wake-up (the early return for a
  request that is accessible without activation does not). The indices of the request's
  address are checked before any of the arrays is used.
\<close>

definition issue_commands ::
  "'c child \<Rightarrow> 'c MemoryController \<Rightarrow> NVMainRequest \<Rightarrow> nvm_error + 'c MemoryController \<times> bool \<times> bool" where
  "issue_commands ch m req =
     (let a = rq_address req; rank = na_rank a; bank = na_bank a; sa = na_subarray a in
      if RBSize (mc_p m) = 0 then Inl DivisionByZero
      else bind_res (GetCommandQueueId m a) (\<lambda>queueId.
      bind_res (MakeCachedRequest m req) (\<lambda>cachedRequest.
      bind_res (bound_res (in_subarray m rank bank sa)) (\<lambda>_.
      let timed = req\<lparr> rq_issueCycle := now m \<rparr>;
          hit = activateQueued m rank bank \<and> row_hit m a;
          last = has_flag FLAG_LAST_REQUEST req \<and> UsePrecharge (mc_p m)
      in
      if ch_IsIssuable ch (mc_child m) (now m) cachedRequest \<and> \<not> hit then
        Inr (push_command m queueId timed, True, False)
      else if \<not> activateQueued m rank bank \<and> commandQueues m queueId = [] then
        let m = push_activate ch (set_starvation (open_row m a) a 0) queueId timed
        in if last then
             let m = close_row (push_command m queueId (MakeImplicitPrechargeRequest m timed)) a
             in Inr (m\<lparr> activateQueued := upd2 (activateQueued m) rank bank False \<rparr>, True, True)
           else Inr (push_command m queueId timed, True, True)
      else if activateQueued m rank bank \<and> \<not> row_hit m a \<and> commandQueues m queueId = [] then
        let m = set_starvation m a 0 in
        bind_res (conflict_precharge m queueId a) (\<lambda>m.
        let m = push_command (push_activate ch m queueId timed) queueId timed
        in Inr (open_row m a, True, True))
      else if hit then
        let m = set_starvation m a (starvationCounter m rank bank sa + 1)
        in if last then
             bind_res (assert_res (ClosePage (mc_p m) \<noteq> 2)) (\<lambda>_.
             Inr (close_and_settle (push_command m queueId (MakeImplicitPrechargeRequest m timed)) a, True, True))
           else Inr (push_command m queueId timed, True, True)
      else Inr (m, False, False)))))"

definition IssueMemoryCommands ::
  "'c child \<Rightarrow> 'c MemoryController \<Rightarrow> NVMainRequest \<Rightarrow> nvm_error + 'c MemoryController \<times> bool" where
  "IssueMemoryCommands ch m req =
     bind_res (issue_commands ch m req) (\<lambda>(m, rv, schedule).
     bind_res (if schedule then ScheduleCommandWake ch m else Inr m) (\<lambda>m. Inr (m, rv)))"

text \<open>Low power: requests that are not issued are deleted again.\<close>

definition issue_child :: "'c child \<Rightarrow> 'c MemoryController \<Rightarrow> NVMainRequest \<Rightarrow> 'c MemoryController" where
  "issue_child ch m r =
     (let (c, q) = ch_IssueCommand ch (mc_child m) (mc_queue m) r in m\<lparr> mc_child := c, mc_queue := q \<rparr>)"

definition PowerDown :: "'c child \<Rightarrow> 'c MemoryController \<Rightarrow> u64 \<Rightarrow> nvm_error + 'c MemoryController" where
  "PowerDown ch m rankId =
     (let pdOp = (if PowerDownMode (mc_p m) = ''SLOWEXIT'' then POWERDOWN_PDPS else POWERDOWN_PDPF) in
      bind_res (MakePowerdownRequest m pdOp rankId) (\<lambda>(m, r).
      bind_res (if \<not> ch_rank_idle ch (mc_child m) r then MakePowerdownRequest m POWERDOWN_PDA rankId else Inr (m, r))
        (\<lambda>(m, r).
      bind_res (RankQueueEmpty m rankId) (\<lambda>e.
      if e \<and> ch_IsIssuable ch (mc_child m) (now m) r
      then Inr ((issue_child ch m r)\<lparr> rankPowerDown := (rankPowerDown m)(rankId := True) \<rparr>)
      else Inr m))))"

definition PowerUp :: "'c child \<Rightarrow> 'c MemoryController \<Rightarrow> u64 \<Rightarrow> nvm_error + 'c MemoryController" where
  "PowerUp ch m rankId =
     bind_res (MakePowerupRequest m rankId) (\<lambda>(m, r).
     bind_res (RankQueueEmpty m rankId) (\<lambda>e.
     if \<not> e \<and> ch_IsIssuable ch (mc_child m) (now m) r
     then Inr ((issue_child ch m r)\<lparr> rankPowerDown := (rankPowerDown m)(rankId := False) \<rparr>)
     else Inr m))"

definition rank_needs_refresh :: "'c MemoryController \<Rightarrow> u64 \<Rightarrow> nvm_error + bool" where
  "rank_needs_refresh m rankId =
     (if UseRefresh (mc_p m) then
        fold_res (\<lambda>bankId rv. if rv then Inr True
            else NeedRefresh m (of_nat bankId * BanksPerRefresh (mc_p m)) rankId)
          [0..<unat (m_refreshBankNum m)] False
      else Inr False)"

definition low_power_rank :: "'c child \<Rightarrow> nat \<Rightarrow> 'c MemoryController \<Rightarrow> nvm_error + 'c MemoryController" where
  "low_power_rank ch k m =
     (let rankId = of_nat k in
      bind_res (rank_needs_refresh m rankId) (\<lambda>need.
      if need then
        bind_res (MakePowerupRequest m rankId) (\<lambda>(m, r).
        if rankPowerDown m rankId \<and> ch_IsIssuable ch (mc_child m) (now m) r
        then Inr ((issue_child ch m r)\<lparr> rankPowerDown := (rankPowerDown m)(rankId := False) \<rparr>)
        else Inr m)
      else if rankPowerDown m rankId then PowerUp ch m rankId else PowerDown ch m rankId))"

definition HandleLowPower :: "'c child \<Rightarrow> 'c MemoryController \<Rightarrow> nvm_error + 'c MemoryController" where
  "HandleLowPower ch m = fold_res (low_power_rank ch) [0..<unat (RANKS (mc_p m))] m"

text \<open>
  Sending a queue head: issue it, mark it, clear the refresh flags of its group, plan the
  clean-up and the next transaction.
\<close>

definition send_head ::
  "'c child \<Rightarrow> 'c MemoryController \<Rightarrow> u64 \<Rightarrow> NVMainRequest \<Rightarrow> NVMainRequest list \<Rightarrow> nvm_error + 'c MemoryController" where
  "send_head ch m queueId queueHead rest =
     (let m = issue_child ch m queueHead;
          queueHead = add_flag FLAG_ISSUED queueHead;
          m = m\<lparr> commandQueues := (commandQueues m)(queueId := queueHead # rest) \<rparr>
      in bind_res (if rq_type queueHead = REFRESH
                   then ResetRefreshQueued m (na_bank (rq_address queueHead)) (na_rank (rq_address queueHead))
                   else Inr m) (\<lambda>m.
      let m = m\<lparr> lastIssueCycle := now m \<rparr>; cleanupCycle = now m + 1 in
      bind_res (if callback_scheduled m cb_Cleanup cleanupCycle cleanupPriority then Inr m
                else insert_callback m cb_Cleanup cleanupCycle None cleanupPriority) (\<lambda>m.
      bind_res (if EventDriven (mc_p m) \<and> rest = [] then
                  bind_res (TransactionAvailable m queueId) (\<lambda>t. if t then insert_cycle m (now m + 1) else Inr m)
                else Inr m) (\<lambda>m.
      Inr (MoveCurrentQueue m)))))"

fun cycle_queues :: "'c child \<Rightarrow> nat list \<Rightarrow> 'c MemoryController \<Rightarrow> nvm_error + 'c MemoryController" where
  "cycle_queues ch [] m = Inr m"
| "cycle_queues ch (queueIdx # xs) m =
     (let queueId = (curQueue m + of_nat queueIdx) mod commandQueueCount m in
      case commandQueues m queueId of
        [] \<Rightarrow> cycle_queues ch xs m
      | queueHead # rest \<Rightarrow>
          if lastIssueCycle m \<noteq> now m \<and> ch_IsIssuable ch (mc_child m) (now m) queueHead
          then send_head ch m queueId queueHead rest
          else if now m - rq_issueCycle queueHead > DeadlockTimer (mc_p m) then Inl ExitCalled
          else cycle_queues ch xs m)"

definition CycleCommandQueues :: "'c child \<Rightarrow> 'c MemoryController \<Rightarrow> nvm_error + 'c MemoryController" where
  "CycleCommandQueues ch m =
     bind_res (if UseLowPower (mc_p m) \<and> \<not> EventDriven (mc_p m) then HandleLowPower ch m else Inr m) (\<lambda>m.
     bind_res (if UseRefresh (mc_p m) \<and> \<not> EventDriven (mc_p m) then HandleRefresh ch m else Inr (m, False))
       (\<lambda>(m, refreshed).
     if refreshed then Inr m
     else if EventDriven (mc_p m) \<and> handledRefresh m = now m then Inr m
     else cycle_queues ch [0..<unat (commandQueueCount m)] m))"

section \<open>Callbacks and completion\<close>

definition CleanupCallback :: "'c MemoryController \<Rightarrow> 'c MemoryController" where
  "CleanupCallback m =
     m\<lparr> commandQueues := (\<lambda>q. if q < commandQueueCount m then filter (\<lambda>r. \<not> WasIssued r) (commandQueues m q)
          else commandQueues m q) \<rparr>"

definition CommandQueueCallback :: "'c child \<Rightarrow> 'c MemoryController \<Rightarrow> nvm_error + 'c MemoryController" where
  "CommandQueueCallback ch m =
     bind_res (assert_res (EventDriven (mc_p m))) (\<lambda>_.
     let realSteps = now m - lastCommandWake m; m = m\<lparr> lastCommandWake := now m \<rparr> in
     bind_res (NextIssuable ch m) (\<lambda>(m, nextWakeup).
     let m = m\<lparr> wakeupCount := wakeupCount m + 1 \<rparr> in
     bind_res (if \<not> callback_scheduled m cb_CommandQueue nextWakeup commandQueuePriority \<and> nextWakeup \<noteq> max_u64
               then insert_callback m cb_CommandQueue nextWakeup None commandQueuePriority else Inr m) (\<lambda>m.
     bind_res (CycleCommandQueues ch m) (\<lambda>m.
     Inr (m\<lparr> mc_child := ch_Cycle ch (mc_child m) realSteps \<rparr>)))))"

definition RefreshCallback ::
  "'c child \<Rightarrow> 'c MemoryController \<Rightarrow> NVMainRequest \<Rightarrow> nvm_error + 'c MemoryController" where
  "RefreshCallback ch m request =
     (if EventDriven (mc_p m) then
        let realSteps = now m - lastCommandWake m;
            m = m\<lparr> lastCommandWake := now m, wakeupCount := wakeupCount m + 1 \<rparr> in
        bind_res (ProcessRefreshPulse m request) (\<lambda>m.
        bind_res (HandleRefresh ch m) (\<lambda>(m, _).
        Inr (m\<lparr> mc_child := ch_Cycle ch (mc_child m) realSteps \<rparr>)))
      else ProcessRefreshPulse m request)"

fun cycle_wakeup :: "nat list \<Rightarrow> 'c MemoryController \<Rightarrow> nvm_error + 'c MemoryController" where
  "cycle_wakeup [] m = Inr m"
| "cycle_wakeup (k # ks) m =
     bind_res (EffectivelyEmpty m (of_nat k)) (\<lambda>e.
     bind_res (if e then TransactionAvailable m (of_nat k) else Inr False) (\<lambda>t.
     if t then insert_cycle m (now m + 1) else cycle_wakeup ks m))"

definition MemoryController_Cycle ::
  "'c child \<Rightarrow> 'c MemoryController \<Rightarrow> ncycle_t \<Rightarrow> nvm_error + 'c MemoryController" where
  "MemoryController_Cycle ch m steps =
     (if EventDriven (mc_p m) then
        bind_res (cycle_scheduled m (now m + 1)) (\<lambda>s.
        if s then Inr m else cycle_wakeup [0..<unat (commandQueueCount m)] m)
      else Inr (m\<lparr> mc_child := ch_Cycle ch (mc_child m) steps \<rparr>))"

text \<open>
  Completion of a request: the controller deletes its own commands (\<open>None\<close>), others go to
  the parent.
\<close>

definition MemoryController_RequestComplete :: "'c MemoryController \<Rightarrow> NVMainRequest \<Rightarrow> NVMainRequest option" where
  "MemoryController_RequestComplete m request =
     (if rq_owner request = mc_this m then None else Some request)"

section \<open>Configuration\<close>

text \<open>
  The part of \<^verbatim>\<open>SetConfig\<close> that sizes and clears the state. \<open>matHeight\<close> and \<open>model\<close> are the
  configuration's \<^verbatim>\<open>MATHeight\<close> and \<^verbatim>\<open>QueueModel\<close>, when the keys exist.
\<close>

definition config_queues ::
  "'c MemoryController \<Rightarrow> u64 option \<Rightarrow> string option \<Rightarrow> nvm_error + 'c MemoryController" where
  "config_queues m matHeight model =
     bind_res (case matHeight of None \<Rightarrow> Inr 1
               | Some h \<Rightarrow> if h = 0 then Inl DivisionByZero else Inr (ROWS (mc_p m) div h)) (\<lambda>subs.
     let ranks = RANKS (mc_p m); banks = BANKS (mc_p m);
         (qm, count) =
           (if model = Some ''PerRank'' then (PerRankQueues, ranks)
            else if model = Some ''PerSubArray'' then (PerSubArrayQueues, ranks * banks * subs)
            else (PerBankQueues, ranks * banks))
     in Inr (m\<lparr> subArrayNum := subs, queueModel := qm, commandQueueCount := count,
                commandQueues := (\<lambda>_. []), activateQueued := (\<lambda>_ _. False), refreshQueued := (\<lambda>_ _. False),
                rankPowerDown := (\<lambda>_. UseLowPower (mc_p m) \<and> InitPD (mc_p m)),
                starvationCounter := (\<lambda>_ _ _. 0), activeSubArray := (\<lambda>_ _ _. False),
                effectiveRow := (\<lambda>_ _ _. ROWS (mc_p m)), effectiveMuxedRow := (\<lambda>_ _ _. ROWS (mc_p m)),
                bankNeedRefresh := (\<lambda>_ _. False) \<rparr>))"

text \<open>The refresh part: the first pulse of every bank group, staggered over the interval.\<close>

definition refresh_pulse :: "ncycle_t \<Rightarrow> nat \<times> nat \<Rightarrow> 'c MemoryController \<Rightarrow> nvm_error + 'c MemoryController" where
  "refresh_pulse m_refreshSlice = (\<lambda>(i, j) m.
     let m = m\<lparr> delayedRefreshCounter := upd2 (delayedRefreshCounter m) (of_nat i) (of_nat j) 0 \<rparr> in
     bind_res (MakeRefreshRequest m 0 0 (of_nat j * BanksPerRefresh (mc_p m)) (of_nat i) 0) (\<lambda>(m, refreshPulse).
     let offset = (of_nat i * m_refreshBankNum m + of_nat j) * m_refreshSlice
     in insert_callback m cb_Refresh (now m + m_tREFI m + offset) (Some (rq_id refreshPulse)) refreshPriority))"

definition config_refresh :: "'c MemoryController \<Rightarrow> nvm_error + 'c MemoryController" where
  "config_refresh m =
     (if UseRefresh (mc_p m) then
        bind_res (assert_res (BanksPerRefresh (mc_p m) \<le> BANKS (mc_p m))) (\<lambda>_.
        bind_res (assert_res (BanksPerRefresh (mc_p m) \<noteq> 0)) (\<lambda>_.
        let groups = BANKS (mc_p m) div BanksPerRefresh (mc_p m) in
        if RefreshRows (mc_p m) = 0 \<or> ROWS (mc_p m) div RefreshRows (mc_p m) = 0
           \<or> RANKS (mc_p m) * groups = 0 then Inl DivisionByZero
        else
          let tREFI = tREFW (mc_p m) div (ROWS (mc_p m) div RefreshRows (mc_p m));
              m_refreshSlice = tREFI div (RANKS (mc_p m) * groups);
              m = m\<lparr> m_refreshBankNum := groups, m_tREFI := tREFI \<rparr>
          in fold_res (refresh_pulse m_refreshSlice)
               (List.product [0..<unat (RANKS (mc_p m))] [0..<unat groups]) m))
      else Inr m)"

definition MemoryController_SetConfig ::
  "'c MemoryController \<Rightarrow> u64 option \<Rightarrow> string option \<Rightarrow> nvm_error + 'c MemoryController" where
  "MemoryController_SetConfig m matHeight model = bind_res (config_queues m matHeight model) config_refresh"

end
