(* ===== verification/Nvm_Queues.thy ===== *)
theory Nvm_Queues
  imports Nvm_Controller
begin

text \<open>
  The state a configured controller is in: its command queues, one per rank, bank or subarray,
  and the invariants of its bank state. Which addresses share a command queue.
\<close>

section \<open>Command queues\<close>

text \<open>Queues as \<open>config_queues\<close> lays them out, without overflow of the products.\<close>

definition queues_ok :: "'c MemoryController \<Rightarrow> bool" where
  "queues_ok m \<longleftrightarrow>
     (case queueModel m of
        PerRankQueues \<Rightarrow> commandQueueCount m = RANKS (mc_p m)
      | PerBankQueues \<Rightarrow> ScheduleScheme (mc_p m) \<in> {1, 2}
          \<and> unat (commandQueueCount m) = unat (RANKS (mc_p m)) * unat (BANKS (mc_p m))
      | PerSubArrayQueues \<Rightarrow>
          unat (commandQueueCount m) = unat (RANKS (mc_p m)) * unat (BANKS (mc_p m)) * unat (subArrayNum m))"

text \<open>The location two addresses share when they go to the same queue.\<close>

definition queue_key :: "'c MemoryController \<Rightarrow> NVMAddress \<Rightarrow> u64 \<times> u64 \<times> u64" where
  "queue_key m a =
     (case queueModel m of
        PerRankQueues \<Rightarrow> (na_rank a, 0, 0)
      | PerBankQueues \<Rightarrow> (na_rank a, na_bank a, 0)
      | PerSubArrayQueues \<Rightarrow> (na_rank a, na_bank a, na_subarray a))"

definition addr_ok :: "'c MemoryController \<Rightarrow> NVMAddress \<Rightarrow> bool" where
  "addr_ok m a \<longleftrightarrow> in_subarray m (na_rank a) (na_bank a) (na_subarray a)"

lemma radix2_less: "x < a \<Longrightarrow> y < b \<Longrightarrow> x * b + y < a * (b :: nat)"
proof -
  assume "x < a" "y < b"
  then have "Suc x * b \<le> a * b" by (intro mult_le_mono1) simp
  then show ?thesis using \<open>y < b\<close> by simp
qed

lemma unat_radix2:
  assumes "unat x < a" "unat y < unat (b :: u64)" "a * unat b < 2 ^ 64"
  shows "unat (x * b + y) = unat x * unat b + unat y"
  using radix2_less [OF assms(1,2)] assms(3)
  by (simp add: unat_word_ariths)

lemma radix2_eq_iff:
  assumes "y < b" "y' < (b :: nat)"
  shows "x * b + y = x' * b + y' \<longleftrightarrow> x = x' \<and> y = y'"
proof
  assume eq: "x * b + y = x' * b + y'"
  have "x = (x * b + y) div b" "x' = (x' * b + y') div b" using assms by simp_all
  then have "x = x'" using eq by simp
  then show "x = x' \<and> y = y'" using eq by simp
qed simp

definition queue_number :: "'c MemoryController \<Rightarrow> NVMAddress \<Rightarrow> nat" where
  "queue_number m a =
     (let r = unat (na_rank a); b = unat (na_bank a); s = unat (na_subarray a);
          R = unat (RANKS (mc_p m)); B = unat (BANKS (mc_p m)); S = unat (subArrayNum m)
      in case queueModel m of
           PerRankQueues \<Rightarrow> r
         | PerBankQueues \<Rightarrow> if ScheduleScheme (mc_p m) = 1 then b * R + r else r * B + b
         | PerSubArrayQueues \<Rightarrow> (r * B + b) * S + s)"

lemma addr_ok_nat:
  assumes "addr_ok m a"
  shows "unat (na_rank a) < unat (RANKS (mc_p m))" "unat (na_bank a) < unat (BANKS (mc_p m))"
    "unat (na_subarray a) < unat (subArrayNum m)"
  using assms by (simp_all add: addr_ok_def in_subarray_def in_bank_def word_less_nat_alt)

lemma queue_number_eq_iff:
  assumes "addr_ok m a" "addr_ok m b"
  shows "queue_number m a = queue_number m b \<longleftrightarrow> queue_key m a = queue_key m b"
proof -
  note ra = addr_ok_nat [OF assms(1)] and rb = addr_ok_nat [OF assms(2)]
  show ?thesis
  proof (cases "queueModel m")
    case PerRankQueues
    then show ?thesis by (simp add: queue_number_def queue_key_def u64_eq_iff_unat)
  next
    case PerBankQueues
    then show ?thesis
      by (auto simp: queue_number_def queue_key_def u64_eq_iff_unat Let_def
          radix2_eq_iff [OF ra(1) rb(1)] radix2_eq_iff [OF ra(2) rb(2)])
  next
    case PerSubArrayQueues
    have "queue_number m a = queue_number m b \<longleftrightarrow>
        unat (na_rank a) * unat (BANKS (mc_p m)) + unat (na_bank a)
          = unat (na_rank b) * unat (BANKS (mc_p m)) + unat (na_bank b)
        \<and> unat (na_subarray a) = unat (na_subarray b)"
      using PerSubArrayQueues by (simp add: queue_number_def Let_def radix2_eq_iff [OF ra(3) rb(3)])
    also have "\<dots> \<longleftrightarrow> unat (na_rank a) = unat (na_rank b) \<and> unat (na_bank a) = unat (na_bank b)
        \<and> unat (na_subarray a) = unat (na_subarray b)"
      unfolding radix2_eq_iff [OF ra(2) rb(2)] by blast
    finally show ?thesis using PerSubArrayQueues by (simp add: queue_key_def u64_eq_iff_unat)
  qed
qed

lemma queue_number_per_bank:
  assumes "addr_ok m a" "queues_ok m" "queueModel m = PerBankQueues"
  shows "\<exists>q. GetCommandQueueId m a = Inr q \<and> unat q = queue_number m a"
proof -
  let ?R = "RANKS (mc_p m)" and ?B = "BANKS (mc_p m)"
  note r = addr_ok_nat [OF assms(1)]
  have count: "unat (commandQueueCount m) = unat ?R * unat ?B" and sch: "ScheduleScheme (mc_p m) \<in> {1, 2}"
    using assms(2,3) by (simp_all add: queues_ok_def)
  have bound: "unat ?R * unat ?B < 2 ^ 64" using count unat_less_u64 [of "commandQueueCount m"] by simp
  define q where "q = (if ScheduleScheme (mc_p m) = 1 then na_bank a * ?R + na_rank a else na_rank a * ?B + na_bank a)"
  have q: "unat q = queue_number m a"
    using unat_radix2 [OF r(2,1)] unat_radix2 [OF r(1,2)] bound assms(3)
    by (simp add: q_def queue_number_def Let_def mult.commute)
  moreover have "queue_number m a < unat (commandQueueCount m)"
    using radix2_less [OF r(2,1)] radix2_less [OF r(1,2)] count assms(3)
    by (simp add: queue_number_def Let_def mult.commute)
  ultimately have "q < commandQueueCount m" by (simp add: word_less_nat_alt)
  then show ?thesis
    using q sch assms(3) by (intro exI [of _ q]) (auto simp: GetCommandQueueId_def q_def)
qed

lemma queue_number_per_subarray:
  assumes "addr_ok m a" "queues_ok m" "queueModel m = PerSubArrayQueues"
  shows "\<exists>q. GetCommandQueueId m a = Inr q \<and> unat q = queue_number m a"
proof -
  let ?R = "RANKS (mc_p m)" and ?B = "BANKS (mc_p m)" and ?S = "subArrayNum m"
  let ?q = "(na_rank a * ?B + na_bank a) * ?S + na_subarray a"
  note r = addr_ok_nat [OF assms(1)]
  have count: "unat (commandQueueCount m) = unat ?R * unat ?B * unat ?S"
    using assms(2,3) by (simp add: queues_ok_def)
  have bound: "unat ?R * unat ?B * unat ?S < 2 ^ 64" using count unat_less_u64 [of "commandQueueCount m"] by simp
  have "unat ?R * unat ?B * 1 \<le> unat ?R * unat ?B * unat ?S" using r(3) by (intro mult_le_mono) simp_all
  then have "unat ?R * unat ?B < 2 ^ 64" using bound by linarith
  then have u1: "unat (na_rank a * ?B + na_bank a) = unat (na_rank a) * unat ?B + unat (na_bank a)"
    by (rule unat_radix2 [OF r(1,2)])
  have l1: "unat (na_rank a * ?B + na_bank a) < unat ?R * unat ?B"
    unfolding u1 by (rule radix2_less [OF r(1,2)])
  have u2: "unat ?q = unat (na_rank a * ?B + na_bank a) * unat ?S + unat (na_subarray a)"
    by (rule unat_radix2 [OF l1 r(3) bound])
  have lt: "?q < commandQueueCount m"
    unfolding word_less_nat_alt u2 count by (rule radix2_less [OF l1 r(3)])
  have "na_rank a * ?B * ?S + na_bank a * ?S + na_subarray a = ?q" by (simp add: distrib_right)
  then have "GetCommandQueueId m a = Inr ?q" using lt assms(3) by (simp add: GetCommandQueueId_def)
  moreover have "unat ?q = queue_number m a"
    unfolding u2 u1 using assms(3) by (simp add: queue_number_def Let_def)
  ultimately show ?thesis by blast
qed

lemma GetCommandQueueId_number:
  assumes "addr_ok m a" "queues_ok m"
  shows "\<exists>q. GetCommandQueueId m a = Inr q \<and> unat q = queue_number m a"
proof (cases "queueModel m")
  case PerRankQueues
  have "na_rank a < RANKS (mc_p m)" using assms(1) by (simp add: addr_ok_def in_subarray_def in_bank_def)
  then show ?thesis
    using PerRankQueues assms(2) by (simp add: GetCommandQueueId_def queues_ok_def queue_number_def)
qed (use assms queue_number_per_bank queue_number_per_subarray in blast)+

lemma GetCommandQueueId_less: "GetCommandQueueId m a = Inr q \<Longrightarrow> q < commandQueueCount m"
  by (simp add: GetCommandQueueId_def Let_def split: if_splits)

section \<open>Invariants\<close>

text \<open>
  The state of a bank agrees with itself: it counts as active exactly when one of its
  subarrays is, and an inactive subarray has the invalid row.
\<close>

definition bank_inv :: "'c MemoryController \<Rightarrow> bool" where
  "bank_inv m \<longleftrightarrow> (\<forall>rank bank. in_bank m rank bank \<longrightarrow>
     (activateQueued m rank bank \<longleftrightarrow> (\<exists>sa. sa < subArrayNum m \<and> activeSubArray m rank bank sa))
     \<and> (\<forall>sa. sa < subArrayNum m \<and> \<not> activeSubArray m rank bank sa \<longrightarrow>
          effectiveRow m rank bank sa = ROWS (mc_p m) \<and> effectiveMuxedRow m rank bank sa = ROWS (mc_p m)))"

text \<open>
  A configured controller: queues laid out, a hook to schedule callbacks with, a decoder, and
  for refresh a bank count that is a multiple of the group size and a positive threshold.
  All this is fixed at configuration: it only depends on \<open>static m\<close>.
\<close>

definition static :: "'c MemoryController \<Rightarrow> MCParams \<times> (nat \<times> nat) list \<times> nat \<times> TranslationMethod option
    \<times> QueueModel \<times> u64 \<times> u64 \<times> u64" where
  "static m = (mc_p m, mc_children m, mc_this m, at_method (mc_decoder m), queueModel m, commandQueueCount m,
     subArrayNum m, m_refreshBankNum m)"

definition mc_ok :: "'c MemoryController \<Rightarrow> bool" where
  "mc_ok m \<longleftrightarrow> queues_ok m \<and> 0 < subArrayNum m \<and> find_hook (mc_children m) (mc_this m) \<noteq> None
     \<and> at_method (mc_decoder m) \<noteq> None
     \<and> (UseRefresh (mc_p m) \<longrightarrow> BanksPerRefresh (mc_p m) \<noteq> 0 \<and> 0 < DelayedRefreshThreshold (mc_p m)
          \<and> unat (BANKS (mc_p m)) = unat (m_refreshBankNum m) * unat (BanksPerRefresh (mc_p m)))"

lemma mc_ok_static: "static m' = static m \<Longrightarrow> mc_ok m' = mc_ok m"
  by (simp add: static_def mc_ok_def queues_ok_def cong: QueueModel.case_cong)

lemma in_bank_static: "static m' = static m \<Longrightarrow> in_bank m' = in_bank m"
  by (simp add: static_def in_bank_def fun_eq_iff)

definition bank_state :: "'c MemoryController \<Rightarrow> (u64 \<Rightarrow> u64 \<Rightarrow> bool) \<times> (u64 \<Rightarrow> u64 \<Rightarrow> u64 \<Rightarrow> bool)
    \<times> (u64 \<Rightarrow> u64 \<Rightarrow> u64 \<Rightarrow> u64) \<times> (u64 \<Rightarrow> u64 \<Rightarrow> u64 \<Rightarrow> u64)" where
  "bank_state m = (activateQueued m, activeSubArray m, effectiveRow m, effectiveMuxedRow m)"

lemma bank_inv_frame: "static m' = static m \<Longrightarrow> bank_state m' = bank_state m \<Longrightarrow> bank_inv m' = bank_inv m"
proof -
  assume s: "static m' = static m" and b: "bank_state m' = bank_state m"
  have "activateQueued m' = activateQueued m" "activeSubArray m' = activeSubArray m"
    "effectiveRow m' = effectiveRow m" "effectiveMuxedRow m' = effectiveMuxedRow m"
    using b by (auto simp: bank_state_def)
  moreover have "subArrayNum m' = subArrayNum m" "mc_p m' = mc_p m" using s by (auto simp: static_def)
  ultimately show ?thesis by (simp only: bank_inv_def in_bank_static [OF s])
qed

lemma refresh_debt_frame:
  "static m' = static m \<Longrightarrow> delayedRefreshCounter m' = delayedRefreshCounter m \<Longrightarrow> refresh_debt m' = refresh_debt m"
  by (simp add: refresh_debt_def static_def)

text \<open>What the operations that only touch queues, events and flags leave alone.\<close>

definition same_core :: "'c MemoryController \<Rightarrow> 'c MemoryController \<Rightarrow> bool" where
  "same_core m m' \<longleftrightarrow> static m' = static m \<and> bank_state m' = bank_state m
     \<and> delayedRefreshCounter m' = delayedRefreshCounter m"

definition mc_inv :: "'c MemoryController \<Rightarrow> bool" where
  "mc_inv m \<longleftrightarrow> mc_ok m \<and> bank_inv m"

lemma same_core_inv: "same_core m m' \<Longrightarrow> mc_inv m' = mc_inv m"
  using mc_ok_static bank_inv_frame unfolding same_core_def mc_inv_def by blast

lemma same_core_debt: "same_core m m' \<Longrightarrow> refresh_debt m' = refresh_debt m"
  using refresh_debt_frame unfolding same_core_def by blast

lemma same_core_trans: "same_core m m' \<Longrightarrow> same_core m' m'' \<Longrightarrow> same_core m m''"
  by (simp add: same_core_def)

lemma same_core_refl [simp]: "same_core m m"
  by (simp add: same_core_def)

lemmas core_defs = same_core_def static_def bank_state_def

lemma same_core_push [simp]: "same_core m (push_command m q r)"
  by (simp add: core_defs push_command_def)

lemma insert_callback_total:
  assumes "mc_ok m"
  shows "\<exists>m'. insert_callback m cb w d pr = Inr m' \<and> same_core m m'"
  using assms
  by (auto simp: mc_ok_def insert_callback_def InsertCallback_def SetRecipient_def core_defs)

lemma make_at_total:
  assumes "mc_ok m"
  shows "\<exists>m' r. make_at m t row col bank rank sa = Inr (m', r) \<and> same_core m m' \<and> rq_type r = t
    \<and> now m' = now m \<and> commandQueues m' = commandQueues m
    \<and> na_row (rq_address r) = row \<and> na_bank (rq_address r) = bank \<and> na_rank (rq_address r) = rank
    \<and> na_subarray (rq_address r) = sa"
  using assms
  by (auto simp: mc_ok_def make_at_def ReverseTranslate_def new_request_def core_defs Let_def
      SetTranslatedAddress_def split: prod.splits)

section \<open>Bank groups\<close>

lemma bank_address_ok: "mc_ok m \<Longrightarrow> in_bank m rank bank \<Longrightarrow> addr_ok m (bank_address rank bank)"
  by (simp add: mc_ok_def addr_ok_def in_subarray_def bank_address_def SetTranslatedAddress_def)

lemma bank_queue_total:
  assumes "mc_ok m" "in_bank m rank bank"
  shows "\<exists>q. GetCommandQueueId m (bank_address rank bank) = Inr q \<and> q < commandQueueCount m"
proof -
  have "queues_ok m" using assms(1) by (simp add: mc_ok_def)
  then show ?thesis
    using GetCommandQueueId_number [OF bank_address_ok [OF assms]] GetCommandQueueId_less by blast
qed

lemma group_less:
  assumes "mc_ok m" "UseRefresh (mc_p m)" "bank < BANKS (mc_p m)"
  shows "bank div BanksPerRefresh (mc_p m) < m_refreshBankNum m"
proof -
  have "unat (BANKS (mc_p m)) = unat (m_refreshBankNum m) * unat (BanksPerRefresh (mc_p m))"
    using assms(1,2) by (simp add: mc_ok_def)
  then show ?thesis
    using assms(3) by (simp add: word_less_nat_alt unat_div less_mult_imp_div_less)
qed

lemma NeedRefresh_total:
  assumes "mc_ok m" "in_bank m rank bank"
  shows "NeedRefresh m bank rank = Inr (UseRefresh (mc_p m)
    \<and> delayedRefreshCounter m rank (bank div BanksPerRefresh (mc_p m)) \<ge> DelayedRefreshThreshold (mc_p m))"
  using assms group_less [OF assms(1), of bank]
  by (auto simp: NeedRefresh_def in_bank_def mc_ok_def bound_res_def)

text \<open>The banks of a group are banks.\<close>

lemma group_bank:
  assumes "mc_ok m" "UseRefresh (mc_p m)" "in_bank m rank bank" "i < unat (BanksPerRefresh (mc_p m))"
  shows "in_bank m rank (bankHead m bank + of_nat i)"
proof -
  let ?n = "BanksPerRefresh (mc_p m)" and ?B = "BANKS (mc_p m)" and ?g = "bank div BanksPerRefresh (mc_p m)"
  have B: "unat ?B = unat (m_refreshBankNum m) * unat ?n" using assms(1,2) by (simp add: mc_ok_def)
  have g: "unat ?g < unat (m_refreshBankNum m)"
    using group_less [OF assms(1,2)] assms(3) by (simp add: in_bank_def word_less_nat_alt)
  have i: "unat (of_nat i :: u64) = i" using assms(4) unat_less_u64 [of ?n] by (intro unat_of_nat_small) simp
  have "unat (m_refreshBankNum m) * unat ?n < 2 ^ 64" using B unat_less_u64 [of ?B] by simp
  then have "unat (?g * ?n + of_nat i) = unat ?g * unat ?n + i"
    using unat_radix2 [OF g, of "of_nat i" ?n] assms(4) i by simp
  moreover have "unat ?g * unat ?n + i < unat ?B" unfolding B by (rule radix2_less [OF g assms(4)])
  ultimately show ?thesis using assms(3) by (simp add: in_bank_def bankHead_def word_less_nat_alt)
qed

lemma fold_res_core:
  assumes "\<And>x m'. x \<in> set xs \<Longrightarrow> same_core m m' \<Longrightarrow> \<exists>m''. f x m' = Inr m'' \<and> same_core m' m''"
  shows "\<exists>m'. fold_res f xs m = Inr m' \<and> same_core m m'"
proof (rule fold_res_inv [where P = "same_core m"])
  fix x m' assume "x \<in> set xs" "same_core m m'"
  then obtain m'' where "f x m' = Inr m''" "same_core m' m''" using assms by blast
  then show "\<exists>m''. f x m' = Inr m'' \<and> same_core m m''" using \<open>same_core m m'\<close> same_core_trans by blast
qed simp

lemma set_need_total:
  assumes "mc_ok m" "UseRefresh (mc_p m)" "in_bank m rank bank"
  shows "\<exists>m'. set_need v m bank rank = Inr m' \<and> same_core m m'"
  unfolding set_need_def
proof (rule fold_res_core)
  fix i m' assume i: "i \<in> set [0..<unat (BanksPerRefresh (mc_p m))]" and m': "same_core m m'"
  then have "mc_ok m'" "UseRefresh (mc_p m')" "in_bank m' rank bank" "mc_p m' = mc_p m"
    using assms mc_ok_static [of m' m] in_bank_static [of m' m] by (simp_all add: same_core_def static_def)
  then have "in_bank m' rank (bankHead m' bank + of_nat i)" using group_bank [of m' rank bank i] i by simp
  then show "\<exists>m''. bind_res (bound_res (in_bank m' rank (bankHead m' bank + of_nat i)))
      (\<lambda>_. Inr (m'\<lparr>bankNeedRefresh := upd2 (bankNeedRefresh m') rank (bankHead m' bank + of_nat i) v\<rparr>)) = Inr m''
      \<and> same_core m' m''"
    by (simp add: bound_res_def core_defs)
qed

lemma IsRefreshBankQueueEmpty_total:
  assumes "mc_ok m" "UseRefresh (mc_p m)" "in_bank m rank bank"
  shows "\<exists>b. IsRefreshBankQueueEmpty m bank rank = Inr b"
proof -
  have "\<exists>s'. (if \<not> rv then Inr False else bind_res (GetCommandQueueId m (bank_address rank (bankHead m bank + of_nat i)))
      (EffectivelyEmpty m)) = Inr s' \<and> True" if "i < unat (BanksPerRefresh (mc_p m))" for i rv
    using bank_queue_total [OF assms(1) group_bank [OF assms that]] by (auto simp: EffectivelyEmpty_def)
  then show ?thesis
    unfolding IsRefreshBankQueueEmpty_def
    using fold_res_inv [of "\<lambda>_. True" True "[0..<unat (BanksPerRefresh (mc_p m))]"
      "\<lambda>i rv. if \<not> rv then Inr False else bind_res (GetCommandQueueId m (bank_address rank (bankHead m bank + of_nat i)))
        (EffectivelyEmpty m)"] by auto
qed

section \<open>A concrete controller\<close>

definition example_params :: MCParams where
  "example_params =
     \<lparr> EventDriven = True, UseLowPower = False, PowerDownMode = ''FASTEXIT'', InitPD = False, RefreshRows = 4,
       UseRefresh = True, UsePrecharge = True, ROWS = 1024, RANKS = 2, BANKS = 8, RBSize = 32, tREFW = 42666667,
       ClosePage = 0, ScheduleScheme = 2, BanksPerRefresh = 2, DelayedRefreshThreshold = 1, DeadlockTimer = 10000000,
       WritePausing = False, pauseMode = PauseMode_Normal \<rparr>"

definition example_mc :: "unit MemoryController" where
  "example_mc =
     \<lparr> mc_p = example_params, mc_id = 0, mc_this = 1, mc_children = [(2, 1)], mc_trampoline = (\<lambda>_. 1),
       mc_decoder = default_translator, mc_queue = EventQueue_init, mc_fresh = 10, mc_child = (),
       transactionQueues = [[]], commandQueues = (\<lambda>_. []), commandQueueCount = 16, queueModel = PerBankQueues,
       subArrayNum = 64, starvationThreshold = 4, activateQueued = (\<lambda>_ _. False), refreshQueued = (\<lambda>_ _. False),
       bankNeedRefresh = (\<lambda>_ _. False), effectiveRow = (\<lambda>_ _ _. 1024), effectiveMuxedRow = (\<lambda>_ _ _. 1024),
       activeSubArray = (\<lambda>_ _ _. False), starvationCounter = (\<lambda>_ _ _. 0), rankPowerDown = (\<lambda>_. False),
       delayedRefreshCounter = (\<lambda>rank g. if rank = 1 \<and> g = 2 then 1 else 0), m_tREFI = 166666, m_refreshBankNum = 4,
       lastCommandWake = 0, wakeupCount = 0, lastIssueCycle = 0, handledRefresh = 0, curQueue = 0,
       nextRefreshRank = 0, nextRefreshBank = 0 \<rparr>"

text \<open>A memory that issues commands but serves no access without its row.\<close>

definition example_child :: "unit child" where
  "example_child =
     \<lparr> ch_IsIssuable = (\<lambda>_ _ r. rq_type r \<notin> {CACHED_READ, CACHED_WRITE}), ch_NextIssuable = (\<lambda>_ t _. t + 1),
       ch_IssueCommand = (\<lambda>c q _. (c, q)), ch_Cycle = (\<lambda>c _. c), ch_subarray = (\<lambda>_ _. Some (False, False)),
       ch_rank_idle = (\<lambda>_ _. True) \<rparr>"

text \<open>A read of row \<open>row\<close>, column 17, bank 5, rank 1, subarray 33.\<close>

definition example_read :: "nat \<Rightarrow> u64 \<Rightarrow> NVMainRequest" where
  "example_read k row = (NVMainRequest_init k)\<lparr> rq_type := READ, rq_arrivalCycle := 7,
     rq_address := SetTranslatedAddress (NVMAddress_init 0) row 17 5 1 0 33 \<rparr>"

lemmas example_simps = example_mc_def example_params_def example_child_def example_read_def NVMainRequest_init_def
  SetTranslatedAddress_def NVMAddress_init_def

lemma example_inv: "mc_inv example_mc"
  by (simp add: mc_inv_def mc_ok_def bank_inv_def queues_ok_def example_mc_def example_params_def default_method)

lemma example_addr: "addr_ok example_mc (rq_address (example_read k row))"
  by (simp add: addr_ok_def in_subarray_def in_bank_def example_simps)

lemma example_queue: "GetCommandQueueId example_mc (rq_address (example_read k row)) = Inr 13"
  by (simp add: GetCommandQueueId_def example_simps)

section \<open>Properties\<close>

text \<open>
  C31: Every address of the memory has a command queue, and two addresses share one exactly
  when they agree in what the queue model separates: the rank, the bank or the subarray.
  This holds for the layout \<open>config_queues\<close> gives with scheduling scheme 1 or 2.
\<close>

theorem GetCommandQueueId_separates:
  assumes "queues_ok m" "addr_ok m a" "addr_ok m b"
  shows "\<exists>qa qb. GetCommandQueueId m a = Inr qa \<and> GetCommandQueueId m b = Inr qb
    \<and> qa < commandQueueCount m \<and> qb < commandQueueCount m
    \<and> (qa = qb \<longleftrightarrow> queue_key m a = queue_key m b)"
proof -
  obtain qa qb where q: "GetCommandQueueId m a = Inr qa" "unat qa = queue_number m a"
    "GetCommandQueueId m b = Inr qb" "unat qb = queue_number m b"
    using GetCommandQueueId_number assms by metis
  moreover have "qa = qb \<longleftrightarrow> queue_key m a = queue_key m b"
    using q(2,4) queue_number_eq_iff [OF assms(2,3)] by (simp add: u64_eq_iff_unat)
  ultimately show ?thesis using GetCommandQueueId_less by blast
qed

theorem GetCommandQueueId_separates_witness:
  "\<exists>qa qb. GetCommandQueueId example_mc (rq_address (example_read 1 513)) = Inr qa
    \<and> GetCommandQueueId example_mc (bank_address 1 4) = Inr qb \<and> qa \<noteq> qb"
  using GetCommandQueueId_separates [of example_mc "rq_address (example_read 1 513)" "bank_address 1 4"]
    example_inv example_addr [of 1 513] bank_address_ok [of example_mc 1 4]
  by (auto simp: mc_inv_def mc_ok_def in_bank_def queue_key_def bank_address_def example_simps)

text \<open>
  With per-bank queues and scheduling scheme 0, which the source documents as fixed
  scheduling, or any scheme but 1 and 2, no address has a queue: the assertion of
  \<open>GetCommandQueueId\<close> fails for every address.
\<close>

theorem GetCommandQueueId_scheme0_fails:
  assumes "queueModel m = PerBankQueues" "ScheduleScheme (mc_p m) \<notin> {1, 2}"
  shows "GetCommandQueueId m a = Inl AssertFailed"
  using assms by (simp add: GetCommandQueueId_def)

theorem GetCommandQueueId_scheme0_fails_witness:
  "GetCommandQueueId (example_mc\<lparr> mc_p := example_params\<lparr> ScheduleScheme := 0 \<rparr> \<rparr>) (bank_address 0 0) = Inl AssertFailed"
  by (rule GetCommandQueueId_scheme0_fails) (simp_all add: example_mc_def)

end
