(* ===== verification/Nvm_Refresh.thy ===== *)
theory Nvm_Refresh
  imports Nvm_Queues
begin

text \<open>
  The refresh machinery: \<open>HandleRefresh\<close>, \<open>NextIssuable\<close> and \<open>ScheduleCommandWake\<close> call one
  another. Every refresh pays one of the refreshes the bank groups are owed, so the recursion
  ends; all three keep the configuration and the bank invariant.
\<close>

text \<open>What every operation keeps: the configuration, the bank invariant, and no new refresh debt.\<close>

definition keeps :: "'c MemoryController \<Rightarrow> 'c MemoryController \<Rightarrow> bool" where
  "keeps m m' \<longleftrightarrow> static m' = static m \<and> (bank_inv m \<longrightarrow> bank_inv m') \<and> refresh_debt m' \<le> refresh_debt m"

lemma keeps_refl [simp]: "keeps m m"
  by (simp add: keeps_def)

lemma keeps_trans: "keeps m m' \<Longrightarrow> keeps m' m'' \<Longrightarrow> keeps m m''"
  by (auto simp: keeps_def)

lemma keeps_inv: "keeps m m' \<Longrightarrow> mc_inv m \<Longrightarrow> mc_inv m'"
  using mc_ok_static [of m' m] by (simp add: keeps_def mc_inv_def)

lemma same_core_keeps: "same_core m m' \<Longrightarrow> keeps m m'"
  using bank_inv_frame [of m' m] same_core_debt [of m m'] by (simp add: keeps_def same_core_def)

lemma keeps_ok: "keeps m m' \<Longrightarrow> mc_ok m' = mc_ok m" "keeps m m' \<Longrightarrow> in_bank m' = in_bank m"
  "keeps m m' \<Longrightarrow> mc_p m' = mc_p m" "keeps m m' \<Longrightarrow> m_refreshBankNum m' = m_refreshBankNum m"
  using mc_ok_static [of m' m] in_bank_static [of m' m] by (simp_all add: keeps_def static_def)

lemma close_bank_inv: "bank_inv m \<Longrightarrow> bank_inv (close_bank m rank bank)"
  by (auto simp: bank_inv_def close_bank_def upd2_def in_bank_def)

lemma close_bank_keeps: "keeps m (close_bank m rank bank)"
  using close_bank_inv [of m rank bank]
  by (simp add: keeps_def static_def refresh_debt_def close_bank_def)

lemma refresh_precharge_keeps:
  assumes "mc_ok m" "in_bank m i ((of_nat k + j) mod BANKS (mc_p m))"
  shows "\<exists>m'. refresh_precharge i j k m = Inr m' \<and> keeps m m' \<and> delayedRefreshCounter m' = delayedRefreshCounter m"
proof -
  let ?b = "(of_nat k + j) mod BANKS (mc_p m)"
  obtain q where q: "GetCommandQueueId m (bank_address i ?b) = Inr q" using bank_queue_total [OF assms] by blast
  obtain m1 r where m1: "MakePrechargeAllRequest m 0 0 ?b i 0 = Inr (m1, r)" "same_core m m1"
    using make_at_total [OF assms(1)] unfolding MakePrechargeAllRequest_def by blast
  have "keeps m (close_bank (push_command m1 q r) i ?b)"
    by (rule keeps_trans [OF same_core_keeps [OF same_core_trans [OF m1(2) same_core_push]] close_bank_keeps])
  moreover have "delayedRefreshCounter (close_bank (push_command m1 q r) i ?b) = delayedRefreshCounter m"
    using m1(2) by (simp add: same_core_def close_bank_def push_command_def)
  ultimately show ?thesis using q m1(1) by (simp add: refresh_precharge_def Let_def)
qed

lemma sum_sum_less:
  assumes "\<And>i k. f i k \<le> g i k" "a < A" "b < B" "f a b < (g a b :: nat)"
  shows "(\<Sum>i < A. \<Sum>k < (B :: nat). f i k) < (\<Sum>i < (A :: nat). \<Sum>k < B. g i k)"
proof (rule sum_strict_mono_ex1)
  have "(\<Sum>k < B. f a k) < (\<Sum>k < B. g a k)"
    using assms by (intro sum_strict_mono_ex1) auto
  then show "\<exists>i \<in> {..<A}. (\<Sum>k < B. f i k) < (\<Sum>k < B. g i k)" using assms(2) by auto
qed (use assms(1) in \<open>auto intro: sum_mono\<close>)

text \<open>Paying one refresh lowers the debt.\<close>

lemma refresh_debt_pay:
  assumes "mc_ok m" "UseRefresh (mc_p m)" "in_bank m rank bank"
    and "delayedRefreshCounter m rank (bank div BanksPerRefresh (mc_p m)) \<noteq> 0"
  shows "\<exists>m'. DecrementRefreshCounter m bank rank = Inr m' \<and> keeps m m' \<and> refresh_debt m' < refresh_debt m"
proof -
  let ?g = "bank div BanksPerRefresh (mc_p m)" and ?h = "delayedRefreshCounter m"
  let ?m = "m\<lparr> delayedRefreshCounter := upd2 ?h rank ?g (?h rank ?g + (- 1)) \<rparr>"
  have g: "?g < m_refreshBankNum m" using group_less [OF assms(1,2)] assms(3) by (simp add: in_bank_def)
  have pay: "unat (?h rank ?g - 1) < unat (?h rank ?g)"
    using assms(4) by (simp add: unat_minus_one unat_gt_0)
  have "refresh_debt ?m < refresh_debt m"
    using sum_sum_less [of "\<lambda>i k. unat (upd2 ?h rank ?g (?h rank ?g - 1) (of_nat i) (of_nat k))"
        "\<lambda>i k. unat (?h (of_nat i) (of_nat k))" "unat rank" "unat (RANKS (mc_p m))" "unat ?g"
        "unat (m_refreshBankNum m)"] pay g assms(3)
    by (simp add: refresh_debt_def upd2_def in_bank_def word_less_nat_alt)
  moreover have "bank_inv ?m = bank_inv m" by (intro bank_inv_frame) (simp_all add: static_def bank_state_def)
  moreover have "DecrementRefreshCounter m bank rank = Inr ?m"
    using assms g by (simp add: DecrementRefreshCounter_def add_counter_def mc_ok_def bound_res_def in_bank_def Let_def)
  ultimately show ?thesis by (intro exI [of _ ?m]) (simp add: keeps_def static_def)
qed

lemma UseRefresh_static: "static m' = static m \<Longrightarrow> UseRefresh (mc_p m') = UseRefresh (mc_p m)"
  by (simp add: static_def)

lemma mod_bank: "in_bank m i j \<Longrightarrow> in_bank m i (x mod BANKS (mc_p m))"
  by (cases "BANKS (mc_p m) = 0") (auto simp: in_bank_def word_mod_less_divisor word_gt_0)

text \<open>A wake-up that works while the debt is below \<open>D\<close>.\<close>

definition good_wake :: "nat \<Rightarrow> ('c MemoryController \<Rightarrow> nvm_error + 'c MemoryController) \<Rightarrow> bool" where
  "good_wake D f \<longleftrightarrow> (\<forall>m. mc_inv m \<and> refresh_debt m < D \<longrightarrow> (\<exists>m'. f m = Inr m' \<and> keeps m m'))"

lemma refresh_queue_keeps:
  assumes "mc_inv m" "in_bank m i j"
  shows "\<exists>m'. fold_res (refresh_precharge i j) xs m = Inr m' \<and> keeps m m'
    \<and> delayedRefreshCounter m' = delayedRefreshCounter m"
proof (rule fold_res_inv [where P = "\<lambda>m'. keeps m m' \<and> delayedRefreshCounter m' = delayedRefreshCounter m"])
  fix k m' assume m': "keeps m m' \<and> delayedRefreshCounter m' = delayedRefreshCounter m"
  then obtain m'' where "refresh_precharge i j k m' = Inr m''" "keeps m' m''"
    "delayedRefreshCounter m'' = delayedRefreshCounter m'"
    using refresh_precharge_keeps [of m' i k j] mod_bank [of m' i j] assms
    by (auto simp: keeps_ok mc_inv_def)
  then show "\<exists>m''. refresh_precharge i j k m' = Inr m'' \<and> keeps m m''
      \<and> delayedRefreshCounter m'' = delayedRefreshCounter m"
    using m' keeps_trans by auto
qed simp

lemma refresh_queue_opt:
  assumes "mc_inv m" "in_bank m i j"
  shows "\<exists>m'. (if b then fold_res (refresh_precharge i j) xs m else Inr m) = Inr m' \<and> keeps m m'
    \<and> delayedRefreshCounter m' = delayedRefreshCounter m"
  using refresh_queue_keeps [OF assms, of xs] by (cases b) auto

lemma refresh_group_total:
  assumes inv: "mc_inv m" and ref: "UseRefresh (mc_p m)" and ij: "in_bank m i j"
    and owed: "delayedRefreshCounter m i (j div BanksPerRefresh (mc_p m)) \<noteq> 0"
    and good: "good_wake D f" and debt: "refresh_debt m \<le> D"
  shows "\<exists>m'. refresh_group f i j m = Inr m' \<and> keeps m m' \<and> refresh_debt m' < refresh_debt m"
proof -
  have ok: "mc_ok m" using inv by (simp add: mc_inv_def)
  obtain m1 r where m1: "MakeRefreshRequest m 0 0 j i 0 = Inr (m1, r)" "same_core m m1"
    using make_at_total [OF ok] unfolding MakeRefreshRequest_def by blast
  have k1: "keeps m m1" using m1(2) by (rule same_core_keeps)
  obtain m2 where m2: "(if UsePrecharge (mc_p m1)
      then fold_res (refresh_precharge i j) [0..<unat (BanksPerRefresh (mc_p m1))] m1 else Inr m1) = Inr m2"
    "keeps m1 m2" "delayedRefreshCounter m2 = delayedRefreshCounter m1"
    using refresh_queue_opt [of m1 i j] keeps_inv [OF k1 inv] ij unfolding keeps_ok(2) [OF k1] by blast
  have k2: "keeps m m2" using k1 m2(2) by (rule keeps_trans)
  obtain q where q: "GetCommandQueueId m2 (bank_address i j) = Inr q"
    using bank_queue_total [of m2 i j] ok ij keeps_ok(1,2) [OF k2] by auto
  let ?m3 = "(push_command m2 q (r\<lparr> rq_issueCycle := now m2 \<rparr>))
      \<lparr> refreshQueued := fold (\<lambda>tmpBank f. upd2 f i ((of_nat tmpBank + j) mod BANKS (mc_p m2)) True)
          [0..<unat (BanksPerRefresh (mc_p m2))] (refreshQueued m2) \<rparr>"
  have s3: "same_core m2 ?m3" by (simp add: core_defs push_command_def)
  have k3: "keeps m ?m3" by (rule keeps_trans [OF k2 same_core_keeps [OF s3]])
  have c3: "delayedRefreshCounter ?m3 = delayedRefreshCounter m"
    using m1(2) m2(3) s3 by (simp add: same_core_def push_command_def)
  obtain m4 where m4: "DecrementRefreshCounter ?m3 j i = Inr m4" "keeps ?m3 m4" "refresh_debt m4 < refresh_debt ?m3"
    using refresh_debt_pay [of ?m3 i j] ok ref ij owed unfolding keeps_ok [OF k3] c3 by blast
  have k4: "keeps m m4" using k3 m4(2) by (rule keeps_trans)
  have d4: "refresh_debt m4 < refresh_debt m" using m4(3) k3 by (simp add: keeps_def)
  have ok4: "mc_ok m4" "in_bank m4 i j" "UseRefresh (mc_p m4)" using ok ij ref keeps_ok [OF k4] by simp_all
  obtain need where need: "NeedRefresh m4 j i = Inr need" using NeedRefresh_total [OF ok4(1,2)] by blast
  obtain m5 where m5: "(if \<not> need then ResetRefresh m4 j i else Inr m4) = Inr m5" "same_core m4 m5"
    using set_need_total [OF ok4(1,3,2), of False] unfolding ResetRefresh_def by (cases need) auto
  define m6 where "m6 = (let nb = nextRefreshBank m5 + BanksPerRefresh (mc_p m5);
         nr = nextRefreshRank m5 + 1;
         m = (if nb \<ge> BANKS (mc_p m5)
              then m5\<lparr> nextRefreshBank := 0, nextRefreshRank := if nr = RANKS (mc_p m5) then 0 else nr \<rparr>
              else m5\<lparr> nextRefreshBank := nb \<rparr>) in m\<lparr> handledRefresh := now m \<rparr>)"
  have "same_core m5 m6" by (simp add: core_defs m6_def Let_def)
  then have s6: "same_core m4 m6" using m5(2) same_core_trans by blast
  have k6: "keeps m m6" using k4 same_core_keeps [OF s6] by (rule keeps_trans)
  have d6: "refresh_debt m6 < refresh_debt m" using d4 same_core_debt [OF s6] by simp
  then obtain m7 where m7: "f m6 = Inr m7" "keeps m6 m7"
    using good debt keeps_inv [OF k6 inv] unfolding good_wake_def by (meson less_le_trans)
  have "refresh_group f i j m = Inr m7"
    unfolding refresh_group_def using m1(1) m2(1) q m4(1) need m5(1) m7(1)
    by (simp add: Let_def m6_def push_command_def)
  then show ?thesis using m7(2) keeps_trans [OF k6 m7(2)] d6 by (auto simp: keeps_def)
qed

lemma rank_group_bank:
  assumes "mc_ok m" "UseRefresh (mc_p m)" "k < unat (RANKS (mc_p m))" "g < unat (m_refreshBankNum m)"
  shows "in_bank m (x mod RANKS (mc_p m)) (y mod BANKS (mc_p m))"
proof -
  have "unat (BANKS (mc_p m)) = unat (m_refreshBankNum m) * unat (BanksPerRefresh (mc_p m))"
    "BanksPerRefresh (mc_p m) \<noteq> 0"
    using assms(1,2) by (simp_all add: mc_ok_def)
  moreover have "m_refreshBankNum m \<noteq> 0" using assms(4) by auto
  ultimately have "0 < unat (BANKS (mc_p m))" by (simp add: unat_gt_0)
  then show ?thesis
    using assms(3) by (auto simp: in_bank_def word_less_nat_alt unat_mod)
qed

lemma refresh_loop_total:
  assumes "mc_inv m" "good_wake D f" "refresh_debt m \<le> D"
    and "\<And>k g. (k, g) \<in> set xs \<Longrightarrow> k < unat (RANKS (mc_p m)) \<and> g < unat (m_refreshBankNum m)"
    and "UseRefresh (mc_p m)"
  shows "\<exists>m' b. refresh_loop f xs m = Inr (m', b) \<and> keeps m m' \<and> (b \<longrightarrow> refresh_debt m' < refresh_debt m)
    \<and> (\<not> b \<longrightarrow> m' = m)"
  using assms(4)
proof (induction xs)
  case (Cons x xs)
  obtain k g where x: "x = (k, g)" by fastforce
  let ?i = "(nextRefreshRank m + of_nat k) mod RANKS (mc_p m)"
  let ?j = "(nextRefreshBank m + of_nat g * BanksPerRefresh (mc_p m)) mod BANKS (mc_p m)"
  have ok: "mc_ok m" using assms(1) by (simp add: mc_inv_def)
  have ij: "in_bank m ?i ?j" using rank_group_bank [OF ok assms(5), of k g] Cons.prems [of k g] x by simp
  let ?need = "delayedRefreshCounter m ?i (?j div BanksPerRefresh (mc_p m)) \<ge> DelayedRefreshThreshold (mc_p m)"
  have need: "NeedRefresh m ?j ?i = Inr ?need" using NeedRefresh_total [OF ok ij] assms(5) by simp
  show ?case
  proof (cases ?need)
    case True
    then have "delayedRefreshCounter m ?i (?j div BanksPerRefresh (mc_p m)) \<noteq> 0"
      using ok assms(5) by (auto simp: mc_ok_def)
    then obtain m' where "refresh_group f ?i ?j m = Inr m'" "keeps m m'" "refresh_debt m' < refresh_debt m"
      using refresh_group_total [OF assms(1,5) ij _ assms(2,3)] by blast
    then show ?thesis using need True x by (intro exI [of _ m'] exI [of _ True]) (simp add: Let_def)
  next
    case False
    moreover have "\<exists>m' b. refresh_loop f xs m = Inr (m', b) \<and> keeps m m'
        \<and> (b \<longrightarrow> refresh_debt m' < refresh_debt m) \<and> (\<not> b \<longrightarrow> m' = m)"
      by (rule Cons.IH) (use Cons.prems in auto)
    ultimately show ?thesis using need x by (simp add: Let_def)
  qed
qed (simp, blast)

lemma refresh_loop_no_refresh:
  assumes "\<not> UseRefresh (mc_p m)"
  shows "refresh_loop f xs m = Inr (m, False)"
  using assms by (induction xs) (auto simp: NeedRefresh_def Let_def)

lemma HandleRefresh_with_total:
  assumes "mc_inv m" "good_wake D f" "refresh_debt m \<le> D"
  shows "\<exists>m' b. HandleRefresh_with f m = Inr (m', b) \<and> keeps m m' \<and> (b \<longrightarrow> refresh_debt m' < refresh_debt m)
    \<and> (\<not> b \<longrightarrow> m' = m)"
proof (cases "UseRefresh (mc_p m)")
  case True
  then show ?thesis unfolding HandleRefresh_with_def by (intro refresh_loop_total [OF assms]) auto
next
  case False
  then show ?thesis by (intro exI [of _ m] exI [of _ False]) (simp add: HandleRefresh_with_def refresh_loop_no_refresh)
qed

lemma next_step_total:
  assumes inv: "mc_inv m" and good: "good_wake D f" and debt: "refresh_debt m \<le> D"
    and rb: "in_bank m (of_nat k) (of_nat g)"
  shows "\<exists>m' w'. next_step ch (HandleRefresh_with f) (k, g) (m, w) = Inr (m', w') \<and> keeps m m'"
proof -
  have ok: "mc_ok m" using inv by (simp add: mc_inv_def)
  obtain q where q: "GetCommandQueueId m (bank_address (of_nat k) (of_nat g)) = Inr q"
    using bank_queue_total [OF ok rb] by blast
  obtain need where need: "NeedRefresh m (of_nat g) (of_nat k) = Inr need" "need \<Longrightarrow> UseRefresh (mc_p m)"
    using NeedRefresh_total [OF ok rb] by blast
  obtain due where due: "(if need then IsRefreshBankQueueEmpty m (of_nat g) (of_nat k) else Inr False) = Inr due"
    using IsRefreshBankQueueEmpty_total [OF ok need(2) rb] by (cases need) auto
  obtain m' b where m': "HandleRefresh_with f m = Inr (m', b)" "keeps m m'"
    using HandleRefresh_with_total [OF inv good debt] by blast
  then show ?thesis
    using q need(1) due by (auto simp: next_step_def split: list.splits)
qed

lemma NextIssuable_with_total:
  assumes inv: "mc_inv m" and good: "good_wake D f" and debt: "refresh_debt m \<le> D"
  shows "\<exists>m' w. NextIssuable_with ch (HandleRefresh_with f) m = Inr (m', w) \<and> keeps m m'"
proof -
  let ?xs = "List.product [0..<unat (RANKS (mc_p m))] [0..<unat (BANKS (mc_p m))]"
  have "\<exists>s'. fold_res (next_step ch (HandleRefresh_with f)) ?xs (m, max_u64) = Inr s' \<and> keeps m (fst s')"
  proof (rule fold_res_inv [where P = "\<lambda>s. keeps m (fst s)"])
    fix x and s :: "'a MemoryController \<times> ncycle_t" assume x: "x \<in> set ?xs" and s: "keeps m (fst s)"
    obtain k g where kg: "x = (k, g)" by fastforce
    obtain m1 w where m1: "s = (m1, w)" by fastforce
    have "in_bank m (of_nat k) (of_nat g)"
      using x kg unat_less_u64 [of "RANKS (mc_p m)"] unat_less_u64 [of "BANKS (mc_p m)"]
      by (auto simp: in_bank_def word_less_nat_alt unat_of_nat_small)
    moreover have "refresh_debt m1 \<le> D" using s m1 debt by (simp add: keeps_def)
    moreover have k: "keeps m m1" using s m1 by simp
    ultimately obtain m' w' where "next_step ch (HandleRefresh_with f) (k, g) (m1, w) = Inr (m', w')" "keeps m1 m'"
      using next_step_total [OF keeps_inv [OF k inv] good] keeps_ok(2) [OF k] by metis
    then show "\<exists>s'. next_step ch (HandleRefresh_with f) x s = Inr s' \<and> keeps m (fst s')"
      using kg m1 keeps_trans [OF k] by auto
  qed simp
  then show ?thesis unfolding NextIssuable_with_def by (auto simp: split_beta)
qed

lemma ScheduleCommandWake_with_total:
  assumes "mc_inv m" "\<exists>m' w. next m = Inr (m', w) \<and> keeps m m'"
  shows "\<exists>m'. ScheduleCommandWake_with next m = Inr m' \<and> keeps m m'"
proof -
  obtain m1 w where m1: "next m = Inr (m1, w)" "keeps m m1" using assms(2) by blast
  have "mc_ok m1" using keeps_inv [OF m1(2) assms(1)] by (simp add: mc_inv_def)
  then obtain m2 where "insert_callback m1 cb_CommandQueue w None commandQueuePriority = Inr m2" "same_core m1 m2"
    using insert_callback_total by blast
  then show ?thesis
    using m1 keeps_trans [OF m1(2) same_core_keeps, of m2] by (auto simp: ScheduleCommandWake_with_def)
qed

lemma wake_good: "good_wake n (wake ch n)"
proof (induction n)
  case (Suc n)
  show ?case
    unfolding good_wake_def
  proof (intro allI impI)
    fix m :: "'a MemoryController" assume m: "mc_inv m \<and> refresh_debt m < Suc n"
    then show "\<exists>m'. wake ch (Suc n) m = Inr m' \<and> keeps m m'"
      using ScheduleCommandWake_with_total [of m "NextIssuable_with ch (HandleRefresh_with (wake ch n))"]
        NextIssuable_with_total [of m n "wake ch n" ch] Suc by simp
  qed
qed (simp add: good_wake_def)

lemma good_wake_mono: "good_wake D f \<Longrightarrow> D' \<le> D \<Longrightarrow> good_wake D' f"
  by (auto simp: good_wake_def)

text \<open>
  C3: The three mutually recursive functions of the refresh machinery return. From a
  configured controller with consistent banks, \<open>HandleRefresh\<close>, \<open>NextIssuable\<close> and
  \<open>ScheduleCommandWake\<close> end without an error, whatever the memory answers, keep the
  configuration and the bank invariant, and never owe more refreshes than before. A refresh
  that is handled pays at least one; when none is, the state is as it was.
\<close>

theorem refresh_machinery_terminates:
  assumes "mc_inv m"
  shows "(\<exists>m' b. HandleRefresh ch m = Inr (m', b) \<and> keeps m m' \<and> (b \<longrightarrow> refresh_debt m' < refresh_debt m)
           \<and> (\<not> b \<longrightarrow> m' = m))
    \<and> (\<exists>m' w. NextIssuable ch m = Inr (m', w) \<and> keeps m m')
    \<and> (\<exists>m'. ScheduleCommandWake ch m = Inr m' \<and> keeps m m')"
proof -
  have w: "good_wake (Suc (refresh_debt m)) (wake ch (Suc (refresh_debt m)))" by (rule wake_good)
  have "refresh_debt m \<le> Suc (refresh_debt m)" by simp
  moreover have "\<exists>m'. ScheduleCommandWake ch m = Inr m' \<and> keeps m m'"
    using wake_good [of "Suc (Suc (refresh_debt m))" ch] assms
    unfolding ScheduleCommandWake_def good_wake_def by simp
  ultimately show ?thesis
    using HandleRefresh_with_total [OF assms w] NextIssuable_with_total [OF assms w]
    unfolding HandleRefresh_def NextIssuable_def by blast
qed

theorem refresh_machinery_terminates_witness:
  "mc_inv example_mc \<and> (\<exists>m' b. HandleRefresh example_child example_mc = Inr (m', b) \<and> keeps example_mc m')"
  using refresh_machinery_terminates [OF example_inv, of example_child] example_inv by blast

end
