(* ===== verification/Nvm_RowBuffer.thy ===== *)
theory Nvm_RowBuffer
  imports Nvm_Refresh
begin

text \<open>
  The commands \<open>IssueMemoryCommands\<close> queues, run on an abstract machine of row buffers.
\<close>

section \<open>Commands and row buffers\<close>

text \<open>
  The abstract machine: every subarray has a row buffer that is closed or holds a part of a
  row, given by the row and the multiplexer level. A command that its row buffer does not
  allow has no next state.
\<close>

type_synonym row_buffers = "u64 \<Rightarrow> u64 \<Rightarrow> u64 \<Rightarrow> (u64 \<times> u64) option"

definition run_command :: "u64 \<Rightarrow> NVMainRequest \<Rightarrow> row_buffers \<Rightarrow> row_buffers option" where
  "run_command rbSize r rows =
     (let a = rq_address r; cur = rows (na_rank a) (na_bank a) (na_subarray a);
          target = Some (na_row a, na_col a div rbSize);
          set = upd3 rows (na_rank a) (na_bank a) (na_subarray a)
      in case rq_type r of
           ACTIVATE \<Rightarrow> if cur = None then Some (set target) else None
         | PRECHARGE \<Rightarrow> Some (set None)
         | READ \<Rightarrow> if cur = target then Some rows else None
         | WRITE \<Rightarrow> if cur = target then Some rows else None
         | READ_PRECHARGE \<Rightarrow> if cur = target then Some (set None) else None
         | WRITE_PRECHARGE \<Rightarrow> if cur = target then Some (set None) else None
         | _ \<Rightarrow> None)"

fun run_commands :: "u64 \<Rightarrow> NVMainRequest list \<Rightarrow> row_buffers \<Rightarrow> row_buffers option" where
  "run_commands rbSize [] rows = Some rows"
| "run_commands rbSize (r # rs) rows =
     (case run_command rbSize r rows of None \<Rightarrow> None | Some rows' \<Rightarrow> run_commands rbSize rs rows')"

text \<open>The row buffers as the controller has them on record.\<close>

definition open_rows :: "'c MemoryController \<Rightarrow> row_buffers" where
  "open_rows m rank bank sa =
     (if activeSubArray m rank bank sa
      then Some (effectiveRow m rank bank sa, effectiveMuxedRow m rank bank sa) else None)"

lemma open_rows_frame: "bank_state m' = bank_state m \<Longrightarrow> open_rows m' = open_rows m"
  by (simp add: open_rows_def bank_state_def fun_eq_iff)

lemma open_rows_activateQueued: "open_rows (m\<lparr> activateQueued := f \<rparr>) = open_rows m"
  by (simp add: open_rows_def fun_eq_iff)

lemma open_rows_open_row:
  "open_rows (open_row m a) =
     upd3 (open_rows m) (na_rank a) (na_bank a) (na_subarray a) (Some (na_row a, muxLevel m a))"
  by (simp add: open_rows_def open_row_def upd3_def fun_eq_iff)

lemma open_rows_close_row:
  "open_rows (close_row m a) = upd3 (open_rows m) (na_rank a) (na_bank a) (na_subarray a) None"
  by (simp add: open_rows_def close_row_def upd3_def fun_eq_iff)

lemma upd3_upd3 [simp]: "upd3 (upd3 f a b c v) a b c w = upd3 f a b c w"
  by (simp add: upd3_def fun_eq_iff)

lemma upd3_same [simp]: "upd3 f a b c v a b c = v"
  by (simp add: upd3_def)

lemma upd3_triv: "f a b c = v \<Longrightarrow> upd3 f a b c v = f"
  by (auto simp: upd3_def fun_eq_iff)

lemma row_hit_open:
  "row_hit m a \<longleftrightarrow> open_rows m (na_rank a) (na_bank a) (na_subarray a) = Some (na_row a, na_col a div RBSize (mc_p m))"
  by (auto simp: row_hit_def open_rows_def muxLevel_def)

lemma bank_inv_closed:
  assumes "bank_inv m" "in_subarray m rank bank sa" "\<not> activateQueued m rank bank"
  shows "\<not> activeSubArray m rank bank sa"
  using assms by (auto simp: bank_inv_def in_subarray_def)

lemma bank_inv_open_row: "bank_inv m \<Longrightarrow> addr_ok m a \<Longrightarrow> bank_inv (open_row m a)"
  by (auto simp: bank_inv_def open_row_def addr_ok_def in_subarray_def in_bank_def upd2_def upd3_def)

lemma bank_idle_iff: "bank_idle m rank bank \<longleftrightarrow> (\<forall>sa. sa < subArrayNum m \<longrightarrow> \<not> activeSubArray m rank bank sa)"
proof -
  have "\<exists>i < unat (subArrayNum m). of_nat i = sa" if "sa < subArrayNum m" for sa :: u64
    using that by (intro exI [of _ "unat sa"]) (simp add: word_less_nat_alt)
  moreover have "of_nat i < subArrayNum m" if "i < unat (subArrayNum m)" for i
    using that unat_less_u64 [of "subArrayNum m"] by (simp add: word_less_nat_alt unat_of_nat_small)
  ultimately show ?thesis by (simp add: bank_idle_def list_all_iff Ball_def) metis
qed

lemma close_and_settle_frame:
  "commandQueues (close_and_settle m a) = commandQueues m" "static (close_and_settle m a) = static m"
  "open_rows (close_and_settle m a) = upd3 (open_rows m) (na_rank a) (na_bank a) (na_subarray a) None"
  "delayedRefreshCounter (close_and_settle m a) = delayedRefreshCounter m"
  using open_rows_close_row [of m a]
  by (simp_all add: close_and_settle_def Let_def static_def open_rows_activateQueued)
    (simp_all add: close_row_def)

lemma bank_inv_close_and_settle:
  assumes "bank_inv m" "addr_ok m a" "activateQueued m (na_rank a) (na_bank a)"
  shows "bank_inv (close_and_settle m a)"
  using assms
  by (auto simp: bank_inv_def close_and_settle_def Let_def bank_idle_iff close_row_def addr_ok_def in_subarray_def
      in_bank_def upd2_def upd3_def)

text \<open>The parts of issuing: what they append to the queue and what they keep.\<close>

definition appends :: "'c MemoryController \<Rightarrow> u64 \<Rightarrow> NVMainRequest list \<Rightarrow> 'c MemoryController \<Rightarrow> bool" where
  "appends m q cmds m' \<longleftrightarrow> commandQueues m' = (commandQueues m)(q := commandQueues m q @ cmds) \<and> static m' = static m
     \<and> delayedRefreshCounter m' = delayedRefreshCounter m"

lemma appends_nil [simp]: "appends m q [] m"
  by (simp add: appends_def)

lemma appends_trans: "appends m q xs m1 \<Longrightarrow> appends m1 q ys m2 \<Longrightarrow> appends m q (xs @ ys) m2"
  by (simp add: appends_def)

lemma push_command_appends: "appends m q [r] (push_command m q r)" "bank_state (push_command m q r) = bank_state m"
  by (simp_all add: appends_def push_command_def static_def bank_state_def)

lemma push_activate_appends:
  "\<exists>act. appends m q [act] (push_activate ch m q r) \<and> bank_state (push_activate ch m q r) = bank_state m
     \<and> rq_type act = ACTIVATE \<and> rq_address act = rq_address r"
  by (auto simp: push_activate_def MakeActivateRequest_def new_request_def push_command_def appends_def
      static_def bank_state_def add_flag_def Let_def split: option.splits)

lemma open_row_appends: "appends m q [] (open_row m a)" "mc_p (open_row m a) = mc_p m"
  by (simp_all add: appends_def open_row_def static_def)

lemma set_starvation_appends: "appends m q [] (set_starvation m a v)" "bank_state (set_starvation m a v) = bank_state m"
  by (simp_all add: appends_def set_starvation_def static_def bank_state_def)

lemma close_and_settle_appends: "appends m q [] (close_and_settle m a)"
  by (simp add: appends_def close_and_settle_frame)

text \<open>
  The commands \<open>cmds\<close> are appended to queue \<open>q\<close>, are legal from the recorded row buffers, lead
  to the new recorded ones and end with the access of the request.
\<close>

definition issued :: "'c MemoryController \<Rightarrow> NVMainRequest \<Rightarrow> u64 \<Rightarrow> NVMainRequest list \<Rightarrow> 'c MemoryController \<Rightarrow> bool" where
  "issued m req q cmds m' \<longleftrightarrow> appends m q cmds m' \<and> bank_inv m'
     \<and> run_commands (RBSize (mc_p m)) cmds (open_rows m) = Some (open_rows m')
     \<and> cmds \<noteq> [] \<and> rq_id (last cmds) = rq_id req \<and> rq_address (last cmds) = rq_address req
     \<and> (rq_type (last cmds) = rq_type req
        \<or> has_flag FLAG_LAST_REQUEST req \<and> rq_type (last cmds) = (if rq_type req = READ then READ_PRECHARGE else WRITE_PRECHARGE))"

lemma appends_static: "appends m q xs m' \<Longrightarrow> static m' = static m"
  by (simp add: appends_def)

lemma static_fields:
  assumes "static m' = static m"
  shows "mc_p m' = mc_p m" "subArrayNum m' = subArrayNum m"
  using assms by (simp_all add: static_def)

lemma addr_ok_static: "static m' = static m \<Longrightarrow> addr_ok m' = addr_ok m"
  using in_bank_static [of m' m] static_fields [of m' m] by (simp add: addr_ok_def in_subarray_def fun_eq_iff)

lemma bank_state_active: "bank_state m' = bank_state m \<Longrightarrow> activateQueued m' = activateQueued m"
  by (simp add: bank_state_def)

lemma appends_same:
  assumes "appends m q xs m'" "bank_state m' = bank_state m"
  shows "open_rows m' = open_rows m" "bank_inv m' = bank_inv m" "activateQueued m' = activateQueued m"
    "addr_ok m' = addr_ok m" "mc_p m' = mc_p m"
  using open_rows_frame [OF assms(2)] bank_inv_frame [OF appends_static [OF assms(1)] assms(2)]
    bank_state_active [OF assms(2)] addr_ok_static [OF appends_static [OF assms(1)]]
    static_fields [OF appends_static [OF assms(1)]]
  by simp_all

abbreviation access_ok :: "'c MemoryController \<Rightarrow> NVMainRequest \<Rightarrow> bool" where
  "access_ok m req \<equiv> mc_inv m \<and> addr_ok m (rq_address req) \<and> rq_type req \<in> {READ, WRITE}"

lemma run_access:
  assumes "rq_type r \<in> {READ, WRITE}" "rows (na_rank (rq_address r)) (na_bank (rq_address r)) (na_subarray (rq_address r))
      = Some (na_row (rq_address r), na_col (rq_address r) div rb)"
  shows "run_command rb r rows = Some rows"
    "run_command rb (MakeImplicitPrechargeRequest m r) rows =
       Some (upd3 rows (na_rank (rq_address r)) (na_bank (rq_address r)) (na_subarray (rq_address r)) None)"
  using assms by (auto simp: run_command_def MakeImplicitPrechargeRequest_def Let_def)

lemma run_activate:
  assumes "rq_type act = ACTIVATE" "rows (na_rank (rq_address act)) (na_bank (rq_address act)) (na_subarray (rq_address act)) = None"
  shows "run_command rb act rows = Some (upd3 rows (na_rank (rq_address act)) (na_bank (rq_address act))
    (na_subarray (rq_address act)) (Some (na_row (rq_address act), na_col (rq_address act) div rb)))"
  using assms by (simp add: run_command_def Let_def)

text \<open>Appending the access itself to a state that has its row open.\<close>

lemma issue_access:
  assumes "bank_inv m" "row_hit m (rq_address req)" "rq_type req \<in> {READ, WRITE}"
  shows "issued m req q [req\<lparr> rq_issueCycle := t \<rparr>] (push_command m q (req\<lparr> rq_issueCycle := t \<rparr>))"
proof -
  let ?r = "req\<lparr> rq_issueCycle := t \<rparr>"
  have "open_rows (push_command m q ?r) = open_rows m" "bank_inv (push_command m q ?r) = bank_inv m"
    by (simp_all add: appends_same [OF push_command_appends])
  then show ?thesis
    using assms push_command_appends(1) [of m q ?r] run_access(1) [of ?r "open_rows m" "RBSize (mc_p m)"]
    by (simp add: issued_def row_hit_open)
qed

lemma issue_access_precharge:
  assumes "bank_inv m" "row_hit m (rq_address req)" "rq_type req \<in> {READ, WRITE}" "addr_ok m (rq_address req)"
    and "activateQueued m (na_rank (rq_address req)) (na_bank (rq_address req))" "has_flag FLAG_LAST_REQUEST req"
  shows "issued m req q [MakeImplicitPrechargeRequest m' (req\<lparr> rq_issueCycle := t \<rparr>)]
    (close_and_settle (push_command m q (MakeImplicitPrechargeRequest m' (req\<lparr> rq_issueCycle := t \<rparr>))) (rq_address req))"
proof -
  let ?t = "req\<lparr> rq_issueCycle := t \<rparr>" and ?r = "MakeImplicitPrechargeRequest m' (req\<lparr> rq_issueCycle := t \<rparr>)"
  let ?m = "push_command m q ?r"
  have b: "open_rows ?m = open_rows m" "bank_inv ?m = bank_inv m" "activateQueued ?m = activateQueued m"
    "addr_ok ?m = addr_ok m"
    by (simp_all add: appends_same [OF push_command_appends])
  have "bank_inv (close_and_settle ?m (rq_address req))"
    using assms by (intro bank_inv_close_and_settle) (simp_all add: b)
  moreover have "appends m q [?r] (close_and_settle ?m (rq_address req))"
    using appends_trans [OF push_command_appends(1) close_and_settle_appends] by fastforce
  moreover have "rq_address ?r = rq_address req" "rq_id ?r = rq_id req"
    "rq_type ?r = (if rq_type req = READ then READ_PRECHARGE else WRITE_PRECHARGE)"
    using assms(3) by (auto simp: MakeImplicitPrechargeRequest_def)
  ultimately show ?thesis
    using assms(2,3,6) run_access(2) [of ?t "open_rows m" "RBSize (mc_p m)" m']
    by (simp add: issued_def row_hit_open close_and_settle_frame b)
qed

text \<open>Commands before the access.\<close>

lemma run_commands_append:
  "run_commands rb (xs @ ys) rows =
     (case run_commands rb xs rows of None \<Rightarrow> None | Some r \<Rightarrow> run_commands rb ys r)"
  by (induction xs arbitrary: rows) (auto split: option.splits)

lemma issued_after:
  assumes "appends m q xs m1" "run_commands (RBSize (mc_p m)) xs (open_rows m) = Some (open_rows m1)"
    and "issued m1 req q cmds m'"
  shows "issued m req q (xs @ cmds) m'"
proof -
  show ?thesis
    using assms appends_trans [OF assms(1)] static_fields(1) [OF appends_static [OF assms(1)]]
    by (auto simp: issued_def run_commands_append)
qed

text \<open>An activation of a closed row, then whatever the open row allows.\<close>

lemma issue_activate:
  assumes "bank_inv m" "addr_ok m (rq_address req)" "\<not> activeSubArray m (na_rank (rq_address req)) (na_bank (rq_address req)) (na_subarray (rq_address req))"
    and "appends m q [act] m1" "bank_state m1 = bank_state (open_row m (rq_address req))"
    and "rq_type act = ACTIVATE" "rq_address act = rq_address req"
  shows "bank_inv m1" "row_hit m1 (rq_address req)" "activateQueued m1 (na_rank (rq_address req)) (na_bank (rq_address req))"
    "addr_ok m1 (rq_address req)"
    "run_commands (RBSize (mc_p m)) [act] (open_rows m) = Some (open_rows m1)"
proof -
  let ?a = "rq_address req" and ?o = "open_row m (rq_address req)"
  have st: "static m1 = static ?o" "static m1 = static m"
    using appends_static [OF assms(4)] appends_static [OF open_row_appends(1), of m ?a] by simp_all
  have rows: "open_rows m1 = upd3 (open_rows m) (na_rank ?a) (na_bank ?a) (na_subarray ?a) (Some (na_row ?a, muxLevel m ?a))"
    using open_rows_frame [OF assms(5)] open_rows_open_row by simp
  show "bank_inv m1"
    using bank_inv_frame [OF st(1) assms(5)] bank_inv_open_row [OF assms(1,2)] by simp
  show "row_hit m1 ?a" using static_fields(1) [OF st(2)] by (simp add: row_hit_open rows muxLevel_def)
  show "activateQueued m1 (na_rank ?a) (na_bank ?a)"
    using bank_state_active [OF assms(5)] by (simp add: open_row_def upd2_def)
  show "addr_ok m1 ?a" using addr_ok_static [OF st(2)] assms(2) by simp
  have "open_rows m (na_rank ?a) (na_bank ?a) (na_subarray ?a) = None" using assms(3) by (simp add: open_rows_def)
  then show "run_commands (RBSize (mc_p m)) [act] (open_rows m) = Some (open_rows m1)"
    using run_activate [of act "open_rows m" "RBSize (mc_p m)"] assms(6,7) by (simp add: rows muxLevel_def)
qed

lemma open_row_push: "open_row (push_command m q r) a = push_command (open_row m a) q r"
  by (simp add: open_row_def push_command_def muxLevel_def)

lemma issue_closed_bank:
  assumes inv: "bank_inv m" "addr_ok m (rq_address req)" "rq_type req \<in> {READ, WRITE}"
    and closed: "\<not> activeSubArray m (na_rank (rq_address req)) (na_bank (rq_address req)) (na_subarray (rq_address req))"
    and m1: "m1 = push_activate ch (set_starvation (open_row m (rq_address req)) (rq_address req) 0) q (req\<lparr> rq_issueCycle := t \<rparr>)"
  shows "\<exists>cmds. issued m req q cmds (push_command m1 q (req\<lparr> rq_issueCycle := t \<rparr>))"
    and "has_flag FLAG_LAST_REQUEST req \<Longrightarrow>
      \<exists>cmds. issued m req q cmds
        (close_and_settle (push_command m1 q (MakeImplicitPrechargeRequest m1 (req\<lparr> rq_issueCycle := t \<rparr>))) (rq_address req))"
proof -
  let ?a = "rq_address req" and ?o = "set_starvation (open_row m (rq_address req)) (rq_address req) 0"
  obtain act where act: "appends ?o q [act] m1" "bank_state m1 = bank_state ?o" "rq_type act = ACTIVATE" "rq_address act = ?a"
    using push_activate_appends [of ?o q ch "req\<lparr> rq_issueCycle := t \<rparr>"] m1 by auto
  have "appends m q [] ?o" using appends_trans [OF open_row_appends(1) set_starvation_appends(1), of m q ?a] by simp
  then have ap: "appends m q [act] m1" using appends_trans [OF _ act(1)] by fastforce
  have bs: "bank_state m1 = bank_state (open_row m ?a)" using act(2) by (simp add: set_starvation_appends)
  note open1 = issue_activate [OF inv(1,2) closed ap bs act(3,4)]
  show "\<exists>cmds. issued m req q cmds (push_command m1 q (req\<lparr> rq_issueCycle := t \<rparr>))"
    using issued_after [OF ap open1(5) issue_access [OF open1(1,2) inv(3)]] by blast
  show "\<exists>cmds. issued m req q cmds
      (close_and_settle (push_command m1 q (MakeImplicitPrechargeRequest m1 (req\<lparr> rq_issueCycle := t \<rparr>))) ?a)"
    if "has_flag FLAG_LAST_REQUEST req"
    using issued_after [OF ap open1(5) issue_access_precharge [OF open1(1,2) inv(3) open1(4,3) that]] by blast
qed

lemma conflict_precharge_total:
  assumes "mc_ok m" "UsePrecharge (mc_p m)"
  shows "\<exists>m' xs. conflict_precharge m q a = Inr m' \<and> appends m q xs m' \<and> bank_state m' = bank_state m
    \<and> run_commands rb xs (open_rows m) = Some (upd3 (open_rows m) (na_rank a) (na_bank a) (na_subarray a) None)"
proof (cases "activeSubArray m (na_rank a) (na_bank a) (na_subarray a)")
  case True
  obtain m1 r where m1: "MakePrechargeRequest m (effectiveRow m (na_rank a) (na_bank a) (na_subarray a)) 0 (na_bank a)
      (na_rank a) (na_subarray a) = Inr (m1, r)"
    "same_core m m1" "commandQueues m1 = commandQueues m" "rq_type r = PRECHARGE" "na_bank (rq_address r) = na_bank a"
    "na_rank (rq_address r) = na_rank a" "na_subarray (rq_address r) = na_subarray a"
    using make_at_total [OF assms(1)] unfolding MakePrechargeRequest_def by metis
  have "appends m q [r] (push_command m1 q r)" "bank_state (push_command m1 q r) = bank_state m"
    using m1(2,3) push_command_appends [of m1 q r] by (simp_all add: appends_def same_core_def)
  moreover have "run_commands rb [r] (open_rows m) = Some (upd3 (open_rows m) (na_rank a) (na_bank a) (na_subarray a) None)"
    using m1(4-7) by (simp add: run_command_def Let_def)
  ultimately show ?thesis using m1(1) True assms(2) by (auto simp: conflict_precharge_def)
next
  case False
  then have "upd3 (open_rows m) (na_rank a) (na_bank a) (na_subarray a) None = open_rows m"
    by (intro upd3_triv) (simp add: open_rows_def)
  then show ?thesis
    using False by (intro exI [of _ m] exI [of _ "[]"]) (simp add: conflict_precharge_def)
qed

lemma issue_conflict:
  assumes inv: "mc_inv m" "addr_ok m (rq_address req)" "rq_type req \<in> {READ, WRITE}" "UsePrecharge (mc_p m)"
    and timed: "timed = req\<lparr> rq_issueCycle := t \<rparr>"
  shows "\<exists>m2 cmds. conflict_precharge m q (rq_address req) = Inr m2
    \<and> issued m req q cmds (open_row (push_command (push_activate ch m2 q timed) q timed) (rq_address req))"
proof -
  let ?a = "rq_address req" and ?rb = "RBSize (mc_p m)"
  have ok: "mc_ok m" "bank_inv m" using inv(1) by (simp_all add: mc_inv_def)
  obtain m2 xs where m2: "conflict_precharge m q ?a = Inr m2" "appends m q xs m2" "bank_state m2 = bank_state m"
    "run_commands ?rb xs (open_rows m) = Some (upd3 (open_rows m) (na_rank ?a) (na_bank ?a) (na_subarray ?a) None)"
    using conflict_precharge_total [OF ok(1) inv(4)] by blast
  obtain act where act: "appends m2 q [act] (push_activate ch m2 q timed)"
    "bank_state (push_activate ch m2 q timed) = bank_state m2" "rq_type act = ACTIVATE" "rq_address act = ?a"
    using push_activate_appends [of m2 q ch timed] timed by auto
  define m3 where "m3 = push_activate ch m2 q timed"
  define m4 where "m4 = open_row m3 ?a"
  have ap3: "appends m q (xs @ [act]) m3" using appends_trans [OF m2(2) act(1)] by (simp add: m3_def)
  have ap4: "appends m q (xs @ [act]) m4" using appends_trans [OF ap3 open_row_appends(1), of ?a] by (simp add: m4_def)
  have bs3: "bank_state m3 = bank_state m" using act(2) m2(3) by (simp add: m3_def)
  note same3 = appends_same [OF ap3 bs3]
  have rows4: "open_rows m4 = upd3 (open_rows m) (na_rank ?a) (na_bank ?a) (na_subarray ?a) (Some (na_row ?a, na_col ?a div ?rb))"
    by (simp add: m4_def open_rows_open_row same3 muxLevel_def)
  have "run_commands ?rb (xs @ [act]) (open_rows m) = Some (open_rows m4)"
    using run_activate [of act "upd3 (open_rows m) (na_rank ?a) (na_bank ?a) (na_subarray ?a) None" ?rb] act(3,4) m2(4)
    by (simp add: run_commands_append rows4)
  moreover have "bank_inv m4" using bank_inv_open_row [of m3 ?a] same3 ok(2) inv(2) by (simp add: m4_def)
  moreover have "row_hit m4 ?a" using static_fields(1) [OF appends_static [OF ap4]] by (simp add: row_hit_open rows4)
  ultimately have "issued m req q ((xs @ [act]) @ [timed]) (push_command m4 q timed)"
    using issued_after [OF ap4 _ issue_access [OF _ _ inv(3)]] timed by simp
  then show ?thesis using m2(1) by (auto simp: open_row_push m4_def m3_def)
qed

lemma close_row_idle:
  assumes "bank_inv m" "addr_ok m a" "\<not> activateQueued m (na_rank a) (na_bank a)"
    and "activeSubArray m1 = activeSubArray (open_row m a)" "subArrayNum m1 = subArrayNum m"
  shows "bank_idle (close_row m1 a) (na_rank a) (na_bank a)"
  using assms by (auto simp: bank_idle_iff close_row_def open_row_def upd3_def bank_inv_def addr_ok_def in_subarray_def)

lemma issue_commands_cases:
  assumes inv: "mc_inv m" "addr_ok m (rq_address req)" "rq_type req \<in> {READ, WRITE}" "UsePrecharge (mc_p m)"
    and rb: "RBSize (mc_p m) \<noteq> 0"
    and q: "GetCommandQueueId m (rq_address req) = Inr q" "commandQueues m q = []"
    and cached: "\<And>c. MakeCachedRequest m req = Inr c \<Longrightarrow> ch_IsIssuable ch (mc_child m) (now m) c \<Longrightarrow>
      activateQueued m (na_rank (rq_address req)) (na_bank (rq_address req)) \<and> row_hit m (rq_address req)"
    and close: "ClosePage (mc_p m) = 2 \<Longrightarrow> \<not> activateQueued m (na_rank (rq_address req)) (na_bank (rq_address req))"
  shows "\<exists>m' cmds. issue_commands ch m req = Inr (m', True, True) \<and> issued m req q cmds m'"
proof -
  let ?a = "rq_address req" and ?t = "req\<lparr> rq_issueCycle := now m \<rparr>"
  let ?r = "na_rank (rq_address req)" and ?b = "na_bank (rq_address req)" and ?s = "na_subarray (rq_address req)"
  have ok: "mc_ok m" "bank_inv m" using inv(1) by (simp_all add: mc_inv_def)
  obtain c where c: "MakeCachedRequest m req = Inr c" using inv(3) by (auto simp: MakeCachedRequest_def)
  have sub: "in_subarray m ?r ?b ?s" using inv(2) by (simp add: addr_ok_def)
  note [simp] = q c sub rb bound_res_def inv(4)
  note cached1 = cached [OF c]
  consider (closed) "\<not> activateQueued m ?r ?b"
    | (conflict) "activateQueued m ?r ?b" "\<not> row_hit m ?a"
    | (hit) "activateQueued m ?r ?b" "row_hit m ?a" by blast
  then show ?thesis
  proof cases
    case closed
    then have [simp]: "\<not> ch_IsIssuable ch (mc_child m) (now m) c" using cached1 by blast
    define m1 where "m1 = push_activate ch (set_starvation (open_row m ?a) ?a 0) q ?t"
    define m2 where "m2 = push_command m1 q (MakeImplicitPrechargeRequest m1 ?t)"
    note ok1 = issue_closed_bank [OF ok(2) inv(2,3) bank_inv_closed [OF ok(2) sub closed] m1_def]
    have "bank_idle (close_row m2 ?a) ?r ?b"
      by (rule close_row_idle [OF ok(2) inv(2) closed])
        (simp_all add: m2_def m1_def push_activate_def set_starvation_def MakeActivateRequest_def new_request_def
          push_command_def open_row_def split: option.splits prod.splits)
    then have settle: "close_and_settle m2 ?a = (close_row m2 ?a)\<lparr> activateQueued := upd2 (activateQueued (close_row m2 ?a)) ?r ?b False \<rparr>"
      by (simp add: close_and_settle_def Let_def)
    show ?thesis
    proof (cases "has_flag FLAG_LAST_REQUEST req")
      case True
      then show ?thesis using ok1(2) closed settle
        by (auto simp: issue_commands_def Let_def m1_def m2_def)
    next
      case False
      then show ?thesis using ok1(1) closed by (auto simp: issue_commands_def Let_def m1_def)
    qed
  next
    case conflict
    then have [simp]: "\<not> ch_IsIssuable ch (mc_child m) (now m) c" using cached1 by blast
    let ?m = "set_starvation m ?a 0"
    note same = appends_same [OF set_starvation_appends]
    have "mc_inv ?m" using ok by (simp add: mc_inv_def same mc_ok_static [OF appends_static [OF set_starvation_appends(1)]])
    then obtain m2 cmds where "conflict_precharge ?m q ?a = Inr m2"
      "issued ?m req q cmds (open_row (push_command (push_activate ch m2 q ?t) q ?t) ?a)"
      using issue_conflict [of ?m req ?t "now m" q ch] inv(2-4) by (auto simp: same)
    moreover from this have "issued m req q ([] @ cmds) (open_row (push_command (push_activate ch m2 q ?t) q ?t) ?a)"
      by (intro issued_after [OF set_starvation_appends(1)]) (simp_all add: same)
    ultimately show ?thesis using conflict by (auto simp: issue_commands_def Let_def)
  next
    case hit
    let ?m = "set_starvation m ?a (starvationCounter m ?r ?b ?s + 1)"
    note same = appends_same [OF set_starvation_appends]
    have m: "bank_inv ?m" "row_hit ?m ?a" "addr_ok ?m ?a" "activateQueued ?m ?r ?b"
      using hit ok(2) inv(2) by (simp_all add: same row_hit_open)
    have pre: "run_commands (RBSize (mc_p m)) [] (open_rows m) = Some (open_rows ?m)" by (simp add: same)
    have cp: "ClosePage (mc_p ?m) \<noteq> 2" using hit close by (auto simp: same)
    show ?thesis
    proof (cases "has_flag FLAG_LAST_REQUEST req")
      case True
      then show ?thesis
        using issued_after [OF set_starvation_appends(1) pre issue_access_precharge [OF m(1,2) inv(3) m(3,4) True]] hit cp
        by (auto simp: issue_commands_def Let_def assert_res_def)
    next
      case False
      then show ?thesis
        using issued_after [OF set_starvation_appends(1) pre issue_access [OF m(1,2) inv(3)]] hit
        by (auto simp: issue_commands_def Let_def)
    qed
  qed
qed

lemma issued_inv: "mc_inv m \<Longrightarrow> issued m req q cmds m' \<Longrightarrow> mc_inv m'"
  using mc_ok_static [of m' m] by (simp add: issued_def mc_inv_def appends_def)

lemma ScheduleCommandWake_total: "mc_inv m \<Longrightarrow> \<exists>m'. ScheduleCommandWake ch m = Inr m' \<and> keeps m m'"
  using wake_good [of "Suc (Suc (refresh_debt m))" ch]
  unfolding ScheduleCommandWake_def good_wake_def by simp

text \<open>
  C1: Issuing is legal on the memory's row buffers. A read or write whose command queue is
  empty and that the memory cannot serve without its row is always issued: \<open>IssueMemoryCommands\<close> returns true,
  and the commands it has appended to the request's queue (activate and access, precharge,
  activate and access, or only the access) run on the row buffers the controller has on
  record without a violation, end with the access of the request, and lead to exactly the
  row buffers the controller then records. The bank invariant is kept, through the wake-up
  and refresh that may follow.
\<close>

theorem IssueMemoryCommands_refines_row_buffers:
  assumes "mc_inv m" "addr_ok m (rq_address req)" "rq_type req \<in> {READ, WRITE}" "UsePrecharge (mc_p m)"
    and "RBSize (mc_p m) \<noteq> 0"
    and "GetCommandQueueId m (rq_address req) = Inr q" "commandQueues m q = []"
    and "\<And>c. MakeCachedRequest m req = Inr c \<Longrightarrow> ch_IsIssuable ch (mc_child m) (now m) c \<Longrightarrow>
      activateQueued m (na_rank (rq_address req)) (na_bank (rq_address req)) \<and> row_hit m (rq_address req)"
    and "ClosePage (mc_p m) = 2 \<Longrightarrow> \<not> activateQueued m (na_rank (rq_address req)) (na_bank (rq_address req))"
  shows "\<exists>m1 m' cmds. issue_commands ch m req = Inr (m1, True, True) \<and> issued m req q cmds m1
    \<and> IssueMemoryCommands ch m req = Inr (m', True) \<and> keeps m1 m' \<and> mc_inv m'"
proof -
  obtain m1 cmds where m1: "issue_commands ch m req = Inr (m1, True, True)" "issued m req q cmds m1"
    using issue_commands_cases [OF assms(1-7), of ch] assms(8,9) by blast
  obtain m' where m': "ScheduleCommandWake ch m1 = Inr m'" "keeps m1 m'"
    using ScheduleCommandWake_total [OF issued_inv [OF assms(1) m1(2)]] by blast
  show ?thesis
    using m1 m' keeps_inv [OF m'(2) issued_inv [OF assms(1) m1(2)]]
    by (intro exI [of _ m1] exI [of _ m'] exI [of _ cmds]) (simp add: IssueMemoryCommands_def)
qed

theorem IssueMemoryCommands_refines_row_buffers_witness:
  "\<exists>m1 m' cmds. issue_commands example_child example_mc (example_read 1 513) = Inr (m1, True, True)
    \<and> issued example_mc (example_read 1 513) 13 cmds m1
    \<and> IssueMemoryCommands example_child example_mc (example_read 1 513) = Inr (m', True) \<and> keeps m1 m' \<and> mc_inv m'"
  by (rule IssueMemoryCommands_refines_row_buffers [OF example_inv example_addr _ _ _ example_queue])
    (auto simp: MakeCachedRequest_def example_simps split: if_splits)

end
