(* ===== verification/Nvm_FRFCFS.thy ===== *)
theory Nvm_FRFCFS
  imports Nvm_RowBuffer
begin

text \<open>
  The two basic controllers: \<^verbatim>\<open>MemControl/FRFCFS/FRFCFS.cpp\<close>, first-ready first-come
  first-serve, and \<^verbatim>\<open>MemControl/FCFS/FCFS.cpp\<close>. Both have one transaction queue. The average
  latencies, which are doubles, are left out; the counts they divide by are kept.
\<close>

section \<open>FRFCFS\<close>

record 'c FRFCFS =
  fr_mc :: "'c MemoryController"
  queueSize :: u64
  mem_reads :: u64
  mem_writes :: u64
  rb_hits :: u64
  rb_miss :: u64
  read_rb_hits :: u64
  write_rb_hits :: u64
  read_rb_miss :: u64
  write_rb_miss :: u64
  starvation_precharges :: u64
  write_pauses :: u64
  measuredLatencies :: u64
  measuredQueueLatencies :: u64
  measuredTotalLatencies :: u64

text \<open>The constructor: one empty transaction queue of 64 entries, all statistics zero.\<close>

definition FRFCFS_init :: "'c MemoryController \<Rightarrow> 'c FRFCFS" where
  "FRFCFS_init m =
     \<lparr> fr_mc = m\<lparr> transactionQueues := [[]], starvationThreshold := 4 \<rparr>, queueSize = 64,
       mem_reads = 0, mem_writes = 0, rb_hits = 0, rb_miss = 0, read_rb_hits = 0, write_rb_hits = 0,
       read_rb_miss = 0, write_rb_miss = 0, starvation_precharges = 0, write_pauses = 0,
       measuredLatencies = 0, measuredQueueLatencies = 0, measuredTotalLatencies = 0 \<rparr>"

text \<open>The configured threshold and size, when the keys exist; both are cut to 32 bits.\<close>

definition to_uint32 :: "int \<Rightarrow> u64" where
  "to_uint32 v = ucast (of_int v :: 32 word)"

definition FRFCFS_SetConfig ::
  "'c FRFCFS \<Rightarrow> int option \<Rightarrow> int option \<Rightarrow> u64 option \<Rightarrow> string option \<Rightarrow> nvm_error + 'c FRFCFS" where
  "FRFCFS_SetConfig s threshold qsize matHeight model =
     (let m = (case threshold of None \<Rightarrow> fr_mc s
               | Some v \<Rightarrow> (fr_mc s)\<lparr> starvationThreshold := to_uint32 v \<rparr>);
          s = (case qsize of None \<Rightarrow> s | Some v \<Rightarrow> s\<lparr> queueSize := to_uint32 v \<rparr>)
      in bind_res (MemoryController_SetConfig m matHeight model) (\<lambda>m. Inr (s\<lparr> fr_mc := m \<rparr>)))"

definition memQueue :: "'c FRFCFS \<Rightarrow> NVMainRequest list" where
  "memQueue s = (case transactionQueues (fr_mc s) of [] \<Rightarrow> [] | q # _ \<Rightarrow> q)"

definition set_memQueue :: "'c MemoryController \<Rightarrow> NVMainRequest list \<Rightarrow> 'c MemoryController" where
  "set_memQueue m q = m\<lparr> transactionQueues := (transactionQueues m)[0 := q] \<rparr>"

definition FRFCFS_IsIssuable :: "'c FRFCFS \<Rightarrow> bool" where
  "FRFCFS_IsIssuable s \<longleftrightarrow> \<not> of_nat (length (memQueue s)) \<ge> queueSize s"

definition FRFCFS_IssueCommand ::
  "partition_vals \<Rightarrow> 'c FRFCFS \<Rightarrow> NVMainRequest \<Rightarrow> nvm_error + 'c FRFCFS \<times> bool" where
  "FRFCFS_IssueCommand garbage s req =
     (if \<not> FRFCFS_IsIssuable s then Inr (s, False)
      else bind_res (Enqueue garbage (fr_mc s) 0 (req\<lparr> rq_arrivalCycle := now (fr_mc s) \<rparr>)) (\<lambda>m.
        let s = s\<lparr> fr_mc := m \<rparr>
        in Inr (if rq_type req = READ then s\<lparr> mem_reads := mem_reads s + 1 \<rparr>
                else s\<lparr> mem_writes := mem_writes s + 1 \<rparr>, True)))"

text \<open>\<open>None\<close>: nothing is passed to the parent.\<close>

definition FRFCFS_RequestComplete ::
  "'c FRFCFS \<Rightarrow> NVMainRequest \<Rightarrow> nvm_error + 'c FRFCFS \<times> NVMainRequest option" where
  "FRFCFS_RequestComplete s request =
     (if (rq_type request = WRITE \<or> rq_type request = WRITE_PRECHARGE)
         \<and> (has_flag FLAG_CANCELLED request \<or> has_flag FLAG_PAUSED request) then
        bind_res (Prequeue (fr_mc s) 0 request) (\<lambda>m. Inr (s\<lparr> fr_mc := m \<rparr>, None))
      else if rq_type request \<in> {READ, READ_PRECHARGE, WRITE, WRITE_PRECHARGE} then
        let request = request\<lparr> rq_status := MEM_REQUEST_COMPLETE, rq_completionCycle := now (fr_mc s) \<rparr>;
            s = s\<lparr> measuredLatencies := measuredLatencies s + 1,
                   measuredQueueLatencies := measuredQueueLatencies s + 1,
                   measuredTotalLatencies := measuredTotalLatencies s + 1 \<rparr>
        in Inr (s, MemoryController_RequestComplete (fr_mc s) request)
      else Inr (s, MemoryController_RequestComplete (fr_mc s) request))"

definition count_miss :: "'c FRFCFS \<Rightarrow> NVMainRequest \<Rightarrow> 'c FRFCFS" where
  "count_miss s r =
     (let s = s\<lparr> rb_miss := rb_miss s + 1 \<rparr>
      in if rq_type r = READ then s\<lparr> read_rb_miss := read_rb_miss s + 1 \<rparr>
         else s\<lparr> write_rb_miss := write_rb_miss s + 1 \<rparr>)"

definition count_hit :: "'c FRFCFS \<Rightarrow> NVMainRequest \<Rightarrow> 'c FRFCFS" where
  "count_hit s r =
     (let s = s\<lparr> rb_hits := rb_hits s + 1 \<rparr>
      in if rq_type r = READ then s\<lparr> read_rb_hits := read_rb_hits s + 1 \<rparr>
         else s\<lparr> write_rb_hits := write_rb_hits s + 1 \<rparr>)"

definition take_request :: "'c FRFCFS \<Rightarrow> NVMainRequest \<times> NVMainRequest list \<Rightarrow> 'c FRFCFS" where
  "take_request s = (\<lambda>(r, q). s\<lparr> fr_mc := set_memQueue (fr_mc s) q \<rparr>)"

text \<open>The first part of \<^verbatim>\<open>Cycle\<close>: the chain of scheduling functions, in order.\<close>

definition FRFCFS_schedule :: "'c child \<Rightarrow> 'c FRFCFS \<Rightarrow> nvm_error + 'c FRFCFS \<times> NVMainRequest option" where
  "FRFCFS_schedule ch s =
     (let m = fr_mc s; q = memQueue s in
      bind_res (FindStarvedRequest m DummyPredicate q) (\<lambda>x. case x of
        Some y \<Rightarrow> Inr ((count_miss (take_request s y) (fst y))
             \<lparr> starvation_precharges := starvation_precharges s + 1 \<rparr>, Some (fst y))
      | None \<Rightarrow>
      bind_res (FindRowBufferHit m DummyPredicate q) (\<lambda>x. case x of
        Some y \<Rightarrow> Inr (count_hit (take_request s y) (fst y), Some (fst y))
      | None \<Rightarrow>
      bind_res (FindCachedAddress ch m DummyPredicate q) (\<lambda>x. case x of
        Some y \<Rightarrow> Inr (take_request s y, Some (fst y))
      | None \<Rightarrow>
      bind_res (FindWriteStalledRead ch m DummyPredicate q) (\<lambda>(rv, x).
      if rv then (case x of
          Some y \<Rightarrow> Inr ((take_request s y)\<lparr> write_pauses := write_pauses s + 1 \<rparr>, Some (fst y))
        | None \<Rightarrow> Inr (s, None))
      else
      bind_res (FindOldestReadyRequest m DummyPredicate q) (\<lambda>x. case x of
        Some y \<Rightarrow> Inr (count_miss (take_request s y) (fst y), Some (fst y))
      | None \<Rightarrow>
      bind_res (FindClosedBankRequest m DummyPredicate q) (\<lambda>x. case x of
        Some y \<Rightarrow> Inr (count_miss (take_request s y) (fst y), Some (fst y))
      | None \<Rightarrow> Inr (s, None))))))))"

definition FRFCFS_Cycle :: "'c child \<Rightarrow> 'c FRFCFS \<Rightarrow> ncycle_t \<Rightarrow> nvm_error + 'c FRFCFS" where
  "FRFCFS_Cycle ch s steps =
     bind_res (FRFCFS_schedule ch s) (\<lambda>(s, nextRequest).
     bind_res (case nextRequest of None \<Rightarrow> Inr (fr_mc s)
               | Some r \<Rightarrow> bind_res (IssueMemoryCommands ch (fr_mc s) r) (\<lambda>(m, _). Inr m)) (\<lambda>m.
     bind_res (CycleCommandQueues ch m) (\<lambda>m.
     bind_res (MemoryController_Cycle ch m steps) (\<lambda>m.
     Inr (s\<lparr> fr_mc := m \<rparr>)))))"

section \<open>FCFS\<close>

record 'c FCFS =
  fc_mc :: "'c MemoryController"
  fc_queueSize :: u64
  fc_mem_reads :: u64
  fc_mem_writes :: u64
  fc_measuredLatencies :: u64
  fc_measuredQueueLatencies :: u64
  fc_measuredTotalLatencies :: u64
  fc_rb_hits :: u64
  fc_rb_miss :: u64

definition FCFS_init :: "'c MemoryController \<Rightarrow> 'c FCFS" where
  "FCFS_init m =
     \<lparr> fc_mc = m\<lparr> transactionQueues := [[]] \<rparr>, fc_queueSize = 32, fc_mem_reads = 0, fc_mem_writes = 0,
       fc_measuredLatencies = 0, fc_measuredQueueLatencies = 0, fc_measuredTotalLatencies = 0, fc_rb_hits = 0, fc_rb_miss = 0 \<rparr>"

definition FCFS_SetConfig :: "'c FCFS \<Rightarrow> int option \<Rightarrow> u64 option \<Rightarrow> string option \<Rightarrow> nvm_error + 'c FCFS" where
  "FCFS_SetConfig s qsize matHeight model =
     (let s = (case qsize of None \<Rightarrow> s | Some v \<Rightarrow> s\<lparr> fc_queueSize := to_uint32 v \<rparr>)
      in bind_res (MemoryController_SetConfig (fc_mc s) matHeight model) (\<lambda>m. Inr (s\<lparr> fc_mc := m \<rparr>)))"

definition fc_queue :: "'c MemoryController \<Rightarrow> NVMainRequest list" where
  "fc_queue m = (case transactionQueues m of [] \<Rightarrow> [] | q # _ \<Rightarrow> q)"

definition FCFS_IsIssuable :: "'c FCFS \<Rightarrow> bool" where
  "FCFS_IsIssuable s \<longleftrightarrow> \<not> of_nat (length (fc_queue (fc_mc s))) \<ge> fc_queueSize s"

text \<open>Unlike FRFCFS it leaves \<^verbatim>\<open>arrivalCycle\<close> as it is.\<close>

definition FCFS_IssueCommand ::
  "partition_vals \<Rightarrow> 'c FCFS \<Rightarrow> NVMainRequest \<Rightarrow> nvm_error + 'c FCFS \<times> bool" where
  "FCFS_IssueCommand garbage s request =
     (if \<not> FCFS_IsIssuable s then Inr (s, False)
      else let s = (if rq_type request = READ then s\<lparr> fc_mem_reads := fc_mem_reads s + 1 \<rparr>
                    else s\<lparr> fc_mem_writes := fc_mem_writes s + 1 \<rparr>)
        in bind_res (Enqueue garbage (fc_mc s) 0 request) (\<lambda>m. Inr (s\<lparr> fc_mc := m \<rparr>, True)))"

definition FCFS_RequestComplete :: "'c FCFS \<Rightarrow> NVMainRequest \<Rightarrow> 'c FCFS \<times> NVMainRequest option" where
  "FCFS_RequestComplete s request =
     (if rq_type request \<in> {READ, READ_PRECHARGE, WRITE, WRITE_PRECHARGE} then
        (s\<lparr> fc_measuredLatencies := fc_measuredLatencies s + 1,
            fc_measuredQueueLatencies := fc_measuredQueueLatencies s + 1,
            fc_measuredTotalLatencies := fc_measuredTotalLatencies s + 1 \<rparr>,
         MemoryController_RequestComplete (fc_mc s)
           (request\<lparr> rq_status := MEM_REQUEST_COMPLETE, rq_completionCycle := now (fc_mc s) \<rparr>))
      else (s, MemoryController_RequestComplete (fc_mc s) request))"

definition FCFS_Cycle :: "'c child \<Rightarrow> 'c FCFS \<Rightarrow> ncycle_t \<Rightarrow> nvm_error + 'c FCFS" where
  "FCFS_Cycle ch s steps =
     (let m = fc_mc s; q = fc_queue m in
      bind_res (FindOldestReadyRequest m DummyPredicate q) (\<lambda>x.
      bind_res (case x of Some y \<Rightarrow> Inr (Some y) | None \<Rightarrow> FindClosedBankRequest m DummyPredicate q) (\<lambda>x.
      bind_res (case x of None \<Rightarrow> Inr m
                | Some (r, q) \<Rightarrow> bind_res (IssueMemoryCommands ch (set_memQueue m q) r) (\<lambda>(m, _). Inr m)) (\<lambda>m.
      bind_res (CycleCommandQueues ch m) (\<lambda>m.
      bind_res (MemoryController_Cycle ch m steps) (\<lambda>m.
      Inr (s\<lparr> fc_mc := m \<rparr>)))))))"

section \<open>The scheduling functions\<close>

text \<open>The shared loop is the library's search when its condition has no errors.\<close>

lemma find_request_extract:
  assumes "\<And>r. r \<in> set q \<Longrightarrow> P r = Inr (p r)"
  shows "find_request P q = Inr (map_option (\<lambda>(xs, y, ys). (y, xs @ ys)) (List.extract p q))"
  using assms by (induction q) (auto simp: extract_Nil_code extract_Cons_code split: option.splits)

definition queue_free :: "'c MemoryController \<Rightarrow> NVMainRequest \<Rightarrow> bool" where
  "queue_free m r \<longleftrightarrow> (case GetCommandQueueId m (rq_address r) of Inl _ \<Rightarrow> False | Inr q \<Rightarrow> commandQueues m q = [])"

definition schedulable :: "'c MemoryController \<Rightarrow> NVMainRequest \<Rightarrow> bool" where
  "schedulable m r \<longleftrightarrow> queue_free m r
     \<and> \<not> bankNeedRefresh m (na_rank (rq_address r)) (na_bank (rq_address r))
     \<and> \<not> refreshQueued m (na_rank (rq_address r)) (na_bank (rq_address r)) \<and> rq_arrivalCycle r \<noteq> now m"

definition request_ok :: "'c MemoryController \<Rightarrow> NVMainRequest \<Rightarrow> bool" where
  "request_ok m r \<longleftrightarrow> addr_ok m (rq_address r) \<and> rq_type r \<in> {READ, WRITE}"

lemma request_queue:
  assumes "mc_ok m" "request_ok m r"
  shows "\<exists>q. GetCommandQueueId m (rq_address r) = Inr q \<and> q < commandQueueCount m"
proof -
  have "queues_ok m" using assms(1) by (simp add: mc_ok_def)
  then show ?thesis
    using GetCommandQueueId_number [of m "rq_address r"] GetCommandQueueId_less assms(2) by (auto simp: request_ok_def)
qed

lemma ready_total:
  assumes "mc_ok m" "request_ok m r" "RBSize (mc_p m) \<noteq> 0"
  shows "ready m rows cond r = Inr (schedulable m r \<and> cond r)"
proof -
  obtain q where "GetCommandQueueId m (rq_address r) = Inr q" using request_queue [OF assms(1,2)] by blast
  then show ?thesis
    using assms(2,3)
    by (auto simp: ready_def schedulable_def queue_free_def request_ok_def addr_ok_def in_subarray_def bound_res_def Let_def)
qed

text \<open>What a scheduling function promises of its result.\<close>

definition taken :: "'c MemoryController \<Rightarrow> NVMainRequest list \<Rightarrow> NVMainRequest \<times> NVMainRequest list \<Rightarrow> bool" where
  "taken m q = (\<lambda>(r, q'). \<exists>xs y ys. q = xs @ y # ys \<and> q' = xs @ ys \<and> queue_free m y
     \<and> r \<in> {y, add_flag FLAG_LAST_REQUEST y})"

lemma mark_last_taken:
  assumes "List.extract p q = Some (xs, y, ys)" "\<And>r. p r \<Longrightarrow> queue_free m r"
  shows "\<exists>z. mark_last m (Some (y, xs @ ys)) = Some z \<and> taken m q z"
  using assms by (auto simp: extract_Some_iff mark_last_def taken_def)

lemma find_first: "p y \<Longrightarrow> \<forall>x \<in> set xs. \<not> p x \<Longrightarrow> List.find p (xs @ y # ys) = Some y"
  by (induction xs) auto

lemma scheduler_total:
  assumes "\<And>r. r \<in> set q \<Longrightarrow> P r = Inr (p r)" "\<And>r. p r \<Longrightarrow> queue_free m r"
  shows "(\<exists>z y. bind_res (find_request P q) (\<lambda>x. Inr (mark_last m x)) = Inr (Some z) \<and> taken m q z
           \<and> List.find p q = Some y \<and> fst z \<in> {y, add_flag FLAG_LAST_REQUEST y})
    \<or> bind_res (find_request P q) (\<lambda>x. Inr (mark_last m x)) = Inr None \<and> List.find p q = None"
proof (cases "List.extract p q")
  case None
  then have "List.find p q = None" by (simp add: extract_None_iff find_None_iff)
  then show ?thesis using None find_request_extract [of q P p] assms(1) by (simp add: mark_last_def)
next
  case (Some t)
  obtain xs y ys where t: "t = (xs, y, ys)" by (cases t) auto
  then have e: "List.extract p q = Some (xs, y, ys)" using Some by simp
  then have "List.find p q = Some y" by (auto simp: extract_Some_iff intro: find_first)
  moreover obtain z where z: "mark_last m (Some (y, xs @ ys)) = Some z" "taken m q z"
    using mark_last_taken [OF e assms(2)] by blast
  moreover have "fst z \<in> {y, add_flag FLAG_LAST_REQUEST y}" using z(1) by (auto simp: mark_last_def split: if_splits)
  ultimately show ?thesis using find_request_extract [of q P p] assms(1) e by auto
qed

text \<open>
  The contract of the four scheduling functions that differ only in their condition: the
  oldest request that can be scheduled, satisfies the condition and the caller's predicate
  leaves the queue, and nothing else changes.
\<close>

locale request_finder =
  fixes finder :: "'c MemoryController \<Rightarrow> (NVMainRequest \<Rightarrow> bool) \<Rightarrow> NVMainRequest list
      \<Rightarrow> nvm_error + (NVMainRequest \<times> NVMainRequest list) option"
    and cond :: "'c MemoryController \<Rightarrow> NVMainRequest \<Rightarrow> bool" and rows :: bool
  assumes finder_loop: "finder m pred q =
    bind_res (find_request (ready m rows (\<lambda>r. cond m r \<and> pred r)) q) (\<lambda>x. Inr (mark_last m x))"
begin

lemma finds:
  assumes "mc_ok m" "RBSize (mc_p m) \<noteq> 0" "\<forall>r \<in> set q. request_ok m r"
  shows "(\<exists>z y. finder m pred q = Inr (Some z) \<and> taken m q z
           \<and> List.find (\<lambda>x. schedulable m x \<and> cond m x \<and> pred x) q = Some y \<and> fst z \<in> {y, add_flag FLAG_LAST_REQUEST y})
    \<or> finder m pred q = Inr None \<and> List.find (\<lambda>x. schedulable m x \<and> cond m x \<and> pred x) q = None"
  unfolding finder_loop
proof (rule scheduler_total)
  show "ready m rows (\<lambda>r. cond m r \<and> pred r) r = Inr (schedulable m r \<and> cond m r \<and> pred r)" if "r \<in> set q" for r
    using that assms by (simp add: ready_total)
qed (simp add: schedulable_def)

lemma found_taken:
  assumes "mc_ok m" "RBSize (mc_p m) \<noteq> 0" "\<forall>r \<in> set q. request_ok m r"
  shows "\<exists>x. finder m pred q = Inr x \<and> (\<forall>z. x = Some z \<longrightarrow> taken m q z)"
  using finds [OF assms, of pred] by auto

lemma finds_oldest:
  assumes "mc_ok m" "RBSize (mc_p m) \<noteq> 0" "\<forall>r \<in> set q. request_ok m r"
  shows "List.find (\<lambda>x. schedulable m x \<and> cond m x) q = Some y \<Longrightarrow>
      \<exists>r q'. finder m DummyPredicate q = Inr (Some (r, q')) \<and> (r = y \<or> r = add_flag FLAG_LAST_REQUEST y)"
    and "List.find (\<lambda>x. schedulable m x \<and> cond m x) q = None \<Longrightarrow> finder m DummyPredicate q = Inr None"
  using finds [OF assms, of DummyPredicate] by (auto simp: DummyPredicate_def)

end

definition starved :: "'c MemoryController \<Rightarrow> NVMainRequest \<Rightarrow> bool" where
  "starved m r \<longleftrightarrow> bank_active m r \<and> \<not> row_hit m (rq_address r)
     \<and> starvationCounter m (na_rank (rq_address r)) (na_bank (rq_address r)) (na_subarray (rq_address r))
         \<ge> starvationThreshold m"

interpretation starved_finder: request_finder FindStarvedRequest starved True
  by unfold_locales (simp add: FindStarvedRequest_def starved_def)

interpretation hit_finder: request_finder FindRowBufferHit
    "\<lambda>m r. bank_active m r \<and> row_hit m (rq_address r)" True
  by unfold_locales (simp add: FindRowBufferHit_def)

interpretation oldest_finder: request_finder FindOldestReadyRequest bank_active False
  by unfold_locales (simp add: FindOldestReadyRequest_def)

interpretation closed_finder: request_finder FindClosedBankRequest "\<lambda>m r. \<not> bank_active m r" False
  by unfold_locales (simp add: FindClosedBankRequest_def)

lemma FindCachedAddress_taken:
  assumes "mc_ok m" "\<forall>r \<in> set q. request_ok m r"
  shows "\<exists>x. FindCachedAddress ch m pred q = Inr x \<and> (\<forall>z. x = Some z \<longrightarrow> taken m q z)"
proof -
  let ?c = "\<lambda>r. (copy_request (mc_fresh m) r)\<lparr> rq_type := if rq_type r = READ then CACHED_READ else CACHED_WRITE,
      rq_owner := mc_this m \<rparr>"
  let ?p = "\<lambda>r. queue_free m r \<and> ch_IsIssuable ch (mc_child m) (now m) (?c r) \<and> rq_arrivalCycle r \<noteq> now m \<and> pred r"
  have "bind_res (GetCommandQueueId m (rq_address r)) (\<lambda>queueId. bind_res (MakeCachedRequest m r) (\<lambda>cachedRequest.
       Inr (commandQueues m queueId = [] \<and> ch_IsIssuable ch (mc_child m) (now m) cachedRequest
            \<and> rq_arrivalCycle r \<noteq> now m \<and> pred r))) = Inr (?p r)" if "r \<in> set q" for r
    using request_queue [OF assms(1), of r] that assms(2)
    by (auto simp: queue_free_def MakeCachedRequest_def request_ok_def)
  then have "FindCachedAddress ch m pred q = Inr (map_option (\<lambda>(xs, y, ys). (y, xs @ ys)) (List.extract ?p q))"
    unfolding FindCachedAddress_def by (rule find_request_extract)
  then show ?thesis
    by (auto simp: extract_Some_iff taken_def)
qed

lemma taken_intro:
  "q = xs @ y # ys \<Longrightarrow> queue_free m y \<Longrightarrow> r = y \<or> r = add_flag FLAG_LAST_REQUEST y \<Longrightarrow> taken m q (r, xs @ ys)"
  unfolding taken_def by auto

lemma stalled_check_total:
  assumes "mc_ok m" "request_ok m r"
  shows "\<exists>v. stalled_check ch m pred r = Inr v \<and> (v = Take \<longrightarrow> queue_free m r)"
proof -
  obtain q where "GetCommandQueueId m (rq_address r) = Inr q" using request_queue [OF assms] by blast
  then show ?thesis
    using assms(2)
    by (auto simp: stalled_check_def queue_free_def request_ok_def addr_ok_def in_subarray_def bound_res_def Let_def
        split: option.splits)
qed

lemma stalled_loop_total:
  assumes "\<And>r. r \<in> set q \<Longrightarrow> \<exists>v. P r = Inr v \<and> (v = Take \<longrightarrow> queue_free m r)"
  shows "\<exists>rv x. stalled_loop P q = Inr (rv, x) \<and> (\<forall>r q'. x = Some (r, q') \<longrightarrow>
     (\<exists>xs ys. q = xs @ r # ys \<and> q' = xs @ ys \<and> queue_free m r))"
  using assms
proof (induction q)
  case (Cons r q)
  then obtain v where v: "P r = Inr v" "v = Take \<longrightarrow> queue_free m r" by fastforce
  obtain rv x where x: "stalled_loop P q = Inr (rv, x)" "\<forall>r q'. x = Some (r, q') \<longrightarrow>
      (\<exists>xs ys. q = xs @ r # ys \<and> q' = xs @ ys \<and> queue_free m r)"
    using Cons by fastforce
  show ?case
  proof (cases v)
    case Skip
    have "\<exists>xs ys. r # q = xs @ y # ys \<and> r # q'' = xs @ ys \<and> queue_free m y" if "x = Some (y, q'')" for y q''
      using x(2) that by (metis append_Cons)
    then show ?thesis using v(1) x(1) Skip by (cases x) auto
  next
    case Take
    then show ?thesis using v by (auto intro: exI [of _ "[]"])
  qed (use v in auto)
qed auto

lemma FindWriteStalledRead_taken:
  assumes "mc_ok m" "\<forall>r \<in> set q. request_ok m r"
  shows "\<exists>rv x. FindWriteStalledRead ch m pred q = Inr (rv, x) \<and> (\<forall>z. x = Some z \<longrightarrow> taken m q z)"
proof -
  obtain rv x where x: "stalled_loop (stalled_check ch m pred) q = Inr (rv, x)" "\<forall>r q'. x = Some (r, q') \<longrightarrow>
      (\<exists>xs ys. q = xs @ r # ys \<and> q' = xs @ ys \<and> queue_free m r)"
    using stalled_loop_total [of q "stalled_check ch m pred" m] stalled_check_total [OF assms(1)] assms(2) by blast
  have "taken m q z" if "mark_last m x = Some z" for z
    using that x(2) by (cases x) (auto simp: mark_last_def intro: taken_intro split: if_splits)
  then show ?thesis using x(1) by (auto simp: FindWriteStalledRead_def)
qed

section \<open>Scheduling in FRFCFS\<close>

text \<open>A controller whose one transaction queue holds well-formed reads and writes.\<close>

definition frfcfs_ok :: "'c FRFCFS \<Rightarrow> bool" where
  "frfcfs_ok s \<longleftrightarrow> mc_inv (fr_mc s) \<and> RBSize (mc_p (fr_mc s)) \<noteq> 0 \<and> length (transactionQueues (fr_mc s)) = 1
     \<and> (\<forall>r \<in> set (memQueue s). request_ok (fr_mc s) r)"

lemma taken_mc: "fr_mc (take_request s z) = set_memQueue (fr_mc s) (snd z)"
  "fr_mc (count_miss s r) = fr_mc s" "fr_mc (count_hit s r) = fr_mc s"
  by (simp_all add: take_request_def count_miss_def count_hit_def Let_def split: prod.splits)

definition schedules :: "'c FRFCFS \<Rightarrow> 'c FRFCFS \<times> NVMainRequest option \<Rightarrow> bool" where
  "schedules s = (\<lambda>(s', x). case x of None \<Rightarrow> s' = s
     | Some r \<Rightarrow> \<exists>q'. taken (fr_mc s) (memQueue s) (r, q') \<and> fr_mc s' = set_memQueue (fr_mc s) q')"

lemma schedules_some:
  "taken (fr_mc s) (memQueue s) (r, q') \<Longrightarrow> fr_mc s' = set_memQueue (fr_mc s) q' \<Longrightarrow> schedules s (s', Some r)"
  by (auto simp: schedules_def)

lemma FRFCFS_schedule_total:
  assumes "frfcfs_ok s"
  shows "\<exists>y. FRFCFS_schedule ch s = Inr y \<and> schedules s y"
proof -
  let ?m = "fr_mc s" and ?q = "memQueue s"
  have ok: "mc_ok ?m" "RBSize (mc_p ?m) \<noteq> 0" "\<forall>r \<in> set ?q. request_ok ?m r"
    using assms by (simp_all add: frfcfs_ok_def mc_inv_def)
  obtain x1 where x1: "FindStarvedRequest ?m DummyPredicate ?q = Inr x1" "\<forall>z. x1 = Some z \<longrightarrow> taken ?m ?q z"
    using starved_finder.found_taken [OF ok] by blast
  obtain x2 where x2: "FindRowBufferHit ?m DummyPredicate ?q = Inr x2" "\<forall>z. x2 = Some z \<longrightarrow> taken ?m ?q z"
    using hit_finder.found_taken [OF ok] by blast
  obtain x3 where x3: "FindCachedAddress ch ?m DummyPredicate ?q = Inr x3" "\<forall>z. x3 = Some z \<longrightarrow> taken ?m ?q z"
    using FindCachedAddress_taken [OF ok(1,3)] by blast
  obtain rv x4 where x4: "FindWriteStalledRead ch ?m DummyPredicate ?q = Inr (rv, x4)" "\<forall>z. x4 = Some z \<longrightarrow> taken ?m ?q z"
    using FindWriteStalledRead_taken [OF ok(1,3)] by blast
  obtain x5 where x5: "FindOldestReadyRequest ?m DummyPredicate ?q = Inr x5" "\<forall>z. x5 = Some z \<longrightarrow> taken ?m ?q z"
    using oldest_finder.found_taken [OF ok] by blast
  obtain x6 where x6: "FindClosedBankRequest ?m DummyPredicate ?q = Inr x6" "\<forall>z. x6 = Some z \<longrightarrow> taken ?m ?q z"
    using closed_finder.found_taken [OF ok] by blast
  have none: "schedules s (s, None)" by (simp add: schedules_def)
  show ?thesis
    using x1(2) x2(2) x3(2) x4(2) x5(2) x6(2) none
    by (cases x1; cases x2; cases x3; cases x4; cases x5; cases x6)
      (auto simp: FRFCFS_schedule_def Let_def x1(1) x2(1) x3(1) x4(1) x5(1) x6(1) taken_mc intro!: schedules_some)
qed

lemma set_memQueue_frame:
  "GetCommandQueueId (set_memQueue m q) = GetCommandQueueId m" "commandQueues (set_memQueue m q) = commandQueues m"
  "static (set_memQueue m q) = static m" "bank_state (set_memQueue m q) = bank_state m"
  "activateQueued (set_memQueue m q) = activateQueued m" "mc_p (set_memQueue m q) = mc_p m"
  "refresh_debt (set_memQueue m q) = refresh_debt m"
  by (simp_all add: set_memQueue_def GetCommandQueueId_def fun_eq_iff static_def bank_state_def refresh_debt_def Let_def
      split: QueueModel.splits)

lemma set_memQueue_inv: "mc_inv (set_memQueue m q) = mc_inv m" "addr_ok (set_memQueue m q) = addr_ok m"
  using mc_ok_static [OF set_memQueue_frame(3)] bank_inv_frame [OF set_memQueue_frame(3,4)]
    addr_ok_static [OF set_memQueue_frame(3)]
  by (auto simp: mc_inv_def)

text \<open>The access that needs no row: the request alone is queued, and the wake-up is left out.\<close>

lemma issue_commands_accepts:
  assumes inv: "mc_inv m" "addr_ok m (rq_address req)" "rq_type req \<in> {READ, WRITE}" "UsePrecharge (mc_p m)"
    and rb: "RBSize (mc_p m) \<noteq> 0"
    and q: "GetCommandQueueId m (rq_address req) = Inr q" "commandQueues m q = []"
    and close: "ClosePage (mc_p m) = 2 \<Longrightarrow> \<not> activateQueued m (na_rank (rq_address req)) (na_bank (rq_address req))"
  shows "\<exists>m1 sch. issue_commands ch m req = Inr (m1, True, sch) \<and> mc_inv m1 \<and> commandQueues m1 q \<noteq> []
    \<and> rq_id (last (commandQueues m1 q)) = rq_id req"
proof -
  let ?a = "rq_address req" and ?t = "req\<lparr> rq_issueCycle := now m \<rparr>"
  obtain c where c: "MakeCachedRequest m req = Inr c" using inv(3) by (auto simp: MakeCachedRequest_def)
  let ?hit = "activateQueued m (na_rank ?a) (na_bank ?a) \<and> row_hit m ?a"
  show ?thesis
  proof (cases "ch_IsIssuable ch (mc_child m) (now m) c \<and> \<not> ?hit")
    case True
    have "mc_inv (push_command m q ?t) = mc_inv m" by (rule same_core_inv [OF same_core_push])
    moreover have "issue_commands ch m req = Inr (push_command m q ?t, True, False)"
      using True c q rb inv(2) by (auto simp: issue_commands_def Let_def bound_res_def addr_ok_def)
    ultimately show ?thesis using inv(1) by (auto simp: push_command_def)
  next
    case False
    have "\<exists>m' cmds. issue_commands ch m req = Inr (m', True, True) \<and> issued m req q cmds m'"
      by (rule issue_commands_cases [OF inv rb q _ close]) (use False c in auto)
    then obtain m' cmds where m': "issue_commands ch m req = Inr (m', True, True)" "issued m req q cmds m'" by blast
    have "mc_inv m'" by (rule issued_inv [OF inv(1) m'(2)])
    then show ?thesis using m' q(2) by (auto simp: issued_def appends_def)
  qed
qed

lemma taken_request:
  assumes "taken m q (r, q')"
  shows "\<exists>xs y ys. q = xs @ y # ys \<and> q' = xs @ ys \<and> queue_free m r \<and> rq_id r = rq_id y \<and> rq_address r = rq_address y
    \<and> rq_type r = rq_type y"
  using assms by (auto simp: taken_def queue_free_def add_flag_def) blast+

lemma FRFCFS_picks_first:
  assumes "frfcfs_ok s"
    and "p = (if \<exists>x \<in> set (memQueue s). schedulable (fr_mc s) x \<and> starved (fr_mc s) x then starved (fr_mc s)
              else (\<lambda>x. bank_active (fr_mc s) x \<and> row_hit (fr_mc s) (rq_address x)))"
    and "List.find (\<lambda>x. schedulable (fr_mc s) x \<and> p x) (memQueue s) = Some y"
  shows "\<exists>s' r. FRFCFS_schedule ch s = Inr (s', Some r) \<and> r \<in> {y, add_flag FLAG_LAST_REQUEST y}"
proof -
  let ?m = "fr_mc s" and ?q = "memQueue s"
  have ok: "mc_ok ?m" "RBSize (mc_p ?m) \<noteq> 0" "\<forall>r \<in> set ?q. request_ok ?m r"
    using assms(1) by (simp_all add: frfcfs_ok_def mc_inv_def)
  show ?thesis
  proof (cases "\<exists>x \<in> set ?q. schedulable ?m x \<and> starved ?m x")
    case True
    then have "p = starved ?m" using assms(2) by simp
    then show ?thesis
      using starved_finder.finds_oldest(1) [OF ok] assms(3) by (fastforce simp: FRFCFS_schedule_def Let_def)
  next
    case False
    have p: "p = (\<lambda>x. bank_active ?m x \<and> row_hit ?m (rq_address x))"
      by (rule trans [OF assms(2) if_not_P [OF False]])
    have "List.find (\<lambda>x. schedulable ?m x \<and> starved ?m x) ?q = None" using False by (auto simp: find_None_iff)
    then have "FindStarvedRequest ?m DummyPredicate ?q = Inr None" by (rule starved_finder.finds_oldest(2) [OF ok])
    then show ?thesis
      using hit_finder.finds_oldest(1) [OF ok] assms(3) by (fastforce simp: p FRFCFS_schedule_def Let_def)
  qed
qed

definition example_frfcfs :: "NVMainRequest list \<Rightarrow> unit FRFCFS" where
  "example_frfcfs q = (FRFCFS_init example_mc)\<lparr> fr_mc := (open_row example_mc (rq_address (example_read 1 513)))
     \<lparr> transactionQueues := [q] \<rparr> \<rparr>"

lemma example_frfcfs_ok:
  assumes "\<forall>r \<in> set q. request_ok example_mc r"
  shows "frfcfs_ok (example_frfcfs q)"
proof -
  let ?o = "open_row example_mc (rq_address (example_read 1 513))"
  have st: "static (fr_mc (example_frfcfs q)) = static example_mc"
    by (simp add: example_frfcfs_def FRFCFS_init_def static_def open_row_def)
  have "bank_inv ?o" using bank_inv_open_row [OF _ example_addr] example_inv by (simp add: mc_inv_def)
  then have "bank_inv (fr_mc (example_frfcfs q))"
    using bank_inv_frame [of "fr_mc (example_frfcfs q)" ?o]
    by (simp add: example_frfcfs_def FRFCFS_init_def static_def bank_state_def)
  moreover have "mc_ok (fr_mc (example_frfcfs q))" using mc_ok_static [OF st] example_inv by (simp add: mc_inv_def)
  moreover have "request_ok (fr_mc (example_frfcfs q)) r" if "r \<in> set q" for r
    using assms that addr_ok_static [OF st] by (auto simp: request_ok_def)
  ultimately show ?thesis
    using static_fields(1) [OF st]
    by (simp add: frfcfs_ok_def mc_inv_def example_frfcfs_def FRFCFS_init_def memQueue_def example_mc_def example_params_def)
qed

text \<open>An older read of another row and a younger one of the open row.\<close>

definition example_queue2 :: "NVMainRequest list" where
  "example_queue2 = [example_read 1 12, example_read 2 513]"

lemma example_queue2_ok: "frfcfs_ok (example_frfcfs example_queue2)"
  by (rule example_frfcfs_ok)
    (use example_addr in \<open>auto simp: example_queue2_def request_ok_def example_read_def\<close>)

lemmas example_frfcfs_simps = example_queue2_def memQueue_def example_frfcfs_def FRFCFS_init_def open_row_def
  upd2_def upd3_def GetCommandQueueId_def EventQueue_init_def muxLevel_def

lemma example_find:
  assumes "s = example_frfcfs example_queue2"
    and "p = (if \<exists>x \<in> set (memQueue s). schedulable (fr_mc s) x \<and> starved (fr_mc s) x then starved (fr_mc s)
              else (\<lambda>x. bank_active (fr_mc s) x \<and> row_hit (fr_mc s) (rq_address x)))"
  shows "List.find (\<lambda>x. schedulable (fr_mc s) x \<and> p x) (memQueue s) = Some (example_read 2 513)"
proof -
  have st: "\<not> (\<exists>x \<in> set (memQueue s). schedulable (fr_mc s) x \<and> starved (fr_mc s) x)"
    by (simp add: assms(1) starved_def example_frfcfs_simps example_simps)
  show ?thesis
    unfolding trans [OF assms(2) if_not_P [OF st]] assms(1)
    by (simp add: schedulable_def queue_free_def bank_active_def row_hit_def example_frfcfs_simps example_simps)
qed

text \<open>
  C2: No request is lost between the queues. \<open>FRFCFS\<close>'s scheduler ends without an error; when
  it picks a request it takes exactly that one out of the transaction queue, the others keep
  their order, and \<open>IssueMemoryCommands\<close>, whose result \<^verbatim>\<open>Cycle\<close> ignores, always accepts it: the
  last command of its command queue is then the access of the request. When nothing is
  picked the controller is as it was.
\<close>

theorem FRFCFS_loses_no_request:
  assumes "frfcfs_ok s" "UsePrecharge (mc_p (fr_mc s))"
    and "ClosePage (mc_p (fr_mc s)) = 2 \<Longrightarrow> \<forall>rank bank. \<not> activateQueued (fr_mc s) rank bank"
  shows "\<exists>s' x. FRFCFS_schedule ch s = Inr (s', x) \<and> (case x of None \<Rightarrow> s' = s
    | Some r \<Rightarrow> \<exists>xs y ys q m1 sch m'. memQueue s = xs @ y # ys \<and> memQueue s' = xs @ ys \<and> rq_id r = rq_id y
        \<and> GetCommandQueueId (fr_mc s) (rq_address y) = Inr q
        \<and> issue_commands ch (fr_mc s') r = Inr (m1, True, sch) \<and> commandQueues m1 q \<noteq> []
        \<and> rq_id (last (commandQueues m1 q)) = rq_id y
        \<and> IssueMemoryCommands ch (fr_mc s') r = Inr (m', True) \<and> mc_inv m')"
proof -
  let ?m = "fr_mc s"
  obtain s' x where sx: "FRFCFS_schedule ch s = Inr (s', x)" "schedules s (s', x)"
    using FRFCFS_schedule_total [OF assms(1)] by fastforce
  show ?thesis
  proof (cases x)
    case None
    then show ?thesis using sx by (auto simp: schedules_def)
  next
    case (Some r)
    then obtain q' where q': "taken ?m (memQueue s) (r, q')" "fr_mc s' = set_memQueue ?m q'"
      using sx(2) by (auto simp: schedules_def)
    then obtain xs y ys where y: "memQueue s = xs @ y # ys" "q' = xs @ ys" "queue_free ?m r" "rq_id r = rq_id y"
      "rq_address r = rq_address y" "rq_type r = rq_type y" using taken_request by blast
    have mq: "memQueue s' = q'"
      using assms(1) q'(2) by (auto simp: memQueue_def set_memQueue_def frfcfs_ok_def length_Suc_conv)
    obtain q where q: "GetCommandQueueId ?m (rq_address y) = Inr q" "commandQueues ?m q = []"
      using y(3,5) by (auto simp: queue_free_def split: sum.splits)
    have req: "request_ok ?m y" using assms(1) y(1) by (auto simp: frfcfs_ok_def)
    obtain m1 sch where m1: "issue_commands ch (fr_mc s') r = Inr (m1, True, sch)" "mc_inv m1" "commandQueues m1 q \<noteq> []"
      "rq_id (last (commandQueues m1 q)) = rq_id r"
      using issue_commands_accepts [of "fr_mc s'" r q ch] assms q req y(5,6)
      by (auto simp: q'(2) set_memQueue_inv set_memQueue_frame frfcfs_ok_def request_ok_def)
    obtain m' where "ScheduleCommandWake ch m1 = Inr m'" "mc_inv m'"
      using ScheduleCommandWake_total [OF m1(2)] keeps_inv m1(2) by blast
    then have "\<exists>m'. IssueMemoryCommands ch (fr_mc s') r = Inr (m', True) \<and> mc_inv m'"
      using m1(1,2) by (cases sch) (auto simp: IssueMemoryCommands_def)
    then show ?thesis using sx(1) Some y(1,2,4) mq q(1) m1 by fastforce
  qed
qed

theorem FRFCFS_loses_no_request_witness:
  "\<exists>s' r m'. FRFCFS_schedule example_child (example_frfcfs example_queue2) = Inr (s', Some r)
    \<and> length (memQueue s') = 1 \<and> IssueMemoryCommands example_child (fr_mc s') r = Inr (m', True) \<and> mc_inv m'"
proof -
  let ?s = "example_frfcfs example_queue2"
  have p: "mc_p (fr_mc ?s) = example_params"
    by (simp add: example_frfcfs_def FRFCFS_init_def open_row_def example_mc_def)
  obtain s' x where sx: "FRFCFS_schedule example_child ?s = Inr (s', x)" "case x of None \<Rightarrow> s' = ?s
    | Some r \<Rightarrow> \<exists>xs y ys q m1 sch m'. memQueue ?s = xs @ y # ys \<and> memQueue s' = xs @ ys \<and> rq_id r = rq_id y
        \<and> GetCommandQueueId (fr_mc ?s) (rq_address y) = Inr q
        \<and> issue_commands example_child (fr_mc s') r = Inr (m1, True, sch) \<and> commandQueues m1 q \<noteq> []
        \<and> rq_id (last (commandQueues m1 q)) = rq_id y
        \<and> IssueMemoryCommands example_child (fr_mc s') r = Inr (m', True) \<and> mc_inv m'"
    using FRFCFS_loses_no_request [OF example_queue2_ok, of example_child] p by (auto simp: example_params_def)
  have "memQueue ?s = example_queue2" by (simp add: memQueue_def example_frfcfs_def FRFCFS_init_def)
  then have len: "length (memQueue ?s) = 2" by (simp add: example_queue2_def)
  have "x \<noteq> None"
    using FRFCFS_picks_first [OF example_queue2_ok refl example_find [OF refl refl], of example_child] sx(1) by auto
  then show ?thesis using sx len by fastforce
qed

text \<open>
  C29: First ready, first come. When some queued request could be scheduled and has waited
  through too many row hits, the oldest such request is picked; otherwise, when some could be
  scheduled and finds its row open, the oldest such request is picked, whatever older
  requests for other rows are waiting.
\<close>

theorem FRFCFS_first_ready:
  assumes "frfcfs_ok s"
    and "p = (if \<exists>x \<in> set (memQueue s). schedulable (fr_mc s) x \<and> starved (fr_mc s) x then starved (fr_mc s)
              else (\<lambda>x. bank_active (fr_mc s) x \<and> row_hit (fr_mc s) (rq_address x)))"
    and "List.find (\<lambda>x. schedulable (fr_mc s) x \<and> p x) (memQueue s) = Some y"
  shows "\<exists>s' r. FRFCFS_schedule ch s = Inr (s', Some r) \<and> r \<in> {y, add_flag FLAG_LAST_REQUEST y}"
  using FRFCFS_picks_first [OF assms] .

theorem FRFCFS_first_ready_witness:
  "\<exists>s' r. FRFCFS_schedule example_child (example_frfcfs example_queue2) = Inr (s', Some r) \<and> rq_id r = 2"
  using FRFCFS_first_ready [OF example_queue2_ok refl example_find [OF refl refl], of example_child]
  by (auto simp: example_read_def NVMainRequest_init_def add_flag_def)

section \<open>Accepting transactions\<close>

lemma insert_cycle_total:
  assumes "mc_ok m"
  shows "\<exists>m'. insert_cycle m w = Inr m' \<and> transactionQueues m' = transactionQueues m \<and> static m' = static m"
  using assms by (auto simp: mc_ok_def insert_cycle_def InsertEvent_object_def static_def)

lemma cycle_scheduled_total: "mc_ok m \<Longrightarrow> \<exists>b. cycle_scheduled m w = Inr b"
  by (auto simp: mc_ok_def cycle_scheduled_def FindEvent_object_def)

lemma Translate_method: "Translate t x garbage = Inr (d, v) \<Longrightarrow> at_method d = at_method t"
  by (auto simp: Translate_def Let_def bind_res_eq_Inr simp del: Translate_loop.simps split: option.splits prod.splits)

lemma enqueue_wake_total:
  assumes "mc_ok m" "addr_ok m a"
  shows "\<exists>m'. enqueue_wake m a = Inr m' \<and> transactionQueues m' = transactionQueues m \<and> static m' = static m"
proof -
  obtain i where i: "GetCommandQueueId m a = Inr i" "i < commandQueueCount m"
    using GetCommandQueueId_number [of m a] GetCommandQueueId_less assms by (auto simp: mc_ok_def)
  obtain b where b: "cycle_scheduled m (now m) = Inr b" using cycle_scheduled_total [OF assms(1)] by blast
  obtain m2 where m2: "insert_cycle m (now m) = Inr m2" "transactionQueues m2 = transactionQueues m" "static m2 = static m"
    using insert_cycle_total [OF assms(1)] by blast
  then show ?thesis using i b by (auto simp: EffectivelyEmpty_def enqueue_wake_def)
qed

definition translate_into :: "NVMAddress \<Rightarrow> partition_vals \<Rightarrow> NVMAddress" where
  "translate_into a v = SetTranslatedAddress a (v MEM_ROW) (v MEM_COL) (v MEM_BANK) (v MEM_RANK) (na_channel a) (v MEM_SUBARRAY)"

lemma Enqueue_total:
  assumes "mc_ok m" "transactionQueues m = [q]"
    and "Translate (mc_decoder m) (physicalAddress (rq_address r)) garbage = Inr (d, v)" "addr_ok m (translate_into (rq_address r) v)"
  shows "\<exists>m'. Enqueue garbage m 0 r = Inr m' \<and> transactionQueues m' = [q @ [r\<lparr> rq_address := translate_into (rq_address r) v \<rparr>]]
    \<and> static m' = static m"
proof -
  let ?m = "m\<lparr> mc_decoder := d, transactionQueues := [q @ [r\<lparr> rq_address := translate_into (rq_address r) v \<rparr>]] \<rparr>"
  have st: "static ?m = static m" using Translate_method [OF assms(3)] by (simp add: static_def)
  have "Enqueue garbage m 0 r = enqueue_wake ?m (translate_into (rq_address r) v)"
    using assms(2,3) by (simp add: Enqueue_def translate_into_def Let_def)
  then show ?thesis
    using enqueue_wake_total [of ?m "translate_into (rq_address r) v"] mc_ok_static [OF st] addr_ok_static [OF st] assms(1,4) st by auto
qed

lemma FRFCFS_IssueCommand_cases:
  assumes "mc_ok (fr_mc s)" "length (transactionQueues (fr_mc s)) = 1" "length (memQueue s) \<le> unat (queueSize s)"
    and "Translate (mc_decoder (fr_mc s)) (physicalAddress (rq_address req)) garbage = Inr (d, v)"
    and "addr_ok (fr_mc s) (translate_into (rq_address req) v)"
  shows "if length (memQueue s) = unat (queueSize s) then FRFCFS_IssueCommand garbage s req = Inr (s, False)
    else \<exists>s'. FRFCFS_IssueCommand garbage s req = Inr (s', True)
      \<and> memQueue s' = memQueue s @ [req\<lparr> rq_arrivalCycle := now (fr_mc s), rq_address := translate_into (rq_address req) v \<rparr>]
      \<and> length (memQueue s') \<le> unat (queueSize s') \<and> mc_ok (fr_mc s')
      \<and> mem_reads s' = mem_reads s + (if rq_type req = READ then 1 else 0)
      \<and> mem_writes s' = mem_writes s + (if rq_type req = READ then 0 else 1)"
proof -
  have len: "unat (of_nat (length (memQueue s)) :: u64) = length (memQueue s)"
    using assms(3) unat_less_u64 [of "queueSize s"] by (intro unat_of_nat_small) simp
  have tq: "transactionQueues (fr_mc s) = [memQueue s]"
    using assms(2) by (auto simp: memQueue_def length_Suc_conv)
  let ?r = "req\<lparr> rq_arrivalCycle := now (fr_mc s) \<rparr>"
  obtain m' where m': "Enqueue garbage (fr_mc s) 0 ?r = Inr m'" "static m' = static (fr_mc s)"
    "transactionQueues m' = [memQueue s @ [?r\<lparr> rq_address := translate_into (rq_address req) v \<rparr>]]"
    using Enqueue_total [OF assms(1) tq, of ?r garbage d v] assms(4,5) by auto
  have "mc_ok m'" using mc_ok_static [OF m'(2)] assms(1) by simp
  moreover have "FRFCFS_IsIssuable s \<longleftrightarrow> length (memQueue s) \<noteq> unat (queueSize s)"
    using assms(3) len by (auto simp: FRFCFS_IsIssuable_def word_le_nat_alt)
  ultimately show ?thesis
    using m'(1,3) assms(3) by (auto simp: FRFCFS_IssueCommand_def Let_def memQueue_def)
qed


definition sample_request :: NVMainRequest where
  "sample_request = (NVMainRequest_init 3)\<lparr> rq_type := WRITE,
     rq_address := SetPhysicalAddress (NVMAddress_init 0) (encode_address default_translator sample_vals) \<rparr>"


end
