(* ===== verification/Nvm_CacheBank.thy ===== *)
theory Nvm_CacheBank
  imports Nvm_Address Nvm_DataBlock Nvm_EventQueue
begin

text \<open>
  \<^verbatim>\<open>Utils/Caches/CacheBank.cpp\<close>: a bank of a set-associative cache, used by the DRAM-cache
  controllers and the miss map. A set is a list of \<^verbatim>\<open>numAssoc\<close> entries in order of recency,
  index 0 the most recent. The set decoder, a member-function pointer, is a field of the
  record. Every copy of a data block goes through \<open>assign\<close>, so an operation can fail with
  \<open>BufferOverflow\<close>; a set index the decoder takes out of range is \<open>OutOfBounds\<close>.
\<close>

datatype CacheState = CACHE_IDLE | CACHE_BUSY

datatype CacheOperation = CACHE_NONE | CACHE_READ | CACHE_WRITE | CACHE_SCRUB | CACHE_EVICT

text \<open>The members \<^verbatim>\<open>owner\<close> and \<^verbatim>\<open>originalRequest\<close> are object addresses.\<close>

record CacheRequest =
  cr_optype :: CacheOperation
  cr_address :: NVMAddress
  cr_endAddr :: NVMAddress
  cr_data :: NVMDataBlock
  cr_hit :: bool
  cr_owner :: nat
  cr_originalRequest :: nat

definition CACHE_ENTRY_NONE :: u64 where "CACHE_ENTRY_NONE = 0"
definition CACHE_ENTRY_VALID :: u64 where "CACHE_ENTRY_VALID = 1"
definition CACHE_ENTRY_DIRTY :: u64 where "CACHE_ENTRY_DIRTY = 2"

record CacheEntry =
  ce_flags :: u64
  ce_address :: NVMAddress
  ce_data :: NVMDataBlock

record CacheBank =
  numSets :: u64
  numAssoc :: u64
  cachelineSize :: u64
  cacheEntry :: "CacheEntry list list"
  stateTimer :: u64
  readTime :: u64
  writeTime :: u64
  cb_state :: CacheState
  isMissMap :: bool
  decodeFunc :: "NVMAddress \<Rightarrow> u64"

definition DefaultDecoder :: "u64 \<Rightarrow> u64 \<Rightarrow> NVMAddress \<Rightarrow> u64" where
  "DefaultDecoder cacheline sets addr =
     drop_bit (nat (mlog2 (to_int32 cacheline))) (physicalAddress addr) mod sets"

definition CacheEntry_init :: "u64 \<Rightarrow> CacheEntry" where
  "CacheEntry_init garbage =
     \<lparr> ce_flags = CACHE_ENTRY_NONE, ce_address = NVMAddress_init garbage, ce_data = NVMDataBlock_init \<rparr>"

definition CacheBank_init :: "u64 \<Rightarrow> u64 \<Rightarrow> u64 \<Rightarrow> u64 \<Rightarrow> CacheBank" where
  "CacheBank_init garbage sets assoc lineSize =
     \<lparr> numSets = sets, numAssoc = assoc, cachelineSize = lineSize,
       cacheEntry = replicate (unat sets) (replicate (unat assoc) (CacheEntry_init garbage)),
       stateTimer = 0, readTime = 1, writeTime = 1, cb_state = CACHE_IDLE, isMissMap = False,
       decodeFunc = DefaultDecoder lineSize sets \<rparr>"

definition SetDecodeFunction :: "CacheBank \<Rightarrow> (NVMAddress \<Rightarrow> u64) \<Rightarrow> CacheBank" where
  "SetDecodeFunction b dcFunc = b\<lparr> decodeFunc := dcFunc \<rparr>"

definition SetID :: "CacheBank \<Rightarrow> NVMAddress \<Rightarrow> u64" where
  "SetID b addr = decodeFunc b addr"

definition FindSet :: "CacheBank \<Rightarrow> NVMAddress \<Rightarrow> nvm_error + CacheEntry list" where
  "FindSet b addr =
     (let setID = SetID b addr
      in if unat setID < length (cacheEntry b) then Inr (cacheEntry b ! unat setID)
         else Inl OutOfBounds)"

text \<open>The two tests the loops make on an entry.\<close>

definition entry_valid :: "CacheEntry \<Rightarrow> bool" where
  "entry_valid e \<longleftrightarrow> ce_flags e AND CACHE_ENTRY_VALID \<noteq> 0"

definition entry_dirty :: "CacheEntry \<Rightarrow> bool" where
  "entry_dirty e \<longleftrightarrow> ce_flags e AND CACHE_ENTRY_DIRTY \<noteq> 0"

definition entry_hit :: "NVMAddress \<Rightarrow> CacheEntry \<Rightarrow> bool" where
  "entry_hit addr e \<longleftrightarrow> physicalAddress (ce_address e) = physicalAddress addr \<and> entry_valid e"

definition Present :: "CacheBank \<Rightarrow> NVMAddress \<Rightarrow> nvm_error + bool" where
  "Present b addr = bind_res (FindSet b addr) (\<lambda>ways. Inr (list_ex (entry_hit addr) ways))"

definition SetFull :: "CacheBank \<Rightarrow> NVMAddress \<Rightarrow> nvm_error + bool" where
  "SetFull b addr = bind_res (FindSet b addr) (\<lambda>ways. Inr (list_all entry_valid ways))"

text \<open>Storing back a changed set.\<close>

definition put_set :: "CacheBank \<Rightarrow> NVMAddress \<Rightarrow> CacheEntry list \<Rightarrow> CacheBank" where
  "put_set b addr ways = b\<lparr> cacheEntry := (cacheEntry b)[unat (SetID b addr) := ways] \<rparr>"

fun Install_loop :: "NVMAddress \<Rightarrow> NVMDataBlock \<Rightarrow> CacheEntry list \<Rightarrow> nvm_error + CacheEntry list \<times> bool" where
  "Install_loop addr data [] = Inr ([], False)"
| "Install_loop addr data (e # es) =
     (if \<not> entry_valid e then
        bind_res (assign (ce_data e) data) (\<lambda>d.
          Inr (\<lparr> ce_flags = ce_flags e OR CACHE_ENTRY_VALID, ce_address = addr, ce_data = d \<rparr> # es, True))
      else bind_res (Install_loop addr data es) (\<lambda>(es, rv). Inr (e # es, rv)))"

definition Install :: "CacheBank \<Rightarrow> NVMAddress \<Rightarrow> NVMDataBlock \<Rightarrow> nvm_error + CacheBank \<times> bool" where
  "Install b addr data =
     bind_res (FindSet b addr) (\<lambda>ways.
     bind_res (Install_loop addr data ways) (\<lambda>(ways, rv). Inr (put_set b addr ways, rv)))"

text \<open>\<^verbatim>\<open>set[j] = e\<close>, field by field, and the shifting loop \<^verbatim>\<open>for( j = i; j > lim; j-- )\<close>.\<close>

definition store_entry :: "CacheEntry list \<Rightarrow> nat \<Rightarrow> CacheEntry \<Rightarrow> nvm_error + CacheEntry list" where
  "store_entry ways j e =
     bind_res (assign (ce_data (ways ! j)) (ce_data e)) (\<lambda>d. Inr (ways[j := e\<lparr> ce_data := d \<rparr>]))"

fun shift_loop :: "nat \<Rightarrow> nat \<Rightarrow> CacheEntry list \<Rightarrow> nvm_error + CacheEntry list" where
  "shift_loop lim 0 ways = Inr ways"
| "shift_loop lim (Suc j) ways =
     (if lim < Suc j then bind_res (store_entry ways (Suc j) (ways ! j)) (shift_loop lim j) else Inr ways)"

text \<open>The move to the front, through a fresh \<^verbatim>\<open>tmp\<close>.\<close>

definition move_to_front :: "nat \<Rightarrow> nat \<Rightarrow> CacheEntry list \<Rightarrow> nvm_error + CacheEntry list" where
  "move_to_front lim i ways =
     bind_res (assign NVMDataBlock_init (ce_data (ways ! i))) (\<lambda>d.
     let tmp = (ways ! i)\<lparr> ce_data := d \<rparr> in
     bind_res (shift_loop lim i ways) (\<lambda>ways. store_entry ways 0 tmp))"

definition Read_step ::
  "NVMAddress \<Rightarrow> nat \<Rightarrow> CacheEntry list \<times> NVMDataBlock \<times> bool
     \<Rightarrow> nvm_error + CacheEntry list \<times> NVMDataBlock \<times> bool" where
  "Read_step addr i = (\<lambda>(ways, data, rv).
     if entry_hit addr (ways ! i) then
       bind_res (assign data (ce_data (ways ! i))) (\<lambda>data.
       bind_res (move_to_front 0 i ways) (\<lambda>ways. Inr (ways, data, True)))
     else Inr (ways, data, rv))"

definition Read ::
  "CacheBank \<Rightarrow> NVMAddress \<Rightarrow> NVMDataBlock \<Rightarrow> nvm_error + CacheBank \<times> NVMDataBlock \<times> bool" where
  "Read b addr data =
     bind_res (FindSet b addr) (\<lambda>ways.
     bind_res (Present b addr) (\<lambda>present.
     bind_res (assert_res present) (\<lambda>_.
     bind_res (fold_res (Read_step addr) [0..<unat (numAssoc b)] (ways, data, False)) (\<lambda>(ways, data, rv).
     Inr (put_set b addr ways, data, rv)))))"

definition Write_step ::
  "NVMAddress \<Rightarrow> NVMDataBlock \<Rightarrow> nat \<Rightarrow> CacheEntry list \<times> bool \<Rightarrow> nvm_error + CacheEntry list \<times> bool" where
  "Write_step addr data i = (\<lambda>(ways, rv).
     if entry_hit addr (ways ! i) then
       bind_res (assign (ce_data (ways ! i)) data) (\<lambda>d.
       let ways = ways[i := (ways ! i)\<lparr> ce_data := d, ce_flags := ce_flags (ways ! i) OR CACHE_ENTRY_DIRTY \<rparr>] in
       bind_res (move_to_front 1 i ways) (\<lambda>ways. Inr (ways, True)))
     else Inr (ways, rv))"

definition Write :: "CacheBank \<Rightarrow> NVMAddress \<Rightarrow> NVMDataBlock \<Rightarrow> nvm_error + CacheBank \<times> bool" where
  "Write b addr data =
     bind_res (FindSet b addr) (\<lambda>ways.
     bind_res (Present b addr) (\<lambda>present.
     bind_res (assert_res present) (\<lambda>_.
     bind_res (fold_res (Write_step addr data) [0..<unat (numAssoc b)] (ways, False)) (\<lambda>(ways, rv).
     Inr (put_set b addr ways, rv)))))"

definition Update_step ::
  "NVMAddress \<Rightarrow> NVMDataBlock \<Rightarrow> nat \<Rightarrow> CacheEntry list \<times> bool \<Rightarrow> nvm_error + CacheEntry list \<times> bool" where
  "Update_step addr data i = (\<lambda>(ways, rv).
     if entry_hit addr (ways ! i) then
       bind_res (assign (ce_data (ways ! i)) data) (\<lambda>d. Inr (ways[i := (ways ! i)\<lparr> ce_data := d \<rparr>], True))
     else Inr (ways, rv))"

definition UpdateData :: "CacheBank \<Rightarrow> NVMAddress \<Rightarrow> NVMDataBlock \<Rightarrow> nvm_error + CacheBank \<times> bool" where
  "UpdateData b addr data =
     bind_res (FindSet b addr) (\<lambda>ways.
     bind_res (Present b addr) (\<lambda>present.
     bind_res (assert_res present) (\<lambda>_.
     bind_res (fold_res (Update_step addr data) [0..<unat (numAssoc b)] (ways, False)) (\<lambda>(ways, rv).
     Inr (put_set b addr ways, rv)))))"

text \<open>The second component says whether the victim is dirty.\<close>

definition ChooseVictim :: "CacheBank \<Rightarrow> NVMAddress \<Rightarrow> nvm_error + NVMAddress \<times> bool" where
  "ChooseVictim b addr =
     bind_res (FindSet b addr) (\<lambda>ways.
     bind_res (SetFull b addr) (\<lambda>full.
     bind_res (assert_res full) (\<lambda>_.
     let last = unat (numAssoc b - 1) in
     if length ways \<le> last then Inl OutOfBounds
     else bind_res (assert_res (entry_valid (ways ! last))) (\<lambda>_.
       Inr (ce_address (ways ! last), entry_dirty (ways ! last))))))"

fun Evict_loop ::
  "NVMAddress \<Rightarrow> NVMDataBlock \<Rightarrow> CacheEntry list \<Rightarrow> nvm_error + CacheEntry list \<times> NVMDataBlock \<times> bool" where
  "Evict_loop addr data [] = Inr ([], data, False)"
| "Evict_loop addr data (e # es) =
     (if entry_hit addr e then
        bind_res (assign data (ce_data e)) (\<lambda>data.
          Inr (e\<lparr> ce_flags := CACHE_ENTRY_NONE \<rparr> # es, data, entry_dirty e))
      else bind_res (Evict_loop addr data es) (\<lambda>(es, data, rv). Inr (e # es, data, rv)))"

definition Evict ::
  "CacheBank \<Rightarrow> NVMAddress \<Rightarrow> NVMDataBlock \<Rightarrow> nvm_error + CacheBank \<times> NVMDataBlock \<times> bool" where
  "Evict b addr data =
     bind_res (FindSet b addr) (\<lambda>ways.
     bind_res (Present b addr) (\<lambda>present.
     bind_res (assert_res present) (\<lambda>_.
     bind_res (Evict_loop addr data ways) (\<lambda>(ways, data, rv). Inr (put_set b addr ways, data, rv)))))"

definition SetReadTime :: "CacheBank \<Rightarrow> u64 \<Rightarrow> CacheBank" where
  "SetReadTime b rtime = b\<lparr> readTime := rtime \<rparr>"

definition SetWriteTime :: "CacheBank \<Rightarrow> u64 \<Rightarrow> CacheBank" where
  "SetWriteTime b wtime = b\<lparr> writeTime := wtime \<rparr>"

text \<open>The two counts \<^verbatim>\<open>GetCacheOccupancy\<close> divides.\<close>

definition occupancy_counts :: "CacheBank \<Rightarrow> u64 \<times> u64" where
  "occupancy_counts b =
     (of_nat (length (filter entry_valid (concat (cacheEntry b)))), numSets b * numAssoc b)"

definition IsIssuable :: "CacheBank \<Rightarrow> bool" where
  "IsIssuable b \<longleftrightarrow> cb_state b = CACHE_IDLE"

text \<open>
  \<open>IssueCommand\<close> for the request at address \<open>nreq\<close> whose \<^verbatim>\<open>reqInfo\<close> is \<open>req\<close>. The queue is the
  one \<^verbatim>\<open>GetEventQueue\<close> gives, \<open>children\<close> and \<open>this\<close> are what its \<^verbatim>\<open>NVMObject *\<close> overload
  needs, \<open>p1\<close> and \<open>p2\<close> the addresses of the new events, \<open>mmEvict\<close> that of the copied
  request and \<open>evreq\<close> the new \<^verbatim>\<open>CacheRequest\<close> as allocated. The result has the request as
  changed, the eviction when there is one, and the queue.
\<close>

record issue_result =
  ir_bank :: CacheBank
  ir_req :: CacheRequest
  ir_evict :: "CacheRequest option"
  ir_queue :: EventQueue

definition IssueCommand ::
  "CacheBank \<Rightarrow> EventQueue \<Rightarrow> (nat \<times> nat) list \<Rightarrow> nat \<Rightarrow> nat \<Rightarrow> nat \<Rightarrow> nat \<Rightarrow> nat \<Rightarrow> CacheRequest
     \<Rightarrow> CacheRequest \<Rightarrow> nvm_error + issue_result" where
  "IssueCommand b q children this p1 p2 nreq mmEvict evreq req =
     bind_res (assert_res (IsIssuable b)) (\<lambda>_.
     case cr_optype req of
       CACHE_READ \<Rightarrow>
         let b = b\<lparr> cb_state := CACHE_BUSY, stateTimer := currentCycle q + readTime b \<rparr> in
         bind_res (Present b (cr_address req)) (\<lambda>hit.
         let req = req\<lparr> cr_hit := hit \<rparr> in
         bind_res (if hit then bind_res (Read b (cr_address req) (cr_data req)) (\<lambda>(b, data, _).
                       Inr (b, req\<lparr> cr_data := data \<rparr>))
                   else Inr (b, req)) (\<lambda>(b, req).
         bind_res (InsertEvent_object q children p1 EventResponse this (Some nreq) (stateTimer b) None 0) (\<lambda>q.
         Inr \<lparr> ir_bank = b, ir_req = req, ir_evict = None, ir_queue = q \<rparr>)))
     | CACHE_WRITE \<Rightarrow>
         let b = b\<lparr> cb_state := CACHE_BUSY, stateTimer := currentCycle q + writeTime b \<rparr> in
         bind_res (SetFull b (cr_address req)) (\<lambda>full.
         bind_res
           (if full then
              bind_res (ChooseVictim b (cr_address req)) (\<lambda>(victim, _).
              bind_res (Evict b victim (cr_data evreq)) (\<lambda>(b, data, _).
              bind_res (InsertEvent_object q children p2 EventResponse this (Some mmEvict) (stateTimer b) None 0) (\<lambda>q.
              Inr (b, Some (evreq\<lparr> cr_address := victim, cr_data := data, cr_optype := CACHE_EVICT \<rparr>), q))))
            else Inr (b, None, q)) (\<lambda>(b, ev, q).
         bind_res (Present b (cr_address req)) (\<lambda>hit.
         let req = req\<lparr> cr_hit := hit \<rparr> in
         bind_res (if hit then Write b (cr_address req) (cr_data req)
                   else Install b (cr_address req) (cr_data req)) (\<lambda>(b, _).
         bind_res (InsertEvent_object q children p1 EventResponse this (Some nreq) (stateTimer b) None 0) (\<lambda>q.
         Inr \<lparr> ir_bank = b, ir_req = req, ir_evict = ev, ir_queue = q \<rparr>)))))
     | _ \<Rightarrow> Inr \<lparr> ir_bank = b, ir_req = req, ir_evict = None, ir_queue = q \<rparr>)"

text \<open>\<^verbatim>\<open>RequestComplete\<close> passes the request to the parent, the parameter \<open>parent\<close>.\<close>

definition RequestComplete :: "('s \<Rightarrow> nat \<Rightarrow> 's) \<Rightarrow> CacheBank \<times> 's \<Rightarrow> nat \<Rightarrow> CacheBank \<times> 's" where
  "RequestComplete parent = (\<lambda>(b, s) req. (b\<lparr> cb_state := CACHE_IDLE \<rparr>, parent s req))"

section \<open>Well-formed banks\<close>

text \<open>
  A well-formed set for blocks of \<open>n\<close> bytes: the entries that ever held data come first and
  have blocks of \<open>n\<close> bytes, the others were never used. This is what keeps the copies of
  the shifting loops inside their arrays.
\<close>

definition unused :: "CacheEntry \<Rightarrow> bool" where
  "unused e \<longleftrightarrow> \<not> entry_valid e \<and> block_fresh (ce_data e)"

definition ways_ok :: "nat \<Rightarrow> CacheEntry list \<Rightarrow> bool" where
  "ways_ok n ways \<longleftrightarrow> (\<exists>k \<le> length ways. (\<forall>j < k. block_ok n (ce_data (ways ! j)))
     \<and> (\<forall>j < length ways. k \<le> j \<longrightarrow> unused (ways ! j)))"

text \<open>No two valid entries of a set hold the same address.\<close>

definition ways_unique :: "CacheEntry list \<Rightarrow> bool" where
  "ways_unique ways \<longleftrightarrow>
     sorted_wrt (\<lambda>e e'. \<not> (entry_valid e \<and> entry_valid e'
       \<and> physicalAddress (ce_address e) = physicalAddress (ce_address e'))) ways"

definition bank_ok :: "nat \<Rightarrow> CacheBank \<Rightarrow> bool" where
  "bank_ok n b \<longleftrightarrow> length (cacheEntry b) = unat (numSets b) \<and> 0 < numAssoc b
     \<and> (\<forall>addr. decodeFunc b addr < numSets b)
     \<and> (\<forall>s < unat (numSets b). length (cacheEntry b ! s) = unat (numAssoc b)
          \<and> ways_ok n (cacheEntry b ! s)
          \<and> (\<forall>e \<in> set (cacheEntry b ! s). entry_valid e \<longrightarrow> unat (decodeFunc b (ce_address e)) = s))"

lemma ways_okI:
  assumes "k \<le> length ways" "\<And>j. j < k \<Longrightarrow> block_ok n (ce_data (ways ! j))"
    "\<And>j. k \<le> j \<Longrightarrow> j < length ways \<Longrightarrow> unused (ways ! j)"
  shows "ways_ok n ways"
  using assms by (auto simp: ways_ok_def)

lemma ways_ok_prefix:
  assumes "ways_ok n ways" "i < length ways" "entry_valid (ways ! i)" "j \<le> i"
  shows "block_ok n (ce_data (ways ! j))"
  using assms unfolding ways_ok_def unused_def by (metis le_less_trans not_le)

lemma ways_ok_valid: "ways_ok n ways \<Longrightarrow> e \<in> set ways \<Longrightarrow> entry_valid e \<Longrightarrow> block_ok n (ce_data e)"
  by (metis in_set_conv_nth order_refl ways_ok_prefix)

lemma ways_uniqueD:
  assumes "ways_unique ways" "i < length ways" "j < length ways"
    and "entry_hit a (ways ! i)" "entry_hit a (ways ! j)"
  shows "i = j"
proof (rule ccontr)
  assume "i \<noteq> j"
  then have "i < j \<or> j < i" by arith
  then show False
    using assms sorted_wrt_nth_less [OF assms(1) [unfolded ways_unique_def], of i j]
      sorted_wrt_nth_less [OF assms(1) [unfolded ways_unique_def], of j i]
    by (auto simp: entry_hit_def)
qed

lemma FindSet_ok:
  assumes "bank_ok n b"
  shows "FindSet b addr = Inr (cacheEntry b ! unat (SetID b addr))"
    "unat (SetID b addr) < length (cacheEntry b)"
  using assms by (auto simp: FindSet_def SetID_def bank_ok_def word_less_nat_alt)

lemma FindSet_ways:
  assumes "bank_ok n b" "FindSet b addr = Inr ways"
  shows "length ways = unat (numAssoc b)" "ways_ok n ways"
    "\<And>e. e \<in> set ways \<Longrightarrow> entry_valid e \<Longrightarrow> SetID b (ce_address e) = SetID b addr"
  using assms FindSet_ok [OF assms(1)]
  by (auto simp: bank_ok_def SetID_def u64_eq_iff_unat)

lemma put_set_simps [simp]:
  "numAssoc (put_set b a ways) = numAssoc b" "numSets (put_set b a ways) = numSets b"
  "decodeFunc (put_set b a ways) = decodeFunc b" "SetID (put_set b a ways) x = SetID b x"
  "stateTimer (put_set b a ways) = stateTimer b" "cb_state (put_set b a ways) = cb_state b"
  "readTime (put_set b a ways) = readTime b" "writeTime (put_set b a ways) = writeTime b"
  by (simp_all add: put_set_def SetID_def)

lemma FindSet_put_set:
  assumes "bank_ok n b" "SetID b x = SetID b a"
  shows "FindSet (put_set b a ways) x = Inr ways"
  using assms FindSet_ok(2) [OF assms(1), of a] by (simp add: FindSet_def SetID_def put_set_def)

lemma bank_ok_put_set [nvm_inv]:
  assumes "bank_ok n b" "length ways = unat (numAssoc b)" "ways_ok n ways"
    "\<And>e. e \<in> set ways \<Longrightarrow> entry_valid e \<Longrightarrow> SetID b (ce_address e) = SetID b a"
  shows "bank_ok n (put_set b a ways)"
proof -
  have "unat (decodeFunc b a) < length (cacheEntry b)"
    using FindSet_ok(2) [OF assms(1), of a] by (simp add: SetID_def)
  then show ?thesis
    using assms by (auto simp: bank_ok_def put_set_def SetID_def nth_list_update)
qed

lemma bank_ok_frame [simp]:
  "bank_ok n (b\<lparr> cb_state := st, stateTimer := t \<rparr>) = bank_ok n b"
  "bank_ok n (b\<lparr> cb_state := st \<rparr>) = bank_ok n b"
  by (simp_all add: bank_ok_def)

section \<open>The move to the front\<close>

definition shifted :: "nat \<Rightarrow> nat \<Rightarrow> CacheEntry list \<Rightarrow> CacheEntry list" where
  "shifted lim i ways = map (\<lambda>j. if lim < j \<and> j \<le> i then ways ! (j - 1) else ways ! j) [0..<length ways]"

lemma length_shifted [simp]: "length (shifted lim i ways) = length ways"
  by (simp add: shifted_def)

lemma nth_shifted:
  "j < length ways \<Longrightarrow> shifted lim i ways ! j = (if lim < j \<and> j \<le> i then ways ! (j - 1) else ways ! j)"
  by (simp add: shifted_def)

lemma shifted_id: "i \<le> lim \<Longrightarrow> shifted lim i ways = ways"
  by (rule nth_equalityI) (auto simp: nth_shifted)

lemma store_entry_ok:
  assumes "j < length ways" "block_ok n (ce_data e)"
    "block_ok n (ce_data (ways ! j)) \<or> block_fresh (ce_data (ways ! j))"
  shows "store_entry ways j e = Inr (ways[j := e])"
  using assms by (simp add: store_entry_def assign_ok [of n])

lemma shift_loop_ok:
  assumes "i < length ways" "\<And>j. j \<le> i \<Longrightarrow> block_ok n (ce_data (ways ! j))"
  shows "shift_loop lim i ways = Inr (shifted lim i ways)"
  using assms
proof (induction i arbitrary: ways)
  case 0
  then show ?case by (simp add: shifted_id)
next
  case (Suc i)
  show ?case
  proof (cases "lim < Suc i")
    case True
    let ?w = "ways[Suc i := ways ! i]"
    have "store_entry ways (Suc i) (ways ! i) = Inr ?w"
      using Suc.prems by (intro store_entry_ok [of _ _ n]) auto
    moreover have "shift_loop lim i ?w = Inr (shifted lim i ?w)"
      using Suc.prems by (intro Suc.IH) (auto simp: nth_list_update)
    moreover have "shifted lim i ?w = shifted lim (Suc i) ways"
      using Suc.prems True by (intro nth_equalityI) (auto simp: nth_shifted nth_list_update le_Suc_eq)
    ultimately show ?thesis using True by simp
  next
    case False
    then show ?thesis by (simp add: shifted_id)
  qed
qed

definition fronted :: "nat \<Rightarrow> nat \<Rightarrow> CacheEntry list \<Rightarrow> CacheEntry list" where
  "fronted lim i ways = (shifted lim i ways)[0 := ways ! i]"

lemma length_fronted [simp]: "length (fronted lim i ways) = length ways"
  by (simp add: fronted_def)

lemma nth_fronted:
  "j < length ways \<Longrightarrow> fronted lim i ways ! j =
     (if j = 0 then ways ! i else if lim < j \<and> j \<le> i then ways ! (j - 1) else ways ! j)"
  by (cases j) (auto simp: fronted_def nth_shifted)

lemma move_to_front_ok:
  assumes "ways_ok n ways" "i < length ways" "entry_valid (ways ! i)"
  shows "move_to_front lim i ways = Inr (fronted lim i ways)"
proof -
  note pre = ways_ok_prefix [OF assms]
  have "shifted lim i ways ! 0 = ways ! 0" using assms(2) nth_shifted [of 0 ways] by fastforce
  then have "store_entry (shifted lim i ways) 0 (ways ! i) = Inr (fronted lim i ways)"
    unfolding fronted_def using assms(2) pre by (intro store_entry_ok [of _ _ n]) auto
  moreover have "assign NVMDataBlock_init (ce_data (ways ! i)) = Inr (ce_data (ways ! i))"
    using pre by (intro assign_ok [of n]) auto
  ultimately show ?thesis
    using shift_loop_ok [of i ways n lim] assms(2) pre by (simp add: move_to_front_def Let_def)
qed

lemma fronted_ok:
  assumes "ways_ok n ways" "i < length ways" "entry_valid (ways ! i)"
  shows "ways_ok n (fronted lim i ways)"
proof -
  obtain k where k: "k \<le> length ways" "\<forall>j < k. block_ok n (ce_data (ways ! j))"
    "\<forall>j < length ways. k \<le> j \<longrightarrow> unused (ways ! j)"
    using assms(1) by (auto simp: ways_ok_def)
  have "i < k" using k(3) assms(2,3) by (metis not_le unused_def)
  then show ?thesis
    using k by (intro ways_okI [of k]) (auto simp: nth_fronted)
qed

lemma set_fronted: "i < length ways \<Longrightarrow> set (fronted lim i ways) \<subseteq> set ways"
proof
  fix e assume i: "i < length ways" "e \<in> set (fronted lim i ways)"
  then obtain j where "j < length ways" "fronted lim i ways ! j = e"
    by (metis in_set_conv_nth length_fronted)
  then show "e \<in> set ways"
    using i(1) by (auto simp: nth_fronted split: if_splits)
qed

lemma fronted_0_eq: "i < length ways \<Longrightarrow> fronted 0 i ways = ways ! i # take i ways @ drop (Suc i) ways"
  by (intro nth_equalityI)
    (auto simp: nth_fronted nth_Cons nth_append split: nat.splits)

definition written :: "CacheEntry \<Rightarrow> NVMDataBlock \<Rightarrow> CacheEntry" where
  "written e data = e\<lparr> ce_data := data, ce_flags := ce_flags e OR CACHE_ENTRY_DIRTY \<rparr>"

lemma written_simps [simp]:
  "ce_data (written e data) = data" "ce_address (written e data) = ce_address e"
  "entry_valid (written e data) = entry_valid e" "entry_dirty (written e data)"
proof -
  show "entry_valid (written e data) = entry_valid e"
    by (simp add: entry_valid_def written_def CACHE_ENTRY_VALID_def CACHE_ENTRY_DIRTY_def
        and_one_eq even_iff_mod_2_eq_zero [symmetric] even_or_iff)
  have "bit (ce_flags e OR 2) (Suc 0)" by (simp add: bit_or_iff bit_2_iff)
  then have "bit ((ce_flags e OR 2) AND 2) (Suc 0)" by (simp add: bit_and_iff bit_2_iff)
  then show "entry_dirty (written e data)"
    by (auto simp: entry_dirty_def written_def CACHE_ENTRY_DIRTY_def)
qed (simp_all add: written_def)

lemma entry_hit_written [simp]: "entry_hit a (written e data) = entry_hit a e"
  by (simp add: entry_hit_def)

lemma entry_hit_valid: "entry_hit a e \<Longrightarrow> entry_valid e"
  by (simp add: entry_hit_def)

lemma ways_ok_update:
  assumes "ways_ok n ways" "i < length ways" "entry_valid (ways ! i)" "block_ok n (ce_data e)"
  shows "ways_ok n (ways[i := e])"
proof -
  obtain k where k: "k \<le> length ways" "\<forall>j < k. block_ok n (ce_data (ways ! j))"
    "\<forall>j < length ways. k \<le> j \<longrightarrow> unused (ways ! j)"
    using assms(1) by (auto simp: ways_ok_def)
  have "i < k" using k(3) assms(2,3) by (metis not_le unused_def)
  then show ?thesis
    using k assms(2,4) by (intro ways_okI [of k]) (auto simp: nth_list_update)
qed

lemma Read_step_hit:
  assumes "ways_ok n ways" "i < length ways" "entry_hit a (ways ! i)"
    and "block_ok n d \<or> block_fresh d"
  shows "Read_step a i (ways, d, rv) = Inr (fronted 0 i ways, ce_data (ways ! i), True)"
  using assms ways_ok_prefix [OF assms(1,2) entry_hit_valid [OF assms(3)] order_refl]
    move_to_front_ok [OF assms(1,2) entry_hit_valid [OF assms(3)], of 0]
  by (simp add: Read_step_def assign_ok [of n])

lemma Read_step_miss: "\<not> entry_hit a (ways ! i) \<Longrightarrow> Read_step a i (ways, d, rv) = Inr (ways, d, rv)"
  by (simp add: Read_step_def)

lemma Write_step_hit:
  assumes "ways_ok n ways" "i < length ways" "entry_hit a (ways ! i)" "block_ok n data"
  shows "Write_step a data i (ways, rv) =
    Inr (fronted 1 i (ways[i := written (ways ! i) data]), True)"
proof -
  let ?w = "ways[i := written (ways ! i) data]"
  note v = entry_hit_valid [OF assms(3)]
  have "assign (ce_data (ways ! i)) data = Inr data"
    using ways_ok_prefix [OF assms(1,2) v order_refl] assms(4) by (intro assign_ok [of n]) auto
  moreover have "move_to_front 1 i ?w = Inr (fronted 1 i ?w)"
    using ways_ok_update [OF assms(1,2) v] assms(2,4) v by (intro move_to_front_ok [of n]) auto
  ultimately show ?thesis using assms(3) by (simp add: Write_step_def Let_def written_def)
qed

lemma Write_step_miss: "\<not> entry_hit a (ways ! i) \<Longrightarrow> Write_step a data i (ways, rv) = Inr (ways, rv)"
  by (simp add: Write_step_def)

text \<open>The first hit of a set, and what a loop does up to and from there.\<close>

lemma Present_ok:
  assumes "FindSet b a = Inr ways"
  shows "Present b a = Inr (list_ex (entry_hit a) ways)" "SetFull b a = Inr (list_all entry_valid ways)"
  using assms by (simp_all add: Present_def SetFull_def)

lemma first_hit:
  assumes "list_ex (entry_hit a) ways"
  obtains h where "h < length ways" "entry_hit a (ways ! h)" "\<And>i. i < h \<Longrightarrow> \<not> entry_hit a (ways ! i)"
proof -
  let ?P = "\<lambda>i. i < length ways \<and> entry_hit a (ways ! i)"
  have "\<exists>i. ?P i" using assms by (auto simp: list_ex_iff in_set_conv_nth)
  then have "?P (LEAST i. ?P i)" by (rule LeastI_ex)
  moreover from this have "\<not> entry_hit a (ways ! i)" if "i < (LEAST i. ?P i)" for i
    using not_less_Least [OF that] that by auto
  ultimately show ?thesis using that by blast
qed

lemma Read_unique:
  assumes "bank_ok n b" "FindSet b a = Inr ways" "ways_unique ways"
    and "h < length ways" "entry_hit a (ways ! h)" "block_ok n d \<or> block_fresh d"
  shows "Read b a d = Inr (put_set b a (ways ! h # take h ways @ drop (Suc h) ways), ce_data (ways ! h), True)"
proof -
  note w = FindSet_ways [OF assms(1,2)]
  have no: "\<not> entry_hit a (ways ! i)" if "i < length ways" "i \<noteq> h" for i
    using ways_uniqueD [OF assms(3) that(1) assms(4) _ assms(5)] that(2) by blast
  let ?w = "fronted 0 h ways"
  have "fold_res (Read_step a) [Suc h..<length ways] (?w, ce_data (ways ! h), True)
      = Inr (?w, ce_data (ways ! h), True)"
    using no by (intro fold_res_noop Read_step_miss) (simp add: nth_fronted)
  then have "fold_res (Read_step a) [0..<length ways] (ways, d, False) = Inr (?w, ce_data (ways ! h), True)"
    using fold_res_upt_split [OF assms(4), of "Read_step a" "(ways, d, False)"] no assms(4)
      Read_step_hit [OF w(2) assms(4-6)] by (simp add: Read_step_miss)
  moreover have "list_ex (entry_hit a) ways" using assms(4,5) by (auto simp: list_ex_iff)
  ultimately show ?thesis
    using assms(2) w(1) fronted_0_eq [OF assms(4)] by (simp add: Read_def Present_ok)
qed

text \<open>\<open>Read\<close> when every hit holds the same data: duplicates do no harm.\<close>

lemma Read_same_data:
  assumes "bank_ok n b" "FindSet b a = Inr ways" "list_ex (entry_hit a) ways"
    and "\<forall>e \<in> set ways. entry_hit a e \<longrightarrow> ce_data e = D" "block_ok n d \<or> block_fresh d"
  shows "\<exists>ways'. Read b a d = Inr (put_set b a ways', D, True) \<and> ways_ok n ways'
    \<and> length ways' = length ways \<and> set ways' \<subseteq> set ways"
proof -
  note w = FindSet_ways [OF assms(1,2)]
  obtain h where h: "h < length ways" "entry_hit a (ways ! h)" "\<And>i. i < h \<Longrightarrow> \<not> entry_hit a (ways ! i)"
    using first_hit [OF assms(3)] by metis
  let ?P = "\<lambda>(ways', d, rv). ways_ok n ways' \<and> length ways' = length ways \<and> set ways' \<subseteq> set ways
    \<and> d = D \<and> rv"
  have D: "ce_data (ways ! h) = D" "block_ok n D"
    using assms(4) h(1,2) ways_ok_valid [OF w(2) nth_mem [OF h(1)] entry_hit_valid [OF h(2)]] by auto
  have P0: "?P (fronted 0 h ways, D, True)"
    using fronted_ok [OF w(2) h(1) entry_hit_valid [OF h(2)]] set_fronted [OF h(1)] by simp
  have step: "\<exists>s'. Read_step a i s = Inr s' \<and> ?P s'" if i: "i \<in> set [Suc h..<length ways]" and P: "?P s" for i s
  proof -
    obtain ws where s: "s = (ws, D, True)" "ways_ok n ws" "length ws = length ways" "set ws \<subseteq> set ways"
      using P by (cases s) auto
    show ?thesis
    proof (cases "entry_hit a (ws ! i)")
      case True
      have "i < length ws" using i s(3) by simp
      moreover from this have "ce_data (ws ! i) = D" using True s(4) assms(4) nth_mem by blast
      ultimately show ?thesis
        using s Read_step_hit [OF s(2) _ True, of D True] fronted_ok [OF s(2) _ entry_hit_valid [OF True]]
          set_fronted [of i ws 0] D(2) by auto
    qed (use s Read_step_miss in auto)
  qed
  have "\<exists>s'. fold_res (Read_step a) [Suc h..<length ways] (fronted 0 h ways, D, True) = Inr s' \<and> ?P s'"
    by (rule fold_res_inv [of ?P, OF P0 step])
  then obtain s' where s':
    "fold_res (Read_step a) [Suc h..<length ways] (fronted 0 h ways, D, True) = Inr s'" "?P s'"
    by (elim exE conjE)
  then obtain ways' where ways': "s' = (ways', D, True)" "ways_ok n ways'" "length ways' = length ways"
    "set ways' \<subseteq> set ways" by (cases s') auto
  have "fold_res (Read_step a) [0..<length ways] (ways, d, False) = Inr (ways', D, True)"
    using fold_res_upt_split [OF h(1), of "Read_step a" "(ways, d, False)"] h s'(1) ways'(1) D(1)
      Read_step_hit [OF w(2) h(1,2) assms(5)] by (simp add: Read_step_miss)
  then show ?thesis
    using assms(2,3) w(1) ways' by (intro exI [of _ ways']) (simp add: Read_def Present_ok)
qed

lemma Write_unique:
  assumes "bank_ok n b" "FindSet b a = Inr ways" "ways_unique ways"
    and "h < length ways" "entry_hit a (ways ! h)" "block_ok n data"
  shows "Write b a data = Inr (put_set b a (fronted 1 h (ways[h := written (ways ! h) data])), True)"
proof -
  note w = FindSet_ways [OF assms(1,2)]
  have no: "\<not> entry_hit a (ways ! i)" if "i < length ways" "i \<noteq> h" for i
    using ways_uniqueD [OF assms(3) that(1) assms(4) _ assms(5)] that(2) by blast
  let ?w = "fronted 1 h (ways[h := written (ways ! h) data])"
  have "fold_res (Write_step a data) [Suc h..<length ways] (?w, True) = Inr (?w, True)"
    using no by (intro fold_res_noop Write_step_miss) (simp add: nth_fronted)
  then have "fold_res (Write_step a data) [0..<length ways] (ways, False) = Inr (?w, True)"
    using fold_res_upt_split [OF assms(4), of "Write_step a data" "(ways, False)"] no assms(4)
      Write_step_hit [OF w(2) assms(4-6)] by (simp add: Write_step_miss)
  moreover have "list_ex (entry_hit a) ways" using assms(4,5) by (auto simp: list_ex_iff)
  ultimately show ?thesis
    using assms(2) w(1) by (simp add: Write_def Present_ok)
qed

text \<open>Every valid entry of the first list has the address of a valid entry of the second.\<close>

definition addrs_from :: "CacheEntry list \<Rightarrow> CacheEntry list \<Rightarrow> bool" where
  "addrs_from ways' ways \<longleftrightarrow> (\<forall>e \<in> set ways'. entry_valid e \<longrightarrow>
     (\<exists>e' \<in> set ways. entry_valid e' \<and> ce_address e' = ce_address e))"

lemma addrs_from_refl: "addrs_from ways ways"
  by (auto simp: addrs_from_def)

lemma addrs_from_subset: "set ws \<subseteq> set ws' \<Longrightarrow> addrs_from ws' ways \<Longrightarrow> addrs_from ws ways"
  by (auto simp: addrs_from_def)

lemma addrs_from_written:
  assumes "addrs_from ws ways" "i < length ws" "entry_valid (ws ! i)"
  shows "addrs_from (ws[i := written (ws ! i) data]) ways"
proof -
  have "\<exists>e' \<in> set ways. entry_valid e' \<and> ce_address e' = ce_address (ws ! i)"
    using assms nth_mem by (auto simp: addrs_from_def)
  then show ?thesis
    using assms(1) set_update_subset_insert [of ws i "written (ws ! i) data"]
    unfolding addrs_from_def by (metis insertE subsetD written_simps(2))
qed

text \<open>\<open>Read\<close> never fails on a hit, whatever duplicates the set has.\<close>

lemma Read_safe:
  assumes "bank_ok n b" "FindSet b a = Inr ways" "list_ex (entry_hit a) ways"
    and "block_ok n d \<or> block_fresh d"
  shows "\<exists>ws D. Read b a d = Inr (put_set b a ws, D, True) \<and> bank_ok n (put_set b a ws)"
proof -
  note w = FindSet_ways [OF assms(1,2)]
  obtain h where h: "h < length ways" "entry_hit a (ways ! h)" "\<And>i. i < h \<Longrightarrow> \<not> entry_hit a (ways ! i)"
    using first_hit [OF assms(3)] by metis
  let ?Q = "\<lambda>ws. ways_ok n ws \<and> length ws = length ways \<and> set ws \<subseteq> set ways"
  let ?P = "\<lambda>(ws, D, rv). ?Q ws \<and> block_ok n D \<and> rv"
  have hit: "\<exists>ws' D. Read_step a i (ws, d', rv) = Inr (ws', D, True) \<and> ?Q ws' \<and> block_ok n D"
    if "?Q ws" "i < length ways" "entry_hit a (ws ! i)" "block_ok n d' \<or> block_fresh d'" for i ws d' rv
  proof -
    have i: "ways_ok n ws" "i < length ws" using that by simp_all
    note v = entry_hit_valid [OF that(3)]
    show ?thesis
      using Read_step_hit [OF i that(3,4)] fronted_ok [OF i v, of 0] set_fronted [OF i(2), of 0]
        ways_ok_prefix [OF i v order_refl] that(1) by auto
  qed
  obtain ws1 D1 where s1: "Read_step a h (ways, d, False) = Inr (ws1, D1, True)" "?Q ws1" "block_ok n D1"
    using hit [of ways h d False] w(2) h(1,2) assms(4) by auto
  have step: "\<exists>s'. Read_step a i s = Inr s' \<and> ?P s'" if i: "i \<in> set [Suc h..<length ways]" and "?P s" for i s
  proof (cases "entry_hit a (fst s ! i)")
    case True
    then show ?thesis using hit [of "fst s" i "fst (snd s)" "snd (snd s)"] that by (cases s) auto
  next
    case False
    then show ?thesis using Read_step_miss [of a "fst s" i] that(2) by (cases s) auto
  qed
  have "\<exists>s'. fold_res (Read_step a) [Suc h..<length ways] (ws1, D1, True) = Inr s' \<and> ?P s'"
    by (rule fold_res_inv [of ?P, OF _ step]) (use s1 in simp_all)
  then obtain ws D where "fold_res (Read_step a) [Suc h..<length ways] (ws1, D1, True) = Inr (ws, D, True)" "?Q ws"
    by auto
  moreover from this have "fold_res (Read_step a) [0..<length ways] (ways, d, False) = Inr (ws, D, True)"
    using fold_res_upt_split [OF h(1), of "Read_step a" "(ways, d, False)"] h(3) s1(1)
    by (simp add: Read_step_miss)
  ultimately show ?thesis
    using assms(2,3) w by (auto simp: Read_def Present_ok intro!: bank_ok_put_set [OF assms(1)])
qed

definition write_inv :: "nat \<Rightarrow> CacheEntry list \<Rightarrow> CacheEntry list \<Rightarrow> bool" where
  "write_inv n ways ws \<longleftrightarrow> ways_ok n ws \<and> length ws = length ways \<and> addrs_from ws ways"

lemma Write_step_inv:
  assumes "write_inv n ways ws" "i < length ways" "block_ok n data"
  shows "\<exists>ws'. Write_step a data i (ws, rv) = Inr (ws', rv \<or> entry_hit a (ws ! i)) \<and> write_inv n ways ws'"
proof (cases "entry_hit a (ws ! i)")
  case True
  note v = entry_hit_valid [OF True]
  let ?w = "ws[i := written (ws ! i) data]"
  have i: "i < length ws" and ok: "ways_ok n ws" using assms by (simp_all add: write_inv_def)
  have "ways_ok n ?w" using ways_ok_update [OF ok i v] assms(3) by simp
  then have "ways_ok n (fronted 1 i ?w)" using i v by (intro fronted_ok) auto
  moreover have "addrs_from (fronted 1 i ?w) ways"
    using addrs_from_written [OF _ i v, of ways data] assms(1) i set_fronted [of i ?w 1]
    by (auto simp: write_inv_def intro: addrs_from_subset)
  ultimately show ?thesis
    using Write_step_hit [OF ok i True assms(3), of rv] assms(1) True by (simp add: write_inv_def)
qed (use assms in \<open>simp add: Write_step_miss\<close>)

lemma Write_safe:
  assumes "bank_ok n b" "FindSet b a = Inr ways" "list_ex (entry_hit a) ways" "block_ok n data"
  shows "\<exists>ws. Write b a data = Inr (put_set b a ws, True) \<and> write_inv n ways ws"
proof -
  note w = FindSet_ways [OF assms(1,2)]
  obtain h where h: "h < length ways" "entry_hit a (ways ! h)" "\<And>i. i < h \<Longrightarrow> \<not> entry_hit a (ways ! i)"
    using first_hit [OF assms(3)] by metis
  have "write_inv n ways ways" using w(2) by (simp add: write_inv_def addrs_from_refl)
  then obtain ws where ws: "Write_step a data h (ways, False) = Inr (ws, True)" "write_inv n ways ws"
    using Write_step_inv [OF _ h(1) assms(4), of ways a False] h(2) by auto
  let ?P = "\<lambda>(ws, rv). write_inv n ways ws \<and> rv"
  have step: "\<exists>s'. Write_step a data i s = Inr s' \<and> ?P s'" if "i \<in> set [Suc h..<length ways]" "?P s" for i s
    using that Write_step_inv [OF _ _ assms(4), of ways "fst s" i a "snd s"] by (cases s) auto
  have "\<exists>s'. fold_res (Write_step a data) [Suc h..<length ways] (ws, True) = Inr s' \<and> ?P s'"
    by (rule fold_res_inv [of ?P, OF _ step]) (simp_all add: ws)
  then obtain ws' where "fold_res (Write_step a data) [Suc h..<length ways] (ws, True) = Inr (ws', True)"
    "write_inv n ways ws'" by auto
  moreover from this have "fold_res (Write_step a data) [0..<length ways] (ways, False) = Inr (ws', True)"
    using fold_res_upt_split [OF h(1), of "Write_step a data" "(ways, False)"] h(3) ws(1)
    by (simp add: Write_step_miss)
  ultimately show ?thesis using assms(2,3) w(1) by (auto simp: Write_def Present_ok)
qed

lemma write_inv_bank_ok:
  assumes "bank_ok n b" "FindSet b a = Inr ways" "write_inv n ways ws"
  shows "bank_ok n (put_set b a ws)"
proof -
  note w = FindSet_ways [OF assms(1,2)]
  show ?thesis
    using assms(3) w(1,3) by (intro bank_ok_put_set [OF assms(1)]) (auto simp: write_inv_def addrs_from_def, metis)
qed

text \<open>Installing takes the first invalid entry.\<close>

definition installed :: "CacheEntry \<Rightarrow> NVMAddress \<Rightarrow> NVMDataBlock \<Rightarrow> CacheEntry" where
  "installed e a data = \<lparr> ce_flags = ce_flags e OR CACHE_ENTRY_VALID, ce_address = a, ce_data = data \<rparr>"

lemma installed_simps [simp]:
  "entry_valid (installed e a data)" "ce_address (installed e a data) = a" "ce_data (installed e a data) = data"
  "entry_hit a (installed e a data)"
proof -
  show "entry_valid (installed e a data)"
    by (simp add: entry_valid_def installed_def CACHE_ENTRY_VALID_def and_one_eq
        even_iff_mod_2_eq_zero [symmetric] even_or_iff)
  then show "entry_hit a (installed e a data)" by (simp add: entry_hit_def installed_def)
qed (simp_all add: installed_def)

lemma Install_loop_eq:
  assumes "h < length ways" "\<not> entry_valid (ways ! h)" "\<And>i. i < h \<Longrightarrow> entry_valid (ways ! i)"
    and "assign (ce_data (ways ! h)) data = Inr data"
  shows "Install_loop a data ways = Inr (ways[h := installed (ways ! h) a data], True)"
  using assms
proof (induction ways arbitrary: h)
  case (Cons e ways)
  show ?case
  proof (cases h)
    case 0
    then show ?thesis using Cons.prems by (simp add: installed_def)
  next
    case (Suc h')
    have "entry_valid e" using Cons.prems(3) [of 0] Suc by simp
    moreover have "Install_loop a data ways = Inr (ways[h' := installed (ways ! h') a data], True)"
      using Cons.prems(1,2,4) Cons.prems(3) [of "Suc _"] Suc by (intro Cons.IH) simp_all
    ultimately show ?thesis using Suc by simp
  qed
qed simp

lemma first_invalid:
  assumes "\<not> list_all entry_valid ways"
  obtains h where "h < length ways" "\<not> entry_valid (ways ! h)" "\<And>i. i < h \<Longrightarrow> entry_valid (ways ! i)"
proof -
  let ?P = "\<lambda>i. i < length ways \<and> \<not> entry_valid (ways ! i)"
  have "\<exists>i. ?P i" using assms by (auto simp: list_all_length)
  then have "?P (LEAST i. ?P i)" by (rule LeastI_ex)
  moreover from this have "entry_valid (ways ! i)" if "i < (LEAST i. ?P i)" for i
    using not_less_Least [OF that] that by auto
  ultimately show ?thesis using that by blast
qed

lemma ways_ok_hole:
  assumes "ways_ok n ways" "h < length ways" "\<And>i. i < h \<Longrightarrow> entry_valid (ways ! i)" "block_ok n (ce_data e)"
  shows "block_ok n (ce_data (ways ! h)) \<or> block_fresh (ce_data (ways ! h))" "ways_ok n (ways[h := e])"
proof -
  obtain k where k: "k \<le> length ways" "\<forall>j < k. block_ok n (ce_data (ways ! j))"
    "\<forall>j < length ways. k \<le> j \<longrightarrow> unused (ways ! j)"
    using assms(1) by (auto simp: ways_ok_def)
  show "block_ok n (ce_data (ways ! h)) \<or> block_fresh (ce_data (ways ! h))"
    using k assms(2) by (metis not_le unused_def)
  have "h \<le> k" using k assms(2,3) by (meson not_le order.strict_trans order_refl unused_def)
  then show "ways_ok n (ways[h := e])"
    using k assms(2,4) by (intro ways_okI [of "max k (Suc h)"]) (auto simp: nth_list_update max_def split: if_splits)
qed

lemma Install_hole:
  assumes "bank_ok n b" "FindSet b a = Inr ways" "block_ok n data"
    and "h < length ways" "\<not> entry_valid (ways ! h)" "\<And>i. i < h \<Longrightarrow> entry_valid (ways ! i)"
  shows "Install b a data = Inr (put_set b a (ways[h := installed (ways ! h) a data]), True)"
    "bank_ok n (put_set b a (ways[h := installed (ways ! h) a data]))"
proof -
  note w = FindSet_ways [OF assms(1,2)]
  have "assign (ce_data (ways ! h)) data = Inr data"
    by (rule assign_ok [OF assms(3)], rule ways_ok_hole(1) [OF w(2) assms(4,6), of "installed (ways ! h) a data"])
      (simp_all add: assms(3))
  then show "Install b a data = Inr (put_set b a (ways[h := installed (ways ! h) a data]), True)"
    using assms(2) Install_loop_eq [OF assms(4-6)] by (simp add: Install_def)
  show "bank_ok n (put_set b a (ways[h := installed (ways ! h) a data]))"
  proof (rule bank_ok_put_set [OF assms(1)])
    show "ways_ok n (ways[h := installed (ways ! h) a data])"
      by (rule ways_ok_hole(2) [OF w(2) assms(4,6)]) (simp_all add: assms(3))
    show "SetID b (ce_address e) = SetID b a"
      if "e \<in> set (ways[h := installed (ways ! h) a data])" "entry_valid e" for e
      using that w(3) set_update_subset_insert [of ways h "installed (ways ! h) a data"] by auto
  qed (simp add: w(1))
qed

text \<open>Evicting clears the first hit.\<close>

lemma Evict_loop_eq:
  assumes "h < length ways" "entry_hit a (ways ! h)" "\<And>i. i < h \<Longrightarrow> \<not> entry_hit a (ways ! i)"
    and "assign d (ce_data (ways ! h)) = Inr D"
  shows "Evict_loop a d ways =
    Inr (ways[h := (ways ! h)\<lparr> ce_flags := CACHE_ENTRY_NONE \<rparr>], D, entry_dirty (ways ! h))"
  using assms
proof (induction ways arbitrary: h)
  case (Cons e ways)
  show ?case
  proof (cases h)
    case 0
    then show ?thesis using Cons.prems by simp
  next
    case (Suc h')
    have "\<not> entry_hit a e" using Cons.prems(3) [of 0] Suc by simp
    moreover have "Evict_loop a d ways =
        Inr (ways[h' := (ways ! h')\<lparr> ce_flags := CACHE_ENTRY_NONE \<rparr>], D, entry_dirty (ways ! h'))"
      using Cons.prems(1,2,4) Cons.prems(3) [of "Suc _"] Suc by (intro Cons.IH) simp_all
    ultimately show ?thesis using Suc by simp
  qed
qed simp

lemma cleared_simps [simp]: "\<not> entry_valid (e\<lparr> ce_flags := CACHE_ENTRY_NONE \<rparr>)"
  by (simp add: entry_valid_def CACHE_ENTRY_NONE_def)

lemma Evict_hit:
  assumes "bank_ok n b" "FindSet b a = Inr ways" "block_ok n d \<or> block_fresh d"
    and "h < length ways" "entry_hit a (ways ! h)" "\<And>i. i < h \<Longrightarrow> \<not> entry_hit a (ways ! i)"
  shows "Evict b a d = Inr (put_set b a (ways[h := (ways ! h)\<lparr> ce_flags := CACHE_ENTRY_NONE \<rparr>]),
      ce_data (ways ! h), entry_dirty (ways ! h))"
    "bank_ok n (put_set b a (ways[h := (ways ! h)\<lparr> ce_flags := CACHE_ENTRY_NONE \<rparr>]))"
proof -
  note w = FindSet_ways [OF assms(1,2)]
  note v = entry_hit_valid [OF assms(5)]
  have blk: "block_ok n (ce_data (ways ! h))" using ways_ok_prefix [OF w(2) assms(4) v] by simp
  have "list_ex (entry_hit a) ways" using assms(4,5) by (auto simp: list_ex_iff)
  then show "Evict b a d = Inr (put_set b a (ways[h := (ways ! h)\<lparr> ce_flags := CACHE_ENTRY_NONE \<rparr>]),
      ce_data (ways ! h), entry_dirty (ways ! h))"
    using assms(2) Evict_loop_eq [OF assms(4-6) assign_ok [OF blk assms(3)]] by (simp add: Evict_def Present_ok)
  show "bank_ok n (put_set b a (ways[h := (ways ! h)\<lparr> ce_flags := CACHE_ENTRY_NONE \<rparr>]))" (is "bank_ok n (put_set b a ?w)")
  proof (rule bank_ok_put_set [OF assms(1)])
    show "ways_ok n ?w" using ways_ok_update [OF w(2) assms(4) v] blk by simp
    show "SetID b (ce_address e) = SetID b a" if "e \<in> set ?w" "entry_valid e" for e
      using that w(3) set_update_subset_insert [of ways h "(ways ! h)\<lparr> ce_flags := CACHE_ENTRY_NONE \<rparr>"] by auto
  qed (simp add: w(1))
qed

lemma ChooseVictim_last:
  assumes "bank_ok n b" "FindSet b a = Inr ways" "list_all entry_valid ways"
  shows "ChooseVictim b a = Inr (ce_address (last ways), entry_dirty (last ways))" "ways \<noteq> []"
proof -
  note w = FindSet_ways [OF assms(1,2)]
  have pos: "1 \<le> numAssoc b"
    using assms(1) by (simp add: bank_ok_def word_less_nat_alt word_le_nat_alt)
  then show ne: "ways \<noteq> []" using w(1) by (auto simp: word_le_nat_alt)
  have "unat (numAssoc b - 1) = length ways - 1" using w(1) pos by (simp add: unat_sub)
  then show "ChooseVictim b a = Inr (ce_address (last ways), entry_dirty (last ways))"
    using assms(2,3) ne by (simp add: ChooseVictim_def Present_ok last_conv_nth list_all_length Let_def not_le)
qed

lemma FindSet_frame [simp]:
  "FindSet (b\<lparr> cb_state := st, stateTimer := t \<rparr>) a = FindSet b a"
  by (simp add: FindSet_def SetID_def Let_def)

lemma InsertEvent_object_ok:
  "find_hook children this = Some hook \<Longrightarrow>
     InsertEvent_object q children p type this req w data pr
       = Inr (InsertEvent_hook q p type (Some hook) req w data pr)"
  by (simp add: InsertEvent_object_def)

lemma write_or_install_safe:
  assumes "bank_ok n b" "FindSet b a = Inr ways" "block_ok n data"
    and "list_ex (entry_hit a) ways \<or> \<not> list_all entry_valid ways"
  shows "\<exists>b'. (if list_ex (entry_hit a) ways then Write b a data else Install b a data) = Inr (b', True)
    \<and> bank_ok n b' \<and> cb_state b' = cb_state b"
proof (cases "list_ex (entry_hit a) ways")
  case True
  then show ?thesis using Write_safe [OF assms(1,2) True assms(3)] write_inv_bank_ok [OF assms(1,2)] by auto
next
  case False
  then have "\<not> list_all entry_valid ways" using assms(4) by simp
  then obtain h where "h < length ways" "\<not> entry_valid (ways ! h)" "\<And>i. i < h \<Longrightarrow> entry_valid (ways ! i)"
    by (metis first_invalid)
  from Install_hole [OF assms(1-3) this] False show ?thesis by simp
qed

text \<open>The eviction that makes room: the victim is the last entry, its first copy is cleared.\<close>

lemma evict_victim:
  assumes "bank_ok n b" "FindSet b a = Inr ways" "list_all entry_valid ways" "block_fresh d"
  shows "\<exists>ways' D dirty. Evict b (ce_address (last ways)) d = Inr (put_set b a ways', D, dirty)
    \<and> bank_ok n (put_set b a ways') \<and> \<not> list_all entry_valid ways' \<and> block_ok n D"
proof -
  note w = FindSet_ways [OF assms(1,2)]
  note ne = ChooseVictim_last(2) [OF assms(1-3)]
  let ?v = "ce_address (last ways)"
  have val: "entry_valid (last ways)" using assms(3) ne by (auto simp: list_all_iff)
  have id: "SetID b ?v = SetID b a" using w(3) [OF last_in_set [OF ne] val] .
  have fs: "FindSet b ?v = Inr ways" using assms(2) id by (simp add: FindSet_def)
  have "list_ex (entry_hit ?v) ways" using ne val by (auto simp: list_ex_iff entry_hit_def)
  then obtain h where h: "h < length ways" "entry_hit ?v (ways ! h)" "\<And>i. i < h \<Longrightarrow> \<not> entry_hit ?v (ways ! i)"
    by (metis first_hit)
  let ?w = "ways[h := (ways ! h)\<lparr> ce_flags := CACHE_ENTRY_NONE \<rparr>]"
  have "put_set b ?v = put_set b a" by (simp add: put_set_def id fun_eq_iff)
  moreover have "\<not> list_all entry_valid ?w" using h(1) by (auto simp: list_all_length)
  ultimately show ?thesis
    using Evict_hit [OF assms(1) fs disjI2 [OF assms(4)] h] ways_ok_prefix [OF w(2) h(1) entry_hit_valid [OF h(2)] order_refl]
    by (intro exI [of _ ?w] exI [of _ "ce_data (ways ! h)"] exI [of _ "entry_dirty (ways ! h)"]) simp
qed

text \<open>
  C27: A cache bank never fails on a read or write request and keeps its invariant: with blocks
  of one size, no copy leaves its array and no assertion fails, whatever the state of the
  set (full or not, hit or miss, duplicates included). It is busy afterwards.
\<close>

theorem IssueCommand_safe:
  assumes "bank_ok n b" "IsIssuable b" "find_hook children this = Some hook"
    and "cr_optype req = CACHE_READ \<or> cr_optype req = CACHE_WRITE"
    and "block_ok n (cr_data req)" "block_fresh (cr_data evreq)"
  shows "\<exists>r. IssueCommand b q children this p1 p2 nreq mmEvict evreq req = Inr r
    \<and> bank_ok n (ir_bank r) \<and> \<not> IsIssuable (ir_bank r)"
proof -
  let ?a = "cr_address req"
  obtain ways where ways: "FindSet b ?a = Inr ways" using FindSet_ok(1) [OF assms(1)] by blast
  note hk = InsertEvent_object_ok [OF assms(3)]
  show ?thesis
  proof (cases "cr_optype req = CACHE_READ")
    case True
    let ?b = "b\<lparr> cb_state := CACHE_BUSY, stateTimer := currentCycle q + readTime b \<rparr>"
    have b: "bank_ok n ?b" "FindSet ?b ?a = Inr ways" using assms(1) ways by simp_all
    show ?thesis
    proof (cases "list_ex (entry_hit ?a) ways")
      case hit: True
      obtain ws d where "Read ?b ?a (cr_data req) = Inr (put_set ?b ?a ws, d, True)" "bank_ok n (put_set ?b ?a ws)"
        using Read_safe [OF b hit] assms(5) by blast
      then show ?thesis
        using True assms(2) hit b by (simp add: IssueCommand_def Let_def Present_ok hk IsIssuable_def)
    next
      case False
      then show ?thesis
        using True assms(1,2) b by (simp add: IssueCommand_def Let_def Present_ok hk IsIssuable_def)
    qed
  next
    case False
    then have op: "cr_optype req = CACHE_WRITE" using assms(4) by simp
    let ?b = "b\<lparr> cb_state := CACHE_BUSY, stateTimer := currentCycle q + writeTime b \<rparr>"
    have b: "bank_ok n ?b" "FindSet ?b ?a = Inr ways" using assms(1) ways by simp_all
    show ?thesis
    proof (cases "list_all entry_valid ways")
      case full: True
      obtain ws D dirty where ws: "Evict ?b (ce_address (last ways)) (cr_data evreq) = Inr (put_set ?b ?a ws, D, dirty)"
        "bank_ok n (put_set ?b ?a ws)" "\<not> list_all entry_valid ws"
        using evict_victim [OF b full assms(6)] by blast
      note fs = FindSet_put_set [OF b(1) refl, of ?a ws]
      obtain b' where "(if list_ex (entry_hit ?a) ws then Write (put_set ?b ?a ws) ?a (cr_data req)
          else Install (put_set ?b ?a ws) ?a (cr_data req)) = Inr (b', True)" "bank_ok n b'"
        "cb_state b' = CACHE_BUSY"
        using write_or_install_safe [OF ws(2) fs assms(5)] ws(3) by auto
      then show ?thesis
        using op assms(2) b full ws(1) fs ChooseVictim_last(1) [OF b full]
        by (cases "list_ex (entry_hit ?a) ws")
          (simp_all add: IssueCommand_def Let_def Present_ok hk IsIssuable_def)
    next
      case nfull: False
      obtain b' where "(if list_ex (entry_hit ?a) ways then Write ?b ?a (cr_data req)
          else Install ?b ?a (cr_data req)) = Inr (b', True)" "bank_ok n b'" "cb_state b' = CACHE_BUSY"
        using write_or_install_safe [OF b assms(5)] nfull by auto
      then show ?thesis
        using op assms(2) b nfull
        by (cases "list_ex (entry_hit ?a) ways")
          (simp_all add: IssueCommand_def Let_def Present_ok hk IsIssuable_def)
    qed
  qed
qed

text \<open>A bank of two sets of two ways, lines and blocks of 64 bytes, with two blocks in set 0.\<close>

definition sample_addr :: "u64 \<Rightarrow> NVMAddress" where
  "sample_addr p = SetPhysicalAddress (NVMAddress_init 0) p"

definition sample_request :: "CacheOperation \<Rightarrow> u64 \<Rightarrow> NVMDataBlock \<Rightarrow> CacheRequest" where
  "sample_request op p d = \<lparr> cr_optype = op, cr_address = sample_addr p, cr_endAddr = sample_addr p,
     cr_data = d, cr_hit = False, cr_owner = 0, cr_originalRequest = 0 \<rparr>"

definition sample_ways :: "CacheEntry list" where
  "sample_ways = [installed (CacheEntry_init 0) (sample_addr 0) (zero_block 64),
      installed (CacheEntry_init 0) (sample_addr 128) ((zero_block 64)\<lparr> rawData := Some (replicate 64 7) \<rparr>)]"

definition sample_bank :: CacheBank where
  "sample_bank = put_set (CacheBank_init 0 2 2 64) (sample_addr 0) sample_ways"

lemma CacheBank_init_ok:
  assumes "0 < sets" "0 < assoc"
  shows "bank_ok n (CacheBank_init g sets assoc line)"
proof -
  have "unused (CacheEntry_init g)"
    by (simp add: unused_def CacheEntry_init_def entry_valid_def CACHE_ENTRY_NONE_def)
  then have "ways_ok n (replicate (unat assoc) (CacheEntry_init g))"
    by (intro ways_okI [of 0]) simp_all
  moreover have "drop_bit k x mod sets < sets" for k and x :: u64
    using assms(1) by (simp add: word_less_nat_alt unat_mod)
  ultimately show ?thesis
    using assms by (auto simp: bank_ok_def CacheBank_init_def DefaultDecoder_def entry_valid_def
        CacheEntry_init_def CACHE_ENTRY_NONE_def)
qed

lemma sample_decode:
  "decodeFunc (CacheBank_init 0 2 2 64) (sample_addr 0) = 0"
  "decodeFunc (CacheBank_init 0 2 2 64) (sample_addr 128) = 0"
  "decodeFunc (CacheBank_init 0 2 2 64) (sample_addr 256) = 0"
  by (simp_all add: CacheBank_init_def DefaultDecoder_def sample_addr_def SetPhysicalAddress_def
      NVMAddress_init_def to_int32_def mlog2_def mlog2_loop.simps drop_bit_eq_div)

lemma sample_bank_ok: "bank_ok 64 sample_bank"
proof -
  have "ways_ok 64 sample_ways"
    by (rule ways_okI [of 2]) (auto simp: sample_ways_def less_2_cases_iff block_ok_def zero_block_def)
  then show ?thesis
    unfolding sample_bank_def
    by (intro bank_ok_put_set CacheBank_init_ok)
      (auto simp: sample_ways_def SetID_def sample_decode, simp add: CacheBank_init_def)
qed

lemma sample_bank_set: "FindSet sample_bank (sample_addr 0) = Inr sample_ways"
  "FindSet sample_bank (sample_addr 128) = Inr sample_ways"
  "FindSet sample_bank (sample_addr 256) = Inr sample_ways"
  unfolding sample_bank_def
  by (intro FindSet_put_set [OF CacheBank_init_ok [of 2 2 64 0 64]]; simp add: SetID_def sample_decode)+

lemma sample_ways_facts:
  "ways_unique sample_ways" "length sample_ways = 2" "list_all entry_valid sample_ways"
  "entry_hit (sample_addr 128) (sample_ways ! Suc 0)" "\<not> list_ex (entry_hit (sample_addr 256)) sample_ways"
  by (simp_all add: ways_unique_def sample_ways_def entry_hit_def sample_addr_def SetPhysicalAddress_def)

theorem IssueCommand_safe_witness:
  "\<exists>r. IssueCommand sample_bank EventQueue_init [(10, 20)] 20 1 2 3 4
      (sample_request CACHE_NONE 0 NVMDataBlock_init) (sample_request CACHE_WRITE 256 (zero_block 64)) = Inr r
    \<and> bank_ok 64 (ir_bank r)"
proof -
  have "IsIssuable sample_bank" by (simp add: IsIssuable_def sample_bank_def CacheBank_init_def)
  then show ?thesis
    using IssueCommand_safe [OF sample_bank_ok, of "[(10, 20)]" 20 10 "sample_request CACHE_WRITE 256 (zero_block 64)"
        "sample_request CACHE_NONE 0 NVMDataBlock_init" EventQueue_init 1 2 3 4]
      zero_block_ok [of 64]
    by (auto simp: sample_request_def)
qed

text \<open>
  A read hit returns the block's data and makes it the most recent entry of its set; the
  other entries keep their contents and their order, and the other sets are not touched.
\<close>

theorem Read_moves_to_front:
  assumes "bank_ok n b" "FindSet b a = Inr ways" "ways_unique ways"
    and "h < length ways" "entry_hit a (ways ! h)" "block_ok n d \<or> block_fresh d"
  shows "Read b a d =
    Inr (put_set b a (ways ! h # take h ways @ drop (Suc h) ways), ce_data (ways ! h), True)"
  by (rule Read_unique [OF assms])

theorem Read_moves_to_front_witness:
  "\<exists>b'. Read sample_bank (sample_addr 128) NVMDataBlock_init
      = Inr (b', (zero_block 64)\<lparr> rawData := Some (replicate 64 7) \<rparr>, True)
    \<and> FindSet b' (sample_addr 128) = Inr (rev sample_ways)"
proof -
  have "FindSet (put_set sample_bank (sample_addr 128) (rev sample_ways)) (sample_addr 128) = Inr (rev sample_ways)"
    by (rule FindSet_put_set [OF sample_bank_ok refl])
  moreover have "Read sample_bank (sample_addr 128) NVMDataBlock_init = Inr (put_set sample_bank (sample_addr 128)
      (sample_ways ! 1 # take 1 sample_ways @ drop (Suc 1) sample_ways), ce_data (sample_ways ! 1), True)"
    by (rule Read_moves_to_front [OF sample_bank_ok sample_bank_set(2)]) (simp_all add: sample_ways_facts)
  ultimately show ?thesis by (simp add: sample_ways_def)
qed



text \<open>
  C38: A write hit anywhere but at the front loses a block: the shifting loop stops one
  position early, the most recent entry is overwritten without being evicted, and its
  address is no longer present, even when it was dirty.
\<close>

theorem Write_hit_drops_MRU:
  assumes "bank_ok n b" "FindSet b a = Inr ways" "ways_unique ways"
    and "0 < h" "h < length ways" "entry_hit a (ways ! h)" "entry_valid (ways ! 0)" "block_ok n data"
  shows "\<exists>b'. Write b a data = Inr (b', True) \<and> Present b (ce_address (ways ! 0)) = Inr True
    \<and> Present b' (ce_address (ways ! 0)) = Inr False"
proof -
  note w = FindSet_ways [OF assms(1,2)]
  let ?a0 = "ce_address (ways ! 0)"
  let ?v = "ways[h := written (ways ! h) data]" and ?w = "fronted 1 h (ways[h := written (ways ! h) data])"
  have pos: "0 < length ways" using assms(5) by linarith
  have hit0: "entry_hit ?a0 (ways ! 0)" using assms(7) by (simp add: entry_hit_def)
  have id: "SetID b ?a0 = SetID b a" using w(3) [OF nth_mem [OF pos] assms(7)] .
  have no: "\<not> entry_hit ?a0 (?v ! i)" if "0 < i" "i < length ways" for i
    using that ways_uniqueD [OF assms(3) that(2) pos _ hit0] by (cases "i = h") auto
  have "\<not> entry_hit ?a0 (?w ! j)" if "j < length ways" for j
    using that no [of h] no [of j] no [of "j - 1"] assms(4,5) by (subst nth_fronted) auto
  then have "\<not> list_ex (entry_hit ?a0) ?w" by (auto simp: list_ex_length)
  then have "Present (put_set b a ?w) ?a0 = Inr False"
    using FindSet_put_set [OF assms(1) id] by (simp add: Present_ok)
  moreover have "FindSet b ?a0 = Inr ways" using assms(2) id by (simp add: FindSet_def)
  then have "Present b ?a0 = Inr True" using hit0 pos by (auto simp: Present_ok list_ex_length)
  ultimately show ?thesis using Write_unique [OF assms(1-3,5,6,8)] by blast
qed

theorem Write_hit_drops_MRU_witness:
  "\<exists>b'. Write sample_bank (sample_addr 128) (zero_block 64) = Inr (b', True)
    \<and> Present b' (sample_addr 0) = Inr False"
  using Write_hit_drops_MRU [OF sample_bank_ok sample_bank_set(2) sample_ways_facts(1), of 1 "zero_block 64"]
    sample_ways_facts zero_block_ok [of 64] by (auto simp: sample_ways_def)

text \<open>
  A write miss on a full set replaces the least recent entry, reports the block it held
  as an eviction, and leaves the new block, clean, in the least recent position: the block
  just written is the next victim of its set.
\<close>

theorem write_miss_replaces_LRU:
  assumes "bank_ok n b" "IsIssuable b" "find_hook children this = Some hook"
    and "cr_optype req = CACHE_WRITE" "block_ok n (cr_data req)" "block_fresh (cr_data evreq)"
    and "FindSet b (cr_address req) = Inr ways" "list_all entry_valid ways" "ways_unique ways"
    and "\<not> list_ex (entry_hit (cr_address req)) ways"
  shows "\<exists>r e. IssueCommand b q children this p1 p2 nreq mmEvict evreq req = Inr r
    \<and> FindSet (ir_bank r) (cr_address req) = Inr (butlast ways @ [e])
    \<and> ce_address e = cr_address req \<and> ce_data e = cr_data req
    \<and> ir_evict r = Some (evreq\<lparr> cr_address := ce_address (last ways), cr_data := ce_data (last ways),
         cr_optype := CACHE_EVICT \<rparr>)
    \<and> ChooseVictim (ir_bank r) (cr_address req) = Inr (cr_address req, False)"
proof -
  let ?a = "cr_address req" and ?h = "length ways - 1" and ?v = "ce_address (last ways)"
  let ?b = "b\<lparr> cb_state := CACHE_BUSY, stateTimer := currentCycle q + writeTime b \<rparr>"
  have b: "bank_ok n ?b" "FindSet ?b ?a = Inr ways" using assms(1,7) by simp_all
  note cv = ChooseVictim_last [OF b assms(8)] and w = FindSet_ways [OF b]
  have h: "?h < length ways" "ways ! ?h = last ways" using cv(2) by (simp_all add: last_conv_nth)
  have hit: "entry_hit ?v (ways ! ?h)" using h assms(8) by (auto simp: entry_hit_def list_all_length)
  have nohit: "\<not> entry_hit ?v (ways ! i)" if "i < ?h" for i
    using ways_uniqueD [OF assms(9) _ h(1) _ hit, of i] that less_trans [OF that h(1)] by blast
  have id: "SetID ?b ?v = SetID ?b ?a" using w(3) [OF last_in_set [OF cv(2)]] h hit by (auto simp: entry_hit_def)
  have fv: "FindSet ?b ?v = Inr ways" using b(2) id by (simp add: FindSet_def)
  have ps: "put_set ?b ?v = put_set ?b ?a" using id by (simp add: put_set_def fun_eq_iff)
  let ?w1 = "ways[?h := (last ways)\<lparr> ce_flags := CACHE_ENTRY_NONE \<rparr>]"
  note ev = Evict_hit [OF b(1) fv disjI2 [OF assms(6)] h(1) hit nohit, unfolded h(2) ps]
  note f1 = FindSet_put_set [OF b(1) refl, of ?a ?w1]
  have w1: "?w1 ! ?h = (last ways)\<lparr> ce_flags := CACHE_ENTRY_NONE \<rparr>" "?h < length ?w1" using h(1) by simp_all
  have miss: "\<not> list_ex (entry_hit ?a) ?w1"
    using assms(10) set_update_subset_insert [of ways ?h "(last ways)\<lparr> ce_flags := CACHE_ENTRY_NONE \<rparr>"]
      cleared_simps [of "last ways"] by (auto simp: list_ex_iff entry_hit_def)
  have vi: "entry_valid (?w1 ! i)" if "i < ?h" for i using assms(8) that by (simp add: list_all_length)
  have inv: "\<not> entry_valid (?w1 ! ?h)" using w1 by simp
  let ?e = "installed ((last ways)\<lparr> ce_flags := CACHE_ENTRY_NONE \<rparr>) ?a (cr_data req)"
  note ins = Install_hole [OF ev(2) f1 assms(5) w1(2) inv vi, unfolded w1(1)]
  let ?w2 = "?w1[?h := ?e]" and ?b2 = "put_set (put_set ?b ?a ?w1) ?a (?w1[?h := ?e])"
  have w2: "?w2 = butlast ways @ [?e]"
    using cv(2) list_update_length [of "butlast ways" "last ways" "[]"]
    unfolding list_update_overwrite by simp
  note f2 = FindSet_put_set [OF ev(2) refl, of ?a ?w2]
  have "list_all entry_valid ?w2" using assms(8) vi unfolding w2 by (auto simp: list_all_iff dest: in_set_butlastD)
  moreover have l: "last ?w2 = ?e" unfolding w2 by simp
  ultimately have "ChooseVictim ?b2 ?a = Inr (?a, entry_dirty ?e)"
    using ChooseVictim_last(1) [OF ins(2) f2] unfolding l by simp
  moreover have "\<not> entry_dirty ?e"
    by (simp add: entry_dirty_def installed_def CACHE_ENTRY_NONE_def CACHE_ENTRY_VALID_def CACHE_ENTRY_DIRTY_def)
  moreover have "IssueCommand b q children this p1 p2 nreq mmEvict evreq req =
    Inr \<lparr> ir_bank = ?b2, ir_req = req\<lparr> cr_hit := False \<rparr>,
      ir_evict = Some (evreq\<lparr> cr_address := ?v, cr_data := ce_data (last ways), cr_optype := CACHE_EVICT \<rparr>),
      ir_queue = InsertEvent_hook (InsertEvent_hook q p2 EventResponse (Some hook) (Some mmEvict)
        (stateTimer ?b) None 0) p1 EventResponse (Some hook) (Some nreq) (stateTimer ?b) None 0 \<rparr>"
    using assms(2,4,8) b cv(1) ev(1) f1 miss ins(1)
    by (simp add: IssueCommand_def Let_def Present_ok InsertEvent_object_ok [OF assms(3)] IsIssuable_def)
  ultimately show ?thesis using f2 unfolding w2 by (intro exI [of _ ?e] exI conjI) (assumption | simp)+
qed

theorem write_miss_replaces_LRU_witness:
  "\<exists>r e. IssueCommand sample_bank EventQueue_init [(10, 20)] 20 1 2 3 4
      (sample_request CACHE_NONE 0 NVMDataBlock_init) (sample_request CACHE_WRITE 256 (zero_block 64)) = Inr r
    \<and> FindSet (ir_bank r) (sample_addr 256) = Inr [sample_ways ! 0, e]
    \<and> ChooseVictim (ir_bank r) (sample_addr 256) = Inr (sample_addr 256, False)"
proof -
  have iss: "IsIssuable sample_bank" by (simp add: IsIssuable_def sample_bank_def CacheBank_init_def)
  have a: "cr_address (sample_request CACHE_WRITE 256 (zero_block 64)) = sample_addr 256"
    by (simp add: sample_request_def)
  show ?thesis
    using write_miss_replaces_LRU [OF sample_bank_ok iss, of "[(10, 20)]" 20 10
        "sample_request CACHE_WRITE 256 (zero_block 64)" "sample_request CACHE_NONE 0 NVMDataBlock_init"
        sample_ways EventQueue_init 1 2 3 4]
      zero_block_ok [of 64] sample_bank_set(3) sample_ways_facts
    unfolding a by (fastforce simp: sample_request_def sample_ways_def)
qed

end
