(* ===== verification/Nvm_FlipNWrite.thy ===== *)
theory Nvm_FlipNWrite
  imports Nvm_Address Nvm_DataBlock "HOL-Library.Signed_Division"
begin

text \<open>
  \<^verbatim>\<open>DataEncoders/FlipNWrite/FlipNWrite.cpp\<close>: the encoder that stores a partition of a word
  inverted when that changes fewer cells. The four parameters it reads of \<^verbatim>\<open>Params\<close> and the
  configured granularity \<^verbatim>\<open>fpSize\<close> are in the state. The percentage \<^verbatim>\<open>CalculateStats\<close>
  computes with doubles is left out.
\<close>

record FlipNWrite =
  fp_params :: WordParams
  fpSize :: int
  flippedAddresses :: "u64 set"
  bitsFlipped :: u64
  bitCompareSwapWrites :: u64

definition FlipNWrite_init :: "WordParams \<Rightarrow> FlipNWrite" where
  "FlipNWrite_init p =
     \<lparr> fp_params = p, fpSize = 0, flippedAddresses = {}, bitsFlipped = 0, bitCompareSwapWrites = 0 \<rparr>"

text \<open>\<^verbatim>\<open>SetConfig\<close>, for the value the configuration has for \<^verbatim>\<open>FlipNWriteGranularity\<close>.\<close>

definition FlipNWrite_SetConfig :: "FlipNWrite \<Rightarrow> int \<Rightarrow> FlipNWrite" where
  "FlipNWrite_SetConfig s v = s\<lparr> fpSize := (if v = - 1 then 32 else v) \<rparr>"

text \<open>
  The loop over the bits of one byte: \<open>shiftByte\<close> is shifted right at every turn, bit \<open>j\<close> of
  the byte decides bit \<open>7 - j\<close> of the result.
\<close>

definition invert_bit :: "u64 \<Rightarrow> u64 \<Rightarrow> int \<Rightarrow> nat \<Rightarrow> u8 \<times> u8 \<Rightarrow> u8 \<times> u8" where
  "invert_bit startBit endBit i j = (\<lambda>(shiftByte, newByte).
     let currentBit = of_int (i * 8 + int j) :: u64 in
     if currentBit < startBit \<or> currentBit \<ge> endBit then (drop_bit 1 shiftByte, newByte)
     else (drop_bit 1 shiftByte,
           if shiftByte AND 1 = 0 then newByte OR push_bit (7 - j) 1 else newByte))"

definition invert_byte :: "u64 \<Rightarrow> u64 \<Rightarrow> int \<Rightarrow> u8 \<Rightarrow> u8" where
  "invert_byte startBit endBit i originalByte =
     snd (fold (invert_bit startBit endBit i) [0..<8] (originalByte, 0))"

definition InvertData :: "NVMDataBlock \<Rightarrow> u64 \<Rightarrow> u64 \<Rightarrow> nvm_error + NVMDataBlock" where
  "InvertData data startBit endBit =
     (let startByte = to_int32 (startBit div 8);
          endByte = to_int32 ((endBit - 1) div 8)
      in fold_res (\<lambda>i data.
           bind_res (GetByte data (of_int i)) (\<lambda>originalByte.
           SetByte data (of_int i) (invert_byte startBit endBit i originalByte)))
         [startByte..endByte] data)"

definition FlipNWrite_Read :: "FlipNWrite \<Rightarrow> u64" where
  "FlipNWrite_Read s = 0"

text \<open>The sizes \<^verbatim>\<open>Write\<close> computes: partitions of a row and of a word.\<close>

definition rowPartitions :: "FlipNWrite \<Rightarrow> u64" where
  "rowPartitions s = (rowSize (fp_params s) * 8) div of_int (fpSize s)"

definition flipPartitions :: "FlipNWrite \<Rightarrow> u64" where
  "flipPartitions s = (wordSize (fp_params s) * 8) div of_int (fpSize s)"

definition curAddr :: "FlipNWrite \<Rightarrow> u64 \<Rightarrow> u64 \<Rightarrow> nat \<Rightarrow> u64" where
  "curAddr s row col i = row * rowPartitions s + col * flipPartitions s + of_nat i"

text \<open>The first loop: what the memory holds, the flipped partitions of the old data inverted.\<close>

definition invert_flipped :: "FlipNWrite \<Rightarrow> u64 \<Rightarrow> u64 \<Rightarrow> NVMDataBlock \<Rightarrow> nvm_error + NVMDataBlock" where
  "invert_flipped s row col oldData =
     fold_res (\<lambda>i oldData.
       if curAddr s row col i \<in> flippedAddresses s
       then InvertData oldData (of_nat i * of_int (fpSize s)) ((of_nat i + 1) * of_int (fpSize s))
       else Inr oldData) [0..<unat (flipPartitions s)] oldData"

text \<open>The second loop: \<open>modifyCount\<close> is an array of \<open>flipPartitions\<close> counters.\<close>

definition count_bit ::
  "int \<Rightarrow> u8 \<Rightarrow> u8 \<Rightarrow> nat \<Rightarrow> u64 \<times> int list \<Rightarrow> nvm_error + u64 \<times> int list" where
  "count_bit fp oldByte newByte j = (\<lambda>(currentBit, modifyCount).
     if drop_bit j oldByte AND 1 \<noteq> drop_bit j newByte AND 1 then
       (let k = to_int32 (currentBit div of_int fp) in
        if 0 \<le> k \<and> nat k < length modifyCount
        then Inr (currentBit + 1, modifyCount[nat k := modifyCount ! nat k + 1])
        else Inl OutOfBounds)
     else Inr (currentBit + 1, modifyCount))"

definition count_byte ::
  "int \<Rightarrow> NVMDataBlock \<Rightarrow> NVMDataBlock \<Rightarrow> nat \<Rightarrow> u64 \<times> int list \<Rightarrow> nvm_error + u64 \<times> int list" where
  "count_byte fp oldData newData i = (\<lambda>(currentBit, modifyCount).
     bind_res (GetByte oldData (of_nat i)) (\<lambda>oldByte.
     bind_res (GetByte newData (of_nat i)) (\<lambda>newByte.
     if oldByte = newByte then Inr (currentBit + 8, modifyCount)
     else fold_res (count_bit fp oldByte newByte) [0..<8] (currentBit, modifyCount))))"

definition count_modified ::
  "FlipNWrite \<Rightarrow> NVMDataBlock \<Rightarrow> NVMDataBlock \<Rightarrow> nvm_error + int list" where
  "count_modified s oldData newData =
     bind_res (fold_res (count_byte (fpSize s) oldData newData) [0..<unat (wordSize (fp_params s))]
        (0, replicate (unat (flipPartitions s)) 0)) (\<lambda>(_, modifyCount). Inr modifyCount)"

text \<open>The third loop: flip a partition or not.\<close>

definition flip_partition ::
  "u64 \<Rightarrow> u64 \<Rightarrow> int list \<Rightarrow> nat \<Rightarrow> FlipNWrite \<times> NVMDataBlock \<Rightarrow> nvm_error + FlipNWrite \<times> NVMDataBlock" where
  "flip_partition row col modifyCount i = (\<lambda>(s, newData).
     let m = modifyCount ! i;
         s = s\<lparr> bitCompareSwapWrites := bitCompareSwapWrites s + of_int m \<rparr>;
         addr = curAddr s row col i
     in if m > fpSize s sdiv 2 then
          bind_res (InvertData newData (of_nat i * of_int (fpSize s)) ((of_nat i + 1) * of_int (fpSize s))) (\<lambda>newData.
          Inr (s\<lparr> bitsFlipped := bitsFlipped s + of_int (fpSize s - m),
                 flippedAddresses := insert addr (flippedAddresses s) \<rparr>, newData))
        else Inr (s\<lparr> flippedAddresses := flippedAddresses s - {addr},
                    bitsFlipped := bitsFlipped s + of_int m \<rparr>, newData))"

text \<open>
  \<^verbatim>\<open>Write\<close>, for a request whose translated address has \<open>row\<close> and \<open>col\<close>. It changes the
  request's old and new data in place; its latency is 0.
\<close>

definition FlipNWrite_Write ::
  "FlipNWrite \<Rightarrow> u64 \<Rightarrow> u64 \<Rightarrow> NVMDataBlock \<Rightarrow> NVMDataBlock
     \<Rightarrow> nvm_error + FlipNWrite \<times> NVMDataBlock \<times> NVMDataBlock \<times> u64" where
  "FlipNWrite_Write s row col oldData newData =
     (if (of_int (fpSize s) :: u64) = 0 then Inl DivisionByZero
      else bind_res (invert_flipped s row col oldData) (\<lambda>oldData.
        bind_res (count_modified s oldData newData) (\<lambda>modifyCount.
        bind_res (fold_res (flip_partition row col modifyCount) [0..<unat (flipPartitions s)] (s, newData))
          (\<lambda>(s, newData). Inr (s, oldData, newData, 0)))))"

section \<open>Inverting\<close>

definition bit_in :: "u64 \<Rightarrow> u64 \<Rightarrow> int \<Rightarrow> nat \<Rightarrow> bool" where
  "bit_in startBit endBit i j \<longleftrightarrow> startBit \<le> of_int (i * 8 + int j) \<and> of_int (i * 8 + int j) < endBit"

lemma and_one_zero: "(x :: u8) AND 1 = 0 \<longleftrightarrow> \<not> bit x 0"
  by (simp add: and_one_eq bit_0 even_iff_mod_2_eq_zero)

lemma invert_fold:
  assumes "m \<le> 8"
  shows "\<exists>nb. fold (invert_bit sB eB i) [0..<m] (b, 0) = (drop_bit m b, nb)
    \<and> (\<forall>k < 8. bit nb k \<longleftrightarrow> 7 - k < m \<and> bit_in sB eB i (7 - k) \<and> \<not> bit b (7 - k))"
  using assms
proof (induction m)
  case (Suc m)
  then obtain nb where nb: "fold (invert_bit sB eB i) [0..<m] (b, 0) = (drop_bit m b, nb)"
    "\<And>k. k < 8 \<Longrightarrow> bit nb k \<longleftrightarrow> 7 - k < m \<and> bit_in sB eB i (7 - k) \<and> \<not> bit b (7 - k)"
    by auto
  let ?nb = "if bit_in sB eB i m \<and> \<not> bit b m then nb OR push_bit (7 - m) 1 else nb"
  have "fold (invert_bit sB eB i) [0..<Suc m] (b, 0) = (drop_bit (Suc m) b, ?nb)"
    using nb(1) by (auto simp: invert_bit_def bit_in_def Let_def and_one_zero bit_drop_bit_eq not_le not_less)
  moreover have "bit ?nb k \<longleftrightarrow> 7 - k < Suc m \<and> bit_in sB eB i (7 - k) \<and> \<not> bit b (7 - k)" if "k < 8" for k
  proof (cases "7 - k = m")
    case True
    then have "k = 7 - m" using that by simp
    then show ?thesis using nb(2) [OF that] that True by (auto simp: bit_or_iff bit_exp_iff)
  next
    case False
    then have "\<not> bit (push_bit (7 - m) 1 :: u8) k"
      using that Suc.prems by (auto simp: bit_exp_iff)
    then show ?thesis using nb(2) [OF that] False by (auto simp: bit_or_iff)
  qed
  ultimately show ?case by blast
qed simp

lemma bit_invert_byte:
  "k < 8 \<Longrightarrow> bit (invert_byte sB eB i b) k \<longleftrightarrow> bit_in sB eB i (7 - k) \<and> \<not> bit b (7 - k)"
  using invert_fold [of 8 sB eB i b] by (auto simp: invert_byte_def)

text \<open>A byte all of whose bits are in the range.\<close>

definition flip_byte :: "u8 \<Rightarrow> u8" where
  "flip_byte b = invert_byte 0 8 0 b"

lemma bit_in_full: "j < 8 \<Longrightarrow> bit_in 0 8 0 j"
  by (simp add: bit_in_def word_less_nat_alt unat_of_nat)

lemma bit_flip_byte: "k < 8 \<Longrightarrow> bit (flip_byte b) k \<longleftrightarrow> \<not> bit b (7 - k)"
  by (simp add: flip_byte_def bit_invert_byte bit_in_full del: One_nat_def)

lemma u8_eqI: "(\<And>k. k < 8 \<Longrightarrow> bit (a :: u8) k = bit b k) \<Longrightarrow> a = b"
  by (rule bit_word_eqI) simp

lemma flip_byte_flip_byte [simp]: "flip_byte (flip_byte b) = b"
  by (rule u8_eqI) (simp add: bit_flip_byte)

lemma invert_byte_inside:
  assumes "\<And>j. j < 8 \<Longrightarrow> bit_in sB eB i j"
  shows "invert_byte sB eB i b = flip_byte b"
  by (rule u8_eqI) (simp add: bit_invert_byte bit_flip_byte assms)

definition inverted :: "nat \<Rightarrow> nat \<Rightarrow> u8 list \<Rightarrow> u8 list" where
  "inverted s e bs = map (\<lambda>k. if s \<le> k \<and> k < e then flip_byte (bs ! k) else bs ! k) [0..<length bs]"

lemma length_inverted [simp]: "length (inverted s e bs) = length bs"
  by (simp add: inverted_def)

lemma nth_inverted: "k < length bs \<Longrightarrow> inverted s e bs ! k = (if s \<le> k \<and> k < e then flip_byte (bs ! k) else bs ! k)"
  by (simp add: inverted_def)

lemma inverted_Suc: "s \<le> e \<Longrightarrow> e < length bs \<Longrightarrow> inverted s (Suc e) bs = (inverted s e bs)[e := flip_byte (bs ! e)]"
  by (rule nth_equalityI) (auto simp: nth_inverted nth_list_update less_Suc_eq)

lemma upto_int: "[int s..int e - 1] = map int [s..<e]"
proof (induction e)
  case (Suc e)
  then show ?case by (cases "s \<le> e") (simp_all add: upto_rec2 algebra_simps)
qed simp

lemma bit_in_aligned:
  assumes "unat sB = 8 * s" "unat eB = 8 * e" "s \<le> k" "k < e" "e < 2 ^ 28" "j < 8"
  shows "bit_in sB eB (int k) j"
proof -
  have "of_int (int k * 8 + int j) = (of_nat (k * 8 + j) :: u64)" by simp
  moreover have "unat (of_nat (k * 8 + j) :: u64) = k * 8 + j"
    using assms by (intro unat_of_nat_small) simp
  ultimately show ?thesis
    using assms unfolding bit_in_def word_le_nat_alt word_less_nat_alt by simp
qed

lemma InvertData_aligned:
  assumes "block_ok n b" "unat sB = 8 * s" "unat eB = 8 * e" "s < e" "e \<le> n" "n < 2 ^ 28"
  shows "InvertData b sB eB = Inr (b\<lparr> rawData := Some (inverted s e (bytes b)) \<rparr>)"
proof -
  have len: "length (bytes b) = n" using block_ok_bytes [OF assms(1)] by simp
  have "unat (sB div 8) = s" using assms(2) by (simp add: unat_div)
  then have start: "to_int32 (sB div 8) = int s" using assms(4-6) by (subst to_int32_small) simp_all
  have "1 \<le> eB" using assms(3,4) by (simp add: word_le_nat_alt)
  then have "unat ((eB - 1) div 8) = (8 * e - 1) div 8" using assms(3) by (simp add: unat_div unat_sub)
  also have "\<dots> = e - 1" using assms(4) by simp
  finally have "to_int32 ((eB - 1) div 8) = int (e - 1)" using assms(4-6) by (subst to_int32_small) simp_all
  then have "[to_int32 (sB div 8)..to_int32 ((eB - 1) div 8)] = map int [s..<e]"
    using start upto_int [of s e] assms(4) by (simp add: of_nat_diff)
  moreover have "m \<le> e \<Longrightarrow> fold_res (\<lambda>i data. bind_res (GetByte data (of_int (int i))) (\<lambda>originalByte.
      SetByte data (of_int (int i)) (invert_byte sB eB (int i) originalByte))) [s..<m] b
    = Inr (b\<lparr> rawData := Some (inverted s (max s m) (bytes b)) \<rparr>)" for m
  proof (induction m)
    case 0
    have "inverted s s (bytes b) = bytes b" by (rule nth_equalityI) (auto simp: nth_inverted)
    then show ?case using block_ok_bytes [OF assms(1)] by simp
  next
    case (Suc m)
    show ?case
    proof (cases "s \<le> m")
      case True
      let ?b = "b\<lparr> rawData := Some (inverted s m (bytes b)) \<rparr>"
      have ok: "block_ok n ?b" using assms(1) len by simp
      have u: "unat (of_nat m :: u64) = m" "m < n" using Suc.prems assms(5,6) by (simp_all add: unat_of_nat_small)
      have inv: "invert_byte sB eB (int m) x = flip_byte x" for x
        using Suc.prems True assms by (intro invert_byte_inside bit_in_aligned [of sB s eB e]) auto
      have "GetByte ?b (of_nat m) = Inr (bytes b ! m)"
        using GetByte_ok [OF ok, of "of_nat m"] u len by (simp add: nth_inverted)
      moreover have "SetByte ?b (of_nat m) (flip_byte (bytes b ! m)) =
          Inr (b\<lparr> rawData := Some (inverted s (Suc m) (bytes b)) \<rparr>)"
        using SetByte_ok [OF ok, of "of_nat m"] u len True by (simp add: inverted_Suc)
      ultimately show ?thesis using Suc True by (simp add: fold_res_append inv max_def)
    next
      case False
      then have "max s (Suc m) = max s m" by simp
      then show ?thesis using Suc False by simp
    qed
  qed
  from this [of e] assms(4) have "fold_res (\<lambda>i data. bind_res (GetByte data (of_int (int i))) (\<lambda>originalByte.
      SetByte data (of_int (int i)) (invert_byte sB eB (int i) originalByte))) [s..<e] b
    = Inr (b\<lparr> rawData := Some (inverted s e (bytes b)) \<rparr>)" by (simp add: max_def)
  ultimately show ?thesis by (simp add: InvertData_def Let_def fold_res_map)
qed

section \<open>Partitions\<close>

text \<open>
  Configurations the encoder is safe for: partitions of whole bytes that divide the word, and
  a word below \<open>2 ^ 28\<close> bytes, so that bit numbers fit in an \<^verbatim>\<open>int\<close>.
\<close>

definition flip_ok :: "FlipNWrite \<Rightarrow> bool" where
  "flip_ok s \<longleftrightarrow> 0 < fpSize s \<and> fpSize s < 2 ^ 31 \<and> fpSize s mod 8 = 0
     \<and> unat (wordSize (fp_params s)) < 2 ^ 28
     \<and> unat (wordSize (fp_params s)) mod nat (fpSize s div 8) = 0"

definition part_bytes :: "FlipNWrite \<Rightarrow> nat" where
  "part_bytes s = nat (fpSize s div 8)"

definition n_parts :: "FlipNWrite \<Rightarrow> nat" where
  "n_parts s = unat (wordSize (fp_params s)) div part_bytes s"

lemma flip_ok_sizes:
  assumes "flip_ok s"
  shows "fpSize s = int (8 * part_bytes s)" "0 < part_bytes s" "8 * part_bytes s < 2 ^ 31"
    "unat (wordSize (fp_params s)) = n_parts s * part_bytes s" "n_parts s * part_bytes s < 2 ^ 28"
    "n_parts s < 2 ^ 28" "unat (of_int (fpSize s) :: u64) = 8 * part_bytes s"
    "unat (flipPartitions s) = n_parts s"
proof -
  have f: "0 < fpSize s" "fpSize s < 2 ^ 31" "fpSize s mod 8 = 0" using assms by (simp_all add: flip_ok_def)
  have "fpSize s = 8 * (fpSize s div 8)" "0 \<le> fpSize s div 8" using f(1,3) by presburger+
  then show eq: "fpSize s = int (8 * part_bytes s)" unfolding part_bytes_def by linarith
  show pos: "0 < part_bytes s" using f(1) eq by auto
  show lt: "8 * part_bytes s < 2 ^ 31" using f(2) unfolding eq by simp
  show wsz: "unat (wordSize (fp_params s)) = n_parts s * part_bytes s"
    using assms by (auto simp: n_parts_def flip_ok_def part_bytes_def)
  show bound: "n_parts s * part_bytes s < 2 ^ 28" using assms wsz by (simp add: flip_ok_def)
  have "n_parts s * 1 \<le> n_parts s * part_bytes s" using pos by (intro mult_le_mono) simp_all
  then show pl: "n_parts s < 2 ^ 28" using bound by linarith
  have "(of_int (fpSize s) :: u64) = of_nat (8 * part_bytes s)" unfolding eq by simp
  then show u: "unat (of_int (fpSize s) :: u64) = 8 * part_bytes s"
    using lt unat_of_nat_small [of "8 * part_bytes s"] by simp
  have "unat (wordSize (fp_params s) * 8) = n_parts s * (8 * part_bytes s)"
    using wsz bound by (subst unat_word_ariths, subst mod_less) simp_all
  then show "unat (flipPartitions s) = n_parts s"
    using u pos by (simp add: flipPartitions_def unat_div)
qed

lemma part_bits:
  assumes "flip_ok s" "i < n_parts s"
  shows "unat (of_nat i * of_int (fpSize s) :: u64) = 8 * (i * part_bytes s)"
    "unat ((of_nat i + 1) * of_int (fpSize s) :: u64) = 8 * ((i + 1) * part_bytes s)"
    "(i + 1) * part_bytes s \<le> n_parts s * part_bytes s"
proof -
  note z = flip_ok_sizes [OF assms(1)]
  show le: "(i + 1) * part_bytes s \<le> n_parts s * part_bytes s"
    using assms(2) by (intro mult_le_mono) simp_all
  have eq: "(of_nat j * of_int (fpSize s) :: u64) = of_nat (8 * (j * part_bytes s))" for j
    unfolding z(1) by simp
  have "unat (of_nat (8 * (j * part_bytes s)) :: u64) = 8 * (j * part_bytes s)" if "j \<le> i + 1" for j
  proof (rule unat_of_nat_small)
    have "j * part_bytes s \<le> (i + 1) * part_bytes s" using that by (intro mult_le_mono) simp_all
    then show "8 * (j * part_bytes s) < 2 ^ 64" using le z(5) by simp
  qed
  from this [of i] this [of "i + 1"] eq [of i] eq [of "i + 1"]
  show "unat (of_nat i * of_int (fpSize s) :: u64) = 8 * (i * part_bytes s)"
    "unat ((of_nat i + 1) * of_int (fpSize s) :: u64) = 8 * ((i + 1) * part_bytes s)"
    by (simp_all add: add.commute)
qed

text \<open>Flipping the partitions \<open>F\<close> of a word with partitions of \<open>fb\<close> bytes.\<close>

definition flip_all :: "nat \<Rightarrow> (nat \<Rightarrow> bool) \<Rightarrow> u8 list \<Rightarrow> u8 list" where
  "flip_all fb F bs = map (\<lambda>k. if F (k div fb) then flip_byte (bs ! k) else bs ! k) [0..<length bs]"

lemma length_flip_all [simp]: "length (flip_all fb F bs) = length bs"
  by (simp add: flip_all_def)

lemma nth_flip_all: "k < length bs \<Longrightarrow> flip_all fb F bs ! k = (if F (k div fb) then flip_byte (bs ! k) else bs ! k)"
  by (simp add: flip_all_def)

lemma flip_all_flip_all: "flip_all fb F (flip_all fb F bs) = bs"
  by (rule nth_equalityI) (auto simp: nth_flip_all)

lemma flip_all_cong:
  "(\<And>i. i \<le> (length bs - 1) div fb \<Longrightarrow> F i = G i) \<Longrightarrow> flip_all fb F bs = flip_all fb G bs"
  by (rule nth_equalityI) (simp_all add: nth_flip_all div_le_mono)

lemma flip_all_none: "(\<And>i. \<not> F i) \<Longrightarrow> flip_all fb F bs = bs"
  by (rule nth_equalityI) (auto simp: nth_flip_all)

lemma flip_all_part:
  assumes "0 < fb"
  shows "inverted (m * fb) ((m + 1) * fb) (flip_all fb (\<lambda>i. i < m \<and> F i) bs)
    = flip_all fb (\<lambda>i. i < Suc m \<and> (F i \<or> i = m)) bs"
proof (rule nth_equalityI)
  fix k assume "k < length (inverted (m * fb) ((m + 1) * fb) (flip_all fb (\<lambda>i. i < m \<and> F i) bs))"
  then have k: "k < length bs" by simp
  have "m * fb \<le> k \<and> k < (m + 1) * fb \<longleftrightarrow> k div fb = m"
    using assms by (simp add: div_nat_eqI dividend_less_times_div mult.commute) (metis
        Suc_eq_plus1 add.commute assms div_nat_eqI dividend_less_times_div mult.commute mult_Suc
        mult_Suc_right times_div_less_eq_dividend)
  then show "inverted (m * fb) ((m + 1) * fb) (flip_all fb (\<lambda>i. i < m \<and> F i) bs) ! k
      = flip_all fb (\<lambda>i. i < Suc m \<and> (F i \<or> i = m)) bs ! k"
    using k by (simp add: nth_inverted nth_flip_all less_Suc_eq)
qed simp

text \<open>One step of either loop that inverts partitions.\<close>

lemma InvertData_part:
  assumes "flip_ok s" "block_ok (n_parts s * part_bytes s) b" "m < n_parts s"
  shows "InvertData (b\<lparr> rawData := Some (flip_all (part_bytes s) (\<lambda>i. i < m \<and> F i) (bytes b)) \<rparr>)
      (of_nat m * of_int (fpSize s)) ((of_nat m + 1) * of_int (fpSize s))
    = Inr (b\<lparr> rawData := Some (flip_all (part_bytes s) (\<lambda>i. i < Suc m \<and> (F i \<or> i = m)) (bytes b)) \<rparr>)"
proof -
  note z = flip_ok_sizes [OF assms(1)] and p = part_bits [OF assms(1,3)]
  let ?b = "b\<lparr> rawData := Some (flip_all (part_bytes s) (\<lambda>i. i < m \<and> F i) (bytes b)) \<rparr>"
  have "block_ok (n_parts s * part_bytes s) ?b"
    using assms(2) block_ok_bytes [OF assms(2)] by simp
  then have "InvertData ?b (of_nat m * of_int (fpSize s)) ((of_nat m + 1) * of_int (fpSize s))
      = Inr (?b\<lparr> rawData := Some (inverted (m * part_bytes s) ((m + 1) * part_bytes s) (bytes ?b)) \<rparr>)"
    using p z(2,5) by (intro InvertData_aligned [of "n_parts s * part_bytes s"]) simp_all
  then show ?thesis using flip_all_part [OF z(2), of m F "bytes b"] by simp
qed

lemma invert_flipped_eq:
  assumes "flip_ok s" "block_ok (n_parts s * part_bytes s) b"
  shows "invert_flipped s row col b =
    Inr (b\<lparr> rawData := Some (flip_all (part_bytes s) (\<lambda>i. i < n_parts s \<and> curAddr s row col i \<in> flippedAddresses s) (bytes b)) \<rparr>)"
proof -
  let ?F = "\<lambda>i. curAddr s row col i \<in> flippedAddresses s"
  let ?f = "\<lambda>i b. if ?F i then InvertData b (of_nat i * of_int (fpSize s)) ((of_nat i + 1) * of_int (fpSize s)) else Inr b"
  have "m \<le> n_parts s \<Longrightarrow> fold_res ?f [0..<m] b =
      Inr (b\<lparr> rawData := Some (flip_all (part_bytes s) (\<lambda>i. i < m \<and> ?F i) (bytes b)) \<rparr>)" for m
  proof (induction m)
    case 0
    have "b\<lparr> rawData := Some (bytes b) \<rparr> = b" using block_ok_bytes [OF assms(2)] by (cases b) simp
    then show ?case by (simp add: flip_all_none)
  next
    case (Suc m)
    show ?case
    proof (cases "?F m")
      case True
      then have "(\<lambda>i. i < Suc m \<and> ?F i) = (\<lambda>i. i < Suc m \<and> (?F i \<or> i = m))" by auto
      then show ?thesis using Suc True InvertData_part [OF assms, of m ?F] by (simp add: fold_res_append)
    next
      case False
      then have "(\<lambda>i. i < Suc m \<and> ?F i) = (\<lambda>i. i < m \<and> ?F i)" by (auto simp: less_Suc_eq)
      then show ?thesis using Suc False by (simp add: fold_res_append)
    qed
  qed
  then show ?thesis by (simp add: invert_flipped_def flip_ok_sizes [OF assms(1)])
qed

section \<open>Counting\<close>

definition hamming :: "u8 \<Rightarrow> u8 \<Rightarrow> nat" where
  "hamming a b = length (filter (\<lambda>j. bit a j \<noteq> bit b j) [0..<8])"

lemma hamming_le: "hamming a b \<le> 8"
  unfolding hamming_def by (rule order_trans [OF length_filter_le]) simp

lemma hamming_refl [simp]: "hamming a a = 0"
  by (simp add: hamming_def)

lemma count_bits:
  assumes "0 < fb" "8 * i < 2 ^ 31" "8 * fb < 2 ^ 31" "i div fb < length mc" "m \<le> 8"
  shows "fold_res (count_bit (int (8 * fb)) a b) [0..<m] (of_nat (8 * i), mc) =
    Inr (of_nat (8 * i + m), mc[i div fb := mc ! (i div fb) + int (length (filter (\<lambda>j. bit a j \<noteq> bit b j) [0..<m]))])"
  using assms(5)
proof (induction m)
  case (Suc m)
  have u: "unat (of_nat (8 * i + m) :: u64) = 8 * i + m" "unat (of_nat (8 * fb) :: u64) = 8 * fb"
    using Suc.prems assms(2,3) by (intro unat_of_nat_small; simp)+
  have "unat (of_nat (8 * i + m) div of_nat (8 * fb) :: u64) = (8 * i + m) div (8 * fb)"
    unfolding unat_div u ..
  also have "\<dots> = i div fb" using Suc.prems by (simp add: div_mult2_eq)
  finally have q: "to_int32 (of_nat (8 * i + m) div of_nat (8 * fb)) = int (i div fb)"
    using assms(2) le_less_trans [OF div_le_dividend [of i fb], of "2 ^ 31"] by (subst to_int32_small) simp_all
  show ?case
    using Suc q assms(4) by (simp add: fold_res_append count_bit_def bit_test Let_def add.assoc)
qed (simp add: assms)

definition mod_count :: "nat \<Rightarrow> u8 list \<Rightarrow> u8 list \<Rightarrow> nat \<Rightarrow> nat \<Rightarrow> nat" where
  "mod_count fb old new m p = (\<Sum>k \<in> {k. k < m \<and> k div fb = p}. hamming (old ! k) (new ! k))"

lemma mod_count_Suc:
  "mod_count fb old new (Suc m) p = mod_count fb old new m p + (if m div fb = p then hamming (old ! m) (new ! m) else 0)"
proof (cases "m div fb = p")
  case True
  then have "{k. k < Suc m \<and> k div fb = p} = insert m {k. k < m \<and> k div fb = p}" by (auto simp: less_Suc_eq)
  then show ?thesis using True by (simp add: mod_count_def)
next
  case False
  then have "{k. k < Suc m \<and> k div fb = p} = {k. k < m \<and> k div fb = p}" by (auto simp: less_Suc_eq)
  then show ?thesis using False by (simp add: mod_count_def)
qed

lemma mod_count_le:
  assumes "0 < fb"
  shows "mod_count fb old new m p \<le> 8 * fb"
proof -
  have sub: "{k. k < m \<and> k div fb = p} \<subseteq> {p * fb..<p * fb + fb}"
    using assms dividend_less_div_times [OF assms] by (auto simp: add.commute)
  have "mod_count fb old new m p \<le> card {k. k < m \<and> k div fb = p} * 8"
    unfolding mod_count_def
    using sum_bounded_above [of "{k. k < m \<and> k div fb = p}" "\<lambda>k. hamming (old ! k) (new ! k)" 8] hamming_le by simp
  also have "\<dots> \<le> fb * 8" using card_mono [OF _ sub] by simp
  finally show ?thesis by simp
qed

lemma count_modified_eq:
  assumes "flip_ok s" "block_ok (n_parts s * part_bytes s) old" "block_ok (n_parts s * part_bytes s) new"
  shows "count_modified s old new =
    Inr (map (\<lambda>p. int (mod_count (part_bytes s) (bytes old) (bytes new) (n_parts s * part_bytes s) p)) [0..<n_parts s])"
proof -
  note z = flip_ok_sizes [OF assms(1)]
  let ?c = "\<lambda>m. map (\<lambda>p. int (mod_count (part_bytes s) (bytes old) (bytes new) m p)) [0..<n_parts s]"
  have "m \<le> n_parts s * part_bytes s \<Longrightarrow>
      fold_res (count_byte (fpSize s) old new) [0..<m] (0, replicate (n_parts s) 0) = Inr (of_nat (8 * m), ?c m)" for m
  proof (induction m)
    case 0
    show ?case by (simp add: mod_count_def map_replicate_trivial)
  next
    case (Suc m)
    let ?q = "m div part_bytes s" and ?h = "hamming (bytes old ! m) (bytes new ! m)"
    have q: "?q < n_parts s" using Suc.prems z(2) by (simp add: div_less_iff_less_mult)
    have u: "unat (of_nat m :: u64) = m" using Suc.prems z(5) by (intro unat_of_nat_small) simp
    have get: "GetByte old (of_nat m) = Inr (bytes old ! m)" "GetByte new (of_nat m) = Inr (bytes new ! m)"
      using GetByte_ok [OF assms(2), of "of_nat m"] GetByte_ok [OF assms(3), of "of_nat m"] u Suc.prems by simp_all
    have c: "?c (Suc m) = (?c m)[?q := ?c m ! ?q + int ?h]"
      using q by (intro nth_equalityI) (auto simp: mod_count_Suc nth_list_update)
    have "fold_res (count_bit (fpSize s) (bytes old ! m) (bytes new ! m)) [0..<8] (of_nat (8 * m), ?c m) =
        Inr (of_nat (8 * m + 8), ?c (Suc m))"
      unfolding c z(1) hamming_def using q z(2,3,5) Suc.prems by (intro count_bits) simp_all
    moreover have "?c (Suc m) = ?c m" if "bytes old ! m = bytes new ! m" using that by (simp add: mod_count_Suc)
    ultimately have "count_byte (fpSize s) old new m (of_nat (8 * m), ?c m) = Inr (of_nat (8 * m + 8), ?c (Suc m))"
      by (simp add: count_byte_def get)
    then show ?case using Suc by (simp add: fold_res_append)
  qed
  then show ?thesis by (simp add: count_modified_def z)
qed

section \<open>Write\<close>

lemma curAddr_inj: "i < 2 ^ 28 \<Longrightarrow> j < 2 ^ 28 \<Longrightarrow> curAddr s row col i = curAddr s row col j \<Longrightarrow> i = j"
proof -
  assume a: "i < 2 ^ 28" "j < 2 ^ 28" "curAddr s row col i = curAddr s row col j"
  then have "(of_nat i :: u64) = of_nat j" by (simp add: curAddr_def)
  then have "unat (of_nat i :: u64) = unat (of_nat j :: u64)" by simp
  then show "i = j" using a(1,2) by (simp add: unat_of_nat_small)
qed

lemma curAddr_frame [simp]:
  "curAddr (s\<lparr> flippedAddresses := F, bitsFlipped := x, bitCompareSwapWrites := y \<rparr>) = curAddr s"
  by (simp add: curAddr_def rowPartitions_def flipPartitions_def fun_eq_iff)

text \<open>The state after the first \<open>m\<close> partitions, with counts \<open>mc\<close>.\<close>

definition flipped_state :: "FlipNWrite \<Rightarrow> u64 \<Rightarrow> u64 \<Rightarrow> int list \<Rightarrow> nat \<Rightarrow> FlipNWrite" where
  "flipped_state s row col mc m =
    (let F = (\<lambda>i. mc ! i > int (4 * part_bytes s)) in
     s\<lparr> flippedAddresses := (flippedAddresses s - curAddr s row col ` {..<m}) \<union> curAddr s row col ` {i. i < m \<and> F i},
        bitsFlipped := bitsFlipped s + of_int (\<Sum>i<m. if F i then fpSize s - mc ! i else mc ! i),
        bitCompareSwapWrites := bitCompareSwapWrites s + of_int (\<Sum>i<m. mc ! i) \<rparr>)"

lemma flip_loop_eq:
  assumes "flip_ok s" "block_ok (n_parts s * part_bytes s) b" "m \<le> n_parts s"
  shows "fold_res (flip_partition row col mc) [0..<m] (s, b) =
    Inr (flipped_state s row col mc m,
      b\<lparr> rawData := Some (flip_all (part_bytes s) (\<lambda>i. i < m \<and> mc ! i > int (4 * part_bytes s)) (bytes b)) \<rparr>)"
  using assms(3)
proof (induction m)
  case 0
  have "b\<lparr> rawData := Some (bytes b) \<rparr> = b" using block_ok_bytes [OF assms(2)] by (cases b) simp
  then show ?case by (simp add: flip_all_none flipped_state_def)
next
  case (Suc m)
  note z = flip_ok_sizes [OF assms(1)]
  let ?F = "\<lambda>i. mc ! i > int (4 * part_bytes s)"
  have half: "fpSize s sdiv 2 = int (4 * part_bytes s)"
    unfolding z(1) by (simp add: signed_divide_int_def sgn_if)
  have inj: "curAddr s row col m \<notin> curAddr s row col ` {i. i < m \<and> ?F i}"
  proof
    assume "curAddr s row col m \<in> curAddr s row col ` {i. i < m \<and> ?F i}"
    then obtain i where "i < m" "curAddr s row col m = curAddr s row col i" by auto
    then show False using curAddr_inj [of m i s row col] Suc.prems z(6) by simp
  qed
  show ?case
  proof (cases "?F m")
    case True
    then have "(\<lambda>i. i < Suc m \<and> ?F i) = (\<lambda>i. i < Suc m \<and> (?F i \<or> i = m))" by auto
    then have "InvertData (b\<lparr> rawData := Some (flip_all (part_bytes s) (\<lambda>i. i < m \<and> ?F i) (bytes b)) \<rparr>)
        (of_nat m * of_int (fpSize s)) ((of_nat m + 1) * of_int (fpSize s))
      = Inr (b\<lparr> rawData := Some (flip_all (part_bytes s) (\<lambda>i. i < Suc m \<and> ?F i) (bytes b)) \<rparr>)"
      using InvertData_part [OF assms(1,2), of m ?F] Suc.prems by simp
    moreover have "(flippedAddresses s - curAddr s row col ` {..<Suc m}) \<union> curAddr s row col ` {i. i < Suc m \<and> ?F i}
      = insert (curAddr s row col m) ((flippedAddresses s - curAddr s row col ` {..<m}) \<union> curAddr s row col ` {i. i < m \<and> ?F i})"
      using True by (auto simp: less_Suc_eq lessThan_Suc)
    ultimately show ?thesis
      using Suc True half by (simp add: fold_res_append flip_partition_def flipped_state_def Let_def add.assoc)
  next
    case False
    have "(\<lambda>i. i < Suc m \<and> ?F i) = (\<lambda>i. i < m \<and> ?F i)" using False by (auto simp: less_Suc_eq)
    moreover have "(flippedAddresses s - curAddr s row col ` {..<Suc m}) \<union> curAddr s row col ` {i. i < Suc m \<and> ?F i}
      = ((flippedAddresses s - curAddr s row col ` {..<m}) \<union> curAddr s row col ` {i. i < m \<and> ?F i}) - {curAddr s row col m}"
      using False inj by (auto simp: less_Suc_eq lessThan_Suc)
    ultimately show ?thesis
      using Suc False half by (simp add: fold_res_append flip_partition_def flipped_state_def Let_def add.assoc)
  qed
qed

lemma flipped_state_frame [simp]:
  "fp_params (flipped_state s row col mc m) = fp_params s" "fpSize (flipped_state s row col mc m) = fpSize s"
  "curAddr (flipped_state s row col mc m) = curAddr s" "part_bytes (flipped_state s row col mc m) = part_bytes s"
  "n_parts (flipped_state s row col mc m) = n_parts s" "flip_ok (flipped_state s row col mc m) = flip_ok s"
  by (simp_all add: flipped_state_def Let_def curAddr_def rowPartitions_def flipPartitions_def fun_eq_iff
      part_bytes_def n_parts_def flip_ok_def)

lemma flipped_state_stats:
  "bitsFlipped (flipped_state s row col mc m) = bitsFlipped s
     + of_int (\<Sum>i<m. if mc ! i > int (4 * part_bytes s) then fpSize s - mc ! i else mc ! i)"
  "bitCompareSwapWrites (flipped_state s row col mc m) = bitCompareSwapWrites s + of_int (\<Sum>i<m. mc ! i)"
  by (simp_all add: flipped_state_def Let_def)

lemma FlipNWrite_Write_eq:
  assumes "flip_ok s" "block_ok (unat (wordSize (fp_params s))) old" "block_ok (unat (wordSize (fp_params s))) new"
  obtains old' mc where "block_ok (n_parts s * part_bytes s) old'"
    "mc = map (\<lambda>p. int (mod_count (part_bytes s) (bytes old') (bytes new) (n_parts s * part_bytes s) p)) [0..<n_parts s]"
    "FlipNWrite_Write s row col old new = Inr (flipped_state s row col mc (n_parts s), old',
      new\<lparr> rawData := Some (flip_all (part_bytes s) (\<lambda>i. i < n_parts s \<and> mc ! i > int (4 * part_bytes s)) (bytes new)) \<rparr>, 0)"
proof -
  note z = flip_ok_sizes [OF assms(1)]
  let ?n = "n_parts s * part_bytes s"
  have o: "block_ok ?n old" and nw: "block_ok ?n new" using assms(2,3) z(4) by simp_all
  let ?old = "old\<lparr> rawData := Some (flip_all (part_bytes s)
    (\<lambda>i. i < n_parts s \<and> curAddr s row col i \<in> flippedAddresses s) (bytes old)) \<rparr>"
  have ok: "block_ok ?n ?old" using o block_ok_bytes [OF o] by simp
  have "(of_int (fpSize s) :: u64) \<noteq> 0" using z(2,7) by auto
  then show ?thesis
    using that [OF ok refl] invert_flipped_eq [OF assms(1) o, of row col] count_modified_eq [OF assms(1) ok nw]
      flip_loop_eq [OF assms(1) nw order_refl, of row col] by (simp add: FlipNWrite_Write_def z(8))
qed

text \<open>
  C28: Whatever the encoder decides to flip, the data can be recovered: it never fails, and
  inverting the partitions it marks as flipped in what it stores gives back the data the
  request carried. Marks of other words are left alone.
\<close>

theorem FlipNWrite_Write_decodes:
  assumes "flip_ok s" "block_ok (unat (wordSize (fp_params s))) old" "block_ok (unat (wordSize (fp_params s))) new"
  shows "\<exists>s' old' new'. FlipNWrite_Write s row col old new = Inr (s', old', new', 0)
    \<and> invert_flipped s' row col new' = Inr new
    \<and> flippedAddresses s' - curAddr s row col ` {..<unat (flipPartitions s)}
        = flippedAddresses s - curAddr s row col ` {..<unat (flipPartitions s)}"
proof -
  note z = flip_ok_sizes [OF assms(1)]
  obtain old' mc where W: "FlipNWrite_Write s row col old new = Inr (flipped_state s row col mc (n_parts s), old',
      new\<lparr> rawData := Some (flip_all (part_bytes s) (\<lambda>i. i < n_parts s \<and> mc ! i > int (4 * part_bytes s)) (bytes new)) \<rparr>, 0)"
    by (rule FlipNWrite_Write_eq [OF assms, of row col])
  let ?s = "flipped_state s row col mc (n_parts s)" and ?F = "\<lambda>i. i < n_parts s \<and> mc ! i > int (4 * part_bytes s)"
  let ?new = "new\<lparr> rawData := Some (flip_all (part_bytes s) ?F (bytes new)) \<rparr>"
  have nw: "block_ok (n_parts s * part_bytes s) new" using assms(3) z(4) by simp
  have "curAddr s row col i \<in> flippedAddresses ?s \<longleftrightarrow> mc ! i > int (4 * part_bytes s)" if "i < n_parts s" for i
  proof -
    have "j = i" if "j < n_parts s" "curAddr s row col i = curAddr s row col j" for j
      using curAddr_inj [of i j s row col] that \<open>i < n_parts s\<close> z(6) by simp
    then show ?thesis using that by (auto simp: flipped_state_def Let_def)
  qed
  then have "(\<lambda>i. i < n_parts s \<and> curAddr s row col i \<in> flippedAddresses ?s) = ?F" by auto
  moreover have "block_ok (n_parts s * part_bytes s) ?new" using nw block_ok_bytes [OF nw] by simp
  ultimately have "invert_flipped ?s row col ?new = Inr (new\<lparr> rawData := Some (bytes new) \<rparr>)"
    using invert_flipped_eq [of ?s ?new row col] assms(1) by (simp add: flip_all_flip_all)
  also have "new\<lparr> rawData := Some (bytes new) \<rparr> = new" using block_ok_bytes [OF nw] by (cases new) simp
  finally have "invert_flipped ?s row col ?new = Inr new" .
  moreover have "flippedAddresses ?s - curAddr s row col ` {..<n_parts s} = flippedAddresses s - curAddr s row col ` {..<n_parts s}"
    by (auto simp: flipped_state_def Let_def)
  ultimately show ?thesis using W z(8) by auto
qed

definition sample_flip :: FlipNWrite where
  "sample_flip = FlipNWrite_SetConfig (FlipNWrite_init
     \<lparr> wp_BusWidth = 64, wp_tBURST = 4, wp_RATE = 2, wp_COLS = 1024 \<rparr>) (- 1)"

lemma sample_flip_ok: "flip_ok sample_flip" "unat (wordSize (fp_params sample_flip)) = unat (64 :: u64)"
  by (simp_all add: flip_ok_def sample_flip_def FlipNWrite_SetConfig_def FlipNWrite_init_def wordSize_def)

theorem FlipNWrite_Write_decodes_witness:
  "\<exists>s' old' new'. FlipNWrite_Write sample_flip 3 5 (zero_block 64)
      ((zero_block 64)\<lparr> rawData := Some (replicate 64 255) \<rparr>) = Inr (s', old', new', 0)
    \<and> invert_flipped s' 3 5 new' = Inr ((zero_block 64)\<lparr> rawData := Some (replicate 64 255) \<rparr>)"
proof -
  have "block_ok (unat (wordSize (fp_params sample_flip))) ((zero_block 64)\<lparr> rawData := Some (replicate 64 255) \<rparr>)"
    unfolding sample_flip_ok using zero_block_ok [of 64] by simp
  then show ?thesis
    using FlipNWrite_Write_decodes [OF sample_flip_ok(1), of "zero_block 64"] zero_block_ok [of 64]
    unfolding sample_flip_ok by blast
qed



text \<open>
  \<open>InvertData\<close> on whole bytes inverts and mirrors each byte: bit \<open>k\<close> of the result is the
  negation of bit \<open>7 - k\<close>, so a cell-wise comparison with the old data compares the wrong
  cells.
\<close>

theorem InvertData_mirrors:
  assumes "block_ok n b" "unat sB = 8 * s" "unat eB = 8 * e" "s < e" "e \<le> n" "n < 2 ^ 28"
  shows "\<exists>b'. InvertData b sB eB = Inr b' \<and> block_ok n b'
    \<and> (\<forall>i < n. \<forall>k < 8. bit (bytes b' ! i) k =
         (if s \<le> i \<and> i < e then \<not> bit (bytes b ! i) (7 - k) else bit (bytes b ! i) k))"
  using InvertData_aligned [OF assms] block_ok_bytes [OF assms(1)] assms(1)
  by (auto simp: nth_inverted bit_flip_byte)

theorem InvertData_mirrors_witness:
  "\<exists>b'. InvertData (zero_block 64) 0 32 = Inr b'
    \<and> (\<forall>k < 8. bit (bytes b' ! 2) k = (\<not> bit (bytes (zero_block 64) ! 2) (7 - k)))"
proof -
  obtain b' where b': "InvertData (zero_block 64) 0 32 = Inr b'"
    and bits: "\<forall>i < unat (64 :: u64). \<forall>k < 8. bit (bytes b' ! i) k =
      (if 0 \<le> i \<and> i < 4 then \<not> bit (bytes (zero_block 64) ! i) (7 - k) else bit (bytes (zero_block 64) ! i) k)"
    using InvertData_mirrors [OF zero_block_ok [of 64], of 0 0 32 4] by auto
  from bits [rule_format, of 2] have "\<forall>k < 8. bit (bytes b' ! 2) k = (\<not> bit (bytes (zero_block 64) ! 2) (7 - k))"
    by simp
  with b' show ?thesis by blast
qed

text \<open>
  Two configurations outside \<open>flip_ok\<close>: with partitions that are not whole bytes, inverting one
  clears the other bits of a shared byte; with partitions that do not divide the word, the
  counter of the last, partial partition is outside the array.
\<close>

lemma InvertData_clears_shared_byte:
  "InvertData \<lparr> rawData = Some [255], isValid = True, db_size = 1 \<rparr> 0 4
    = Inr \<lparr> rawData = Some [0], isValid = True, db_size = 1 \<rparr>"
  by code_simp

lemma partial_partition_overflows:
  "count_modified \<lparr> fp_params = \<lparr> wp_BusWidth = 8, wp_tBURST = 1, wp_RATE = 1, wp_COLS = 4 \<rparr>, fpSize = 5,
       flippedAddresses = {}, bitsFlipped = 0, bitCompareSwapWrites = 0 \<rparr>
     \<lparr> rawData = Some [0], isValid = True, db_size = 1 \<rparr> \<lparr> rawData = Some [128], isValid = True, db_size = 1 \<rparr>
    = Inl OutOfBounds"
  by code_simp

end
