(* ===== verification/Nvm_Endurance.thy ===== *)
theory Nvm_Endurance
  imports Nvm_DataBlock
begin

text \<open>
  Wear of the memory cells: \<^verbatim>\<open>src/EnduranceModel.cpp\<close> keeps the remaining writes of the
  locations written so far, and the models under \<^verbatim>\<open>Endurance/\<close> decide which keys of that map
  a request touches: its row, its word, its modified bytes or its modified bits.

  The life map is an ordered association list. \<^verbatim>\<open>enduranceDist->GetEndurance( )\<close>, which may
  be a pseudo-random generator, is a function \<open>draw\<close> on the generator's state. A request
  is given by the row and column of its translated address and its data.
\<close>

record 'd EnduranceModel =
  life :: "(u64 \<times> u64) list"
  enduranceDist :: 'd
  granularity :: u64

definition EnduranceModel_init :: "'d \<Rightarrow> 'd EnduranceModel" where
  "EnduranceModel_init d = \<lparr> life = [], enduranceDist = d, granularity = 0 \<rparr>"

definition SetGranularity :: "'d EnduranceModel \<Rightarrow> u64 \<Rightarrow> 'd EnduranceModel" where
  "SetGranularity m bits = m\<lparr> granularity := bits \<rparr>"

definition GetWorstLife :: "'d EnduranceModel \<Rightarrow> u64" where
  "GetWorstLife m = fold (\<lambda>(_, v) min. if v < min then v else min) (life m) max_u64"

definition GetAverageLife :: "'d EnduranceModel \<Rightarrow> u64" where
  "GetAverageLife m =
     (let total = fold (\<lambda>(_, v) total. total + v) (life m) 0
      in if length (life m) \<noteq> 0 then total div of_nat (length (life m)) else 0)"

definition DecrementLife :: "('d \<Rightarrow> u64 \<times> 'd) \<Rightarrow> 'd EnduranceModel \<Rightarrow> u64 \<Rightarrow> 'd EnduranceModel \<times> bool" where
  "DecrementLife draw m addr =
     (case map_of (life m) addr of
        None \<Rightarrow> let (e, d) = draw (enduranceDist m)
                in (m\<lparr> life := omap_upd addr e (life m), enduranceDist := d \<rparr>, True)
      | Some v \<Rightarrow> if v \<noteq> 0 then (m\<lparr> life := omap_upd addr (v - 1) (life m) \<rparr>, True) else (m, False))"

definition IsDead :: "'d EnduranceModel \<Rightarrow> u64 \<Rightarrow> bool" where
  "IsDead m addr \<longleftrightarrow> map_of (life m) addr = Some 0"

text \<open>\<^verbatim>\<open>Endurance/Distributions/Uniform.cpp\<close>: the same endurance for everyone.\<close>

definition UniformDistribution_init :: "int \<Rightarrow> u64" where
  "UniformDistribution_init v = (if v = - 1 then 1000000 else of_int v)"

definition Uniform_GetEndurance :: "u64 \<Rightarrow> u64 \<times> u64" where
  "Uniform_GetEndurance mean = (mean, mean)"

section \<open>The models\<close>

text \<open>Return values: \<open>- 1\<close> for a dead location, 0 cycles otherwise.\<close>

definition NullModel_Read :: "'d EnduranceModel \<Rightarrow> int" where
  "NullModel_Read m = 0"

definition NullModel_Write :: "'d EnduranceModel \<Rightarrow> 'd EnduranceModel \<times> int" where
  "NullModel_Write m = (m, 0)"

definition RowModel_Read :: "'d EnduranceModel \<Rightarrow> u64 \<Rightarrow> int" where
  "RowModel_Read m row = (if IsDead m row then - 1 else 0)"

definition RowModel_Write :: "('d \<Rightarrow> u64 \<times> 'd) \<Rightarrow> 'd EnduranceModel \<Rightarrow> u64 \<Rightarrow> 'd EnduranceModel \<times> int" where
  "RowModel_Write draw m row = (let (m', ok) = DecrementLife draw m row in (m', if ok then 0 else - 1))"

definition word_key :: "WordParams \<Rightarrow> u64 \<times> u64 \<Rightarrow> u64" where
  "word_key p = (\<lambda>(row, col). row * (rowSize p div wordSize p) + col)"

definition WordModel_Read :: "WordParams \<Rightarrow> 'd EnduranceModel \<Rightarrow> u64 \<Rightarrow> u64 \<Rightarrow> nvm_error + int" where
  "WordModel_Read p m row col =
     (if wordSize p = 0 then Inl DivisionByZero
      else Inr (if IsDead m (word_key p (row, col)) then - 1 else 0))"

definition WordModel_Write ::
  "WordParams \<Rightarrow> ('d \<Rightarrow> u64 \<times> 'd) \<Rightarrow> 'd EnduranceModel \<Rightarrow> u64 \<Rightarrow> u64 \<Rightarrow> nvm_error + 'd EnduranceModel \<times> int" where
  "WordModel_Write p draw m row col =
     (if wordSize p = 0 then Inl DivisionByZero
      else let (m', ok) = DecrementLife draw m (word_key p (row, col)) in Inr (m', if ok then 0 else - 1))"

definition byte_key :: "WordParams \<Rightarrow> u64 \<times> u64 \<times> int \<Rightarrow> u64" where
  "byte_key p = (\<lambda>(row, col, i). row * (rowSize p div 8) + col * wordSize p + of_int i)"

text \<open>The loops of the byte model run from \<^verbatim>\<open>(int)wordSize - 1\<close> down to 0.\<close>

definition ByteModel_Read :: "WordParams \<Rightarrow> 'd EnduranceModel \<Rightarrow> u64 \<Rightarrow> u64 \<Rightarrow> int" where
  "ByteModel_Read p m row col =
     (if list_ex (\<lambda>i. IsDead m (byte_key p (row, col, i))) (rev [0..to_int32 (wordSize p) - 1]) then - 1 else 0)"

definition wear_byte ::
  "WordParams \<Rightarrow> ('d \<Rightarrow> u64 \<times> 'd) \<Rightarrow> u64 \<Rightarrow> u64 \<Rightarrow> NVMDataBlock \<Rightarrow> NVMDataBlock \<Rightarrow> int
     \<Rightarrow> 'd EnduranceModel \<times> int \<Rightarrow> nvm_error + 'd EnduranceModel \<times> int" where
  "wear_byte p draw row col newData oldData i = (\<lambda>(m, rv).
     bind_res (GetByte oldData (of_int i)) (\<lambda>oldByte.
     bind_res (GetByte newData (of_int i)) (\<lambda>newByte.
     if oldByte = newByte then Inr (m, rv)
     else let (m', ok) = DecrementLife draw m (byte_key p (row, col, i)) in Inr (m', if ok then rv else - 1))))"

definition ByteModel_Write ::
  "WordParams \<Rightarrow> ('d \<Rightarrow> u64 \<times> 'd) \<Rightarrow> 'd EnduranceModel \<Rightarrow> u64 \<Rightarrow> u64 \<Rightarrow> NVMDataBlock \<Rightarrow> NVMDataBlock
     \<Rightarrow> nvm_error + 'd EnduranceModel \<times> int" where
  "ByteModel_Write p draw m row col newData oldData =
     fold_res (wear_byte p draw row col newData oldData) (rev [0..to_int32 (wordSize p) - 1]) (m, 0)"

definition bit_key :: "WordParams \<Rightarrow> u64 \<times> u64 \<times> nat \<times> nat \<Rightarrow> u64" where
  "bit_key p = (\<lambda>(row, col, i, j).
     row * (rowSize p * 8) + col * wordSize p * 8 + of_nat i * 8 + of_nat j)"

definition BitModel_Read :: "WordParams \<Rightarrow> 'd EnduranceModel \<Rightarrow> u64 \<Rightarrow> u64 \<Rightarrow> int" where
  "BitModel_Read p m row col =
     (if list_ex (\<lambda>i. list_ex (\<lambda>j. IsDead m (bit_key p (row, col, i, j))) [0..<8]) [0..<unat (wordSize p)]
      then - 1 else 0)"

definition wear_bit ::
  "WordParams \<Rightarrow> ('d \<Rightarrow> u64 \<times> 'd) \<Rightarrow> u64 \<Rightarrow> u64 \<Rightarrow> u8 \<Rightarrow> u8 \<Rightarrow> nat \<Rightarrow> nat
     \<Rightarrow> 'd EnduranceModel \<times> int \<Rightarrow> 'd EnduranceModel \<times> int" where
  "wear_bit p draw row col oldByte newByte i j = (\<lambda>(m, rv).
     if drop_bit j oldByte AND 1 = drop_bit j newByte AND 1 then (m, rv)
     else let (m', ok) = DecrementLife draw m (bit_key p (row, col, i, j)) in (m', if ok then rv else - 1))"

definition wear_bits ::
  "WordParams \<Rightarrow> ('d \<Rightarrow> u64 \<times> 'd) \<Rightarrow> u64 \<Rightarrow> u64 \<Rightarrow> NVMDataBlock \<Rightarrow> NVMDataBlock \<Rightarrow> nat
     \<Rightarrow> 'd EnduranceModel \<times> int \<Rightarrow> nvm_error + 'd EnduranceModel \<times> int" where
  "wear_bits p draw row col newData oldData i s =
     bind_res (GetByte oldData (of_nat i)) (\<lambda>oldByte.
     bind_res (GetByte newData (of_nat i)) (\<lambda>newByte.
     if oldByte = newByte then Inr s
     else Inr (fold (wear_bit p draw row col oldByte newByte i) [0..<8] s)))"

definition BitModel_Write ::
  "WordParams \<Rightarrow> ('d \<Rightarrow> u64 \<times> 'd) \<Rightarrow> 'd EnduranceModel \<Rightarrow> u64 \<Rightarrow> u64 \<Rightarrow> NVMDataBlock \<Rightarrow> NVMDataBlock
     \<Rightarrow> nvm_error + 'd EnduranceModel \<times> int" where
  "BitModel_Write p draw m row col newData oldData =
     fold_res (wear_bits p draw row col newData oldData) [0..<unat (wordSize p)] (m, 0)"

section \<open>Wear of distinct locations\<close>

text \<open>
  What the comments of the models ask of a key: that different locations get different
  keys. Then writing one location leaves the life of every other one alone.
\<close>

definition life_of :: "'d EnduranceModel \<Rightarrow> u64 \<Rightarrow> u64 option" where
  "life_of m a = map_of (life m) a"

lemma life_of_DecrementLife_other: "a \<noteq> k \<Longrightarrow> life_of (fst (DecrementLife draw m k)) a = life_of m a"
  by (auto simp: life_of_def DecrementLife_def Let_def map_of_omap_upd split: option.splits prod.splits)

lemma life_of_DecrementLife_same:
  "life_of (fst (DecrementLife draw m k)) k =
     Some (case life_of m k of None \<Rightarrow> fst (draw (enduranceDist m)) | Some v \<Rightarrow> if v = 0 then 0 else v - 1)"
  by (auto simp: life_of_def DecrementLife_def Let_def map_of_omap_upd split: option.splits prod.splits)

lemma snd_DecrementLife: "snd (DecrementLife draw m k) \<longleftrightarrow> life_of m k \<noteq> Some 0"
  by (auto simp: life_of_def DecrementLife_def Let_def split: option.splits prod.splits)

fun wear_all :: "('d \<Rightarrow> u64 \<times> 'd) \<Rightarrow> u64 list \<Rightarrow> 'd EnduranceModel \<Rightarrow> 'd EnduranceModel" where
  "wear_all draw [] m = m"
| "wear_all draw (k # ks) m = wear_all draw ks (fst (DecrementLife draw m k))"

lemma wear_all_append: "wear_all draw (ks @ ks') m = wear_all draw ks' (wear_all draw ks m)"
  by (induction ks arbitrary: m) simp_all

lemma life_of_wear_other: "a \<notin> set ks \<Longrightarrow> life_of (wear_all draw ks m) a = life_of m a"
  by (induction ks arbitrary: m) (auto simp: life_of_DecrementLife_other)

lemma life_of_wear_once:
  assumes "distinct ks" "a \<in> set ks" "life_of m a = Some v"
  shows "life_of (wear_all draw ks m) a = Some (if v = 0 then 0 else v - 1)"
  using assms
proof (induction ks arbitrary: m)
  case (Cons k ks)
  show ?case
  proof (cases "a = k")
    case True
    then show ?thesis using Cons.prems by (simp add: life_of_wear_other life_of_DecrementLife_same)
  next
    case False
    then show ?thesis using Cons by (simp add: life_of_DecrementLife_other)
  qed
qed simp

lemma life_of_wear_known: "life_of m a \<noteq> None \<or> a \<in> set ks \<Longrightarrow> life_of (wear_all draw ks m) a \<noteq> None"
proof (induction ks arbitrary: m)
  case (Cons k ks)
  have "life_of (fst (DecrementLife draw m k)) a \<noteq> None" if "life_of m a \<noteq> None \<or> a = k"
    using that by (cases "a = k") (auto simp: life_of_DecrementLife_same life_of_DecrementLife_other)
  then show ?case using Cons.IH [of "fst (DecrementLife draw m k)"] Cons.prems by auto
qed simp

locale wear_keys =
  fixes key :: "'l \<Rightarrow> u64" and loc_ok :: "'l \<Rightarrow> bool"
  assumes key_inj: "loc_ok l \<Longrightarrow> loc_ok l' \<Longrightarrow> key l = key l' \<Longrightarrow> l = l'"
begin

lemma wear_other:
  "loc_ok l \<Longrightarrow> \<forall>x \<in> set ls. loc_ok x \<Longrightarrow> l \<notin> set ls \<Longrightarrow>
     life_of (wear_all draw (map key ls) m) (key l) = life_of m (key l)"
  by (rule life_of_wear_other) (use key_inj in auto)

lemma wear_once:
  assumes "distinct ls" "\<forall>x \<in> set ls. loc_ok x" "l \<in> set ls" "life_of m (key l) = Some v"
  shows "life_of (wear_all draw (map key ls) m) (key l) = Some (if v = 0 then 0 else v - 1)"
proof (rule life_of_wear_once [OF _ _ assms(4)])
  have "inj_on key (set ls)" using assms(2) key_inj by (auto intro: inj_onI)
  then show "distinct (map key ls)" using assms(1) by (simp add: distinct_map)
  show "key l \<in> set (map key ls)" using assms(3) by simp
qed

end

fun wears_ok :: "('d \<Rightarrow> u64 \<times> 'd) \<Rightarrow> u64 list \<Rightarrow> 'd EnduranceModel \<Rightarrow> bool" where
  "wears_ok draw [] m \<longleftrightarrow> True"
| "wears_ok draw (k # ks) m \<longleftrightarrow>
     snd (DecrementLife draw m k) \<and> wears_ok draw ks (fst (DecrementLife draw m k))"

lemma wears_ok_append: "wears_ok draw (ks @ ks') m \<longleftrightarrow> wears_ok draw ks m \<and> wears_ok draw ks' (wear_all draw ks m)"
  by (induction ks arbitrary: m) simp_all

lemma wears_ok_distinct: "distinct ks \<Longrightarrow> wears_ok draw ks m \<longleftrightarrow> (\<forall>k \<in> set ks. \<not> IsDead m k)"
proof (induction ks arbitrary: m)
  case (Cons k ks)
  have "IsDead (fst (DecrementLife draw m k)) x = IsDead m x" if "x \<in> set ks" for x
  proof -
    have "x \<noteq> k" using that Cons.prems by auto
    from life_of_DecrementLife_other [OF this, of draw m] show ?thesis by (simp add: IsDead_def life_of_def)
  qed
  then show ?case using Cons by (auto simp: snd_DecrementLife IsDead_def life_of_def)
qed simp

section \<open>Keys\<close>

lemma mixed_radix_inj:
  assumes "a * n + b = a' * n + (b' :: nat)" "b < n" "b' < n"
  shows "a = a' \<and> b = b'"
proof -
  have "a = (a * n + b) div n" "a' = (a' * n + b') div n" using assms(2,3) by simp_all
  then have "a = a'" using assms(1) by simp
  then show ?thesis using assms(1) by simp
qed

text \<open>Locations of a row of words whose bits are numbered within 64 bits.\<close>

definition bit_ok :: "WordParams \<Rightarrow> u64 \<times> u64 \<times> nat \<times> nat \<Rightarrow> bool" where
  "bit_ok p = (\<lambda>(row, col, i, j). unat col < unat (wp_COLS p) \<and> i < unat (wordSize p) \<and> j < 8
     \<and> (unat row + 1) * (unat (wp_COLS p) * unat (wordSize p) * 8) \<le> 2 ^ 64)"

definition bit_number :: "WordParams \<Rightarrow> u64 \<times> u64 \<times> nat \<times> nat \<Rightarrow> nat" where
  "bit_number p = (\<lambda>(row, col, i, j).
     ((unat row * unat (wp_COLS p) + unat col) * unat (wordSize p) + i) * 8 + j)"

lemma bit_number_less:
  assumes "bit_ok p (row, col, i, j)"
  shows "bit_number p (row, col, i, j) < 2 ^ 64"
proof -
  let ?C = "unat (wp_COLS p)" and ?W = "unat (wordSize p)"
  have a: "unat col + 1 \<le> ?C" "i + 1 \<le> ?W" "j < 8" "(unat row + 1) * (?C * ?W * 8) \<le> 2 ^ 64"
    using assms by (simp_all add: bit_ok_def)
  have "unat row * ?C + unat col + 1 \<le> (unat row + 1) * ?C" using a(1) by (simp add: algebra_simps)
  then have "(unat row * ?C + unat col + 1) * ?W \<le> (unat row + 1) * ?C * ?W" by (rule mult_le_mono1)
  then have "(unat row * ?C + unat col) * ?W + i + 1 \<le> (unat row + 1) * ?C * ?W"
    using a(2) by (simp add: algebra_simps)
  then have "((unat row * ?C + unat col) * ?W + i + 1) * 8 \<le> (unat row + 1) * ?C * ?W * 8" by (rule mult_le_mono1)
  then show ?thesis using a(3,4) by (simp add: bit_number_def algebra_simps)
qed

lemma bit_key_number: "bit_ok p l \<Longrightarrow> unat (bit_key p l) = bit_number p l"
proof -
  assume ok: "bit_ok p l"
  obtain row col i j where l: "l = (row, col, i, j)" by (cases l)
  have "bit_key p l = of_nat (bit_number p l)"
    by (simp add: l bit_key_def bit_number_def rowSize_def algebra_simps)
  then show ?thesis using bit_number_less ok unat_of_nat_small l by metis
qed

interpretation bit_keys: wear_keys "bit_key p" "bit_ok p" for p
proof
  fix l l' assume ok: "bit_ok p l" "bit_ok p l'" and eq: "bit_key p l = bit_key p l'"
  obtain row col i j where l: "l = (row, col, i, j)" by (cases l)
  obtain row' col' i' j' where l': "l' = (row', col', i', j')" by (cases l')
  have b: "j < 8" "j' < 8" "i < unat (wordSize p)" "i' < unat (wordSize p)"
    "unat col < unat (wp_COLS p)" "unat col' < unat (wp_COLS p)"
    using ok by (simp_all add: bit_ok_def l l')
  have "bit_number p l = bit_number p l'" using eq bit_key_number ok by metis
  note n = this [unfolded bit_number_def l l' prod.case]
  note n1 = mixed_radix_inj [OF n b(1,2)]
  note n2 = mixed_radix_inj [OF n1 [THEN conjunct1] b(3,4)]
  note n3 = mixed_radix_inj [OF n2 [THEN conjunct1] b(5,6)]
  show "l = l'" using n1 n2 n3 by (simp add: l l' u64_eq_iff_unat)
qed

definition word_ok :: "WordParams \<Rightarrow> u64 \<times> u64 \<Rightarrow> bool" where
  "word_ok p = (\<lambda>(row, col). wordSize p \<noteq> 0 \<and> unat col < unat (wp_COLS p)
     \<and> unat (wp_COLS p) * unat (wordSize p) < 2 ^ 64 \<and> (unat row + 1) * unat (wp_COLS p) \<le> 2 ^ 64)"

lemma word_key_number:
  assumes "word_ok p (row, col)"
  shows "unat (word_key p (row, col)) = unat row * unat (wp_COLS p) + unat col"
proof -
  let ?C = "unat (wp_COLS p)"
  have a: "0 < unat (wordSize p)" "unat col < ?C" "?C * unat (wordSize p) < 2 ^ 64" "(unat row + 1) * ?C \<le> 2 ^ 64"
    using assms by (simp_all add: word_ok_def unat_gt_0)
  have "unat (rowSize p) = ?C * unat (wordSize p)" using a(3) by (simp add: rowSize_def unat_word_ariths)
  then have "unat (rowSize p div wordSize p) = ?C" using a(1) by (simp add: unat_div)
  then have "rowSize p div wordSize p = wp_COLS p" by (simp add: u64_eq_iff_unat)
  moreover have "unat row * ?C + unat col < 2 ^ 64" using a(2,4) by (simp add: algebra_simps)
  ultimately show ?thesis
    unfolding word_key_def prod.case by (simp add: unat_word_ariths)
qed

interpretation word_keys: wear_keys "word_key p" "word_ok p" for p
proof
  fix l l' assume ok: "word_ok p l" "word_ok p l'" and eq: "word_key p l = word_key p l'"
  obtain row col row' col' where l: "l = (row, col)" "l' = (row', col')" by (cases l, cases l')
  have "unat col < unat (wp_COLS p)" "unat col' < unat (wp_COLS p)" using ok by (simp_all add: word_ok_def l)
  moreover have "unat row * unat (wp_COLS p) + unat col = unat row' * unat (wp_COLS p) + unat col'"
    using word_key_number [of p row col] word_key_number [of p row' col'] ok eq l by simp
  ultimately have "unat row = unat row' \<and> unat col = unat col'" by (metis mixed_radix_inj)
  then show "l = l'" by (simp add: l u64_eq_iff_unat)
qed

section \<open>Properties\<close>

fun DecrementLife_times :: "('d \<Rightarrow> u64 \<times> 'd) \<Rightarrow> nat \<Rightarrow> 'd EnduranceModel \<Rightarrow> u64 \<Rightarrow> 'd EnduranceModel" where
  "DecrementLife_times draw 0 m addr = m"
| "DecrementLife_times draw (Suc n) m addr = fst (DecrementLife draw (DecrementLife_times draw n m addr) addr)"

lemma life_times:
  assumes "life_of m addr = None" "draw (enduranceDist m) = (E, d)"
  shows "life_of (DecrementLife_times draw (Suc n) m addr) addr = Some (of_nat (unat E - n))"
proof (induction n)
  case 0
  then show ?case using assms by (simp add: life_of_DecrementLife_same)
next
  case (Suc n)
  have le: "unat E - n < 2 ^ 64" using unat_less_u64 [of E] by (rule less_imp_diff_less)
  then have z: "(of_nat (unat E - n) :: u64) = 0 \<longleftrightarrow> unat E - n = 0"
    by (rule of_nat_u64_eq_0)
  have "(of_nat (unat E - n) :: u64) - 1 = of_nat (unat E - Suc n)" if "unat E - n \<noteq> 0"
  proof -
    have "unat E - n = Suc (unat E - Suc n)" using that by simp
    then show ?thesis by (metis add_diff_cancel_right' of_nat_Suc add.commute)
  qed
  then show ?case
    unfolding DecrementLife_times.simps(2) [of draw "Suc n"] life_of_DecrementLife_same Suc.IH
    using z by (cases "unat E - n = 0") auto
qed

text \<open>
  A location that gets endurance \<open>E\<close> takes \<open>E + 1\<close> writes, the first of them free: write
  number \<open>n + 1\<close> succeeds exactly when \<open>n \<le> E\<close>, and leaves a life of \<open>E - n\<close>, never below 0.
  The location is dead from write \<open>E + 1\<close> on.
\<close>

theorem endurance_lifetime:
  assumes "life_of m addr = None" "draw (enduranceDist m) = (E, d)"
  shows "life_of (DecrementLife_times draw (Suc n) m addr) addr = Some (of_nat (unat E - n))
    \<and> (snd (DecrementLife draw (DecrementLife_times draw n m addr) addr) \<longleftrightarrow> n \<le> unat E)
    \<and> (IsDead (DecrementLife_times draw (Suc n) m addr) addr \<longleftrightarrow> unat E \<le> n)"
proof -
  have zero: "(of_nat (unat E - k) :: u64) = 0 \<longleftrightarrow> unat E \<le> k" for k
  proof -
    have "unat E - k < 2 ^ 64" using unat_less_u64 [of E] by (rule less_imp_diff_less)
    from of_nat_u64_eq_0 [OF this] show ?thesis by simp
  qed
  note life = life_times [of m addr draw E d, OF assms]
  have "snd (DecrementLife draw (DecrementLife_times draw n m addr) addr) \<longleftrightarrow> n \<le> unat E"
  proof (cases n)
    case 0
    then show ?thesis using assms(1) by (simp add: snd_DecrementLife)
  next
    case (Suc k)
    then show ?thesis
      using life [of k] zero [of k] by (simp add: snd_DecrementLife del: DecrementLife_times.simps) arith
  qed
  moreover have "IsDead (DecrementLife_times draw (Suc n) m addr) addr \<longleftrightarrow> unat E \<le> n"
    using life [of n] zero [of n] by (simp add: IsDead_def life_of_def del: DecrementLife_times.simps)
  ultimately show ?thesis using life by simp
qed

theorem endurance_lifetime_witness:
  "\<not> snd (DecrementLife Uniform_GetEndurance
      (DecrementLife_times Uniform_GetEndurance 4 (EnduranceModel_init 2) 7) 7)
   \<and> IsDead (DecrementLife_times Uniform_GetEndurance (Suc 2) (EnduranceModel_init 2) 7) 7"
proof -
  let ?m = "EnduranceModel_init (2 :: u64)"
  have a: "life_of ?m 7 = None" and d: "Uniform_GetEndurance (enduranceDist ?m) = (2, 2)"
    by (simp_all add: life_of_def EnduranceModel_init_def Uniform_GetEndurance_def)
  from endurance_lifetime [of ?m 7 Uniform_GetEndurance 2 2 4, OF a d]
    endurance_lifetime [of ?m 7 Uniform_GetEndurance 2 2 2, OF a d] show ?thesis by simp
qed

lemma fold_min:
  "fold (\<lambda>(_, v) (min :: u64). if v < min then v else min) kvs a = Min (insert a (snd ` set kvs))"
proof (induction kvs arbitrary: a)
  case (Cons kv kvs)
  obtain k v where kv: "kv = (k, v)" by (cases kv)
  have "(if v < a then v else a) = min v a" by (auto simp: min_def)
  then have "fold (\<lambda>(_, v) (min :: u64). if v < min then v else min) (kv # kvs) a =
      Min (insert (min v a) (snd ` set kvs))"
    using Cons by (simp add: kv)
  also have "\<dots> = Min (insert a (insert v (snd ` set kvs)))"
    by (cases "snd ` set kvs = {}") (simp_all add: min.commute min.left_commute min.assoc)
  finally show ?case by (simp add: kv insert_commute)
qed simp

text \<open>
  \<open>GetWorstLife\<close> is the least life of the map: no location has less, and when any was
  written some location has exactly that.
\<close>

theorem GetWorstLife_least:
  "(\<forall>v \<in> snd ` set (life m). GetWorstLife m \<le> v)
   \<and> (life m = [] \<and> GetWorstLife m = max_u64 \<or> life m \<noteq> [] \<and> GetWorstLife m \<in> snd ` set (life m))"
proof -
  have w: "GetWorstLife m = Min (insert max_u64 (snd ` set (life m)))"
    unfolding GetWorstLife_def by (rule fold_min)
  have "GetWorstLife m \<in> snd ` set (life m)" if "life m \<noteq> []"
  proof -
    have "Min (insert max_u64 (snd ` set (life m))) = Min (snd ` set (life m))"
      using that by (subst Min_insert) (auto simp: min_def)
    then show ?thesis using w Min_in [of "snd ` set (life m)"] that by simp
  qed
  moreover have "\<forall>v \<in> snd ` set (life m). GetWorstLife m \<le> v" unfolding w by simp
  moreover have "GetWorstLife m = max_u64" if "life m = []" using that w by simp
  ultimately show ?thesis by blast
qed

theorem GetWorstLife_least_witness:
  "GetWorstLife \<lparr> life = [(1, 5), (2, 3)], enduranceDist = (), granularity = 0 \<rparr> \<le> 3
   \<and> GetWorstLife \<lparr> life = [(1, 5), (2, 3)], enduranceDist = (), granularity = 0 \<rparr> \<in> {5, 3}"
  using GetWorstLife_least [of "\<lparr> life = [(1, 5), (2, 3)], enduranceDist = (), granularity = 0 \<rparr>"] by simp

text \<open>The locations of the bits two blocks differ in, in the order of the loops.\<close>

definition changed_bits :: "u64 \<Rightarrow> u64 \<Rightarrow> u8 list \<Rightarrow> u8 list \<Rightarrow> nat \<Rightarrow> (u64 \<times> u64 \<times> nat \<times> nat) list" where
  "changed_bits row col old new n =
     concat (map (\<lambda>i. map (\<lambda>j. (row, col, i, j)) (filter (\<lambda>j. bit (old ! i) j \<noteq> bit (new ! i) j) [0..<8])) [0..<n])"

lemma set_changed_bits:
  "set (changed_bits row col old new n) = {(row, col, i, j) | i j. i < n \<and> j < 8 \<and> bit (old ! i) j \<noteq> bit (new ! i) j}"
  by (auto simp: changed_bits_def)

lemma distinct_changed_bits: "distinct (changed_bits row col old new n)"
  unfolding changed_bits_def
  by (induction n) (auto simp: distinct_map inj_on_def)

lemma fold_wear_bit:
  "fold (wear_bit p draw row col a b i) js (m, rv) =
     (let ks = map (\<lambda>j. bit_key p (row, col, i, j)) (filter (\<lambda>j. bit a j \<noteq> bit b j) js)
      in (wear_all draw ks m, if wears_ok draw ks m then rv else - 1))"
proof (induction js arbitrary: m rv)
  case (Cons j js)
  obtain m' ok where d: "DecrementLife draw m (bit_key p (row, col, i, j)) = (m', ok)" by fastforce
  show ?case using Cons d by (auto simp: wear_bit_def bit_test Let_def)
qed simp

lemma BitModel_Write_eq:
  assumes "block_ok (unat (wordSize p)) old" "block_ok (unat (wordSize p)) new"
  shows "BitModel_Write p draw m row col new old =
    (let ks = map (bit_key p) (changed_bits row col (bytes old) (bytes new) (unat (wordSize p)))
     in Inr (wear_all draw ks m, if wears_ok draw ks m then 0 else - 1))"
proof -
  let ?ks = "\<lambda>n. map (bit_key p) (changed_bits row col (bytes old) (bytes new) n)"
  have "n \<le> unat (wordSize p) \<Longrightarrow> fold_res (wear_bits p draw row col new old) [0..<n] (m, 0) =
      Inr (wear_all draw (?ks n) m, if wears_ok draw (?ks n) m then 0 else - 1)" for n
  proof (induction n)
    case 0
    then show ?case by (simp add: changed_bits_def)
  next
    case (Suc n)
    have u: "unat (of_nat n :: u64) = n"
      using Suc.prems unat_less_u64 [of "wordSize p"] by (intro unat_of_nat_small) simp
    have get: "GetByte old (of_nat n) = Inr (bytes old ! n)" "GetByte new (of_nat n) = Inr (bytes new ! n)"
      using GetByte_ok [OF assms(1), of "of_nat n"] GetByte_ok [OF assms(2), of "of_nat n"] u Suc.prems by simp_all
    let ?js = "filter (\<lambda>j. bit (bytes old ! n) j \<noteq> bit (bytes new ! n) j) [0..<8]"
    have ks: "?ks (Suc n) = ?ks n @ map (\<lambda>j. bit_key p (row, col, n, j)) ?js"
      by (simp add: changed_bits_def)
    have "?js = []" if "bytes old ! n = bytes new ! n" using that by simp
    then have "wear_bits p draw row col new old n (m', rv) =
        Inr (let ks = map (\<lambda>j. bit_key p (row, col, n, j)) ?js in (wear_all draw ks m', if wears_ok draw ks m' then rv else - 1))" for m' rv
      using get by (simp add: wear_bits_def fold_wear_bit Let_def)
    then show ?case using Suc ks by (simp add: fold_res_append wears_ok_append wear_all_append Let_def)
  qed
  then show ?thesis by (simp add: BitModel_Write_def Let_def)
qed

text \<open>
  The bit model wears exactly the bits a write changes: the life of a changed bit goes
  down by one (not below 0), every other bit of the memory keeps its life, and the write
  reports an error exactly when a changed bit was dead before.
\<close>

theorem BitModel_Write_wears_changed:
  assumes "bit_ok p (row, col, 0, 0)"
    and "block_ok (unat (wordSize p)) old" "block_ok (unat (wordSize p)) new"
  shows "\<exists>m' rv. BitModel_Write p draw m row col new old = Inr (m', rv)
    \<and> (\<forall>l v. l \<in> set (changed_bits row col (bytes old) (bytes new) (unat (wordSize p)))
         \<and> life_of m (bit_key p l) = Some v \<longrightarrow> life_of m' (bit_key p l) = Some (if v = 0 then 0 else v - 1))
    \<and> (\<forall>l. bit_ok p l \<and> l \<notin> set (changed_bits row col (bytes old) (bytes new) (unat (wordSize p)))
         \<longrightarrow> life_of m' (bit_key p l) = life_of m (bit_key p l))
    \<and> (rv = - 1 \<longleftrightarrow> (\<exists>l \<in> set (changed_bits row col (bytes old) (bytes new) (unat (wordSize p))).
         IsDead m (bit_key p l)))"
proof -
  let ?ls = "changed_bits row col (bytes old) (bytes new) (unat (wordSize p))"
  let ?ks = "map (bit_key p) ?ls"
  have ok: "\<forall>l \<in> set ?ls. bit_ok p l" using assms(1) by (auto simp: set_changed_bits bit_ok_def)
  have "inj_on (bit_key p) (set ?ls)" by (rule inj_onI) (use ok bit_keys.key_inj in blast)
  then have d: "distinct ?ks" using distinct_changed_bits by (simp only: distinct_map simp_thms)
  let ?m = "wear_all draw ?ks m" and ?rv = "if wears_ok draw ?ks m then 0 else - 1 :: int"
  have "BitModel_Write p draw m row col new old = Inr (?m, ?rv)"
    by (rule BitModel_Write_eq [OF assms(2,3), unfolded Let_def])
  moreover have "life_of ?m (bit_key p l) = Some (if v = 0 then 0 else v - 1)"
    if "l \<in> set ?ls \<and> life_of m (bit_key p l) = Some v" for l v
    using bit_keys.wear_once [OF distinct_changed_bits ok] that by blast
  moreover have "life_of ?m (bit_key p l) = life_of m (bit_key p l)" if "bit_ok p l \<and> l \<notin> set ?ls" for l
    using bit_keys.wear_other [OF _ ok] that by blast
  moreover have "?rv = - 1 \<longleftrightarrow> (\<exists>l \<in> set ?ls. IsDead m (bit_key p l))"
    using wears_ok_distinct [OF d, of draw m] by auto
  ultimately show ?thesis by blast
qed

definition sample_params :: WordParams where
  "sample_params = \<lparr> wp_BusWidth = 64, wp_tBURST = 4, wp_RATE = 2, wp_COLS = 1024 \<rparr>"

lemma sample_params_size: "wordSize sample_params = 64" "rowSize sample_params = 65536"
  by (simp_all add: sample_params_def wordSize_def rowSize_def)

theorem BitModel_Write_wears_changed_witness:
  "\<exists>m' rv. BitModel_Write sample_params Uniform_GetEndurance (EnduranceModel_init 2) 3 5 (zero_block 64) (zero_block 64)
     = Inr (m', rv)"
proof -
  have "bit_ok sample_params (3, 5, 0, 0)" by (simp add: bit_ok_def sample_params_size, simp add: sample_params_def)
  then show ?thesis
    using BitModel_Write_wears_changed [of sample_params 3 5 "zero_block 64" "zero_block 64" Uniform_GetEndurance
        "EnduranceModel_init 2"] zero_block_ok [of 64] by (auto simp: sample_params_size)
qed

text \<open>
  The keys of the byte model collide: a row is given an eighth of the keys its bytes need,
  so the byte of column \<open>col + COLS / 8\<close> of one row shares its life with the byte of column
  \<open>col\<close> of the next row, for every row, column and byte.
\<close>

theorem ByteModel_keys_collide:
  assumes "unat (wp_COLS p) mod 8 = 0" "unat (wp_COLS p) * unat (wordSize p) < 2 ^ 64"
  shows "byte_key p (row, col + wp_COLS p div 8, i) = byte_key p (row + 1, col, i)"
proof -
  let ?C = "unat (wp_COLS p)" and ?W = "unat (wordSize p)"
  have "unat (rowSize p div 8) = ?C * ?W div 8"
    using assms(2) by (simp add: rowSize_def unat_div unat_word_ariths)
  also have "\<dots> = ?C div 8 * ?W" using assms(1) by auto
  also have "\<dots> = unat ((wp_COLS p div 8) * wordSize p)"
  proof -
    have "?C div 8 * ?W \<le> ?C * ?W" by (intro mult_le_mono1) simp
    then have "?C div 8 * ?W < 2 ^ 64" using assms(2) by (rule le_less_trans)
    moreover have "unat (wp_COLS p div 8) = ?C div 8" by (simp add: unat_div)
    ultimately show ?thesis unfolding unat_word_ariths(2) by simp
  qed
  finally have "rowSize p div 8 = (wp_COLS p div 8) * wordSize p" by (simp only: u64_eq_iff_unat)
  then show ?thesis by (simp add: byte_key_def algebra_simps)
qed

theorem ByteModel_keys_collide_witness:
  "byte_key sample_params (3, 133, 0) = byte_key sample_params (4, 5, 0)"
proof -
  have "wp_COLS sample_params div 8 = 128" by (simp add: sample_params_def)
  then show ?thesis
    using ByteModel_keys_collide [of sample_params 3 5 0] sample_params_size(1) by (simp add: sample_params_def)
qed

end
