(* ===== verification/Nvm_BitCount.thy ===== *)
theory Nvm_BitCount
  imports Nvm_Request
begin

text \<open>
  The bit counts of \<^verbatim>\<open>src/SubArray.cpp\<close>, with which it finds how many cells of a multi-level
  memory have to be programmed to each value: the parallel sums of \<^verbatim>\<open>Count32MLC1\<close>, the pair
  counts \<^verbatim>\<open>Count32MLC2\<close> built on them, and the loops over an array of words. The lemmas show that
  they count what they mean to, by reading a word as lanes of two, four and eight bits.
\<close>

type_synonym u32 = "32 word"

section \<open>Counting bits\<close>

definition Count32MLC1 :: "u32 \<Rightarrow> u64" where
  "Count32MLC1 data =
     (let count = data;
          count = count - (drop_bit 1 count AND 0x55555555);
          count = (count AND 0x33333333) + (drop_bit 2 count AND 0x33333333);
          count = drop_bit 24 (((count + drop_bit 4 count) AND 0x0f0f0f0f) * 0x01010101)
      in ucast count)"

definition Count32MLC2 :: "u8 \<Rightarrow> u32 \<Rightarrow> nvm_error + u64" where
  "Count32MLC2 value data =
     (let data = (if value = 0 then data XOR 0xFFFFFFFF else if value = 1 then data XOR 0xAAAAAAAA
                  else if value = 2 then data XOR 0x55555555 else data)
      in bind_res (assert_res (value < 4)) (\<lambda>_.
         Inr (Count32MLC1 ((data AND 0x55555555) AND drop_bit 1 (data AND 0xAAAAAAAA)))))"

text \<open>The arrays of words: \<open>data[i]\<close> for \<open>i\<close> below \<open>words\<close>.\<close>

definition CountBitsMLC2 :: "u8 \<Rightarrow> u32 list \<Rightarrow> nat \<Rightarrow> nvm_error + u64" where
  "CountBitsMLC2 value data words =
     fold_res (\<lambda>i count. if i < length data
         then bind_res (Count32MLC2 value (data ! i)) (\<lambda>c. Inr (count + c)) else Inl OutOfBounds)
       [0..<words] 0"

definition CountBitsMLC1 :: "u8 \<Rightarrow> u32 list \<Rightarrow> nat \<Rightarrow> nvm_error + u64" where
  "CountBitsMLC1 value data words =
     bind_res (fold_res (\<lambda>i count. if i < length data
         then Inr (count + Count32MLC1 (data ! i)) else Inl OutOfBounds) [0..<words] 0) (\<lambda>count.
     Inr (if value = 1 then count else of_nat words * 32 - count))"

text \<open>\<^verbatim>\<open>reinterpret_cast<uint32_t*>\<close> of a byte array, on a little-endian machine.\<close>

fun words_of :: "u8 list \<Rightarrow> u32 list" where
  "words_of (a # b # c # d # xs) =
     (ucast a OR push_bit 8 (ucast b) OR push_bit 16 (ucast c) OR push_bit 24 (ucast d)) # words_of xs"
| "words_of _ = []"

section \<open>The bit counts are right\<close>

text \<open>A number as \<open>k\<close> lanes of \<open>w\<close> bits.\<close>

fun lanes :: "nat \<Rightarrow> nat \<Rightarrow> (nat \<Rightarrow> nat) \<Rightarrow> nat" where
  "lanes w 0 d = 0"
| "lanes w (Suc k) d = d 0 + 2 ^ w * lanes w k (\<lambda>i. d (Suc i))"

lemma lanes_numeral: "lanes w (numeral n) d = d 0 + 2 ^ w * lanes w (pred_numeral n) (\<lambda>i. d (Suc i))"
  by (simp add: numeral_eq_Suc)

lemma bit_lane:
  assumes "a < 2 ^ w"
  shows "bit (a + 2 ^ w * x :: nat) n \<longleftrightarrow> (if n < w then bit a n else bit x (n - w))"
proof (cases "n < w")
  case True
  then have "2 ^ w * x = 2 ^ (w - n) * x * 2 ^ n" by (simp add: power_add [symmetric])
  then have "(a + 2 ^ w * x) div 2 ^ n = a div 2 ^ n + 2 ^ (w - n) * x" by (simp only:) simp
  then show ?thesis using True by (simp add: bit_iff_odd)
next
  case False
  then have e: "(2 :: nat) ^ n = 2 ^ w * 2 ^ (n - w)" by (simp add: power_add [symmetric])
  have "(a + 2 ^ w * x) div 2 ^ n = (a + 2 ^ w * x) div 2 ^ w div 2 ^ (n - w)" by (simp only: e div_mult2_eq)
  then show ?thesis using False assms by (simp add: bit_iff_odd)
qed

lemma and_lane:
  assumes "a < 2 ^ w" "b < 2 ^ w"
  shows "(a + 2 ^ w * x) AND (b + 2 ^ w * y) = (a AND b) + 2 ^ w * (x AND y :: nat)"
proof -
  have "take_bit w (a AND b) = a AND b" using assms by (simp add: take_bit_and take_bit_nat_eq_self)
  then have "a AND b < 2 ^ w" using take_bit_nat_less_exp [of w "a AND b"] by simp
  then have "bit ((a + 2 ^ w * x) AND (b + 2 ^ w * y)) n = bit ((a AND b) + 2 ^ w * (x AND y)) n" for n
    by (simp only: bit_and_iff bit_lane [OF assms(1)] bit_lane [OF assms(2)] bit_lane split: if_split) simp
  then show ?thesis by (simp add: bit_eq_iff)
qed

lemma lanes_cong: "(\<And>i. i < k \<Longrightarrow> d i = e i) \<Longrightarrow> lanes w k d = lanes w k e"
proof (induction k arbitrary: d e)
  case (Suc k)
  have "lanes w k (\<lambda>i. d (Suc i)) = lanes w k (\<lambda>i. e (Suc i))" by (intro Suc.IH Suc.prems) simp
  then show ?case using Suc.prems [of 0] by simp
qed simp

lemma lanes_and:
  assumes "\<And>i. i < k \<Longrightarrow> d i < 2 ^ w" "\<And>i. i < k \<Longrightarrow> e i < 2 ^ w"
  shows "lanes w k d AND lanes w k e = lanes w k (\<lambda>i. d i AND e i)"
  using assms
proof (induction k arbitrary: d e)
  case (Suc k)
  have "lanes w k (\<lambda>i. d (Suc i)) AND lanes w k (\<lambda>i. e (Suc i)) = lanes w k (\<lambda>i. d (Suc i) AND e (Suc i))"
    using Suc by simp
  then show ?case using Suc.prems(1) [of 0] Suc.prems(2) [of 0] by (simp add: and_lane)
qed simp

lemma lanes_add: "lanes w k d + lanes w k e = lanes w k (\<lambda>i. d i + e i)"
  by (induction k arbitrary: d e) (auto simp flip: distrib_left)

lemma lanes_shift: "d 0 < 2 ^ w \<Longrightarrow> d k = 0 \<Longrightarrow> lanes w k d div 2 ^ w = lanes w k (\<lambda>i. d (Suc i))"
proof (induction k arbitrary: d)
  case (Suc k)
  have "lanes w k (\<lambda>i. d (Suc i)) = lanes w (Suc k) (\<lambda>i. d (Suc i))"
    using Suc.prems(2)
  proof (induction k arbitrary: d)
    case (Suc k)
    then show ?case using Suc.IH [of "\<lambda>i. d (Suc i)"] by simp
  qed simp
  then show ?case using Suc.prems(1) by simp
qed simp

lemma lanes_pair: "lanes w (2 * k) d = lanes (2 * w) k (\<lambda>i. d (2 * i) + 2 ^ w * d (Suc (2 * i)))"
proof (induction k arbitrary: d)
  case (Suc k)
  have "lanes w (2 * k) (\<lambda>i. d (Suc (Suc i))) = lanes (2 * w) k (\<lambda>i. d (2 * Suc i) + 2 ^ w * d (Suc (2 * Suc i)))"
    using Suc.IH [of "\<lambda>i. d (Suc (Suc i))"] by simp
  then show ?case by (simp add: algebra_simps power_add [symmetric] mult_2)
qed simp

lemma lanes_less: "(\<And>i. i < k \<Longrightarrow> d i < 2 ^ w) \<Longrightarrow> lanes w k d < 2 ^ (w * k)"
proof (induction k arbitrary: d)
  case (Suc k)
  have "lanes w k (\<lambda>i. d (Suc i)) < 2 ^ (w * k)" using Suc by simp
  then have "Suc (lanes w k (\<lambda>i. d (Suc i))) * 2 ^ w \<le> 2 ^ (w * k) * 2 ^ w" by (intro mult_le_mono1) simp
  then show ?case using Suc.prems [of 0] by (simp add: power_add algebra_simps)
qed simp

text \<open>Keeping the low half of every pair of lanes, and adding the halves.\<close>

lemma lanes_mask:
  assumes "\<And>i. d i < 2 ^ w"
  shows "lanes w (2 * k) d AND lanes (2 * w) k (\<lambda>_. 2 ^ w - 1) = lanes (2 * w) k (\<lambda>i. d (2 * i))"
proof -
  have "d (2 * i) + 2 ^ w * d (Suc (2 * i)) < 2 ^ (2 * w)" for i
  proof -
    have "Suc (d (Suc (2 * i))) * 2 ^ w \<le> 2 ^ w * 2 ^ w" using assms [of "Suc (2 * i)"] by (intro mult_le_mono1) simp
    moreover have "(2 :: nat) ^ (2 * w) = 2 ^ w * 2 ^ w" by (simp add: mult_2 power_add)
    ultimately show ?thesis using assms [of "2 * i"] by (simp only: mult_Suc) (simp add: mult.commute)
  qed
  moreover have "(2 :: nat) ^ w - 1 < 2 ^ (2 * w)"
    by (rule less_le_trans [of _ "2 ^ w"]) simp_all
  moreover have "(d (2 * i) + 2 ^ w * d (Suc (2 * i))) AND (2 ^ w - 1) = d (2 * i)" for i
  proof -
    have "(d (2 * i) + 2 ^ w * d (Suc (2 * i))) AND (2 ^ w - 1) = take_bit w (d (2 * i) + 2 ^ w * d (Suc (2 * i)))"
      by (simp only: take_bit_eq_mask mask_eq_exp_minus_1)
    then show ?thesis using assms [of "2 * i"] by (simp add: take_bit_eq_mod)
  qed
  ultimately show ?thesis by (simp add: lanes_pair lanes_and)
qed

lemma lanes_bits: "lanes 1 k (\<lambda>i. of_bool (bit n i)) = take_bit k n"
proof (induction k arbitrary: n)
  case (Suc k)
  then show ?case using Suc.IH [of "n div 2"] by (simp add: take_bit_Suc bit_Suc bit_0 mod2_eq_if)
qed simp

definition popcount :: "u32 \<Rightarrow> nat" where
  "popcount x = card {i. i < 32 \<and> bit x i}"

lemma popcount_sum: "popcount x = (\<Sum>i < 32. of_bool (bit x i))"
proof -
  have "{i. i < 32 \<and> bit x i} = {..<32} \<inter> {i. bit x i}" by auto
  then show ?thesis by (simp add: popcount_def sum.If_cases of_bool_def)
qed

text \<open>The sums of neighbouring lanes.\<close>

definition pairs :: "(nat \<Rightarrow> nat) \<Rightarrow> nat \<Rightarrow> nat" where
  "pairs d i = d (2 * i) + d (Suc (2 * i))"

lemma pairs_eta: "pairs d = (\<lambda>i. d (2 * i) + d (Suc (2 * i)))"
  by (simp add: pairs_def fun_eq_iff)

lemma sum_pairs: "(\<Sum>i < k. pairs d i) = (\<Sum>i < 2 * k. d i)"
  by (induction k) (simp_all add: pairs_def)

lemma swar_step1:
  assumes "x = lanes 1 32 b" "\<And>i. b i \<le> 1" "b 32 = 0"
  shows "x - (x div 2 AND 0x55555555) = lanes 2 16 (pairs b)" "(x div 2 AND 0x55555555) \<le> x"
proof -
  have b: "b i < 2 ^ 1" for i using assms(2) [of i] by simp
  have m: "(0x55555555 :: nat) = lanes (2 * 1) 16 (\<lambda>_. 2 ^ 1 - 1)" by (simp add: lanes_numeral)
  have "x div 2 = lanes 1 (2 * 16) (\<lambda>i. b (Suc i))" using lanes_shift [of b 1 32] b assms(1,3) by simp
  then have s: "x div 2 AND 0x55555555 = lanes 2 16 (\<lambda>i. b (Suc (2 * i)))"
    using lanes_mask [of "\<lambda>i. b (Suc i)" 1 16] b by (simp only: m) simp
  have "x = lanes 2 16 (\<lambda>i. b (2 * i) + 2 * b (Suc (2 * i)))" using lanes_pair [of 1 16 b] assms(1) by simp
  also have "\<dots> = lanes 2 16 (pairs b) + lanes 2 16 (\<lambda>i. b (Suc (2 * i)))"
    by (simp only: lanes_add) (rule lanes_cong, simp add: pairs_def)
  finally show "x - (x div 2 AND 0x55555555) = lanes 2 16 (pairs b)" "(x div 2 AND 0x55555555) \<le> x"
    unfolding s by simp_all
qed

lemma swar_step2:
  assumes "x = lanes 2 16 p" "\<And>i. p i \<le> 2" "p 16 = 0"
  shows "(x AND 0x33333333) + (x div 4 AND 0x33333333) = lanes 4 8 (pairs p)"
proof -
  have p: "p i < 2 ^ 2" for i using assms(2) [of i] by simp
  have m: "(0x33333333 :: nat) = lanes (2 * 2) 8 (\<lambda>_. 2 ^ 2 - 1)" by (simp add: lanes_numeral)
  have "x div 4 = lanes 2 (2 * 8) (\<lambda>i. p (Suc i))" using lanes_shift [of p 2 16] p assms(1,3) by simp
  then have "x div 4 AND 0x33333333 = lanes 4 8 (\<lambda>i. p (Suc (2 * i)))"
    using lanes_mask [of "\<lambda>i. p (Suc i)" 2 8] p by (simp only: m) simp
  moreover have "x AND 0x33333333 = lanes 4 8 (\<lambda>i. p (2 * i))"
    using lanes_mask [of p 2 8] p assms(1) by (simp only: m) simp
  ultimately show ?thesis by (simp add: lanes_add pairs_eta)
qed

lemma swar_step3:
  assumes "x = lanes 4 8 q" "\<And>i. q i \<le> 4" "q 8 = 0"
  shows "(x + x div 16) AND 0x0f0f0f0f = lanes 8 4 (pairs q)" "x + x div 16 < 2 ^ 32"
proof -
  have q: "q i < 2 ^ 4" for i using assms(2) [of i] by simp
  have m: "(0x0f0f0f0f :: nat) = lanes (2 * 4) 4 (\<lambda>_. 2 ^ 4 - 1)" by (simp add: lanes_numeral)
  have "x div 16 = lanes 4 8 (\<lambda>i. q (Suc i))" using lanes_shift [of q 4 8] q assms(1,3) by simp
  then have s: "x + x div 16 = lanes 4 (2 * 4) (\<lambda>i. q i + q (Suc i))" using assms(1) by (simp add: lanes_add)
  have l: "q i + q (Suc i) < 2 ^ 4" for i using assms(2) [of i] assms(2) [of "Suc i"] by simp
  show "(x + x div 16) AND 0x0f0f0f0f = lanes 8 4 (pairs q)"
    using lanes_mask [of "\<lambda>i. q i + q (Suc i)" 4 4] l by (simp only: m s) (simp add: pairs_eta)
  show "x + x div 16 < 2 ^ 32" using lanes_less [of 8 "\<lambda>i. q i + q (Suc i)" 4] l unfolding s by simp
qed

lemma swar_step4:
  assumes "x = lanes 8 4 r" "\<And>i. r i \<le> 8"
  shows "x * 0x01010101 mod 2 ^ 32 div 2 ^ 24 = (\<Sum>i < 4. r i)"
proof -
  define a b c d where "a = r 0" and "b = r (Suc 0)" and "c = r (Suc (Suc 0))" and "d = r (Suc (Suc (Suc 0)))"
  have le: "a \<le> 8" "b \<le> 8" "c \<le> 8" "d \<le> 8" using assms(2) by (simp_all add: a_def b_def c_def d_def)
  have x: "x = a + 256 * (b + 256 * (c + 256 * d))"
    using assms(1) by (simp add: lanes_numeral a_def b_def c_def d_def)
  let ?A = "(a + 256 * (a + b) + 65536 * (a + b + c)) + (a + b + c + d) * 2 ^ 24"
  have "x * 0x01010101 = ?A + 2 ^ 32 * ((b + c + d) + 256 * (c + d) + 65536 * d)"
    unfolding x by (simp add: algebra_simps)
  moreover have "?A < 2 ^ 32" using le by simp
  ultimately have "x * 0x01010101 mod 2 ^ 32 = ?A" by (metis mod_mult_self2 mod_less)
  moreover have "a + 256 * (a + b) + 65536 * (a + b + c) < 2 ^ 24" using le by simp
  ultimately have "x * 0x01010101 mod 2 ^ 32 div 2 ^ 24 = a + b + c + d" by (simp only: div_mult_self3) simp
  moreover have "(\<Sum>i < 4. r i) = a + b + c + d"
    by (simp add: a_def b_def c_def d_def eval_nat_numeral)
  ultimately show ?thesis by simp
qed

lemma popcount_le: "popcount x \<le> 32"
  using card_mono [of "{..<32}" "{i. i < 32 \<and> bit x i}"] by (auto simp: popcount_def)

lemma Count32MLC1_unat: "unat (Count32MLC1 w) = popcount w"
proof -
  define b where "b = (\<lambda>i. of_bool (bit w i) :: nat)"
  have b: "b i \<le> 1" for i by (simp add: b_def)
  have b32: "b i = 0" if "32 \<le> i" for i using that by (auto simp: b_def dest: bit_imp_le_length)
  have w: "unat w = lanes 1 32 b"
    using lanes_bits [of 32 "unat w"] by (simp add: b_def bit_unsigned_iff take_bit_nat_eq_self unsigned_less [of w, simplified] possible_bit_def)
  define p where "p = pairs b" define q where "q = pairs p" define r where "r = pairs q"
  have p: "p i \<le> 2" "q i \<le> 4" "r i \<le> 8" for i
  proof -
    have p: "p i \<le> 2" for i using b [of "2 * i"] b [of "Suc (2 * i)"] by (simp add: p_def pairs_def)
    have q: "q i \<le> 4" for i using p [of "2 * i"] p [of "Suc (2 * i)"] by (simp add: q_def pairs_def)
    have "r i \<le> 8" for i using q [of "2 * i"] q [of "Suc (2 * i)"] by (simp add: r_def pairs_def)
    then show "p i \<le> 2" "q i \<le> 4" "r i \<le> 8" using p q by auto
  qed
  have zero: "p 16 = 0" "q 8 = 0" using b32 by (simp_all add: p_def q_def pairs_def)
  define c1 where "c1 = w - (drop_bit 1 w AND 0x55555555)"
  define c2 where "c2 = (c1 AND 0x33333333) + (drop_bit 2 c1 AND 0x33333333)"
  define c3 where "c3 = (c2 + drop_bit 4 c2) AND 0x0f0f0f0f"
  have u1: "unat (drop_bit 1 w AND 0x55555555) = (unat w div 2 AND 0x55555555)"
    by (simp add: unsigned_and_eq unat_drop_bit_eq drop_bit_Suc unat_div)
  then have "drop_bit 1 w AND 0x55555555 \<le> w" using swar_step1(2) [OF w b b32 [of 32]] by (simp only: word_le_nat_alt)
  then have c1: "unat c1 = lanes 2 16 p"
    using swar_step1(1) [OF w b b32 [of 32]] unfolding c1_def p_def by (simp only: unat_sub u1)
  have s2: "(unat c1 AND 0x33333333) + (unat c1 div 4 AND 0x33333333) = lanes 4 8 q"
    using swar_step2 [OF c1 p(1) zero(1)] by (simp add: q_def)
  have "q i < 2 ^ 4" for i using p(2) [of i] by simp
  then have "lanes 4 8 q < 2 ^ 32" using lanes_less [of 8 q 4] by simp
  moreover have "unat c div k mod 4294967296 = unat c div k" for c :: u32 and k
    using unsigned_less [of c, where 'a = nat] le_less_trans [OF div_le_dividend [of "unat c" k]] by simp
  ultimately have c2: "unat c2 = lanes 4 8 q"
    using s2 by (simp add: c2_def unat_word_ariths unsigned_and_eq unat_drop_bit_eq drop_bit_eq_div)
  have c3: "unat c3 = lanes 8 4 r"
    using swar_step3 [OF c2 p(2) zero(2)]
    by (simp add: c3_def r_def unat_word_ariths unsigned_and_eq unat_drop_bit_eq drop_bit_eq_div)
  have "unat (drop_bit 24 (c3 * 0x01010101)) = (\<Sum>i < 4. r i)"
    using swar_step4 [OF c3 p(3)] by (simp add: unat_drop_bit_eq drop_bit_eq_div unat_word_ariths)
  moreover have "(\<Sum>i < 4. r i) = popcount w"
    using sum_pairs [of q 4] sum_pairs [of p 8] sum_pairs [of b 16] by (simp add: r_def q_def p_def popcount_sum b_def)
  moreover have "Count32MLC1 w = ucast (drop_bit 24 (c3 * 0x01010101))"
    by (simp add: Count32MLC1_def Let_def c1_def c2_def c3_def)
  ultimately show ?thesis using popcount_le [of w] by (simp add: unsigned_ucast_eq take_bit_nat_eq_self)
qed

text \<open>The pairs of bits of a word, counted from the low end.\<close>

definition pair_at :: "u32 \<Rightarrow> nat \<Rightarrow> nat" where
  "pair_at x i = of_bool (bit x (2 * i)) + 2 * of_bool (bit x (Suc (2 * i)))"

lemma bit_masks32:
  "list_all (\<lambda>n. (bit (0x55555555 :: u32) n \<longleftrightarrow> even n) \<and> (bit (0xAAAAAAAA :: u32) n \<longleftrightarrow> odd n)
     \<and> bit (0xFFFFFFFF :: u32) n) [0..<32]"
  by (simp add: upt_conv_Cons bit_numeral_rec)

lemma bit_mask_less:
  assumes "n < 32"
  shows "bit (0x55555555 :: u32) n = even n" "bit (0xAAAAAAAA :: u32) n = odd n" "bit (0xFFFFFFFF :: u32) n"
  using bit_masks32 assms by (simp_all add: list_all_iff del: upt_Suc)

lemma bit_u32: "32 \<le> n \<Longrightarrow> \<not> bit (x :: u32) n"
  by (auto dest: bit_imp_le_length)

lemma even_pairs_popcount:
  "popcount ((d AND 0x55555555) AND drop_bit 1 (d AND 0xAAAAAAAA)) = card {i. i < 16 \<and> bit d (2 * i) \<and> bit d (Suc (2 * i))}"
proof -
  have "{n. n < 32 \<and> bit ((d AND 0x55555555) AND drop_bit 1 (d AND 0xAAAAAAAA)) n}
      = {n. n < 32 \<and> even n \<and> bit d n \<and> bit d (Suc n)}"
  proof (intro Collect_cong conj_cong refl)
    fix n :: nat assume n: "n < 32"
    show "bit ((d AND 0x55555555) AND drop_bit 1 (d AND 0xAAAAAAAA)) n = (even n \<and> bit d n \<and> bit d (Suc n))"
    proof (cases "even n")
      case True
      then have "Suc n < 32" using n by presburger
      then have m: "bit (0xAAAAAAAA :: u32) (Suc n)" using True bit_mask_less(2) [of "Suc n"] by simp
      have "bit (0x55555555 :: u32) n" using True bit_mask_less(1) [OF n] by simp
      with m True show ?thesis by (simp only: bit_and_iff bit_drop_bit_eq add_Suc_right Nat.add_0_right One_nat_def comp_def plus_1_eq_Suc) simp
    next
      case False
      then have "\<not> bit (0x55555555 :: u32) n" using bit_mask_less(1) [OF n] by simp
      with False show ?thesis by (simp only: bit_and_iff) simp
    qed
  qed
  also have "\<dots> = (*) 2 ` {i. i < 16 \<and> bit d (2 * i) \<and> bit d (Suc (2 * i))}"
    by (auto simp: image_iff elim!: evenE)
  finally show ?thesis by (simp only: popcount_def) (simp add: card_image inj_on_def)
qed

lemma Count32MLC2_unat:
  assumes "v < 4"
  shows "\<exists>c. Count32MLC2 v d = Inr c \<and> unat c = card {i. i < 16 \<and> pair_at d i = unat v}"
proof -
  have v: "v = 0 \<or> v = 1 \<or> v = 2 \<or> v = 3"
  proof -
    have "unat v < 4" using assms by (simp add: word_less_nat_alt)
    then have "unat v = 0 \<or> unat v = 1 \<or> unat v = 2 \<or> unat v = 3" by arith
    then show ?thesis by (auto simp: word_unat_eq_iff)
  qed
  define e where "e = (if v = 0 then d XOR 0xFFFFFFFF else if v = 1 then d XOR 0xAAAAAAAA
      else if v = 2 then d XOR 0x55555555 else d)"
  have e: "v = 0 \<and> e = d XOR 0xFFFFFFFF \<or> v = 1 \<and> e = d XOR 0xAAAAAAAA \<or> v = 2 \<and> e = d XOR 0x55555555 \<or> v = 3 \<and> e = d"
    using v unfolding e_def by auto
  have "bit e (2 * i) \<and> bit e (Suc (2 * i)) \<longleftrightarrow> pair_at d i = unat v" if "i < 16" for i
  proof -
    have i: "2 * i < 32" "Suc (2 * i) < 32" using that by simp_all
    show ?thesis
      using e
      by (elim disjE conjE) (simp_all only: pair_at_def bit_xor_iff bit_mask_less [OF i(1)] bit_mask_less [OF i(2)], simp_all)
  qed
  then have "{i. i < 16 \<and> bit e (2 * i) \<and> bit e (Suc (2 * i))} = {i. i < 16 \<and> pair_at d i = unat v}" by blast
  then show ?thesis
    using assms Count32MLC1_unat [of "(e AND 0x55555555) AND drop_bit 1 (e AND 0xAAAAAAAA)"] even_pairs_popcount [of e]
    by (simp only: Count32MLC2_def Let_def e_def [symmetric]) (simp add: assert_res_def)
qed


text \<open>The reference counts over an array of words: bits that are one, pairs with a value.\<close>

definition bits_set :: "u32 list \<Rightarrow> nat" where
  "bits_set ws = sum_list (map popcount ws)"

definition pairs_with :: "nat \<Rightarrow> u32 list \<Rightarrow> nat" where
  "pairs_with v ws = sum_list (map (\<lambda>w. card {i. i < 16 \<and> pair_at w i = v}) ws)"

lemma card_pairs_le: "card {i. i < 16 \<and> pair_at w i = v} \<le> 16"
  using card_mono [of "{..<16}" "{i. i < 16 \<and> pair_at w i = v}"] by auto

lemma bits_set_le: "bits_set ws \<le> 32 * length ws"
  by (induction ws) (use popcount_le in \<open>auto simp: bits_set_def intro: add_mono\<close>)

lemma pairs_with_le: "pairs_with v ws \<le> 16 * length ws"
  by (induction ws) (use card_pairs_le in \<open>auto simp: pairs_with_def intro: add_mono\<close>)

lemma fold_res_upt_take:
  assumes "\<And>i x. i < n \<Longrightarrow> f i x = Inr (x + of_nat (g (xs ! i)))" "n \<le> length xs"
  shows "fold_res f [0..<n] (0 :: u64) = Inr (of_nat (sum_list (map g (take n xs))))"
  using assms
proof (induction n)
  case (Suc n)
  have "fold_res f [0..<n] 0 = Inr (of_nat (sum_list (map g (take n xs))))" using Suc by simp
  then show ?case using Suc.prems by (simp add: fold_res_append take_Suc_conv_app_nth)
qed simp

lemma CountBitsMLC2_eq:
  assumes "v < 4" "words \<le> length data"
  shows "CountBitsMLC2 v data words = Inr (of_nat (pairs_with (unat v) (take words data)))"
  unfolding CountBitsMLC2_def pairs_with_def
proof (rule fold_res_upt_take [OF _ assms(2)])
  fix i and x :: u64 assume "i < words"
  obtain c where "Count32MLC2 v (data ! i) = Inr c" "unat c = card {k. k < 16 \<and> pair_at (data ! i) k = unat v}"
    using Count32MLC2_unat [OF assms(1)] by blast
  then show "(if i < length data then bind_res (Count32MLC2 v (data ! i)) (\<lambda>c. Inr (x + c)) else Inl OutOfBounds)
      = Inr (x + of_nat (card {k. k < 16 \<and> pair_at (data ! i) k = unat v}))"
    using \<open>i < words\<close> assms(2) by (simp flip: \<open>unat c = _\<close>)
qed

lemma CountBitsMLC1_eq:
  assumes "words \<le> length data"
  shows "CountBitsMLC1 v data words
    = Inr (of_nat (if v = 1 then bits_set (take words data) else 32 * words - bits_set (take words data)))"
proof -
  have "fold_res (\<lambda>i count. if i < length data then Inr (count + Count32MLC1 (data ! i)) else Inl OutOfBounds)
      [0..<words] 0 = Inr (of_nat (bits_set (take words data)))"
    unfolding bits_set_def
    by (rule fold_res_upt_take [OF _ assms]) (use assms in \<open>simp flip: Count32MLC1_unat\<close>)
  moreover have "bits_set (take words data) \<le> 32 * words" using bits_set_le [of "take words data"] assms by simp
  ultimately show ?thesis by (simp add: CountBitsMLC1_def of_nat_diff)
qed

text \<open>Every pair of bits has one of the four values.\<close>

lemma pair_at_less: "pair_at w i < 4"
  by (simp add: pair_at_def)

lemma pairs_with_sum: "pairs_with 0 ws + pairs_with 1 ws + pairs_with 2 ws + pairs_with 3 ws = 16 * length ws"
proof (induction ws)
  case (Cons w ws)
  let ?P = "\<lambda>v. {i. i < 16 \<and> pair_at w i = v}"
  have "i \<in> ?P 0 \<union> ?P 1 \<union> ?P 2 \<union> ?P 3" if "i < 16" for i
    using that pair_at_less [of w i] by (simp only: Un_iff mem_Collect_eq simp_thms) arith
  then have "{..<16} = ?P 0 \<union> ?P 1 \<union> ?P 2 \<union> ?P 3" by auto
  then have "card (?P 0 \<union> ?P 1 \<union> ?P 2 \<union> ?P 3) = 16" using card_lessThan [of 16] by simp
  moreover have "card (?P 0 \<union> ?P 1 \<union> ?P 2 \<union> ?P 3) = card (?P 0) + card (?P 1) + card (?P 2) + card (?P 3)"
    by (subst card_Un_disjoint, simp, simp, force)+ simp
  ultimately show ?case using Cons by (simp add: pairs_with_def)
qed (simp add: pairs_with_def)

lemma pairs_with_0: "pairs_with v ws = 0 \<longleftrightarrow> (\<forall>w i. w \<in> set ws \<and> i < 16 \<longrightarrow> pair_at w i \<noteq> v)"
  by (auto simp: pairs_with_def)

lemma card_filter_upt: "card {i. i < n \<and> P i} = length (filter P [0..<n])"
proof -
  have "{i. i < n \<and> P i} = set (filter P [0..<n])" by auto
  then show ?thesis by (simp only: distinct_card distinct_filter distinct_upt)
qed

text \<open>C26: the parallel bit counts are the plain ones. Over the first words of an array
  \<^verbatim>\<open>CountBitsMLC1\<close> gives the number of one bits, or of zero bits, and \<^verbatim>\<open>CountBitsMLC2\<close> the number of
  bit pairs with the asked value; they stay inside the array and raise no assertion.\<close>

theorem CountBits_eq_reference:
  assumes "words \<le> length data" "v < 4"
  shows "CountBitsMLC1 1 data words = Inr (of_nat (bits_set (take words data)))
    \<and> CountBitsMLC1 0 data words = Inr (of_nat (32 * words - bits_set (take words data)))
    \<and> CountBitsMLC2 v data words = Inr (of_nat (pairs_with (unat v) (take words data)))"
  using assms by (simp_all add: CountBitsMLC1_eq CountBitsMLC2_eq)

theorem CountBits_eq_reference_witness:
  "CountBitsMLC1 1 [0xF0F0F0F1, 7] 2 = Inr (of_nat (bits_set [0xF0F0F0F1, 7]))
   \<and> CountBitsMLC2 2 [0x00000002] 1 = Inr (of_nat (pairs_with 2 [0x00000002]))"
  using CountBits_eq_reference [of 2 "[0xF0F0F0F1, 7]" 0] CountBits_eq_reference [of 1 "[0x00000002]" 2]
  by simp

end
