(* ===== verification/Nvm_SubArray.thy ===== *)
theory Nvm_SubArray
  imports Nvm_BitCount
begin

text \<open>
  \<^verbatim>\<open>src/SubArray.cpp\<close>: a subarray with one row buffer, the end point of every command. It checks
  the timing constraints, keeps the earliest cycle of the next command of each kind, computes
  the time of a write from the data, pauses or cancels a running write for a read, and reports
  completion through events. \<^verbatim>\<open>src/SimInterface.cpp\<close>, the store of data blocks, is here too.

  Requests are objects of a heap, \<open>sa_heap\<close>, that their owners and the events share; a deleted
  request is gone from it. Energies, averages and histograms, all floating point or printed,
  are left out; the counters are kept. The member \<^verbatim>\<open>nextCommand\<close> is always \<^verbatim>\<open>CMD_NOP\<close>, so its
  test is too. Parameters, the record \<open>sa_env\<close>, are the data encoder and
  the endurance model (virtual calls), the normal distribution's random number, and the
  floating point comparison that decides between pausing and cancelling.
\<close>

section \<open>The data store\<close>

record SimInterface =
  memoryData :: "u64 \<rightharpoonup> NVMDataBlock"
  accessCounts :: "u64 \<rightharpoonup> u32"

text \<open>
  \<^verbatim>\<open>GetDataAtAddress\<close> assigns the found block to its own parameter, a pointer, so the caller's
  block, the second result, never changes.
\<close>

definition GetDataAtAddress :: "SimInterface \<Rightarrow> u64 \<Rightarrow> NVMDataBlock \<Rightarrow> bool \<times> NVMDataBlock" where
  "GetDataAtAddress s address data =
     (case memoryData s address of None \<Rightarrow> (False, data) | Some _ \<Rightarrow> (True, data))"

definition SetDataAtAddress :: "SimInterface \<Rightarrow> u64 \<Rightarrow> NVMDataBlock \<Rightarrow> nvm_error + SimInterface" where
  "SetDataAtAddress s address data =
     (case accessCounts s address of
        None \<Rightarrow>
          bind_res (assign NVMDataBlock_init data) (\<lambda>newData.
          Inr (s\<lparr> memoryData := (memoryData s)(address \<mapsto> newData),
                 accessCounts := (accessCounts s)(address \<mapsto> 0) \<rparr>))
      | Some n \<Rightarrow>
          (case memoryData s address of
             None \<Rightarrow> Inl OutOfBounds
           | Some old \<Rightarrow>
               bind_res (assign old data) (\<lambda>newData.
               Inr (s\<lparr> memoryData := (memoryData s)(address \<mapsto> newData),
                      accessCounts := (accessCounts s)(address \<mapsto> n + 1) \<rparr>))))"

section \<open>State\<close>

datatype SubArrayState =
  SUBARRAY_UNKNOWN | SUBARRAY_OPEN | SUBARRAY_CLOSED | SUBARRAY_PRECHARGING | SUBARRAY_REFRESHING

datatype WriteMode = WRITE_BACK | WRITE_THROUGH | DELAYED_WRITE

datatype ProgramMode = ProgramMode_SRMS | ProgramMode_SSMR

text \<open>\<open>sp_current\<close>: the energy model is \<^verbatim>\<open>"current"\<close>.\<close>

record SAParams =
  sp_UsePrecharge :: bool
  sp_WritePausing :: bool
  sp_pauseMode :: PauseMode
  sp_MaxCancellations :: u64
  sp_UniformWrites :: bool
  sp_MLCLevels :: u64
  sp_programMode :: ProgramMode
  sp_WPMaxVariance :: u64
  sp_current :: bool
  sp_ROWS :: u64
  sp_BusWidth :: u64
  sp_RATE :: u64
  sp_tAL :: ncycle_t
  sp_tBURST :: ncycle_t
  sp_tCAS :: ncycle_t
  sp_tCCD :: ncycle_t
  sp_tCWD :: ncycle_t
  sp_tRAS :: ncycle_t
  sp_tRCD :: ncycle_t
  sp_tRFC :: ncycle_t
  sp_tRP :: ncycle_t
  sp_tRTP :: ncycle_t
  sp_tRTRS :: ncycle_t
  sp_tWP :: ncycle_t
  sp_tWP0 :: ncycle_t
  sp_tWP1 :: ncycle_t
  sp_tWR :: ncycle_t
  sp_tWTR :: ncycle_t
  sp_nWP00 :: ncycle_t
  sp_nWP01 :: ncycle_t
  sp_nWP10 :: ncycle_t
  sp_nWP11 :: ncycle_t

text \<open>The endurance model: none, the null model, or another one, with its \<^verbatim>\<open>Write\<close>.\<close>

datatype 'e endr_model =
  NoEndrModel | EndrNullModel | EndrModel "'e \<Rightarrow> NVMainRequest \<Rightarrow> NVMDataBlock \<Rightarrow> 'e \<times> int"

record 'e sa_env =
  env_encoder_Read :: "('e \<Rightarrow> NVMainRequest \<Rightarrow> 'e \<times> NVMainRequest \<times> int) option"
  env_encoder_Write :: "('e \<Rightarrow> NVMainRequest \<Rightarrow> 'e \<times> NVMainRequest \<times> int) option"
  env_endr :: "'e endr_model"
  env_normal :: "'e \<Rightarrow> u64 \<Rightarrow> 'e \<times> u64"
  env_pauses :: "ncycle_t \<Rightarrow> ncycle_t \<Rightarrow> bool"

record 'e SubArray =
  sa_p :: SAParams
  sa_this :: nat
  sa_children :: "(nat \<times> nat) list"
  sa_queue :: EventQueue
  sa_fresh :: nat
  sa_heap :: "nat \<rightharpoonup> NVMainRequest"
  sa_ext :: 'e
  sa_sim :: "SimInterface option"
  sa_state :: SubArrayState
  openRow :: u64
  lastActivate :: ncycle_t
  nextActivate :: ncycle_t
  nextPrecharge :: ncycle_t
  nextRead :: ncycle_t
  nextWrite :: ncycle_t
  nextPowerDown :: ncycle_t
  writeCycle :: bool
  writeMode :: WriteMode
  writeBackRequests :: "nat list"
  isWriting :: bool
  writeEnd :: ncycle_t
  writeStart :: ncycle_t
  writeIterationStarts :: "ncycle_t list"
  writeRequest :: "nat option"
  writeEvent :: "nat option"
  writeEventTime :: ncycle_t
  nextActivatePreWrite :: ncycle_t
  nextPrechargePreWrite :: ncycle_t
  nextReadPreWrite :: ncycle_t
  nextWritePreWrite :: ncycle_t
  nextPowerDownPreWrite :: ncycle_t
  averageWriteIterations :: u64
  worstCaseWrite :: ncycle_t
  dataCycles :: u64
  measuredWriteTimes :: u64
  measuredPauses :: u64
  measuredProgresses :: u64
  cancelledWrites :: u64
  cancelledWriteTime :: u64
  pausedWrites :: u64
  actWaits :: u64
  actWaitTotal :: u64
  realPrecharges :: u64
  sa_reads :: u64
  sa_writes :: u64
  sa_activates :: u64
  sa_precharges :: u64
  sa_refreshes :: u64

abbreviation sa_now :: "'e SubArray \<Rightarrow> ncycle_t" where
  "sa_now s \<equiv> currentCycle (sa_queue s)"

text \<open>The constructor, for the pieces of the surroundings the model holds.\<close>

definition SubArray_init ::
  "SAParams \<Rightarrow> nat \<Rightarrow> (nat \<times> nat) list \<Rightarrow> EventQueue \<Rightarrow> nat \<Rightarrow> 'e \<Rightarrow> SimInterface option \<Rightarrow> 'e SubArray" where
  "SubArray_init p this children q fresh ext sim =
     \<lparr> sa_p = p, sa_this = this, sa_children = children, sa_queue = q, sa_fresh = fresh, sa_heap = Map.empty,
       sa_ext = ext, sa_sim = sim, sa_state = SUBARRAY_CLOSED, openRow = 0, lastActivate = 0,
       nextActivate = 0, nextPrecharge = 0, nextRead = 0, nextWrite = 0, nextPowerDown = 0,
       writeCycle = False, writeMode = WRITE_THROUGH, writeBackRequests = [], isWriting = False, writeEnd = 0,
       writeStart = 0, writeIterationStarts = [], writeRequest = None, writeEvent = None, writeEventTime = 0,
       nextActivatePreWrite = 0, nextPrechargePreWrite = 0, nextReadPreWrite = 0, nextWritePreWrite = 0,
       nextPowerDownPreWrite = 0, averageWriteIterations = 1, worstCaseWrite = 0, dataCycles = 0,
       measuredWriteTimes = 0, measuredPauses = 0, measuredProgresses = 0, cancelledWrites = 0,
       cancelledWriteTime = 0, pausedWrites = 0, actWaits = 0, actWaitTotal = 0, realPrecharges = 0,
       sa_reads = 0, sa_writes = 0, sa_activates = 0, sa_precharges = 0, sa_refreshes = 0 \<rparr>"

text \<open>\<open>mode\<close>: the value of the key \<^verbatim>\<open>WriteMode\<close>, when it exists.\<close>

definition SubArray_SetConfig :: "'e SubArray \<Rightarrow> string option \<Rightarrow> 'e SubArray" where
  "SubArray_SetConfig s mode =
     (let totalWritePulses = sp_nWP00 (sa_p s) + sp_nWP01 (sa_p s) + sp_nWP10 (sa_p s) + sp_nWP11 (sa_p s);
          s = (case mode of None \<Rightarrow> s
               | Some m \<Rightarrow> s\<lparr> writeMode := if m = ''WriteBack'' then WRITE_BACK else WRITE_THROUGH \<rparr>)
      in s\<lparr> averageWriteIterations := (totalWritePulses + 2) div 4 \<rparr>)"

section \<open>Requests and events\<close>

definition get_req :: "'e SubArray \<Rightarrow> nat \<Rightarrow> nvm_error + NVMainRequest" where
  "get_req s r = (case sa_heap s r of None \<Rightarrow> Inl UseAfterFree | Some x \<Rightarrow> Inr x)"

definition put_req :: "'e SubArray \<Rightarrow> nat \<Rightarrow> NVMainRequest \<Rightarrow> 'e SubArray" where
  "put_req s r x = s\<lparr> sa_heap := (sa_heap s)(r \<mapsto> x) \<rparr>"

definition delete_req :: "'e SubArray \<Rightarrow> nat \<Rightarrow> 'e SubArray" where
  "delete_req s r = s\<lparr> sa_heap := (sa_heap s)(r := None) \<rparr>"

definition new_copy :: "'e SubArray \<Rightarrow> NVMainRequest \<Rightarrow> 'e SubArray \<times> nat" where
  "new_copy s x = ((put_req s (sa_fresh s) (copy_request (sa_fresh s) x))\<lparr> sa_fresh := Suc (sa_fresh s) \<rparr>, sa_fresh s)"

text \<open>\<^verbatim>\<open>InsertEvent( EventResponse, this, request, when )\<close>\<close>

definition respond :: "'e SubArray \<Rightarrow> nat \<Rightarrow> ncycle_t \<Rightarrow> nvm_error + 'e SubArray" where
  "respond s r when =
     bind_res (InsertEvent_object (sa_queue s) (sa_children s) (sa_fresh s) EventResponse (sa_this s) (Some r) when None 0)
       (\<lambda>q. Inr (s\<lparr> sa_queue := q, sa_fresh := Suc (sa_fresh s) \<rparr>))"

section \<open>Write times\<close>

text \<open>\<^verbatim>\<open>std::set\<close> of cycles, in order.\<close>

fun set_insert :: "ncycle_t \<Rightarrow> ncycle_t list \<Rightarrow> ncycle_t list" where
  "set_insert x [] = [x]"
| "set_insert x (y # ys) = (if x < y then x # y # ys else if x = y then y # ys else y # set_insert x ys)"

definition uniform_starts :: "'e SubArray \<Rightarrow> ncycle_t list" where
  "uniform_starts s =
     (if sp_MLCLevels (sa_p s) > 1
      then fold (\<lambda>iter. set_insert (sa_now s + of_nat iter * (sp_tWP (sa_p s) div averageWriteIterations s)))
             [0..<unat (averageWriteIterations s)] []
      else [])"

text \<open>The number of program pulses: random around the mean, cut to the allowed deviation.\<close>

definition clamp_pulses :: "u64 \<Rightarrow> u64 \<Rightarrow> u64 \<Rightarrow> u64" where
  "clamp_pulses programPulseCount max_stddev this =
     (let maxPulseCount = max_stddev + programPulseCount;
          minPulseCount = programPulseCount - max_stddev;
          minPulseCount = (if sint minPulseCount < 0 then 0 else minPulseCount);
          this = (if this > maxPulseCount then maxPulseCount else this)
      in if this < minPulseCount then minPulseCount else this)"

text \<open>
  The delays of a two-bit write: the delay of the first pulse, of the repeated ones, and their
  number. Data of which every pair is 00 or 11, with both present, runs into \<^verbatim>\<open>assert( false )\<close>.
\<close>

definition mlc2_delays ::
  "'e sa_env \<Rightarrow> 'e SubArray \<Rightarrow> u64 \<Rightarrow> u64 \<Rightarrow> u64 \<Rightarrow> u64 \<Rightarrow> nvm_error + 'e SubArray \<times> ncycle_t \<times> ncycle_t \<times> ncycle_t" where
  "mlc2_delays env s c00 c01 c10 c11 =
     (let p = sa_p s;
          delay = (\<lambda>c n. if c = (0 :: u64) then 0 else n);
          programPulseCount = max (max (delay c00 (sp_nWP00 p)) (delay c01 (sp_nWP01 p)))
                                  (max (delay c10 (sp_nWP10 p)) (delay c11 (sp_nWP11 p)))
      in if c01 \<noteq> 0 \<or> c10 \<noteq> 0 then
           let (e, this) = env_normal env (sa_ext s) programPulseCount;
               this = clamp_pulses programPulseCount (sp_WPMaxVariance p) this;
               s = s\<lparr> sa_ext := e \<rparr>
           in Inr (if sp_programMode p = ProgramMode_SRMS then (s, sp_tWP0 p, sp_tWP1 p, this)
                   else (s, sp_tWP1 p, sp_tWP0 p, this))
         else if c00 \<noteq> 0 \<and> c11 = 0 then Inr (s, sp_tWP0 p, 0, 0)
         else if c00 = 0 \<and> c11 \<noteq> 0 then Inr (s, sp_tWP1 p, 0, 0)
         else Inl AssertFailed)"

definition pulse_starts :: "ncycle_t \<Rightarrow> ncycle_t \<Rightarrow> ncycle_t \<Rightarrow> ncycle_t \<Rightarrow> ncycle_t list" where
  "pulse_starts now once repeat pulses =
     fold (\<lambda>i. set_insert (now + once + of_nat i * repeat)) [0..<unat pulses] [now]"

definition memoryWordSize :: "SAParams \<Rightarrow> u32" where
  "memoryWordSize p = ucast (sp_tBURST p * sp_RATE p * sp_BusWidth p)"

text \<open>The part \<^verbatim>\<open>WriteCellData1\<close> and \<^verbatim>\<open>WriteCellData2\<close> share, for data that matters.\<close>

definition write_pulses ::
  "'e sa_env \<Rightarrow> 'e SubArray \<Rightarrow> NVMainRequest \<Rightarrow> nvm_error + 'e SubArray \<times> ncycle_t" where
  "write_pulses env s request =
     (let p = sa_p s; words = unat (memoryWordSize p div 32) in
      case rawData (rq_data request) of
        None \<Rightarrow> Inr (s, sp_tWP0 p)
      | Some xs \<Rightarrow>
          let data = words_of xs in
          if sp_MLCLevels p = 1 then Inr (s, sp_tWP p)
          else if sp_MLCLevels p = 2 then
            bind_res (CountBitsMLC2 0 data words) (\<lambda>c00.
            bind_res (CountBitsMLC2 1 data words) (\<lambda>c01.
            bind_res (CountBitsMLC2 2 data words) (\<lambda>c10.
            bind_res (CountBitsMLC2 3 data words) (\<lambda>c11.
            bind_res (assert_res (c00 + c01 + c10 + c11 = ucast (memoryWordSize p div 2))) (\<lambda>_.
            bind_res (mlc2_delays env s c00 c01 c10 c11) (\<lambda>(s, oncePulseDelay, repeatPulseDelay, thisPulseCount).
            let maxDelay = oncePulseDelay + thisPulseCount * repeatPulseDelay
            in Inr (s\<lparr> writeIterationStarts := pulse_starts (sa_now s) oncePulseDelay repeatPulseDelay thisPulseCount,
                       worstCaseWrite := if maxDelay > worstCaseWrite s then maxDelay else worstCaseWrite s \<rparr>,
                    maxDelay)))))))
          else Inr (s, 0))"

definition WriteCellData2 ::
  "'e sa_env \<Rightarrow> 'e SubArray \<Rightarrow> NVMainRequest \<Rightarrow> nvm_error + 'e SubArray \<times> ncycle_t" where
  "WriteCellData2 env s request =
     (let s = s\<lparr> writeIterationStarts := [] \<rparr> in
      if sp_UniformWrites (sa_p s) then Inr (s\<lparr> writeIterationStarts := uniform_starts s \<rparr>, sp_tWP (sa_p s))
      else write_pulses env s request)"

definition WriteCellData1 ::
  "'e sa_env \<Rightarrow> 'e SubArray \<Rightarrow> NVMainRequest \<Rightarrow> nvm_error + 'e SubArray \<times> ncycle_t" where
  "WriteCellData1 env s request =
     (let s = s\<lparr> writeIterationStarts := [] \<rparr> in
      if sp_UniformWrites (sa_p s) then Inr (s\<lparr> writeIterationStarts := uniform_starts s \<rparr>, sp_tWP (sa_p s))
      else if \<not> sp_current (sa_p s) \<and> writeMode s = WRITE_THROUGH then Inr (s, sp_tWP (sa_p s))
      else write_pulses env s request)"

section \<open>Endurance\<close>

definition sa_wordSize :: "SAParams \<Rightarrow> u64" where
  "sa_wordSize p = sp_BusWidth p * (sp_tBURST p * sp_RATE p) div 8"

text \<open>
  The block the endurance model compares with: the request's old data, or what the store has;
  without either every byte of a block that was never given a size is set.
\<close>

definition old_data :: "SAParams \<Rightarrow> SimInterface \<Rightarrow> NVMainRequest \<Rightarrow> nvm_error + NVMDataBlock" where
  "old_data p sim request =
     (if isValid (rq_oldData request) then assign NVMDataBlock_init (rq_oldData request)
      else let (found, oldData) = GetDataAtAddress sim (physicalAddress (rq_address request)) NVMDataBlock_init
        in if found then Inr oldData
           else fold_res (\<lambda>i b. SetByte b (of_nat i) 0) [0..<unat (sa_wordSize p)] oldData)"

definition UpdateEndurance ::
  "'e sa_env \<Rightarrow> 'e SubArray \<Rightarrow> NVMainRequest \<Rightarrow> nvm_error + 'e SubArray \<times> ncycle_t" where
  "UpdateEndurance env s request =
     (case env_endr env of
        EndrModel Write \<Rightarrow>
          (case sa_sim s of
             None \<Rightarrow> Inr (s, 0)
           | Some sim \<Rightarrow>
               bind_res (old_data (sa_p s) sim request) (\<lambda>oldData.
               bind_res (SetDataAtAddress sim (physicalAddress (rq_address request)) (rq_data request)) (\<lambda>sim.
               let (e, extraLatency) = Write (sa_ext s) request oldData;
                   extraLatency = (if extraLatency < 0 then - extraLatency - 1 else extraLatency)
               in Inr (s\<lparr> sa_sim := Some sim, sa_ext := e \<rparr>, of_int extraLatency))))
      | _ \<Rightarrow> Inr (s, 0))"

text \<open>A call of the data encoder, which may change the request's data.\<close>

definition encode ::
  "('e \<Rightarrow> NVMainRequest \<Rightarrow> 'e \<times> NVMainRequest \<times> int) option \<Rightarrow> 'e SubArray \<Rightarrow> nat \<Rightarrow> nvm_error + 'e SubArray \<times> ncycle_t" where
  "encode f s r =
     (case f of None \<Rightarrow> Inr (s, 0)
      | Some enc \<Rightarrow> bind_res (get_req s r) (\<lambda>x.
          let (e, x, lat) = enc (sa_ext s) x in Inr ((put_req s r x)\<lparr> sa_ext := e \<rparr>, of_int lat)))"

section \<open>Write pausing\<close>

definition iteration_start :: "'e SubArray \<Rightarrow> ncycle_t" where
  "iteration_start s =
     (let past = takeWhile (\<lambda>t. t \<le> sa_now s) (writeIterationStarts s)
      in if past = [] then writeStart s else last past)"

definition remaining_write :: "'e SubArray \<Rightarrow> ncycle_t" where
  "remaining_write s =
     (if sp_pauseMode (sa_p s) \<noteq> PauseMode_Optimal then writeEnd s - iteration_start s else writeEnd s - sa_now s)"

text \<open>The mark on the interrupted write, paused or cancelled.\<close>

definition interrupt_write :: "'e sa_env \<Rightarrow> 'e SubArray \<Rightarrow> NVMainRequest \<Rightarrow> 'e SubArray \<times> NVMainRequest" where
  "interrupt_write env s w =
     (let writeProgress = remaining_write s; w = w\<lparr> rq_writeProgress := writeProgress \<rparr> in
      if env_pauses env writeProgress (writeEnd s - writeStart s) then
        if writeProgress \<noteq> writeEnd s
        then (s\<lparr> pausedWrites := pausedWrites s + 1 \<rparr>, add_flag FLAG_PAUSED w) else (s, w)
      else
        let w = (add_flag FLAG_CANCELLED w)\<lparr> rq_cancellations := rq_cancellations w + 1 \<rparr>;
            w = (if rq_cancellations w \<ge> sp_MaxCancellations (sa_p s) then add_flag FLAG_FORCED w else w)
        in (s\<lparr> cancelledWrites := cancelledWrites s + 1,
               cancelledWriteTime := cancelledWriteTime s + (sa_now s - writeStart s) \<rparr>, w))"

text \<open>The deadlines, saved when a write starts and restored when it is interrupted.\<close>

definition save_timing :: "'e SubArray \<Rightarrow> 'e SubArray" where
  "save_timing s =
     s\<lparr> nextActivatePreWrite := nextActivate s, nextPrechargePreWrite := nextPrecharge s,
        nextReadPreWrite := nextRead s, nextWritePreWrite := nextWrite s,
        nextPowerDownPreWrite := nextPowerDown s \<rparr>"

definition restore_timing :: "'e SubArray \<Rightarrow> 'e SubArray" where
  "restore_timing s =
     s\<lparr> nextActivate := nextActivatePreWrite s, nextPrecharge := nextPrechargePreWrite s,
        nextWrite := nextWritePreWrite s, nextRead := nextReadPreWrite s,
        nextPowerDown := nextPowerDownPreWrite s \<rparr>"

text \<open>\<^verbatim>\<open>RemoveEvent\<close> of a null pointer finds nothing: no event has the next free address.\<close>

definition CheckWritePausing :: "'e sa_env \<Rightarrow> 'e SubArray \<Rightarrow> nvm_error + 'e SubArray" where
  "CheckWritePausing env s =
     (if sp_WritePausing (sa_p s) \<and> isWriting s then
        (case writeRequest s of
           None \<Rightarrow> Inl OutOfBounds
         | Some wr \<Rightarrow>
             bind_res (get_req s wr) (\<lambda>w.
             let (s, w) = interrupt_write env s w;
                 s = (put_req s wr w)\<lparr> measuredProgresses := measuredProgresses s + 1 \<rparr>;
                 victim = (case writeEvent s of None \<Rightarrow> sa_fresh s | Some e \<Rightarrow> e);
                 s = s\<lparr> sa_queue := fst (RemoveEvent (sa_queue s) victim (writeEventTime s)), writeEvent := None \<rparr>
             in bind_res (respond s wr (sa_now s + 1)) (\<lambda>s. Inr (restore_timing s))))
      else Inr s)"

definition BetweenWriteIterations :: "'e SubArray \<Rightarrow> bool" where
  "BetweenWriteIterations s \<longleftrightarrow> isWriting s \<and> sa_now s \<in> set (writeIterationStarts s)"

section \<open>Commands\<close>

text \<open>A command that breaks a constraint is reported and refused: the result is false.\<close>

definition Activate :: "'e sa_env \<Rightarrow> 'e SubArray \<Rightarrow> nat \<Rightarrow> nvm_error + 'e SubArray \<times> bool" where
  "Activate env s r =
     bind_res (get_req s r) (\<lambda>x.
     bind_res (CheckWritePausing env s) (\<lambda>s.
     let p = sa_p s; now = sa_now s in
     if nextActivate s > now then Inr (s, False)
     else if sp_UsePrecharge p \<and> sa_state s \<noteq> SUBARRAY_CLOSED then Inr (s, False)
     else
       let s = s\<lparr> nextPrecharge := max (nextPrecharge s) (now + max (sp_tRCD p) (sp_tRAS p)),
                  nextRead := max (nextRead s) (now + sp_tRCD p - sp_tAL p),
                  nextWrite := max (nextWrite s) (now + sp_tRCD p - sp_tAL p),
                  nextPowerDown := max (nextPowerDown s) (now + max (sp_tRCD p) (sp_tRAS p)) \<rparr>
       in bind_res (get_req s r) (\<lambda>y.
          bind_res (respond (put_req s r (y\<lparr> rq_owner := sa_this s \<rparr>)) r (now + sp_tRCD p)) (\<lambda>s.
          Inr (s\<lparr> openRow := na_row (rq_address x), sa_state := SUBARRAY_OPEN, writeCycle := False,
                  lastActivate := now, sa_activates := sa_activates s + 1 \<rparr>, True)))))"

text \<open>The cycles the bursts of a request take before its last one.\<close>

definition bursts :: "SAParams \<Rightarrow> u64 \<Rightarrow> ncycle_t" where
  "bursts p n = max (sp_tBURST p) (sp_tCCD p) * n"

definition read_deadlines :: "NVMainRequest \<Rightarrow> ncycle_t \<Rightarrow> 'e SubArray \<Rightarrow> 'e SubArray" where
  "read_deadlines x decLat s =
     (let p = sa_p s; now = sa_now s; pre = bursts p (rq_burstCount x - 1) in
      if rq_type x = READ_PRECHARGE then
        let na = max (nextActivate s) (now + pre + sp_tAL p + sp_tRTP p + sp_tRP p + decLat)
        in s\<lparr> nextActivate := na, nextPrecharge := max (nextPrecharge s) na, nextRead := max (nextRead s) na,
              nextWrite := max (nextWrite s) na \<rparr>
      else
        s\<lparr> nextPrecharge := max (nextPrecharge s)
             (now + pre + sp_tAL p + sp_tBURST p + sp_tRTP p - sp_tCCD p + decLat),
           nextRead := max (nextRead s) (now + bursts p (rq_burstCount x)),
           nextWrite := max (nextWrite s)
             (now + pre + sp_tCAS p + sp_tBURST p + sp_tRTRS p - sp_tCWD p + decLat) \<rparr>)"

text \<open>A copy of a read with precharge reports the precharge.\<close>

definition read_timing :: "'e SubArray \<Rightarrow> NVMainRequest \<Rightarrow> ncycle_t \<Rightarrow> nvm_error + 'e SubArray" where
  "read_timing s x decLat =
     (let p = sa_p s; now = sa_now s; pre = bursts p (rq_burstCount x - 1); s = read_deadlines x decLat s in
      if rq_type x = READ_PRECHARGE then
        let (s, preReq) = new_copy s (x\<lparr> rq_owner := sa_this s \<rparr>)
        in respond s preReq (now + sp_tAL p + sp_tRTP p + decLat + pre)
      else Inr s)"

text \<open>Data that was never written is stored at its first read when endurance is modelled.\<close>

definition read_store :: "'e sa_env \<Rightarrow> 'e SubArray \<Rightarrow> NVMainRequest \<Rightarrow> nvm_error + 'e SubArray" where
  "read_store env s x =
     (case (sa_sim s, env_endr env) of
        (None, _) \<Rightarrow> Inr s
      | (_, NoEndrModel) \<Rightarrow> Inr s
      | (Some sim, _) \<Rightarrow>
          if fst (GetDataAtAddress sim (physicalAddress (rq_address x)) NVMDataBlock_init) then Inr s
          else bind_res (SetDataAtAddress sim (physicalAddress (rq_address x)) (rq_data x)) (\<lambda>sim.
               Inr (s\<lparr> sa_sim := Some sim \<rparr>)))"

text \<open>The bus transfer, the completion and the data of a read.\<close>

definition read_report ::
  "'e sa_env \<Rightarrow> 'e SubArray \<Rightarrow> nat \<Rightarrow> NVMainRequest \<Rightarrow> ncycle_t \<Rightarrow> nvm_error + 'e SubArray" where
  "read_report env s r x decLat =
     (let p = sa_p s; now = sa_now s;
          (s, busReq) = new_copy s (x\<lparr> rq_type := BUS_WRITE, rq_owner := sa_this s \<rparr>)
      in bind_res (respond s busReq (now + sp_tCAS p + decLat)) (\<lambda>s.
         bind_res (respond s r (now + sp_tCAS p + sp_tBURST p + decLat)) (\<lambda>s.
         bind_res (read_store env s x) (\<lambda>s.
         Inr (s\<lparr> sa_reads := sa_reads s + 1, dataCycles := dataCycles s + sp_tBURST p \<rparr>)))))"

definition read_row :: "'e sa_env \<Rightarrow> 'e SubArray \<Rightarrow> nat \<Rightarrow> nvm_error + 'e SubArray" where
  "read_row env s r =
     bind_res (encode (env_encoder_Read env) s r) (\<lambda>(s, decLat).
     bind_res (get_req s r) (\<lambda>x.
     bind_res (read_timing s x decLat) (\<lambda>s.
     let p = sa_p s in
     read_report env (s\<lparr> nextPowerDown := max (nextPowerDown s) (sa_now s + bursts p (rq_burstCount x - 1)
         + sp_tCAS p + sp_tAL p + sp_tBURST p + 1 + decLat) \<rparr>) r x decLat)))"

definition SubArray_Read :: "'e sa_env \<Rightarrow> 'e SubArray \<Rightarrow> nat \<Rightarrow> nvm_error + 'e SubArray \<times> bool" where
  "SubArray_Read env s r =
     bind_res (get_req s r) (\<lambda>x.
     bind_res (CheckWritePausing env s) (\<lambda>s.
     if nextRead s > sa_now s then Inr (s, False)
     else if sa_state s \<noteq> SUBARRAY_OPEN then Inr (s, False)
     else if na_row (rq_address x) \<noteq> openRow s then Inr (s, False)
     else bind_res (read_row env s r) (\<lambda>s. Inr (s, True))))"

text \<open>
  The first half of \<^verbatim>\<open>Write\<close>: encoding and wear, the time of the cells, where a paused write
  resumes with what was left of it, and the mark of a cancelled one.
\<close>

definition write_latency :: "'e sa_env \<Rightarrow> 'e SubArray \<Rightarrow> nat \<Rightarrow> nvm_error + 'e SubArray \<times> ncycle_t" where
  "write_latency env s r =
     (if writeMode s = WRITE_THROUGH then
        bind_res (encode (env_encoder_Write env) s r) (\<lambda>(s, encLat).
        bind_res (get_req s r) (\<lambda>x.
        bind_res (UpdateEndurance env s x) (\<lambda>(s, endrLat).
        Inr (s, encLat + endrLat))))
      else Inr (s, 0))"

definition cell_time :: "'e sa_env \<Rightarrow> 'e SubArray \<Rightarrow> nat \<Rightarrow> nvm_error + 'e SubArray \<times> ncycle_t" where
  "cell_time env s r =
     bind_res (get_req s r) (\<lambda>x.
     bind_res (WriteCellData1 env s x) (\<lambda>(s, _).
     if has_flag FLAG_PAUSED x then Inr (put_req s r (del_flag FLAG_PAUSED x), rq_writeProgress x)
     else WriteCellData1 env s x))"

definition restart_write :: "'e SubArray \<Rightarrow> nat \<Rightarrow> nvm_error + 'e SubArray" where
  "restart_write s r =
     bind_res (get_req s r) (\<lambda>x.
     Inr (if has_flag FLAG_CANCELLED x then put_req s r (del_flag FLAG_CANCELLED x) else s))"

definition write_time ::
  "'e sa_env \<Rightarrow> 'e SubArray \<Rightarrow> nat \<Rightarrow> nvm_error + 'e SubArray \<times> ncycle_t \<times> ncycle_t" where
  "write_time env s r =
     bind_res (write_latency env s r) (\<lambda>(s, extra).
     bind_res (cell_time env s r) (\<lambda>(s, writeTimer).
     bind_res (restart_write s r) (\<lambda>s.
     Inr (s, writeTimer, extra))))"

text \<open>
  Write-back memories write the cells at the precharge. Write-through memories remember the
  time, for pausing, and add the extra latency.
\<close>

definition delay_write :: "'e SubArray \<Rightarrow> NVMainRequest \<Rightarrow> ncycle_t \<Rightarrow> 'e SubArray \<times> ncycle_t" where
  "delay_write s x writeTimer =
     (if writeMode s = WRITE_BACK \<and> writeCycle s then
        let (s, c) = new_copy s x in (s\<lparr> writeBackRequests := writeBackRequests s @ [c] \<rparr>, 0)
      else (s, writeTimer))"

definition write_mode ::
  "'e SubArray \<Rightarrow> nat \<Rightarrow> ncycle_t \<Rightarrow> ncycle_t \<Rightarrow> nvm_error + 'e SubArray \<times> ncycle_t" where
  "write_mode s r writeTimer extra =
     bind_res (get_req s r) (\<lambda>x.
     let (s, writeTimer) = delay_write s x writeTimer
     in Inr (if writeMode s = WRITE_THROUGH
             then let s = save_timing (put_req s r (x\<lparr> rq_writeProgress := writeTimer \<rparr>))
               in (s\<lparr> measuredWriteTimes := measuredWriteTimes s + 1 \<rparr>, writeTimer + extra)
             else (save_timing s, writeTimer)))"

definition write_deadlines :: "NVMainRequest \<Rightarrow> ncycle_t \<Rightarrow> 'e SubArray \<Rightarrow> 'e SubArray" where
  "write_deadlines x writeTimer s =
     (let p = sa_p s; now = sa_now s; pre = bursts p (rq_burstCount x - 1) in
      if rq_type x = WRITE_PRECHARGE then
        let na = max (nextActivate s)
              (now + pre + sp_tAL p + sp_tCWD p + sp_tBURST p + writeTimer + sp_tWR p + sp_tRP p)
        in s\<lparr> nextActivate := na, nextPrecharge := max (nextPrecharge s) na, nextRead := max (nextRead s) na,
              nextWrite := max (nextWrite s) na \<rparr>
      else
        s\<lparr> nextPrecharge := max (nextPrecharge s)
             (now + pre + sp_tAL p + sp_tCWD p + sp_tBURST p + writeTimer + sp_tWR p),
           nextRead := max (nextRead s) (now + pre + sp_tCWD p + sp_tBURST p + sp_tWTR p + writeTimer),
           nextWrite := max (nextWrite s) (now + bursts p (rq_burstCount x) + writeTimer) \<rparr>)"

definition write_timing :: "'e SubArray \<Rightarrow> NVMainRequest \<Rightarrow> ncycle_t \<Rightarrow> nvm_error + 'e SubArray" where
  "write_timing s x writeTimer =
     (let p = sa_p s; now = sa_now s; pre = bursts p (rq_burstCount x - 1); s = write_deadlines x writeTimer s in
      bind_res
        (if rq_type x = WRITE_PRECHARGE then
           let (s, preReq) = new_copy s (x\<lparr> rq_owner := sa_this s \<rparr>)
           in respond s preReq (now + pre + sp_tAL p + sp_tCWD p + sp_tBURST p + writeTimer + sp_tWR p)
         else Inr s) (\<lambda>s.
      Inr (s\<lparr> nextPowerDown := max (nextPowerDown s) (nextPrecharge s) \<rparr>)))"

text \<open>The running write, its completion event, and the bus transfer.\<close>

definition write_report :: "'e SubArray \<Rightarrow> nat \<Rightarrow> NVMainRequest \<Rightarrow> ncycle_t \<Rightarrow> nvm_error + 'e SubArray" where
  "write_report s r x writeTimer =
     (let p = sa_p s; now = sa_now s;
          s = s\<lparr> isWriting := True, writeRequest := Some r, writeStart := now, writeEnd := now + writeTimer,
                 writeEventTime := now + sp_tCWD p + bursts p (rq_burstCount x) + writeTimer \<rparr>
      in case find_hook (sa_children s) (sa_this s) of
           None \<Rightarrow> Inl AssertFailed
         | Some hook \<Rightarrow>
             let e = (Event_init (sa_fresh s))\<lparr> ev_type := EventResponse, ev_recipient := Some hook, ev_request := Some r \<rparr>;
                 s = s\<lparr> writeEvent := Some (sa_fresh s), sa_fresh := Suc (sa_fresh s) \<rparr>;
                 (s, busReq) = new_copy s (x\<lparr> rq_type := BUS_READ, rq_owner := sa_this s \<rparr>)
             in bind_res (respond s busReq (now + sp_tCWD p)) (\<lambda>s.
                Inr (s\<lparr> sa_queue := InsertEvent (sa_queue s) e (writeEventTime s) 0, writeCycle := True,
                        sa_writes := sa_writes s + 1, dataCycles := dataCycles s + sp_tBURST p \<rparr>)))"

definition write_row :: "'e sa_env \<Rightarrow> 'e SubArray \<Rightarrow> nat \<Rightarrow> nvm_error + 'e SubArray" where
  "write_row env s r =
     bind_res (write_time env s r) (\<lambda>(s, writeTimer, extra).
     bind_res (write_mode s r writeTimer extra) (\<lambda>(s, writeTimer).
     bind_res (get_req s r) (\<lambda>x.
     bind_res (write_timing s x writeTimer) (\<lambda>s.
     write_report s r x writeTimer))))"

definition SubArray_Write :: "'e sa_env \<Rightarrow> 'e SubArray \<Rightarrow> nat \<Rightarrow> nvm_error + 'e SubArray \<times> bool" where
  "SubArray_Write env s r =
     bind_res (get_req s r) (\<lambda>x.
     if nextWrite s > sa_now s then Inr (s, False)
     else if sa_state s \<noteq> SUBARRAY_OPEN then Inr (s, False)
     else if na_row (rq_address x) \<noteq> openRow s then Inr (s, False)
     else bind_res (write_row env s r) (\<lambda>s. Inr (s, True)))"

text \<open>The cells of a write-back memory, written one request after the other.\<close>

definition write_back ::
  "'e sa_env \<Rightarrow> nat \<Rightarrow> 'e SubArray \<times> ncycle_t \<Rightarrow> nvm_error + 'e SubArray \<times> ncycle_t" where
  "write_back env w = (\<lambda>(s, lat).
     bind_res (encode (env_encoder_Write env) s w) (\<lambda>(s, encLat).
     bind_res (get_req s w) (\<lambda>x.
     bind_res (UpdateEndurance env s x) (\<lambda>(s, endrLat).
     Inr (s, lat + encLat + endrLat)))))"

definition precharge_time :: "'e sa_env \<Rightarrow> 'e SubArray \<Rightarrow> nat \<Rightarrow> nvm_error + 'e SubArray \<times> ncycle_t" where
  "precharge_time env s r =
     (if writeMode s = WRITE_BACK \<and> writeCycle s then
        bind_res (get_req s r) (\<lambda>x.
        bind_res (WriteCellData2 env s x) (\<lambda>(s, t).
        bind_res (fold_res (write_back env) (writeBackRequests s) (s, 0)) (\<lambda>(s, lat).
        Inr (s\<lparr> writeBackRequests := [], measuredWriteTimes := measuredWriteTimes s + 1 \<rparr>,
             max 1 (sp_tRP (sa_p s) + t) + lat))))
      else Inr (s, max 1 (sp_tRP (sa_p s))))"

definition Precharge :: "'e sa_env \<Rightarrow> 'e SubArray \<Rightarrow> nat \<Rightarrow> nvm_error + 'e SubArray \<times> bool" where
  "Precharge env s r =
     (let p = sa_p s; now = sa_now s in
      if nextPrecharge s > now then Inr (s, False)
      else if sa_state s \<noteq> SUBARRAY_CLOSED \<and> sa_state s \<noteq> SUBARRAY_OPEN then Inr (s, False)
      else
        bind_res (precharge_time env s r) (\<lambda>(s, writeTimer).
        bind_res (get_req s r) (\<lambda>x.
        let s = s\<lparr> nextActivate := max (nextActivate s) (now + writeTimer) \<rparr>
        in bind_res (respond (put_req s r (x\<lparr> rq_owner := sa_this s \<rparr>)) r (now + writeTimer)) (\<lambda>s.
           Inr (s\<lparr> sa_state := SUBARRAY_PRECHARGING,
                  realPrecharges := realPrecharges s
                    + (if \<not> sp_current p \<and> (sp_UniformWrites p \<or> writeMode s = WRITE_BACK \<and> writeCycle s) then 1 else 0) \<rparr>,
                True)))))"

definition Refresh :: "'e SubArray \<Rightarrow> nat \<Rightarrow> nvm_error + 'e SubArray \<times> bool" where
  "Refresh s r =
     (let p = sa_p s; now = sa_now s in
      if nextActivate s > now then Inr (s, False)
      else if sa_state s \<noteq> SUBARRAY_CLOSED then Inr (s, False)
      else bind_res (get_req s r) (\<lambda>x.
        let s = s\<lparr> nextActivate := max (nextActivate s) (now + sp_tRFC p) \<rparr>
        in bind_res (respond (put_req s r (x\<lparr> rq_owner := sa_this s \<rparr>)) r (now + sp_tRFC p)) (\<lambda>s.
           Inr (s\<lparr> sa_state := SUBARRAY_REFRESHING \<rparr>, True))))"

section \<open>Issuing and completion\<close>

definition SubArray_NextIssuable :: "'e SubArray \<Rightarrow> NVMainRequest \<Rightarrow> ncycle_t" where
  "SubArray_NextIssuable s x =
     (case rq_type x of
        ACTIVATE \<Rightarrow> nextActivate s
      | READ \<Rightarrow> nextRead s
      | WRITE \<Rightarrow> nextWrite s
      | PRECHARGE \<Rightarrow> nextPrecharge s
      | _ \<Rightarrow> 0)"

text \<open>The flags of the running write; the pointer is only followed while writing.\<close>

definition write_forced :: "'e SubArray \<Rightarrow> nvm_error + bool" where
  "write_forced s =
     (if sp_WritePausing (sa_p s) \<and> isWriting s then
        case writeRequest s of None \<Rightarrow> Inl OutOfBounds
        | Some w \<Rightarrow> bind_res (get_req s w) (\<lambda>y. Inr (has_flag FLAG_FORCED y))
      else Inr False)"

text \<open>\<^verbatim>\<open>IsIssuable\<close> also counts activations that come too early.\<close>

definition SubArray_IsIssuable :: "'e SubArray \<Rightarrow> NVMainRequest \<Rightarrow> nvm_error + 'e SubArray \<times> bool" where
  "SubArray_IsIssuable s x =
     (let p = sa_p s; now = sa_now s; opRow = na_row (rq_address x) in
      case rq_type x of
        ACTIVATE \<Rightarrow>
          bind_res (if nextActivate s > now \<or> sp_UsePrecharge p \<and> sa_state s \<noteq> SUBARRAY_CLOSED then Inr True
                    else bind_res (write_forced s) (\<lambda>forced.
                      Inr (forced \<or> sp_WritePausing p \<and> isWriting s \<and> \<not> has_flag FLAG_PRIORITY x))) (\<lambda>blocked.
          Inr (if blocked \<and> nextActivate s > now
               then s\<lparr> actWaits := actWaits s + 1, actWaitTotal := actWaitTotal s + (nextActivate s - now) \<rparr> else s,
               \<not> blocked))
      | READ \<Rightarrow> bind_res (if nextRead s > now \<or> sa_state s \<noteq> SUBARRAY_OPEN \<or> opRow \<noteq> openRow s then Inr True
                         else write_forced s) (\<lambda>blocked. Inr (s, \<not> blocked))
      | READ_PRECHARGE \<Rightarrow> bind_res (if nextRead s > now \<or> sa_state s \<noteq> SUBARRAY_OPEN \<or> opRow \<noteq> openRow s then Inr True
                         else write_forced s) (\<lambda>blocked. Inr (s, \<not> blocked))
      | WRITE \<Rightarrow> Inr (s, \<not> (nextWrite s > now \<or> sa_state s \<noteq> SUBARRAY_OPEN \<or> opRow \<noteq> openRow s))
      | WRITE_PRECHARGE \<Rightarrow> Inr (s, \<not> (nextWrite s > now \<or> sa_state s \<noteq> SUBARRAY_OPEN \<or> opRow \<noteq> openRow s))
      | PRECHARGE \<Rightarrow> Inr (s, \<not> (nextPrecharge s > now \<or> sa_state s \<notin> {SUBARRAY_OPEN, SUBARRAY_CLOSED}))
      | PRECHARGE_ALL \<Rightarrow> Inr (s, \<not> (nextPrecharge s > now \<or> sa_state s \<notin> {SUBARRAY_OPEN, SUBARRAY_CLOSED}))
      | POWERDOWN_PDA \<Rightarrow> Inr (s, \<not> (nextPowerDown s > now \<or> isWriting s))
      | POWERDOWN_PDPF \<Rightarrow> Inr (s, \<not> (nextPowerDown s > now \<or> isWriting s))
      | POWERDOWN_PDPS \<Rightarrow> Inr (s, \<not> (nextPowerDown s > now \<or> isWriting s))
      | POWERUP \<Rightarrow> Inr (s, True)
      | REFRESH \<Rightarrow> Inr (s, \<not> (nextActivate s > now \<or> sa_state s \<noteq> SUBARRAY_CLOSED))
      | _ \<Rightarrow> Inr (s, False))"

definition SubArray_IssueCommand :: "'e sa_env \<Rightarrow> 'e SubArray \<Rightarrow> nat \<Rightarrow> nvm_error + 'e SubArray \<times> bool" where
  "SubArray_IssueCommand env s r =
     bind_res (get_req s r) (\<lambda>x.
     bind_res (SubArray_IsIssuable s x) (\<lambda>(s, ok).
     if \<not> ok then Inr (s, False)
     else case rq_type x of
            ACTIVATE \<Rightarrow> Activate env s r
          | READ \<Rightarrow> SubArray_Read env s r
          | READ_PRECHARGE \<Rightarrow> SubArray_Read env s r
          | WRITE \<Rightarrow> SubArray_Write env s r
          | WRITE_PRECHARGE \<Rightarrow> SubArray_Write env s r
          | PRECHARGE \<Rightarrow> Precharge env s r
          | PRECHARGE_ALL \<Rightarrow> Precharge env s r
          | REFRESH \<Rightarrow> Refresh s r
          | _ \<Rightarrow> Inr (s, True)))"

text \<open>The end of a write, and of the requests the subarray owns.\<close>

definition finish_write :: "'e SubArray \<Rightarrow> nat \<Rightarrow> NVMainRequest \<Rightarrow> 'e SubArray" where
  "finish_write s r x =
     (if rq_type x = WRITE \<or> rq_type x = WRITE_PRECHARGE then
        let s = (if writeRequest s = Some r then s\<lparr> isWriting := False \<rparr> else s)
        in if \<not> (has_flag FLAG_PAUSED x \<or> has_flag FLAG_CANCELLED x)
           then s\<lparr> measuredPauses := measuredPauses s + 1 \<rparr> else s
      else s)"

definition finish_precharge :: "'e SubArray \<Rightarrow> nat \<Rightarrow> NVMainRequest \<Rightarrow> nvm_error + 'e SubArray" where
  "finish_precharge s r x =
     respond ((put_req s r (x\<lparr> rq_type := PRECHARGE \<rparr>))\<lparr> sa_state := SUBARRAY_PRECHARGING \<rparr>) r (sa_now s + sp_tRP (sa_p s))"

definition finish_close :: "'e SubArray \<Rightarrow> nat \<Rightarrow> 'e SubArray" where
  "finish_close s r = (delete_req s r)\<lparr> sa_state := SUBARRAY_CLOSED, openRow := sp_ROWS (sa_p s) \<rparr>"

definition finish_own :: "'e SubArray \<Rightarrow> nat \<Rightarrow> NVMainRequest \<Rightarrow> nvm_error + 'e SubArray" where
  "finish_own s r x =
     (case rq_type x of
        READ_PRECHARGE \<Rightarrow> finish_precharge s r x
      | WRITE_PRECHARGE \<Rightarrow> finish_precharge s r x
      | PRECHARGE \<Rightarrow> Inr ((finish_close s r)\<lparr> sa_precharges := sa_precharges s + 1 \<rparr>)
      | PRECHARGE_ALL \<Rightarrow> Inr ((finish_close s r)\<lparr> sa_precharges := sa_precharges s + 1 \<rparr>)
      | REFRESH \<Rightarrow> Inr ((finish_close s r)\<lparr> sa_refreshes := sa_refreshes s + 1 \<rparr>)
      | _ \<Rightarrow> Inr (delete_req s r))"

text \<open>The second result: the request is handed to the parent.\<close>

definition SubArray_RequestComplete :: "'e SubArray \<Rightarrow> nat \<Rightarrow> nvm_error + 'e SubArray \<times> bool" where
  "SubArray_RequestComplete s r =
     bind_res (get_req s r) (\<lambda>x.
     let s = finish_write s r x
     in if rq_owner x = sa_this s then bind_res (finish_own s r x) (\<lambda>s. Inr (s, False))
        else Inr (s, True))"

definition SubArray_Idle :: "'e SubArray \<Rightarrow> bool" where
  "SubArray_Idle s \<longleftrightarrow> sa_state s = SUBARRAY_CLOSED \<or> sa_state s = SUBARRAY_PRECHARGING"


section \<open>Examples\<close>

text \<open>A write-through array with uniform writes of 12 cycles and small timing parameters.\<close>

definition sa_example_params :: SAParams where
  "sa_example_params =
     \<lparr> sp_UsePrecharge = True, sp_WritePausing = False, sp_pauseMode = PauseMode_Normal, sp_MaxCancellations = 2,
       sp_UniformWrites = True, sp_MLCLevels = 1, sp_programMode = ProgramMode_SRMS, sp_WPMaxVariance = 3,
       sp_current = False, sp_ROWS = 64, sp_BusWidth = 32, sp_RATE = 1, sp_tAL = 0, sp_tBURST = 1, sp_tCAS = 5,
       sp_tCCD = 1, sp_tCWD = 4, sp_tRAS = 9, sp_tRCD = 4, sp_tRFC = 20, sp_tRP = 3, sp_tRTP = 2, sp_tRTRS = 1,
       sp_tWP = 12, sp_tWP0 = 12, sp_tWP1 = 12, sp_tWR = 2, sp_tWTR = 2, sp_nWP00 = 0, sp_nWP01 = 7, sp_nWP10 = 5, sp_nWP11 = 1 \<rparr>"

definition sa_example_env :: "unit sa_env" where
  "sa_example_env = \<lparr> env_encoder_Read = None, env_encoder_Write = None, env_endr = NoEndrModel,
     env_normal = \<lambda>e n. (e, n), env_pauses = \<lambda>_ _. False \<rparr>"

definition sa_request :: "nat \<Rightarrow> OpType \<Rightarrow> NVMainRequest" where
  "sa_request p t = (NVMainRequest_init p)\<lparr> rq_type := t \<rparr>"

definition sa_example :: "bool \<Rightarrow> unit SubArray" where
  "sa_example pausing =
     (SubArray_init (sa_example_params\<lparr> sp_WritePausing := pausing \<rparr>) 7 [(3, 7)] EventQueue_init 100 () None)
       \<lparr> sa_heap := [1 \<mapsto> sa_request 1 ACTIVATE, 2 \<mapsto> sa_request 2 READ, 3 \<mapsto> sa_request 3 WRITE] \<rparr>"

definition sa_accepts :: "'e sa_env \<Rightarrow> 'e SubArray \<Rightarrow> nat \<Rightarrow> bool" where
  "sa_accepts env s r = (case SubArray_IssueCommand env s r of Inr (_, ok) \<Rightarrow> ok | Inl _ \<Rightarrow> False)"

definition sa_after :: "'e sa_env \<Rightarrow> 'e SubArray \<Rightarrow> nat \<Rightarrow> 'e SubArray" where
  "sa_after env s r = (case SubArray_IssueCommand env s r of Inr (t, _) \<Rightarrow> t | Inl _ \<Rightarrow> s)"

definition sa_at :: "ncycle_t \<Rightarrow> 'e SubArray \<Rightarrow> 'e SubArray" where
  "sa_at n s = s\<lparr> sa_queue := (sa_queue s)\<lparr> currentCycle := n \<rparr> \<rparr>"

lemma sa_acceptsD: "sa_accepts env s r \<Longrightarrow> SubArray_IssueCommand env s r = Inr (sa_after env s r, True)"
  by (auto simp: sa_accepts_def sa_after_def split: sum.splits)

section \<open>Write pulses\<close>


lemma length_words_of [simp]: "length (words_of xs) = length xs div 4"
  by (induction xs rule: words_of.induct) simp_all

lemma of_nat_pairs_0:
  assumes "16 * length ws < 2 ^ 64"
  shows "(of_nat (pairs_with v ws) :: u64) = 0 \<longleftrightarrow> pairs_with v ws = 0"
  using pairs_with_le [of v ws] assms by (simp add: word_of_nat_eq_0_iff nat_dvd_not_less) (auto dest: dvd_imp_le)

lemma memoryWordSize_pairs:
  assumes "memoryWordSize p mod 32 = 0"
  shows "(of_nat (16 * unat (memoryWordSize p div 32)) :: u64) = ucast (memoryWordSize p div 2)"
proof -
  have "unat (memoryWordSize p) mod 32 = 0" using assms by (simp add: word_unat_eq_iff unat_mod)
  then have "unat (memoryWordSize p) div 2 = 16 * (unat (memoryWordSize p) div 32)" by presburger
  moreover have "unat (ucast x :: u64) = unat x" for x :: u32
    using unsigned_less [of x, where 'a = nat] by (simp add: unsigned_ucast_eq take_bit_nat_eq_self)
  ultimately have "unat (of_nat (16 * unat (memoryWordSize p div 32)) :: u64) = unat (ucast (memoryWordSize p div 2) :: u64)"
    using unsigned_less [of "memoryWordSize p", where 'a = nat] by (simp add: unat_div unat_of_nat del: of_nat_mult)
  then show ?thesis by (rule word_unat_eq_iff [THEN iffD2])
qed

text \<open>C39: with two bits per cell a write of data the block holds fails exactly when no pair of
  bits is 01 or 10 and 00 and 11 are both present (or no word is written at all): the last branch
  of the pulse selection is \<^verbatim>\<open>assert( false )\<close>. The earlier assertion, that the four counts add
  up to the word size, never fails.\<close>

theorem write_pulses_fails_iff:
  assumes "sp_MLCLevels (sa_p s) = 2" "memoryWordSize (sa_p s) mod 32 = 0"
    and "rawData (rq_data request) = Some xs" "unat (memoryWordSize (sa_p s) div 32) \<le> length xs div 4"
    and "ws = take (unat (memoryWordSize (sa_p s) div 32)) (words_of xs)"
  shows "write_pulses env s request = Inl e \<longleftrightarrow>
    e = AssertFailed \<and> pairs_with 1 ws = 0 \<and> pairs_with 2 ws = 0 \<and> (pairs_with 0 ws = 0 \<longleftrightarrow> pairs_with 3 ws = 0)"
proof -
  let ?n = "unat (memoryWordSize (sa_p s) div 32)"
  have len: "length ws = ?n" using assms(4,5) by simp
  have "?n < 2 ^ 32" using unsigned_less [of "memoryWordSize (sa_p s) div 32", where 'a = nat] by simp
  then have z: "(of_nat (pairs_with v ws) :: u64) = 0 \<longleftrightarrow> pairs_with v ws = 0" for v
    by (intro of_nat_pairs_0) (simp add: len)
  have c: "CountBitsMLC2 v (words_of xs) ?n = Inr (of_nat (pairs_with (unat v) ws))" if "v < 4" for v
    using CountBitsMLC2_eq [OF that, of ?n "words_of xs"] assms(4,5) by simp
  have "(of_nat (pairs_with 0 ws) + of_nat (pairs_with 1 ws) + of_nat (pairs_with 2 ws) + of_nat (pairs_with 3 ws) :: u64)
      = ucast (memoryWordSize (sa_p s) div 2)"
    using pairs_with_sum [of ws] memoryWordSize_pairs [OF assms(2)] by (simp only: len of_nat_add [symmetric])
  then show ?thesis
    using assms(1,3) c [of 0] c [of 1] c [of 2] c [of 3]
    by (simp add: write_pulses_def Let_def mlc2_delays_def z split: prod.split) auto
qed


theorem write_pulses_fails_iff_witness:
  "write_pulses sa_example_env ((sa_example False)\<lparr> sa_p := sa_example_params\<lparr> sp_MLCLevels := 2 \<rparr> \<rparr>)
     ((sa_request 3 WRITE)\<lparr> rq_data := \<lparr> rawData = Some [0xFF, 0, 0, 0], isValid = True, db_size = 4 \<rparr> \<rparr>) = Inl AssertFailed"
proof -
  have w: "words_of [0xFF, 0, 0, 0] = [0xFF]" by simp
  have p: "pairs_with v [0xFF] = length (filter (\<lambda>i. pair_at 0xFF i = v) [0..<16])" for v
    by (simp add: pairs_with_def card_filter_upt)
  have "length (filter (\<lambda>i. pair_at 0xFF i = 1) [0..<16]) = 0 \<and> length (filter (\<lambda>i. pair_at 0xFF i = 2) [0..<16]) = 0
      \<and> length (filter (\<lambda>i. pair_at 0xFF i = 0) [0..<16]) = 12 \<and> length (filter (\<lambda>i. pair_at 0xFF i = 3) [0..<16]) = 4"
    by code_simp
  then show ?thesis
    using write_pulses_fails_iff [of "(sa_example False)\<lparr> sa_p := sa_example_params\<lparr> sp_MLCLevels := 2 \<rparr> \<rparr>"
        "(sa_request 3 WRITE)\<lparr> rq_data := \<lparr> rawData = Some [0xFF, 0, 0, 0], isValid = True, db_size = 4 \<rparr> \<rparr>"
        "[0xFF, 0, 0, 0]" "[0xFF]" sa_example_env AssertFailed] w p
    by (simp add: memoryWordSize_def sa_example_params_def)
qed

section \<open>Endurance of data never seen\<close>

text \<open>with an endurance model, a write to an address the data store has never seen fails
  unless the request brings valid old data: the block the bytes are set in was never allocated.\<close>

theorem unseen_write_fails:
  assumes "env_endr env = EndrModel Write" "sa_sim s = Some sim" "\<not> isValid (rq_oldData x)"
    and "memoryData sim (physicalAddress (rq_address x)) = None" "0 < sa_wordSize (sa_p s)"
  shows "UpdateEndurance env s x = Inl OutOfBounds"
proof -
  have "[0..<unat (sa_wordSize (sa_p s))] = 0 # [Suc 0..<unat (sa_wordSize (sa_p s))]"
    using assms(5) by (simp add: upt_conv_Cons unat_gt_0)
  then have "old_data (sa_p s) sim x = Inl OutOfBounds"
    using assms(3,4) by (simp add: old_data_def GetDataAtAddress_def SetByte_def NVMDataBlock_init_def)
  then show ?thesis using assms(1,2) by (simp add: UpdateEndurance_def)
qed

theorem unseen_write_fails_witness:
  "UpdateEndurance (sa_example_env\<lparr> env_endr := EndrModel (\<lambda>e x b. (e, 0)) \<rparr>)
     ((sa_example False)\<lparr> sa_sim := Some \<lparr> memoryData = Map.empty, accessCounts = Map.empty \<rparr> \<rparr>) (sa_request 3 WRITE) = Inl OutOfBounds"
  by (rule unseen_write_fails [where sim = "\<lparr> memoryData = Map.empty, accessCounts = Map.empty \<rparr>"])
    (simp_all add: sa_request_def NVMainRequest_init_def NVMDataBlock_init_def NVMAddress_init_def sa_wordSize_def sa_example_def sa_example_params_def SubArray_init_def)

end
