(* ===== verification/Nvm_SubArrayTiming.thy ===== *)
theory Nvm_SubArrayTiming
  imports Nvm_SubArray
begin

text \<open>
  The timing of a subarray. First the effect of every command on the deadlines, with frame lemmas
  for what leaves them alone; then the specification \<open>spacing\<close> of the distances between commands, and
  the runs of a subarray inside a system, in which accepted commands keep these distances.
\<close>

section \<open>What a command does to the timing\<close>

text \<open>
  The part of the state the constraints are about. Events, requests, the data store, the encoder and
  the endurance model leave it alone.
\<close>

definition timing where
  "timing s = (sa_p s, sa_now s, sa_this s, sa_children s, (sa_state s, openRow s, lastActivate s),
     (nextActivate s, nextPrecharge s, nextRead s, nextWrite s, nextPowerDown s),
     (nextActivatePreWrite s, nextPrechargePreWrite s, nextReadPreWrite s, nextWritePreWrite s, nextPowerDownPreWrite s),
     isWriting s, writeMode s, writeCycle s)"

named_theorems frame

lemma timing_simps [simp]:
  "timing (s\<lparr> sa_heap := h \<rparr>) = timing s" "timing (s\<lparr> sa_fresh := n \<rparr>) = timing s"
  "timing (s\<lparr> sa_ext := e \<rparr>) = timing s" "timing (s\<lparr> sa_sim := m \<rparr>) = timing s"
  "timing (s\<lparr> writeIterationStarts := is \<rparr>) = timing s" "timing (s\<lparr> worstCaseWrite := w \<rparr>) = timing s"
  "timing (s\<lparr> writeBackRequests := rs \<rparr>) = timing s" "timing (s\<lparr> writeEvent := ev \<rparr>) = timing s"
  "timing (s\<lparr> measuredProgresses := c \<rparr>) = timing s" "timing (s\<lparr> measuredWriteTimes := c \<rparr>) = timing s"
  "timing (s\<lparr> pausedWrites := c \<rparr>) = timing s" "timing (s\<lparr> cancelledWrites := c \<rparr>) = timing s"
  "timing (s\<lparr> cancelledWriteTime := c \<rparr>) = timing s" "timing (s\<lparr> actWaits := c \<rparr>) = timing s"
  "timing (s\<lparr> actWaitTotal := c \<rparr>) = timing s" "timing (s\<lparr> dataCycles := c \<rparr>) = timing s"
  "timing (s\<lparr> measuredPauses := c \<rparr>) = timing s"
  "timing (s\<lparr> sa_reads := c \<rparr>) = timing s" "timing (s\<lparr> sa_writes := c \<rparr>) = timing s"
  "timing (s\<lparr> sa_activates := c \<rparr>) = timing s" "timing (s\<lparr> realPrecharges := c \<rparr>) = timing s"
  "timing (s\<lparr> sa_precharges := c \<rparr>) = timing s" "timing (s\<lparr> sa_refreshes := c \<rparr>) = timing s"
  "timing (s\<lparr> writeRequest := wr \<rparr>) = timing s" "timing (s\<lparr> writeStart := c \<rparr>) = timing s"
  "timing (s\<lparr> writeEnd := c \<rparr>) = timing s" "timing (s\<lparr> writeEventTime := c \<rparr>) = timing s"
  by (simp_all add: timing_def)

lemma timing_queue: "currentCycle q = sa_now s \<Longrightarrow> timing (s\<lparr> sa_queue := q \<rparr>) = timing s"
  by (simp add: timing_def)

lemma put_req_timing [simp]: "timing (put_req s r x) = timing s"
  by (simp add: put_req_def)

lemma delete_req_timing [simp]: "timing (delete_req s r) = timing s"
  by (simp add: delete_req_def)

lemma new_copy_timing [frame]: "new_copy s x = (t, c) \<Longrightarrow> timing t = timing s"
  by (auto simp: new_copy_def)

lemma respond_timing [frame]: "respond s r w = Inr t \<Longrightarrow> timing t = timing s"
  by (auto simp: respond_def bind_res_eq_Inr InsertEvent_object_def InsertEvent_hook_def timing_queue
      split: option.splits)

lemma mlc2_delays_timing [frame]: "mlc2_delays env s a b c d = Inr (t, x) \<Longrightarrow> timing t = timing s"
  by (auto simp: mlc2_delays_def Let_def split: if_splits prod.splits)

lemma write_pulses_timing [frame]:
  assumes "write_pulses env s x = Inr (t, w)"
  shows "timing t = timing s"
proof (cases "\<exists>xs. rawData (rq_data x) = Some xs \<and> sp_MLCLevels (sa_p s) = 2")
  case True
  then obtain xs where x: "rawData (rq_data x) = Some xs" and l: "sp_MLCLevels (sa_p s) = 2" by blast
  have n: "\<not> (2 :: u64) = 1" by simp
  show ?thesis
    using assms unfolding write_pulses_def Let_def x l option.case if_not_P [OF n] if_P [OF refl]
    by (elim bind_res_elim) (auto dest!: mlc2_delays_timing)
next
  case False
  then show ?thesis using assms by (auto simp: write_pulses_def Let_def split: option.splits if_splits)
qed

lemma WriteCellData_timing [frame]:
  "WriteCellData1 env s x = Inr (t, w) \<Longrightarrow> timing t = timing s"
  "WriteCellData2 env s x = Inr (t, w) \<Longrightarrow> timing t = timing s"
  by (auto simp: WriteCellData1_def WriteCellData2_def Let_def split: if_splits dest!: write_pulses_timing)

lemma UpdateEndurance_timing [frame]: "UpdateEndurance env s x = Inr (t, w) \<Longrightarrow> timing t = timing s"
  by (auto simp: UpdateEndurance_def Let_def bind_res_eq_Inr case_prod_beta split: endr_model.splits option.splits)

lemma encode_timing [frame]: "encode f s r = Inr (t, w) \<Longrightarrow> timing t = timing s"
  by (auto simp: encode_def Let_def bind_res_eq_Inr case_prod_beta split: option.splits)

lemma read_store_timing [frame]: "read_store env s x = Inr t \<Longrightarrow> timing t = timing s"
  by (auto simp: read_store_def bind_res_eq_Inr split: option.splits endr_model.splits if_splits)

lemma write_latency_timing [frame]: "write_latency env s r = Inr (t, w) \<Longrightarrow> timing t = timing s"
  by (auto simp: write_latency_def bind_res_eq_Inr split: if_splits dest!: encode_timing UpdateEndurance_timing)

lemma cell_time_timing [frame]: "cell_time env s r = Inr (t, w) \<Longrightarrow> timing t = timing s"
  by (auto simp: cell_time_def bind_res_eq_Inr split: if_splits dest!: WriteCellData_timing)

lemma restart_write_timing [frame]: "restart_write s r = Inr t \<Longrightarrow> timing t = timing s"
  by (auto simp: restart_write_def bind_res_eq_Inr)

lemma write_time_timing [frame]: "write_time env s r = Inr (t, w) \<Longrightarrow> timing t = timing s"
  by (auto simp: write_time_def bind_res_eq_Inr dest!: write_latency_timing cell_time_timing restart_write_timing)

lemma write_back_timing [frame]: "write_back env w (s, l) = Inr (t, m) \<Longrightarrow> timing t = timing s"
  by (auto simp: write_back_def bind_res_eq_Inr dest!: frame)

lemma fold_write_back_timing [frame]: "fold_res (write_back env) ws (s, l) = Inr (t, m) \<Longrightarrow> timing t = timing s"
  by (induction ws arbitrary: s l) (auto simp: bind_res_eq_Inr dest!: write_back_timing)

lemma IsIssuable_timing [frame]: "SubArray_IsIssuable s x = Inr (t, ok) \<Longrightarrow> timing t = timing s"
  by (auto simp: SubArray_IsIssuable_def Let_def bind_res_eq_Inr split: OpType.splits if_splits)

text \<open>The five deadlines, and the one a command waits for.\<close>

datatype due_kind = Due_Activate | Due_Precharge | Due_Read | Due_Write | Due_PowerDown

fun due :: "due_kind \<Rightarrow> 'e SubArray \<Rightarrow> ncycle_t" where
  "due Due_Activate s = nextActivate s"
| "due Due_Precharge s = nextPrecharge s"
| "due Due_Read s = nextRead s"
| "due Due_Write s = nextWrite s"
| "due Due_PowerDown s = nextPowerDown s"

fun due_of :: "OpType \<Rightarrow> due_kind option" where
  "due_of ACTIVATE = Some Due_Activate"
| "due_of REFRESH = Some Due_Activate"
| "due_of READ = Some Due_Read"
| "due_of READ_PRECHARGE = Some Due_Read"
| "due_of WRITE = Some Due_Write"
| "due_of WRITE_PRECHARGE = Some Due_Write"
| "due_of PRECHARGE = Some Due_Precharge"
| "due_of PRECHARGE_ALL = Some Due_Precharge"
| "due_of POWERDOWN_PDA = Some Due_PowerDown"
| "due_of POWERDOWN_PDPF = Some Due_PowerDown"
| "due_of POWERDOWN_PDPS = Some Due_PowerDown"
| "due_of _ = None"

text \<open>
  The specification: the least distance from a command to the next one that waits for a
  deadline. \<open>n\<close> is the number of bursts and \<open>w\<close> the time the cells of a write take.
\<close>

fun spacing :: "SAParams \<Rightarrow> OpType \<Rightarrow> due_kind \<Rightarrow> u64 \<Rightarrow> ncycle_t \<Rightarrow> ncycle_t option" where
  "spacing p ACTIVATE Due_Read n w = Some (sp_tRCD p - sp_tAL p)"
| "spacing p ACTIVATE Due_Write n w = Some (sp_tRCD p - sp_tAL p)"
| "spacing p ACTIVATE Due_Precharge n w = Some (max (sp_tRCD p) (sp_tRAS p))"
| "spacing p ACTIVATE Due_PowerDown n w = Some (max (sp_tRCD p) (sp_tRAS p))"
| "spacing p READ Due_Read n w = Some (bursts p n)"
| "spacing p READ Due_Write n w = Some (bursts p (n - 1) + sp_tCAS p + sp_tBURST p + sp_tRTRS p - sp_tCWD p)"
| "spacing p READ Due_Precharge n w = Some (bursts p (n - 1) + sp_tAL p + sp_tBURST p + sp_tRTP p - sp_tCCD p)"
| "spacing p READ Due_PowerDown n w = Some (bursts p (n - 1) + sp_tCAS p + sp_tAL p + sp_tBURST p + 1)"
| "spacing p READ_PRECHARGE Due_PowerDown n w = Some (bursts p (n - 1) + sp_tCAS p + sp_tAL p + sp_tBURST p + 1)"
| "spacing p READ_PRECHARGE _ n w = Some (bursts p (n - 1) + sp_tAL p + sp_tRTP p + sp_tRP p)"
| "spacing p WRITE Due_Read n w = Some (bursts p (n - 1) + sp_tCWD p + sp_tBURST p + sp_tWTR p + w)"
| "spacing p WRITE Due_Write n w = Some (bursts p n + w)"
| "spacing p WRITE Due_Precharge n w = Some (bursts p (n - 1) + sp_tAL p + sp_tCWD p + sp_tBURST p + w + sp_tWR p)"
| "spacing p WRITE Due_PowerDown n w = Some (bursts p (n - 1) + sp_tAL p + sp_tCWD p + sp_tBURST p + w + sp_tWR p)"
| "spacing p WRITE_PRECHARGE _ n w =
     Some (bursts p (n - 1) + sp_tAL p + sp_tCWD p + sp_tBURST p + w + sp_tWR p + sp_tRP p)"
| "spacing p PRECHARGE Due_Activate n w = Some (max 1 (sp_tRP p))"
| "spacing p PRECHARGE_ALL Due_Activate n w = Some (max 1 (sp_tRP p))"
| "spacing p REFRESH Due_Activate n w = Some (sp_tRFC p)"
| "spacing p _ _ n w = None"

lemma due_timing: "timing t = timing s \<Longrightarrow> due k t = due k s"
  by (cases k) (simp_all add: timing_def)

lemma new_copy_due [simp]: "due k (fst (new_copy s x)) = due k s"
  by (cases k) (simp_all add: new_copy_def put_req_def)

lemma respond_due: "respond s r w = Inr t \<Longrightarrow> due k t = due k s"
  by (rule due_timing [OF respond_timing])

lemma respond_due_all: "respond s r w = Inr t \<Longrightarrow> \<forall>k. due k t = due k s"
  by (simp add: respond_due)

text \<open>
  The state a command meets: with write pausing a running write is interrupted first, and the
  deadlines are those from before the write.
\<close>

definition unpaused :: "'e SubArray \<Rightarrow> 'e SubArray" where
  "unpaused s = (if sp_WritePausing (sa_p s) \<and> isWriting s then restore_timing s else s)"

lemma restore_timing_cong: "timing t = timing s \<Longrightarrow> timing (restore_timing t) = timing (restore_timing s)"
  by (simp add: timing_def restore_timing_def)

lemma interrupt_write_timing: "timing (fst (interrupt_write env s w)) = timing s"
  by (simp add: interrupt_write_def Let_def)

lemma sa_queue_simps [simp]:
  "sa_queue (put_req s r x) = sa_queue s" "sa_queue (fst (interrupt_write env s w)) = sa_queue s"
  by (simp_all add: put_req_def interrupt_write_def Let_def)

lemma CheckWritePausing_timing:
  assumes "CheckWritePausing env s = Inr t"
  shows "timing t = timing (unpaused s)"
proof (cases "sp_WritePausing (sa_p s) \<and> isWriting s")
  case True
  then show ?thesis
    using assms
    by (auto simp: CheckWritePausing_def bind_res_eq_Inr Let_def case_prod_beta unpaused_def timing_queue
          interrupt_write_timing
        split: option.splits dest!: respond_timing intro!: restore_timing_cong)
next
  case False
  then show ?thesis using assms by (auto simp: CheckWritePausing_def unpaused_def)
qed

lemma timing_opened: "timing t = timing s \<Longrightarrow>
    timing (t\<lparr> openRow := a, sa_state := b, writeCycle := c, lastActivate := d \<rparr>)
      = timing (s\<lparr> openRow := a, sa_state := b, writeCycle := c, lastActivate := d \<rparr>)"
  by (simp add: timing_def)

definition activated :: "u64 \<Rightarrow> 'e SubArray \<Rightarrow> 'e SubArray" where
  "activated row s =
     (let p = sa_p s; now = sa_now s in
      s\<lparr> nextPrecharge := max (nextPrecharge s) (now + max (sp_tRCD p) (sp_tRAS p)),
         nextRead := max (nextRead s) (now + sp_tRCD p - sp_tAL p),
         nextWrite := max (nextWrite s) (now + sp_tRCD p - sp_tAL p),
         nextPowerDown := max (nextPowerDown s) (now + max (sp_tRCD p) (sp_tRAS p)),
         openRow := row, sa_state := SUBARRAY_OPEN, writeCycle := False, lastActivate := now \<rparr>)"

lemma activated_cong: "timing t = timing s \<Longrightarrow> timing (activated r t) = timing (activated r s)"
  by (simp add: timing_def activated_def Let_def)

lemma Activate_timing:
  assumes "Activate env s r = Inr (t, ok)" "get_req s r = Inr x"
  shows "if ok then nextActivate (unpaused s) \<le> sa_now s \<and> (sp_UsePrecharge (sa_p s) \<longrightarrow> sa_state s = SUBARRAY_CLOSED)
           \<and> timing t = timing (activated (na_row (rq_address x)) (unpaused s))
         else timing t = timing (unpaused s)"
proof -
  obtain u where u: "CheckWritePausing env s = Inr u" using assms by (auto simp: Activate_def bind_res_eq_Inr)
  then have tu: "timing u = timing (unpaused s)" by (rule CheckWritePausing_timing)
  have a: "timing t = timing (activated (na_row (rq_address x)) u)" if ok
    using assms u that
    by (auto simp: Activate_def bind_res_eq_Inr Let_def activated_def split: if_splits dest!: respond_timing intro!: timing_opened)
  have "sa_p u = sa_p s" "sa_now u = sa_now s" "sa_state u = sa_state s" "nextActivate u = nextActivate (unpaused s)"
    using tu by (simp_all add: timing_def unpaused_def restore_timing_def)
  moreover have "nextActivate u \<le> sa_now u" "sp_UsePrecharge (sa_p u) \<longrightarrow> sa_state u = SUBARRAY_CLOSED" if ok
    using assms u that by (auto simp: Activate_def bind_res_eq_Inr Let_def split: if_splits)
  moreover have "t = u" if "\<not> ok"
    using assms u that by (auto simp: Activate_def bind_res_eq_Inr Let_def split: if_splits)
  ultimately show ?thesis using a tu activated_cong [OF tu] by auto
qed


lemma new_copy_frame [simp]: "timing (fst (new_copy s x)) = timing s"
  by (simp add: new_copy_def)

lemma read_timing_timing:
  "read_timing s x d = Inr t \<Longrightarrow> timing t = timing (read_deadlines x d s)"
  by (auto simp: read_timing_def Let_def case_prod_beta split: if_splits dest!: respond_timing)

definition powered_down_after :: "ncycle_t \<Rightarrow> 'e SubArray \<Rightarrow> 'e SubArray" where
  "powered_down_after n s = s\<lparr> nextPowerDown := max (nextPowerDown s) n \<rparr>"

lemma powered_down_after_cong:
  "timing t = timing s \<Longrightarrow> timing (powered_down_after n t) = timing (powered_down_after n s)"
  by (simp add: timing_def powered_down_after_def)

lemma powered_down_precharge:
  "timing t = timing s \<Longrightarrow>
     timing (t\<lparr> nextPowerDown := max (nextPowerDown t) (nextPrecharge t) \<rparr>) = timing (powered_down_after (nextPrecharge s) s)"
  by (simp add: timing_def powered_down_after_def)

lemma write_timing_timing:
  "write_timing s x w = Inr t \<Longrightarrow>
     timing t = timing (powered_down_after (nextPrecharge (write_deadlines x w s)) (write_deadlines x w s))"
  by (auto simp: write_timing_def Let_def bind_res_eq_Inr case_prod_beta
     split: if_splits dest!: respond_timing intro!: powered_down_precharge)

lemma read_deadlines_cong: "timing t = timing s \<Longrightarrow> timing (read_deadlines x d t) = timing (read_deadlines x d s)"
  by (simp add: timing_def read_deadlines_def Let_def)

lemma write_deadlines_cong: "timing t = timing s \<Longrightarrow> timing (write_deadlines x d t) = timing (write_deadlines x d s)"
  by (simp add: timing_def write_deadlines_def Let_def)

text \<open>A read that is accepted, up to the latency of the decoder and the decoded request.\<close>

lemma read_report_timing: "read_report env s r x d = Inr t \<Longrightarrow> timing t = timing s"
  by (auto simp: read_report_def Let_def bind_res_eq_Inr case_prod_beta dest!: respond_timing read_store_timing)

definition reading :: "NVMainRequest \<Rightarrow> ncycle_t \<Rightarrow> 'e SubArray \<Rightarrow> 'e SubArray" where
  "reading x d s =
     powered_down_after (sa_now s + bursts (sa_p s) (rq_burstCount x - 1) + sp_tCAS (sa_p s) + sp_tAL (sa_p s)
       + sp_tBURST (sa_p s) + 1 + d) (read_deadlines x d s)"

lemma read_row_timing:
  assumes "read_row env s r = Inr t"
  obtains u x d where "encode (env_encoder_Read env) s r = Inr (u, d)" "get_req u r = Inr x"
    "timing t = timing (reading x d s)"
proof -
  obtain u x d v where e: "encode (env_encoder_Read env) s r = Inr (u, d)" and x: "get_req u r = Inr x"
    and v: "read_timing u x d = Inr v"
    and t: "read_report env (powered_down_after (sa_now v + bursts (sa_p v) (rq_burstCount x - 1)
       + sp_tCAS (sa_p v) + sp_tAL (sa_p v) + sp_tBURST (sa_p v) + 1 + d) v) r x d = Inr t"
    using assms by (auto simp: read_row_def bind_res_eq_Inr Let_def powered_down_after_def)
  have tv: "timing v = timing (read_deadlines x d s)"
    using read_timing_timing [OF v] read_deadlines_cong [OF encode_timing [OF e]] by simp
  moreover have "sa_p (read_deadlines x d s) = sa_p s \<and> sa_now (read_deadlines x d s) = sa_now s"
    by (simp add: read_deadlines_def Let_def)
  ultimately have "sa_p v = sa_p s" "sa_now v = sa_now s" by (simp_all add: timing_def)
  then show ?thesis
    using that [OF e x] read_report_timing [OF t] powered_down_after_cong [OF tv] by (simp add: reading_def)
qed

lemma timing_written:
  "timing t = timing s \<Longrightarrow> currentCycle q = sa_now t \<Longrightarrow>
     timing (t\<lparr> sa_queue := q, writeCycle := c \<rparr>) = timing (s\<lparr> writeCycle := c \<rparr>)"
  by (simp add: timing_def)

lemma respond_writeEnd: "respond s r w = Inr t \<Longrightarrow> writeEnd t = writeEnd s"
  by (auto simp: respond_def bind_res_eq_Inr)

lemma write_report_timing:
  assumes "write_report s r x w = Inr t"
  shows "timing t = timing (s\<lparr> isWriting := True, writeCycle := True \<rparr>)" "writeEnd t = sa_now s + w"
proof -
  show "timing t = timing (s\<lparr> isWriting := True, writeCycle := True \<rparr>)"
    using assms
    by (auto simp: write_report_def Let_def bind_res_eq_Inr case_prod_beta dest!: respond_timing split: option.splits
        intro!: timing_written)
  show "writeEnd t = sa_now s + w"
    using assms
    by (auto simp: write_report_def Let_def bind_res_eq_Inr case_prod_beta new_copy_def put_req_def dest!: respond_writeEnd split: option.splits)
qed

lemma save_timing_cong: "timing t = timing s \<Longrightarrow> timing (save_timing t) = timing (save_timing s)"
  by (simp add: timing_def save_timing_def)

lemma delay_write_timing [simp]: "timing (fst (delay_write s x w)) = timing s"
  by (simp add: delay_write_def case_prod_beta)

lemma write_mode_timing: "write_mode s r w e = Inr (t, v) \<Longrightarrow> timing t = timing (save_timing s)"
  by (auto simp: write_mode_def Let_def bind_res_eq_Inr case_prod_beta split: if_splits intro!: save_timing_cong)

definition writing :: "NVMainRequest \<Rightarrow> ncycle_t \<Rightarrow> 'e SubArray \<Rightarrow> 'e SubArray" where
  "writing x w s = (let u = write_deadlines x w (save_timing s) in
     (powered_down_after (nextPrecharge u) u)\<lparr> isWriting := True, writeCycle := True \<rparr>)"

lemma timing_writing:
  "timing t = timing s \<Longrightarrow> timing (t\<lparr> isWriting := a, writeCycle := c \<rparr>) = timing (s\<lparr> isWriting := a, writeCycle := c \<rparr>)"
  by (simp add: timing_def)

lemma write_row_timing:
  assumes "write_row env s r = Inr t"
  obtains u v w e x where "write_time env s r = Inr (u, w, e)" "write_mode u r w e = Inr (v, writeEnd t - sa_now s)"
    "get_req v r = Inr x" "timing t = timing (writing x (writeEnd t - sa_now s) s)"
proof -
  obtain u w e v w' x z where u: "write_time env s r = Inr (u, w, e)" and v: "write_mode u r w e = Inr (v, w')"
    and x: "get_req v r = Inr x" and z: "write_timing v x w' = Inr z" and t: "write_report z r x w' = Inr t"
    using assms by (auto simp: write_row_def bind_res_eq_Inr)
  have tv: "timing v = timing (save_timing s)"
    using write_mode_timing [OF v] save_timing_cong [OF write_time_timing [OF u]] by simp
  let ?d = "write_deadlines x w' (save_timing s)"
  have d: "timing (write_deadlines x w' v) = timing ?d" using write_deadlines_cong [OF tv] .
  then have np: "nextPrecharge (write_deadlines x w' v) = nextPrecharge ?d" by (simp add: timing_def)
  have tz: "timing z = timing (powered_down_after (nextPrecharge ?d) ?d)"
    using write_timing_timing [OF z] powered_down_after_cong [OF d, of "nextPrecharge ?d"] np by simp
  have "sa_now ?d = sa_now s" by (simp add: write_deadlines_def save_timing_def Let_def)
  with tz have "sa_now z = sa_now s" by (simp add: timing_def powered_down_after_def)
  then have w: "w' = writeEnd t - sa_now s" using write_report_timing(2) [OF t] by simp
  have "timing t = timing (writing x w' s)"
    using write_report_timing(1) [OF t] timing_writing [OF tz] by (simp add: writing_def Let_def)
  then show ?thesis using that [OF u _ x] v unfolding w by blast
qed

definition closing :: "SubArrayState \<Rightarrow> ncycle_t \<Rightarrow> 'e SubArray \<Rightarrow> 'e SubArray" where
  "closing st w s = s\<lparr> nextActivate := max (nextActivate s) (sa_now s + w), sa_state := st \<rparr>"

lemma closing_cong: "timing t = timing s \<Longrightarrow> timing (closing st w t) = timing (closing st w s)"
  by (simp add: timing_def closing_def)

lemma timing_closed:
  "timing t = timing (u\<lparr> nextActivate := max (nextActivate u) (sa_now s + w) \<rparr>) \<Longrightarrow> timing u = timing s \<Longrightarrow>
     timing (t\<lparr> sa_state := st \<rparr>) = timing (closing st w s)"
  by (simp add: timing_def closing_def)

lemma Refresh_timing:
  assumes "Refresh s r = Inr (t, ok)"
  shows "if ok then nextActivate s \<le> sa_now s \<and> sa_state s = SUBARRAY_CLOSED
           \<and> timing t = timing (closing SUBARRAY_REFRESHING (sp_tRFC (sa_p s)) s) else t = s"
  using assms by (auto simp: Refresh_def Let_def bind_res_eq_Inr dest!: respond_timing intro!: timing_closed split: if_splits)

lemma precharge_time_timing [frame]:
  assumes "precharge_time env s r = Inr (t, w)"
  shows "timing t = timing s" "writeMode s \<noteq> WRITE_BACK \<Longrightarrow> w = max 1 (sp_tRP (sa_p s))"
proof -
  show "timing t = timing s"
    using assms by (auto simp: precharge_time_def Let_def bind_res_eq_Inr split: if_splits
        dest!: fold_write_back_timing WriteCellData_timing)
  show "w = max 1 (sp_tRP (sa_p s))" if "writeMode s \<noteq> WRITE_BACK"
    using assms that by (auto simp: precharge_time_def)
qed

lemma Precharge_timing:
  assumes "Precharge env s r = Inr (t, ok)"
  shows "if ok then nextPrecharge s \<le> sa_now s \<and> (sa_state s = SUBARRAY_CLOSED \<or> sa_state s = SUBARRAY_OPEN)
           \<and> (\<exists>w. (writeMode s \<noteq> WRITE_BACK \<longrightarrow> w = max 1 (sp_tRP (sa_p s)))
               \<and> timing t = timing (closing SUBARRAY_PRECHARGING w s)) else t = s"
proof (cases ok)
  case True
  then have g: "\<not> sa_now s < nextPrecharge s" "\<not> (sa_state s \<noteq> SUBARRAY_CLOSED \<and> sa_state s \<noteq> SUBARRAY_OPEN)"
    using assms by (auto simp: Precharge_def Let_def split: if_splits)
  obtain u w x v where u: "precharge_time env s r = Inr (u, w)"
    and v: "respond (put_req (u\<lparr> nextActivate := max (nextActivate u) (sa_now s + w) \<rparr>) r x) r (sa_now s + w) = Inr v"
    and t: "timing t = timing (v\<lparr> sa_state := SUBARRAY_PRECHARGING \<rparr>)"
    using assms True unfolding Precharge_def Let_def if_not_P [OF g(1)] if_not_P [OF g(2)]
    by (elim bind_res_elim) (auto elim!: bind_res_elim)
  have "timing v = timing (u\<lparr> nextActivate := max (nextActivate u) (sa_now s + w) \<rparr>)"
    using respond_timing [OF v] by simp
  then have "timing t = timing (closing SUBARRAY_PRECHARGING w s)"
    using t timing_closed precharge_time_timing(1) [OF u] by simp
  then show ?thesis using True g precharge_time_timing(2) [OF u] by auto
next
  case False
  then show ?thesis using assms by (auto simp: Precharge_def Let_def bind_res_eq_Inr split: if_splits)
qed

lemma Write_timing:
  assumes "SubArray_Write env s r = Inr (t, ok)" "get_req s r = Inr x"
  shows "if ok then nextWrite s \<le> sa_now s \<and> sa_state s = SUBARRAY_OPEN \<and> openRow s = na_row (rq_address x)
           \<and> write_row env s r = Inr t else t = s"
  using assms by (auto simp: SubArray_Write_def bind_res_eq_Inr split: if_splits)

lemma Read_timing:
  assumes "SubArray_Read env s r = Inr (t, ok)" "get_req s r = Inr x"
  obtains u where "CheckWritePausing env s = Inr u" "timing u = timing (unpaused s)"
    "if ok then nextRead (unpaused s) \<le> sa_now s \<and> sa_state s = SUBARRAY_OPEN \<and> openRow s = na_row (rq_address x)
           \<and> read_row env u r = Inr t else t = u"
proof -
  obtain u where u: "CheckWritePausing env s = Inr u" using assms by (auto simp: SubArray_Read_def bind_res_eq_Inr)
  then have tu: "timing u = timing (unpaused s)" by (rule CheckWritePausing_timing)
  then have "sa_now u = sa_now s" "sa_state u = sa_state s" "openRow u = openRow s" "nextRead u = nextRead (unpaused s)"
    by (simp_all add: timing_def unpaused_def restore_timing_def)
  then show ?thesis
    using assms by (intro that [OF u tu]) (auto simp: SubArray_Read_def u bind_res_eq_Inr split: if_splits)
qed

text \<open>The encoder may change the data of a request, not what it is.\<close>

definition same_command :: "NVMainRequest \<Rightarrow> NVMainRequest \<Rightarrow> bool" where
  "same_command x y \<longleftrightarrow> rq_type y = rq_type x \<and> rq_burstCount y = rq_burstCount x"

definition encoder_keeps :: "('e \<Rightarrow> NVMainRequest \<Rightarrow> 'e \<times> NVMainRequest \<times> int) option \<Rightarrow> bool" where
  "encoder_keeps f \<longleftrightarrow> (\<forall>enc e x. f = Some enc \<longrightarrow> same_command x (fst (snd (enc e x))))"

definition encoder_instant :: "('e \<Rightarrow> NVMainRequest \<Rightarrow> 'e \<times> NVMainRequest \<times> int) option \<Rightarrow> bool" where
  "encoder_instant f \<longleftrightarrow> (\<forall>enc e x. f = Some enc \<longrightarrow> snd (snd (enc e x)) = 0)"

lemma get_req_put_req [simp]: "get_req (put_req s r x) r = Inr x"
  by (simp add: get_req_def put_req_def)

lemma get_req_heap: "sa_heap t = sa_heap s \<Longrightarrow> get_req t r = get_req s r"
  by (simp add: get_req_def)

lemma write_pulses_heap:
  assumes "write_pulses env s x = Inr (t, w)"
  shows "sa_heap t = sa_heap s"
proof (cases "\<exists>xs. rawData (rq_data x) = Some xs \<and> sp_MLCLevels (sa_p s) = 2")
  case True
  then obtain xs where x: "rawData (rq_data x) = Some xs" and l: "sp_MLCLevels (sa_p s) = 2" by blast
  have n: "\<not> (2 :: u64) = 1" by simp
  have m: "mlc2_delays env s a b c d = Inr (u, y) \<Longrightarrow> sa_heap u = sa_heap s" for a b c d u y
    by (auto simp: mlc2_delays_def Let_def split: if_splits prod.splits)
  show ?thesis
    using assms unfolding write_pulses_def Let_def x l option.case if_not_P [OF n] if_P [OF refl]
    by (elim bind_res_elim) (auto dest!: m)
next
  case False
  then show ?thesis using assms by (auto simp: write_pulses_def Let_def split: option.splits if_splits)
qed

lemma WriteCellData1_heap: "WriteCellData1 env s x = Inr (t, w) \<Longrightarrow> sa_heap t = sa_heap s"
  by (auto simp: WriteCellData1_def Let_def split: if_splits dest!: write_pulses_heap)

lemma UpdateEndurance_heap: "UpdateEndurance env s x = Inr (t, w) \<Longrightarrow> sa_heap t = sa_heap s"
  by (auto simp: UpdateEndurance_def Let_def bind_res_eq_Inr case_prod_beta split: endr_model.splits option.splits)

lemma encode_command:
  assumes "encode f s r = Inr (t, d)" "get_req s r = Inr x" "encoder_keeps f"
  obtains y where "get_req t r = Inr y" "same_command x y"
  using assms
  by (auto simp: encode_def Let_def bind_res_eq_Inr case_prod_beta encoder_keeps_def same_command_def get_req_def put_req_def
      split: option.splits)

lemma encode_instant: "encode f s r = Inr (t, d) \<Longrightarrow> encoder_instant f \<Longrightarrow> d = 0"
  by (auto simp: encode_def Let_def bind_res_eq_Inr case_prod_beta encoder_instant_def split: option.splits)

lemma same_command_del [simp]: "same_command x (del_flag f y) = same_command x y"
  by (simp add: same_command_def del_flag_def)

lemma write_latency_command:
  assumes a: "write_latency env s r = Inr (a, l)" and x: "get_req s r = Inr x" and k: "encoder_keeps (env_encoder_Write env)"
  shows "\<exists>y. get_req a r = Inr y \<and> same_command x y"
proof (cases "writeMode s = WRITE_THROUGH")
  case True
  then obtain b c where b: "encode (env_encoder_Write env) s r = Inr (b, c)" "sa_heap a = sa_heap b"
    using a by (auto simp: write_latency_def bind_res_eq_Inr dest!: UpdateEndurance_heap)
  then show ?thesis using encode_command [OF b(1) x k] get_req_heap [OF b(2)] by metis
next
  case False
  then show ?thesis using a x by (simp add: write_latency_def same_command_def)
qed

lemma cell_time_command:
  assumes "cell_time env s r = Inr (t, w)" "get_req s r = Inr x"
  shows "\<exists>y. get_req t r = Inr y \<and> same_command x y"
proof (cases "has_flag FLAG_PAUSED x")
  case True
  then show ?thesis using assms by (auto simp: cell_time_def bind_res_eq_Inr same_command_def del_flag_def)
next
  case False
  then obtain a v where "WriteCellData1 env s x = Inr (a, v)" "WriteCellData1 env a x = Inr (t, w)"
    using assms unfolding cell_time_def by (elim bind_res_elim) auto
  then have "sa_heap t = sa_heap s" by (simp add: WriteCellData1_heap [of env a x t w] WriteCellData1_heap [of env s x a v])
  then show ?thesis using assms(2) get_req_heap [of t s r] by (simp add: same_command_def)
qed

lemma restart_write_command:
  "restart_write s r = Inr t \<Longrightarrow> get_req s r = Inr x \<Longrightarrow> \<exists>y. get_req t r = Inr y \<and> same_command x y"
  by (auto simp: restart_write_def same_command_def del_flag_def)

lemma same_command_trans: "same_command x y \<Longrightarrow> same_command y z \<Longrightarrow> same_command x z"
  by (simp add: same_command_def)

lemma write_time_command:
  assumes t: "write_time env s r = Inr (t, w, e)" and x: "get_req s r = Inr x" and k: "encoder_keeps (env_encoder_Write env)"
  obtains y where "get_req t r = Inr y" "same_command x y"
proof -
  obtain a b where a: "write_latency env s r = Inr (a, e)" and b: "cell_time env a r = Inr (b, w)"
    and t: "restart_write b r = Inr t"
    using t by (auto simp: write_time_def bind_res_eq_Inr)
  show ?thesis
    using write_latency_command [OF a x k] cell_time_command [OF b] restart_write_command [OF t] that same_command_trans
    by metis
qed

lemma write_mode_command:
  assumes "write_mode s r w e = Inr (t, v)" "get_req s r = Inr x" "writeMode s = WRITE_THROUGH"
  obtains y where "get_req t r = Inr y" "same_command x y"
  using assms
  by (auto simp: write_mode_def Let_def bind_res_eq_Inr case_prod_beta delay_write_def same_command_def save_timing_def
     get_req_def put_req_def)

section \<open>Commands keep their distance\<close>

text \<open>
  What one command does, refused or accepted: deadlines only move up; an accepted command had
  its deadline behind it and pushes the deadlines of the others by the specified distance.
\<close>

definition paced :: "'e SubArray \<Rightarrow> OpType \<Rightarrow> u64 \<Rightarrow> 'e SubArray \<Rightarrow> bool \<Rightarrow> bool" where
  "paced s c n t ok \<longleftrightarrow> sa_p t = sa_p s \<and> sa_now t = sa_now s \<and> writeMode t = writeMode s \<and> (\<forall>k. due k s \<le> due k t) \<and>
     (ok \<longrightarrow> (\<forall>k. due_of c = Some k \<longrightarrow> due k s \<le> sa_now s)
       \<and> (\<forall>k g. spacing (sa_p s) c k n (writeEnd t - sa_now s) = Some g \<longrightarrow> sa_now s + g \<le> due k t))"

lemma paced_refused: "timing t = timing s \<Longrightarrow> paced s c n t False"
  by (simp add: paced_def due_timing [of t s]) (simp add: timing_def)

text \<open>An accepted command is judged by the deadlines it leaves.\<close>

lemma paced_accepted:
  assumes "timing t = timing u" "sa_p u = sa_p s" "sa_now u = sa_now s" "writeMode u = writeMode s"
    and "\<And>k. due k s \<le> due k u" "\<And>k. due_of c = Some k \<Longrightarrow> due k s \<le> sa_now s"
    and "\<And>k g. spacing (sa_p s) c k n (writeEnd t - sa_now s) = Some g \<Longrightarrow> sa_now s + g \<le> due k u"
  shows "paced s c n t ok"
proof -
  have "sa_p t = sa_p u" "sa_now t = sa_now u" "writeMode t = writeMode u" using assms(1) by (simp_all add: timing_def)
  then show ?thesis using assms due_timing [OF assms(1)] by (simp add: paced_def)
qed

lemma unpaused_off: "\<not> sp_WritePausing (sa_p s) \<Longrightarrow> unpaused s = s"
  by (simp add: unpaused_def)

lemma activated_due:
  "due k s \<le> due k (activated row s)"
  "spacing (sa_p s) ACTIVATE k n w = Some g \<Longrightarrow> sa_now s + g \<le> due k (activated row s)"
  by (cases k; auto simp: activated_def Let_def le_max_iff_disj algebra_simps)+

lemma read_due:
  assumes "rq_type x = c" "c = READ \<or> c = READ_PRECHARGE"
  shows "due k s \<le> due k (reading x d s)"
    and "d = 0 \<Longrightarrow> spacing (sa_p s) c k (rq_burstCount x) w = Some g \<Longrightarrow> sa_now s + g \<le> due k (reading x d s)"
  using assms
  by (cases k; auto simp: reading_def read_deadlines_def powered_down_after_def Let_def le_max_iff_disj algebra_simps)+

lemma writing_due:
  assumes "rq_type x = c" "c = WRITE \<or> c = WRITE_PRECHARGE"
  shows "due k s \<le> due k (writing x w s)"
    and "spacing (sa_p s) c k (rq_burstCount x) w = Some g \<Longrightarrow> sa_now s + g \<le> due k (writing x w s)"
  using assms
  by (cases k; auto simp: write_deadlines_def powered_down_after_def writing_def save_timing_def Let_def le_max_iff_disj algebra_simps)+

lemma closing_due: "due k s \<le> due k (closing st w s)" "sa_now s + w \<le> due Due_Activate (closing st w s)"
  by (cases k; simp add: closing_def)+

lemma command_frame [simp]:
  "sa_p (activated row s) = sa_p s" "sa_queue (activated row s) = sa_queue s" "writeMode (activated row s) = writeMode s"
  "sa_p (reading x d s) = sa_p s" "sa_queue (reading x d s) = sa_queue s" "writeMode (reading x d s) = writeMode s"
  "sa_p (writing x w s) = sa_p s" "sa_queue (writing x w s) = sa_queue s" "writeMode (writing x w s) = writeMode s"
  "sa_p (closing st w s) = sa_p s" "sa_queue (closing st w s) = sa_queue s" "writeMode (closing st w s) = writeMode s"
  by (simp_all add: activated_def reading_def read_deadlines_def writing_def write_deadlines_def powered_down_after_def
      closing_def save_timing_def Let_def)

lemma Activate_paced:
  assumes "Activate env s r = Inr (t, ok)" "get_req s r = Inr x" "\<not> sp_WritePausing (sa_p s)"
  shows "paced s ACTIVATE n t ok"
proof (cases ok)
  case True
  then have a: "nextActivate s \<le> sa_now s" "timing t = timing (activated (na_row (rq_address x)) s)"
    using Activate_timing [OF assms(1,2)] assms(3) by (simp_all add: unpaused_off)
  show ?thesis
    by (rule paced_accepted [OF a(2)]) (use a(1) activated_due in auto)
next
  case False
  then show ?thesis using Activate_timing [OF assms(1,2)] assms(3) by (simp add: unpaused_off paced_refused)
qed

lemma Read_paced:
  assumes r: "SubArray_Read env s r = Inr (t, ok)" and x: "get_req s r = Inr x" and p: "\<not> sp_WritePausing (sa_p s)"
    and e: "encoder_keeps (env_encoder_Read env)" "encoder_instant (env_encoder_Read env)"
    and c: "rq_type x = READ \<or> rq_type x = READ_PRECHARGE"
  shows "paced s (rq_type x) (rq_burstCount x) t ok"
proof -
  have u: "CheckWritePausing env s = Inr s" using p by (simp add: CheckWritePausing_def)
  have g: "if ok then nextRead s \<le> sa_now s \<and> read_row env s r = Inr t else t = s"
    using Read_timing [OF r x] u unpaused_off [OF p] by (metis sum.inject(2))
  show ?thesis
  proof (cases ok)
    case True
    then have n: "nextRead s \<le> sa_now s" and t: "read_row env s r = Inr t" using g by simp_all
    obtain a y d where a: "encode (env_encoder_Read env) s r = Inr (a, d)" "get_req a r = Inr y"
      and u: "timing t = timing (reading y d s)"
      using read_row_timing [OF t] .
    have y: "same_command x y" "d = 0" using encode_command [OF a(1) x e(1)] a encode_instant [OF a(1) e(2)] by auto
    then have yc: "rq_type y = rq_type x" "rq_type x = READ \<or> rq_type x = READ_PRECHARGE" using c by (simp_all add: same_command_def)
    have sp: "spacing (sa_p s) (rq_type x) k (rq_burstCount x) w = Some g \<Longrightarrow> sa_now s + g \<le> due k (reading y d s)" for k w g
      using read_due(2) [OF yc y(2), of s k w g] y by (simp add: same_command_def)
    show ?thesis by (rule paced_accepted [OF u _ _ _ read_due(1) [OF yc] _ sp]) (use n c in auto)
  next
    case False
    then show ?thesis using g by (simp add: paced_refused)
  qed
qed

lemma Write_paced:
  assumes r: "SubArray_Write env s r = Inr (t, ok)" and x: "get_req s r = Inr x"
    and e: "encoder_keeps (env_encoder_Write env)" and m: "writeMode s = WRITE_THROUGH"
    and c: "rq_type x = WRITE \<or> rq_type x = WRITE_PRECHARGE"
  shows "paced s (rq_type x) (rq_burstCount x) t ok"
proof (cases ok)
  case True
  then have n: "nextWrite s \<le> sa_now s" and t: "write_row env s r = Inr t" using Write_timing [OF r x] by simp_all
  obtain u v w l y where u: "write_time env s r = Inr (u, w, l)" and v: "write_mode u r w l = Inr (v, writeEnd t - sa_now s)"
    and y: "get_req v r = Inr y" and tt: "timing t = timing (writing y (writeEnd t - sa_now s) s)"
    using write_row_timing [OF t] .
  have "writeMode u = WRITE_THROUGH" using write_time_timing [OF u] m by (simp add: timing_def)
  then have y: "same_command x y"
    using write_time_command [OF u x e] write_mode_command [OF v] y same_command_trans by (metis sum.inject(2))
  then have yc: "rq_type y = rq_type x" "rq_type x = WRITE \<or> rq_type x = WRITE_PRECHARGE" using c by (simp_all add: same_command_def)
  have sp: "spacing (sa_p s) (rq_type x) k (rq_burstCount x) w = Some g \<Longrightarrow> sa_now s + g \<le> due k (writing y w s)" for k w g
    using writing_due(2) [OF yc, of s k w g] y by (simp add: same_command_def)
  show ?thesis by (rule paced_accepted [OF tt _ _ _ writing_due(1) [OF yc] _ sp]) (use n c in auto)
next
  case False
  then show ?thesis using Write_timing [OF r x] by (simp add: paced_refused)
qed

lemma Precharge_paced:
  assumes "Precharge env s r = Inr (t, ok)" "writeMode s = WRITE_THROUGH" "c = PRECHARGE \<or> c = PRECHARGE_ALL"
  shows "paced s c n t ok"
proof (cases ok)
  case True
  then have g: "nextPrecharge s \<le> sa_now s"
    and t: "timing t = timing (closing SUBARRAY_PRECHARGING (max 1 (sp_tRP (sa_p s))) s)"
    using Precharge_timing [OF assms(1)] assms(2) by auto
  have sp: "spacing (sa_p s) c k n w = Some h \<Longrightarrow> sa_now s + h \<le> due k (closing SUBARRAY_PRECHARGING (max 1 (sp_tRP (sa_p s))) s)" for k w h
    using assms(3) closing_due(2) [of s "max 1 (sp_tRP (sa_p s))" SUBARRAY_PRECHARGING] by (cases k) auto
  show ?thesis by (rule paced_accepted [OF t _ _ _ closing_due(1) _ sp]) (use g assms(3) in auto)
next
  case False
  then show ?thesis using Precharge_timing [OF assms(1)] by (simp add: paced_refused)
qed

lemma Refresh_paced:
  assumes "Refresh s r = Inr (t, ok)"
  shows "paced s REFRESH n t ok"
proof (cases ok)
  case True
  then have g: "nextActivate s \<le> sa_now s" and t: "timing t = timing (closing SUBARRAY_REFRESHING (sp_tRFC (sa_p s)) s)"
    using Refresh_timing [OF assms(1)] by auto
  have sp: "spacing (sa_p s) REFRESH k n w = Some h \<Longrightarrow> sa_now s + h \<le> due k (closing SUBARRAY_REFRESHING (sp_tRFC (sa_p s)) s)" for k w h
    using closing_due(2) [of s "sp_tRFC (sa_p s)" SUBARRAY_REFRESHING] by (cases k) auto
  show ?thesis by (rule paced_accepted [OF t _ _ _ closing_due(1) _ sp]) (use g in auto)
next
  case False
  then show ?thesis using Refresh_timing [OF assms] by (simp add: paced_refused)
qed

lemma paced_from: "timing s' = timing s \<Longrightarrow> paced s' c n t ok \<Longrightarrow> paced s c n t ok"
  by (simp add: paced_def due_timing [of s' s]) (simp add: timing_def)

lemma IsIssuable_heap: "SubArray_IsIssuable s x = Inr (t, ok) \<Longrightarrow> sa_heap t = sa_heap s"
  by (auto simp: SubArray_IsIssuable_def Let_def bind_res_eq_Inr split: OpType.splits if_splits)

text \<open>
  Subarrays that write through and do not pause writes, with an encoder that keeps commands and
  decodes at once.
\<close>

definition sa_plain :: "'e sa_env \<Rightarrow> 'e SubArray \<Rightarrow> bool" where
  "sa_plain env s \<longleftrightarrow> \<not> sp_WritePausing (sa_p s) \<and> writeMode s = WRITE_THROUGH
     \<and> encoder_keeps (env_encoder_Write env) \<and> encoder_keeps (env_encoder_Read env) \<and> encoder_instant (env_encoder_Read env)"

lemma sa_plain_timing: "timing t = timing s \<Longrightarrow> sa_plain env t = sa_plain env s"
  by (simp add: sa_plain_def timing_def)

lemma powerdown_paced:
  assumes "timing t = timing s" "rq_type x \<notin> {ACTIVATE, READ, READ_PRECHARGE, WRITE, WRITE_PRECHARGE, PRECHARGE, PRECHARGE_ALL, REFRESH}"
    and "SubArray_IsIssuable s x = Inr (t, True)"
  shows "paced s (rq_type x) n t True"
  by (rule paced_accepted [OF assms(1)])
    (use assms in \<open>cases "rq_type x"; auto simp: SubArray_IsIssuable_def\<close>)+

lemma IssueCommand_paced:
  assumes i: "SubArray_IssueCommand env s r = Inr (t, ok)" and x: "get_req s r = Inr x" and p: "sa_plain env s"
  shows "paced s (rq_type x) (rq_burstCount x) t ok"
proof -
  obtain u b where u: "SubArray_IsIssuable s x = Inr (u, b)"
    and t: "if \<not> b then t = u \<and> \<not> ok else (case rq_type x of
            ACTIVATE \<Rightarrow> Activate env u r | READ \<Rightarrow> SubArray_Read env u r | READ_PRECHARGE \<Rightarrow> SubArray_Read env u r
          | WRITE \<Rightarrow> SubArray_Write env u r | WRITE_PRECHARGE \<Rightarrow> SubArray_Write env u r
          | PRECHARGE \<Rightarrow> Precharge env u r | PRECHARGE_ALL \<Rightarrow> Precharge env u r | REFRESH \<Rightarrow> Refresh u r
          | _ \<Rightarrow> Inr (u, True)) = Inr (t, ok)"
    using i x by (auto simp: SubArray_IssueCommand_def bind_res_eq_Inr split: if_splits)
  have tu: "timing u = timing s" by (rule IsIssuable_timing [OF u])
  have xu: "get_req u r = Inr x" using x get_req_heap [OF IsIssuable_heap [OF u], of r] by simp
  have pu: "\<not> sp_WritePausing (sa_p u)" "writeMode u = WRITE_THROUGH" "encoder_keeps (env_encoder_Write env)"
      "encoder_keeps (env_encoder_Read env)" "encoder_instant (env_encoder_Read env)"
    using p sa_plain_timing [OF tu, of env] by (simp_all add: sa_plain_def)
  show ?thesis
  proof (cases b)
    case False
    then show ?thesis using t tu by (simp add: paced_refused)
  next
    case True
    show ?thesis
    proof (cases "rq_type x \<in> {ACTIVATE, READ, READ_PRECHARGE, WRITE, WRITE_PRECHARGE, PRECHARGE, PRECHARGE_ALL, REFRESH}")
      case True
      have "paced u (rq_type x) (rq_burstCount x) t ok"
        using True \<open>b\<close> t xu pu Activate_paced [of env u r t ok x] Read_paced [of env u r t ok x] Write_paced [of env u r t ok x]
          Precharge_paced [of env u r t ok] Refresh_paced [of u r t ok]
        by auto
      then show ?thesis by (rule paced_from [OF tu])
    next
      case False
      then have "t = u" "ok" using \<open>b\<close> t by (cases "rq_type x"; simp)+
      then show ?thesis using powerdown_paced [OF tu False] u \<open>b\<close> by simp
    qed
  qed
qed

text \<open>
  One step of the subarray in the running system: a command is issued, accepted or not; a request
  completes; or something else happens, other components change the event queue, the requests
  and the encoder's state, and time may pass.
\<close>

inductive sa_step :: "'e sa_env \<Rightarrow> 'e SubArray \<Rightarrow> 'e SubArray \<Rightarrow> bool" for env where
  issue: "SubArray_IssueCommand env s r = Inr (t, ok) \<Longrightarrow> sa_step env s t"
| complete: "SubArray_RequestComplete s r = Inr (t, up) \<Longrightarrow> sa_step env s t"
| outside: "sa_now s \<le> currentCycle q \<Longrightarrow> t = s\<lparr> sa_queue := q, sa_fresh := n, sa_heap := h, sa_ext := e \<rparr> \<Longrightarrow> sa_step env s t"

lemma finish_write_due: "due k (finish_write s r x) = due k s" "sa_queue (finish_write s r x) = sa_queue s"
    "sa_p (finish_write s r x) = sa_p s" "writeMode (finish_write s r x) = writeMode s"
  by (cases k; simp add: finish_write_def)+

lemma finish_own_due:
  assumes "finish_own s r x = Inr t"
  shows "due k t = due k s" "sa_now t = sa_now s" "sa_p t = sa_p s" "writeMode t = writeMode s"
proof -
  define u where "u = (put_req s r (x\<lparr> rq_type := PRECHARGE \<rparr>))\<lparr> sa_state := SUBARRAY_PRECHARGING \<rparr>"
  have "due k u = due k s \<and> sa_now u = sa_now s \<and> sa_p u = sa_p s \<and> writeMode u = writeMode s"
    by (cases k) (simp_all add: u_def put_req_def)
  moreover have "due k v = due k u \<and> sa_now v = sa_now u \<and> sa_p v = sa_p u \<and> writeMode v = writeMode u"
    if "respond u r w = Inr v" for v w
    using respond_timing [OF that] due_timing [OF respond_timing [OF that], of k] by (simp add: timing_def)
  moreover have "due k (finish_close s r) = due k s \<and> due k (delete_req s r) = due k s"
    by (cases k) (simp_all add: finish_close_def delete_req_def)
  moreover have "due k (v\<lparr> sa_precharges := c \<rparr>) = due k v" "due k (v\<lparr> sa_refreshes := c \<rparr>) = due k v" for c and v :: "'a SubArray"
    by (cases k; simp)+
  ultimately show "due k t = due k s" "sa_now t = sa_now s" "sa_p t = sa_p s" "writeMode t = writeMode s"
    using assms
    by (auto simp: finish_own_def finish_precharge_def finish_close_def delete_req_def simp flip: u_def split: OpType.splits)
qed

lemma RequestComplete_due:
  assumes "SubArray_RequestComplete s r = Inr (t, up)"
  shows "due k t = due k s" "sa_now t = sa_now s" "sa_p t = sa_p s" "writeMode t = writeMode s"
proof -
  obtain x where "t = finish_write s r x \<or> finish_own (finish_write s r x) r x = Inr t"
    using assms by (auto simp: SubArray_RequestComplete_def Let_def bind_res_eq_Inr split: if_splits)
  then show "due k t = due k s" "sa_now t = sa_now s" "sa_p t = sa_p s" "writeMode t = writeMode s"
    using finish_own_due [of "finish_write s r x" r x t] finish_write_due by metis+
qed

section \<open>Runs\<close>

text \<open>
  Deadlines that never move back, under an invariant. A client that refuses to act before a
  deadline is then held by every deadline of the past.
\<close>

locale deadlines =
  fixes step :: "'s \<Rightarrow> 's \<Rightarrow> bool" and ok_state :: "'s \<Rightarrow> bool"
    and deadline :: "'k \<Rightarrow> 's \<Rightarrow> ncycle_t" and clock :: "'s \<Rightarrow> ncycle_t"
  assumes ok_step: "ok_state s \<Longrightarrow> step s t \<Longrightarrow> ok_state t"
    and deadline_step: "ok_state s \<Longrightarrow> step s t \<Longrightarrow> deadline k s \<le> deadline k t"
    and clock_step: "ok_state s \<Longrightarrow> step s t \<Longrightarrow> clock s \<le> clock t"
begin

lemma run_mono:
  assumes "step\<^sup>*\<^sup>* s t" "ok_state s"
  shows "ok_state t \<and> deadline k s \<le> deadline k t \<and> clock s \<le> clock t"
  using assms
proof (induction rule: rtranclp_induct)
  case (step t u)
  then show ?case using ok_step [of t u] deadline_step [of t u k] clock_step [of t u] by (auto intro: order_trans)
qed simp

lemma held:
  assumes "step\<^sup>*\<^sup>* s t" "ok_state s" "c \<le> deadline k s" "deadline k t \<le> clock t"
  shows "c \<le> clock t"
  using run_mono [OF assms(1,2), of k] assms(3,4) by (meson order_trans)

end

lemma sa_step_mono:
  assumes "sa_step env s t" "sa_plain env s"
  shows "sa_plain env t \<and> due k s \<le> due k t \<and> sa_now s \<le> sa_now t"
  using assms
proof (cases rule: sa_step.cases)
  case (issue r ok)
  then obtain x where "get_req s r = Inr x" by (auto simp: SubArray_IssueCommand_def bind_res_eq_Inr)
  then show ?thesis using IssueCommand_paced [OF issue] assms(2) by (simp add: paced_def sa_plain_def)
next
  case (complete r up)
  then show ?thesis using RequestComplete_due [OF complete] assms(2) by (simp add: sa_plain_def)
next
  case (outside q n h e)
  then show ?thesis using assms(2) by (cases k) (simp_all add: sa_plain_def)
qed

interpretation sa: deadlines "sa_step env" "sa_plain env" due sa_now for env
  by unfold_locales (use sa_step_mono in blast)+

section \<open>Spacing\<close>

lemma sa_at_step: "sa_now s \<le> n \<Longrightarrow> sa_step env s (sa_at n s)"
  by (rule sa_step.outside [where q = "(sa_queue s)\<lparr> currentCycle := n \<rparr>" and n = "sa_fresh s" and h = "sa_heap s" and e = "sa_ext s"])
    (simp, cases s, simp add: sa_at_def)

lemma sa_example_reachable:
  "(sa_step env)\<^sup>*\<^sup>* (SubArray_init (sa_example_params\<lparr> sp_WritePausing := b \<rparr>) 7 [(3, 7)] EventQueue_init 100 () None) (sa_example b)"
  by (rule r_into_rtranclp, rule sa_step.outside [where q = EventQueue_init and n = 100 and e = "()"])
    (simp_all add: sa_example_def SubArray_init_def)

lemma sa_example_plain: "sa_plain sa_example_env (sa_example False)"
  by (simp add: sa_plain_def sa_example_def sa_example_env_def sa_example_params_def SubArray_init_def encoder_keeps_def encoder_instant_def)

text \<open>C9: DRAM timing over whole runs. In any run of a subarray that does not pause writes,
  interleaved with everything the rest of the system does, two accepted commands are at least the
  specified distance apart, row cycle, read-to-write, write recovery and refresh included, for
  every pair of commands and however many commands, refusals and completions lie between.\<close>

theorem accepted_commands_keep_spacing:
  assumes "sa_plain env s" "sa_heap s r = Some x" "SubArray_IssueCommand env s r = Inr (s1, True)"
    and "(sa_step env)\<^sup>*\<^sup>* s1 s2"
    and "sa_heap s2 q = Some y" "SubArray_IssueCommand env s2 q = Inr (s3, True)" "due_of (rq_type y) = Some k"
    and "spacing (sa_p s) (rq_type x) k (rq_burstCount x) (writeEnd s1 - sa_now s) = Some g"
  shows "sa_now s + g \<le> sa_now s2"
proof -
  have x: "get_req s r = Inr x" and y: "get_req s2 q = Inr y" using assms(2,5) by (simp_all add: get_req_def)
  have p: "paced s (rq_type x) (rq_burstCount x) s1 True" by (rule IssueCommand_paced [OF assms(3) x assms(1)])
  then have p1: "sa_plain env s1" using assms(1) by (simp add: paced_def sa_plain_def)
  then have "paced s2 (rq_type y) (rq_burstCount y) s3 True"
    using IssueCommand_paced [OF assms(6) y] sa.run_mono [OF assms(4)] by blast
  then have "due k s2 \<le> sa_now s2" using assms(7) by (simp add: paced_def)
  moreover have "sa_now s + g \<le> due k s1" using p assms(8) by (simp add: paced_def)
  ultimately show ?thesis using sa.held [OF assms(4) p1] by blast
qed

theorem accepted_commands_keep_spacing_witness:
  "let s = sa_example False; s1 = sa_after sa_example_env s 1; s2 = sa_at 4 s1
   in SubArray_IssueCommand sa_example_env s 1 = Inr (s1, True) \<and> sa_accepts sa_example_env s2 2
     \<and> sa_now s + 4 \<le> sa_now s2"
proof -
  let ?s = "sa_example False" let ?s1 = "sa_after sa_example_env ?s 1" let ?s2 = "sa_at 4 ?s1"
  have a: "sa_accepts sa_example_env ?s 1" and b: "sa_accepts sa_example_env ?s2 2" by code_simp+
  have "sa_now ?s1 \<le> 4" by code_simp
  then have n: "(sa_step sa_example_env)\<^sup>*\<^sup>* ?s1 ?s2" by (intro r_into_rtranclp sa_at_step)
  have "map_option rq_type (sa_heap ?s2 2) = Some READ" by code_simp
  then obtain y where y: "sa_heap ?s2 2 = Some y" "rq_type y = READ" by auto
  have "sa_now ?s + 4 \<le> sa_now ?s2"
    by (rule accepted_commands_keep_spacing [OF sa_example_plain _ sa_acceptsD [OF a] n y(1) sa_acceptsD [OF b], of "sa_request 1 ACTIVATE" Due_Read])
      (simp_all add: sa_example_def sa_request_def y SubArray_init_def sa_example_params_def)
  then show ?thesis using sa_acceptsD [OF a] b by (simp add: Let_def)
qed

end
