(* ===== verification/Nvm_SubArrayWrites.thy ===== *)
theory Nvm_SubArrayWrites
  imports Nvm_SubArrayTiming
begin

text \<open>
  The checks of a subarray and the writes it interrupts: the tests inside the commands repeat those
  of \<^verbatim>\<open>IsIssuable\<close>, an interrupted write leaves no trace in the deadlines, and a write is
  cancelled a bounded number of times.
\<close>

section \<open>The checks inside the commands\<close>

text \<open>The deadlines a pause would restore are not later than the current ones.\<close>

definition saved_before :: "'e SubArray \<Rightarrow> bool" where
  "saved_before s \<longleftrightarrow> nextActivatePreWrite s \<le> nextActivate s \<and> nextPrechargePreWrite s \<le> nextPrecharge s
     \<and> nextReadPreWrite s \<le> nextRead s \<and> nextWritePreWrite s \<le> nextWrite s \<and> nextPowerDownPreWrite s \<le> nextPowerDown s"

named_theorems saved_before_intros

lemma saved_before_timing: "timing t = timing s \<Longrightarrow> saved_before s \<Longrightarrow> saved_before t"
  by (simp add: saved_before_def timing_def)

lemma saved_before_unpaused [saved_before_intros]: "saved_before s \<Longrightarrow> saved_before (unpaused s)"
  by (simp add: saved_before_def unpaused_def restore_timing_def)

lemma saved_before_activated [saved_before_intros]: "saved_before s \<Longrightarrow> saved_before (activated row s)"
  by (auto simp: saved_before_def activated_def Let_def le_max_iff_disj)

lemma saved_before_reading [saved_before_intros]: "saved_before s \<Longrightarrow> saved_before (reading x d s)"
  by (auto simp: saved_before_def reading_def read_deadlines_def powered_down_after_def Let_def le_max_iff_disj)

lemma saved_before_writing [saved_before_intros]: "saved_before (writing x w s)"
  by (auto simp: saved_before_def writing_def write_deadlines_def save_timing_def powered_down_after_def Let_def le_max_iff_disj)

lemma saved_before_closing [saved_before_intros]: "saved_before s \<Longrightarrow> saved_before (closing st w s)"
  by (auto simp: saved_before_def closing_def le_max_iff_disj)

lemma saved_before_commands:
  assumes "saved_before s"
  shows "Activate env s r = Inr (t, ok) \<Longrightarrow> saved_before t" "SubArray_Read env s r = Inr (t, ok) \<Longrightarrow> saved_before t"
    "SubArray_Write env s r = Inr (t, ok) \<Longrightarrow> saved_before t" "Precharge env s r = Inr (t, ok) \<Longrightarrow> saved_before t"
    "Refresh s r = Inr (t, ok) \<Longrightarrow> saved_before t"
proof -
  show "saved_before t" if t: "Activate env s r = Inr (t, ok)"
  proof -
    obtain x where "get_req s r = Inr x" using t by (auto simp: Activate_def bind_res_eq_Inr)
    then show ?thesis
      using Activate_timing [OF t] assms by (cases ok) (auto intro: saved_before_timing saved_before_intros)
  qed
  show "saved_before t" if t: "SubArray_Read env s r = Inr (t, ok)"
  proof -
    obtain x where x: "get_req s r = Inr x" using t by (auto simp: SubArray_Read_def bind_res_eq_Inr)
    obtain u where u: "timing u = timing (unpaused s)" "if ok then read_row env u r = Inr t else t = u"
      using Read_timing [OF t x] by (metis (full_types))
    have "saved_before u" using u(1) assms by (blast intro: saved_before_timing saved_before_unpaused)
    then show ?thesis
      using u(2) by (cases ok) (auto elim!: read_row_timing intro: saved_before_timing saved_before_intros)
  qed
  show "saved_before t" if t: "SubArray_Write env s r = Inr (t, ok)"
  proof -
    obtain x where x: "get_req s r = Inr x" using t by (auto simp: SubArray_Write_def bind_res_eq_Inr)
    then show ?thesis
      using Write_timing [OF t x] assms
      by (cases ok) (auto elim!: write_row_timing intro: saved_before_timing saved_before_intros)
  qed
  show "saved_before t" if t: "Precharge env s r = Inr (t, ok)"
    using Precharge_timing [OF t] assms by (cases ok) (auto intro: saved_before_timing saved_before_intros)
  show "saved_before t" if t: "Refresh s r = Inr (t, ok)"
    using Refresh_timing [OF t] assms by (cases ok) (auto intro: saved_before_timing saved_before_intros)
qed

lemma saved_before_finish:
  "saved_before (finish_write s r x) = saved_before s" "saved_before (finish_close s r) = saved_before s"
  "saved_before (delete_req s r) = saved_before s" "saved_before (s\<lparr> sa_precharges := c \<rparr>) = saved_before s"
  "saved_before (s\<lparr> sa_refreshes := c \<rparr>) = saved_before s"
  "saved_before ((put_req s r y)\<lparr> sa_state := st \<rparr>) = saved_before s"
  by (simp_all add: saved_before_def finish_write_def finish_close_def delete_req_def put_req_def)

lemma saved_before_finish_own: "finish_own s r x = Inr t \<Longrightarrow> saved_before s \<Longrightarrow> saved_before t"
  by (auto simp: finish_own_def finish_precharge_def saved_before_finish intro: saved_before_timing [OF respond_timing]
      split: OpType.splits)

lemma saved_before_step:
  assumes "sa_step env s t" "saved_before s"
  shows "saved_before t"
  using assms
proof (cases rule: sa_step.cases)
  case (issue r ok)
  then obtain x u b where u: "SubArray_IsIssuable s x = Inr (u, b)"
    and t: "t = u \<or> (t, ok) \<in> {v. Activate env u r = Inr v \<or> SubArray_Read env u r = Inr v \<or> SubArray_Write env u r = Inr v
       \<or> Precharge env u r = Inr v \<or> Refresh u r = Inr v}"
    by (auto simp: SubArray_IssueCommand_def bind_res_eq_Inr split: if_splits OpType.splits)
  have "saved_before u" using saved_before_timing [OF IsIssuable_timing [OF u]] assms(2) .
  then show ?thesis using t saved_before_commands [OF \<open>saved_before u\<close>] assms(2) by auto
next
  case (complete r up)
  then show ?thesis
    using assms(2) by (auto simp: SubArray_RequestComplete_def Let_def bind_res_eq_Inr saved_before_finish
        intro: saved_before_finish_own split: if_splits)
next
  case (outside q n h e)
  then show ?thesis using assms(2) by (simp add: saved_before_def)
qed

lemma saved_before_run: "(sa_step env)\<^sup>*\<^sup>* s t \<Longrightarrow> saved_before s \<Longrightarrow> saved_before t"
  by (induction rule: rtranclp_induct) (auto intro: saved_before_step)

lemma saved_before_init: "saved_before (SubArray_init p this children q fresh ext sim)"
  by (simp add: saved_before_def SubArray_init_def)

text \<open>Why a command is refused.\<close>

lemma unpaused_fields:
  "sa_queue (unpaused s) = sa_queue s" "sa_state (unpaused s) = sa_state s" "openRow (unpaused s) = openRow s" "sa_p (unpaused s) = sa_p s"
  "saved_before s \<Longrightarrow> nextActivate (unpaused s) \<le> nextActivate s" "saved_before s \<Longrightarrow> nextRead (unpaused s) \<le> nextRead s"
  by (simp_all add: unpaused_def restore_timing_def saved_before_def)

lemma Activate_refused:
  assumes "Activate env s r = Inr (t, False)" "saved_before s"
  shows "sa_now s < nextActivate s \<or> sp_UsePrecharge (sa_p s) \<and> sa_state s \<noteq> SUBARRAY_CLOSED"
proof -
  obtain u where u: "CheckWritePausing env s = Inr u" using assms by (auto simp: Activate_def bind_res_eq_Inr)
  have f: "nextActivate u \<le> nextActivate s" "sa_now u = sa_now s" "sa_state u = sa_state s" "sa_p u = sa_p s"
    using CheckWritePausing_timing [OF u] unpaused_fields [of s] assms(2) by (simp_all add: timing_def)
  have "sa_now u < nextActivate u \<or> sp_UsePrecharge (sa_p u) \<and> sa_state u \<noteq> SUBARRAY_CLOSED"
    using assms u by (auto simp: Activate_def bind_res_eq_Inr Let_def split: if_splits)
  then show ?thesis using f by auto
qed

lemma Read_refused:
  assumes "SubArray_Read env s r = Inr (t, False)" "get_req s r = Inr x" "saved_before s"
  shows "sa_now s < nextRead s \<or> sa_state s \<noteq> SUBARRAY_OPEN \<or> na_row (rq_address x) \<noteq> openRow s"
proof -
  obtain u where u: "CheckWritePausing env s = Inr u" using assms by (auto simp: SubArray_Read_def bind_res_eq_Inr)
  have f: "nextRead u \<le> nextRead s" "sa_now u = sa_now s" "sa_state u = sa_state s" "openRow u = openRow s"
    using CheckWritePausing_timing [OF u] unpaused_fields [of s] assms(3) by (simp_all add: timing_def)
  have "sa_now u < nextRead u \<or> sa_state u \<noteq> SUBARRAY_OPEN \<or> na_row (rq_address x) \<noteq> openRow u"
    using assms u by (auto simp: SubArray_Read_def bind_res_eq_Inr split: if_splits)
  then show ?thesis using f by auto
qed

lemma Write_refused:
  "SubArray_Write env s r = Inr (t, False) \<Longrightarrow> get_req s r = Inr x \<Longrightarrow>
     sa_now s < nextWrite s \<or> sa_state s \<noteq> SUBARRAY_OPEN \<or> na_row (rq_address x) \<noteq> openRow s"
  by (auto simp: SubArray_Write_def bind_res_eq_Inr split: if_splits)

lemma Precharge_refused:
  "Precharge env s r = Inr (t, False) \<Longrightarrow>
     sa_now s < nextPrecharge s \<or> sa_state s \<noteq> SUBARRAY_CLOSED \<and> sa_state s \<noteq> SUBARRAY_OPEN"
  by (auto simp: Precharge_def Let_def bind_res_eq_Inr split: if_splits)

lemma Refresh_refused:
  "Refresh s r = Inr (t, False) \<Longrightarrow> sa_now s < nextActivate s \<or> sa_state s \<noteq> SUBARRAY_CLOSED"
  by (auto simp: Refresh_def Let_def bind_res_eq_Inr split: if_splits)

text \<open>What \<^verbatim>\<open>IsIssuable\<close> has checked when it agrees.\<close>

lemma IsIssuable_checks:
  assumes "SubArray_IsIssuable s x = Inr (u, True)"
  shows "rq_type x = ACTIVATE \<Longrightarrow> nextActivate s \<le> sa_now s \<and> (sp_UsePrecharge (sa_p s) \<longrightarrow> sa_state s = SUBARRAY_CLOSED)"
    and "rq_type x = READ \<or> rq_type x = READ_PRECHARGE \<Longrightarrow>
      nextRead s \<le> sa_now s \<and> sa_state s = SUBARRAY_OPEN \<and> na_row (rq_address x) = openRow s"
    and "rq_type x = WRITE \<or> rq_type x = WRITE_PRECHARGE \<Longrightarrow>
      nextWrite s \<le> sa_now s \<and> sa_state s = SUBARRAY_OPEN \<and> na_row (rq_address x) = openRow s"
    and "rq_type x = PRECHARGE \<or> rq_type x = PRECHARGE_ALL \<Longrightarrow>
      nextPrecharge s \<le> sa_now s \<and> (sa_state s = SUBARRAY_OPEN \<or> sa_state s = SUBARRAY_CLOSED)"
    and "rq_type x = REFRESH \<Longrightarrow> nextActivate s \<le> sa_now s \<and> sa_state s = SUBARRAY_CLOSED"
  using assms by (auto simp: SubArray_IsIssuable_def Let_def bind_res_eq_Inr split: if_splits)

lemma IssueCommand_dispatch:
  assumes "SubArray_IssueCommand env s r = Inr (t, ok)" "get_req s r = Inr x" "SubArray_IsIssuable s x = Inr (u, True)"
  shows "rq_type x = ACTIVATE \<Longrightarrow> Activate env u r = Inr (t, ok)"
    "rq_type x = READ \<or> rq_type x = READ_PRECHARGE \<Longrightarrow> SubArray_Read env u r = Inr (t, ok)"
    "rq_type x = WRITE \<or> rq_type x = WRITE_PRECHARGE \<Longrightarrow> SubArray_Write env u r = Inr (t, ok)"
    "rq_type x = PRECHARGE \<or> rq_type x = PRECHARGE_ALL \<Longrightarrow> Precharge env u r = Inr (t, ok)"
    "rq_type x = REFRESH \<Longrightarrow> Refresh u r = Inr (t, ok)"
    "rq_type x \<notin> {ACTIVATE, READ, READ_PRECHARGE, WRITE, WRITE_PRECHARGE, PRECHARGE, PRECHARGE_ALL, REFRESH} \<Longrightarrow> t = u \<and> ok"
  using assms by (auto simp: SubArray_IssueCommand_def split: OpType.splits)

lemma issuable_accepted:
  assumes "saved_before s" "sa_heap s r = Some x"
    and "SubArray_IsIssuable s x = Inr (u, True)" "SubArray_IssueCommand env s r = Inr (t, ok)"
  shows "ok"
proof (rule ccontr)
  assume "\<not> ok"
  have x: "get_req s r = Inr x" using assms(2) by (simp add: get_req_def)
  have tu: "timing u = timing s" by (rule IsIssuable_timing [OF assms(3)])
  have xu: "get_req u r = Inr x" using x get_req_heap [OF IsIssuable_heap [OF assms(3)], of r] by simp
  have f: "saved_before u" "sa_p u = sa_p s" "sa_now u = sa_now s" "sa_state u = sa_state s" "openRow u = openRow s"
      "nextActivate u = nextActivate s" "nextRead u = nextRead s" "nextWrite u = nextWrite s" "nextPrecharge u = nextPrecharge s"
    using saved_before_timing [OF tu assms(1)] tu by (simp_all add: timing_def)
  note c = IsIssuable_checks [OF assms(3)] and d = IssueCommand_dispatch [OF assms(4) x assms(3)]
  consider "rq_type x = ACTIVATE" | "rq_type x = READ \<or> rq_type x = READ_PRECHARGE" | "rq_type x = WRITE \<or> rq_type x = WRITE_PRECHARGE"
    | "rq_type x = PRECHARGE \<or> rq_type x = PRECHARGE_ALL" | "rq_type x = REFRESH"
    using d(6) \<open>\<not> ok\<close> by blast
  then show False
  proof cases
    case 1
    then show ?thesis using Activate_refused [of env u r t] c(1) d(1) f \<open>\<not> ok\<close> by auto
  next
    case 2
    then show ?thesis using Read_refused [of env u r t x] c(2) d(2) f xu \<open>\<not> ok\<close> by auto
  next
    case 3
    then show ?thesis using Write_refused [of env u r t x] c(3) d(3) f xu \<open>\<not> ok\<close> by auto
  next
    case 4
    then show ?thesis using Precharge_refused [of env u r t] c(4) d(4) f \<open>\<not> ok\<close> by auto
  next
    case 5
    then show ?thesis using Refresh_refused [of u r t] c(5) d(5) f \<open>\<not> ok\<close> by auto
  qed
qed



section \<open>Pausing and cancelling writes\<close>

lemma writing_restored: "timing u = timing (writing x w s) \<Longrightarrow> due k (restore_timing u) = due k s"
  by (cases k) (simp_all add: timing_def restore_timing_def writing_def write_deadlines_def save_timing_def powered_down_after_def Let_def)

lemma Write_accepted_writing:
  assumes "SubArray_Write env s r = Inr (t, True)" "get_req s r = Inr x"
  obtains y w where "timing t = timing (writing y w s)"
  using Write_timing [OF assms] by (auto elim: write_row_timing)

text \<open>C21: interrupting a write undoes its timing. When a write was accepted and, some cycles
  later, a read or an activation interrupts it, every deadline is again what it was before the write,
  and the row state, the open row and the clock are untouched.\<close>

theorem interrupted_write_restores_deadlines:
  assumes "sp_WritePausing (sa_p s)" "sa_heap s r = Some x" "SubArray_Write env s r = Inr (t, True)"
    and "CheckWritePausing env (t\<lparr> sa_queue := q \<rparr>) = Inr u"
  shows "due k u = due k s \<and> sa_state u = sa_state s \<and> openRow u = openRow s \<and> sa_now u = currentCycle q"
proof -
  have x: "get_req s r = Inr x" using assms(2) by (simp add: get_req_def)
  obtain y w where t: "timing t = timing (writing y w s)" by (rule Write_accepted_writing [OF assms(3) x])
  have w: "isWriting t" "sp_WritePausing (sa_p t)" "sa_state t = sa_state s" "openRow t = openRow s"
    using t assms(1) by (simp_all add: timing_def) (simp_all add: writing_def powered_down_after_def write_deadlines_def save_timing_def Let_def)
  then have u: "timing u = timing (restore_timing (t\<lparr> sa_queue := q \<rparr>))"
    using CheckWritePausing_timing [OF assms(4)] by (simp add: unpaused_def)
  have "due k (restore_timing (t\<lparr> sa_queue := q \<rparr>)) = due k (restore_timing t)"
    by (cases k) (simp_all add: restore_timing_def)
  then have "due k u = due k s" using due_timing [OF u] writing_restored [OF t] by simp
  moreover have "sa_state u = sa_state s \<and> openRow u = openRow s \<and> sa_now u = currentCycle q"
    using u w by (simp add: timing_def restore_timing_def)
  ultimately show ?thesis by simp
qed

theorem interrupted_write_restores_deadlines_witness:
  "\<exists>t u. SubArray_Write sa_example_env (sa_at 4 (sa_after sa_example_env (sa_example True) 1)) 3 = Inr (t, True)
     \<and> CheckWritePausing sa_example_env (sa_at 6 t) = Inr u
     \<and> due Due_Read u = due Due_Read (sa_at 4 (sa_after sa_example_env (sa_example True) 1))"
proof -
  let ?s = "sa_at 4 (sa_after sa_example_env (sa_example True) 1)"
  have "case SubArray_Write sa_example_env ?s 3 of
      Inr (t, ok) \<Rightarrow> ok \<and> (case CheckWritePausing sa_example_env (sa_at 6 t) of Inr _ \<Rightarrow> True | Inl _ \<Rightarrow> False) | Inl _ \<Rightarrow> False"
    by code_simp
  then obtain t u where t: "SubArray_Write sa_example_env ?s 3 = Inr (t, True)" and u: "CheckWritePausing sa_example_env (sa_at 6 t) = Inr u"
    by (auto split: sum.splits)
  have p: "sp_WritePausing (sa_p ?s)" by code_simp
  have "sa_heap ?s 3 \<noteq> None" by code_simp
  then obtain x where x: "sa_heap ?s 3 = Some x" by blast
  have "due Due_Read u = due Due_Read ?s"
    using interrupted_write_restores_deadlines [OF p x t u [unfolded sa_at_def], of Due_Read] by simp
  then show ?thesis using t u by blast
qed

text \<open>The interruptions of one write, each followed by the restart that clears the mark.\<close>

definition interrupted :: "'e sa_env \<Rightarrow> 'e SubArray \<Rightarrow> NVMainRequest \<Rightarrow> NVMainRequest" where
  "interrupted env s w = del_flag FLAG_CANCELLED (del_flag FLAG_PAUSED (snd (interrupt_write env s w)))"

lemma has_FORCED: "has_flag FLAG_FORCED w \<longleftrightarrow> bit (rq_flags w) 5"
  using bit_iff_and_push_bit_not_eq_0 [of "rq_flags w" 5] by (simp add: has_flag_def FLAG_FORCED_def push_bit_of_1)

lemma forced_bits [simp]:
  "has_flag FLAG_FORCED (del_flag FLAG_CANCELLED w) = has_flag FLAG_FORCED w"
  "has_flag FLAG_FORCED (del_flag FLAG_PAUSED w) = has_flag FLAG_FORCED w"
  "has_flag FLAG_FORCED (add_flag FLAG_CANCELLED w) = has_flag FLAG_FORCED w"
  "has_flag FLAG_FORCED (add_flag FLAG_PAUSED w) = has_flag FLAG_FORCED w"
  "has_flag FLAG_FORCED (add_flag FLAG_FORCED w)"
  "has_flag FLAG_FORCED (w\<lparr> rq_cancellations := c \<rparr>) = has_flag FLAG_FORCED w"
  "has_flag FLAG_FORCED (w\<lparr> rq_writeProgress := c \<rparr>) = has_flag FLAG_FORCED w"
  unfolding has_FORCED
  unfolding del_flag_def add_flag_def FLAG_CANCELLED_def FLAG_PAUSED_def FLAG_FORCED_def
  by (simp_all add: bit_simps bit_numeral_rec)

definition cancels :: "'e sa_env \<Rightarrow> 'e SubArray \<Rightarrow> bool" where
  "cancels env s \<longleftrightarrow> \<not> env_pauses env (remaining_write s) (writeEnd s - writeStart s)"

lemma cancellations_flags [simp]:
  "rq_cancellations (del_flag f w) = rq_cancellations w" "rq_cancellations (add_flag f w) = rq_cancellations w"
  by (simp_all add: del_flag_def add_flag_def)

lemma interrupted_cancel:
  assumes "cancels env s"
  shows "rq_cancellations (interrupted env s w) = rq_cancellations w + 1"
    and "has_flag FLAG_FORCED (interrupted env s w) \<longleftrightarrow>
      has_flag FLAG_FORCED w \<or> sp_MaxCancellations (sa_p s) \<le> rq_cancellations w + 1"
  using assms by (simp_all add: interrupted_def interrupt_write_def cancels_def Let_def)

lemma interrupted_fold:
  assumes "list_all (\<lambda>s. cancels env s \<and> sp_MaxCancellations (sa_p s) = M) ss" "rq_cancellations w = of_nat n"
    and "n + length ss < 2 ^ 64" "unat M \<le> n + length ss" "has_flag FLAG_FORCED w \<or> ss \<noteq> []"
  shows "has_flag FLAG_FORCED (fold (interrupted env) ss w)"
  using assms
proof (induction ss arbitrary: w n)
  case (Cons s ss)
  let ?w = "interrupted env s w"
  have c: "cancels env s" and m: "sp_MaxCancellations (sa_p s) = M" using Cons.prems(1) by simp_all
  have w: "rq_cancellations ?w = of_nat (Suc n)" using interrupted_cancel(1) [OF c, of w] Cons.prems(2) by simp
  show ?case
  proof (cases "ss = []")
    case True
    then have "M \<le> of_nat (Suc n)" using Cons.prems(3,4) by (simp add: word_le_nat_alt unat_of_nat del: of_nat_Suc)
    then show ?thesis using interrupted_cancel [OF c, of w] w m True by (simp add: add.commute)
  next
    case False
    have "has_flag FLAG_FORCED (fold (interrupted env) ss ?w)"
      by (rule Cons.IH [OF _ w]) (use Cons.prems False in auto)
    then show ?thesis by simp
  qed
qed simp

lemma forced_write_not_interrupted:
  assumes "sp_WritePausing (sa_p s)" "isWriting s" "writeRequest s = Some n" "sa_heap s n = Some y" "has_flag FLAG_FORCED y"
    and "sa_heap s r = Some x" "rq_type x = ACTIVATE \<or> rq_type x = READ \<or> rq_type x = READ_PRECHARGE"
  shows "\<exists>u. SubArray_IssueCommand env s r = Inr (u, False) \<and> sa_heap u = sa_heap s \<and> sa_queue u = sa_queue s \<and> timing u = timing s"
proof -
  have f: "write_forced s = Inr True" using assms(1-5) by (simp add: write_forced_def get_req_def)
  have "\<exists>u. SubArray_IsIssuable s x = Inr (u, False) \<and> sa_heap u = sa_heap s \<and> sa_queue u = sa_queue s \<and> timing u = timing s"
    using assms(7) f by (auto simp: SubArray_IsIssuable_def Let_def)
  then show ?thesis using assms(6) by (auto simp: SubArray_IssueCommand_def get_req_def)
qed



end
