(* ===== verification/Nvm_Bank.thy ===== *)
theory Nvm_Bank
  imports Nvm_SubArrayWrites
begin

text \<open>
  \<^verbatim>\<open>Banks/DDR3Bank/DDR3Bank.cpp\<close>: a bank of subarrays. It adds the constraints the subarrays of a
  bank share (the data path and power-down), remembers which subarrays have an open row, and
  passes every command on.

  The event queue, the requests and the data store are shared by all modules: the record \<open>world\<close>.
  Subarrays are reached through virtual calls, the record \<open>sa_ops\<close>, with the subarray's own state \<open>'c\<close>;
  \<open>subarray_ops\<close> fills it with the model of \<^verbatim>\<open>SubArray\<close>. Power and energy, all floating point,
  are left out, and so is \<^verbatim>\<open>nextCommand\<close>, which is always \<^verbatim>\<open>CMD_NOP\<close>.
\<close>

record world =
  w_queue :: EventQueue
  w_fresh :: nat
  w_heap :: "nat \<rightharpoonup> NVMainRequest"
  w_sim :: "SimInterface option"

abbreviation w_now :: "world \<Rightarrow> ncycle_t" where
  "w_now w \<equiv> currentCycle (w_queue w)"

definition w_req :: "world \<Rightarrow> nat \<Rightarrow> nvm_error + NVMainRequest" where
  "w_req w r = (case w_heap w r of None \<Rightarrow> Inl UseAfterFree | Some x \<Rightarrow> Inr x)"

record 'c sa_ops =
  so_IsIssuable :: "world \<Rightarrow> 'c \<Rightarrow> NVMainRequest \<Rightarrow> nvm_error + 'c \<times> bool"
  so_IssueCommand :: "world \<Rightarrow> 'c \<Rightarrow> nat \<Rightarrow> nvm_error + world \<times> 'c \<times> bool"
  so_NextIssuable :: "'c \<Rightarrow> NVMainRequest \<Rightarrow> ncycle_t"
  so_Idle :: "'c \<Rightarrow> bool"

text \<open>The subarray of \<open>Nvm_SubArray\<close> holds the shared parts in its own record.\<close>

definition sa_load :: "world \<Rightarrow> 'e SubArray \<Rightarrow> 'e SubArray" where
  "sa_load w s = s\<lparr> sa_queue := w_queue w, sa_fresh := w_fresh w, sa_heap := w_heap w, sa_sim := w_sim w \<rparr>"

definition sa_store :: "'e SubArray \<Rightarrow> world" where
  "sa_store s = \<lparr> w_queue = sa_queue s, w_fresh = sa_fresh s, w_heap = sa_heap s, w_sim = sa_sim s \<rparr>"

definition subarray_ops :: "'e sa_env \<Rightarrow> 'e SubArray sa_ops" where
  "subarray_ops env =
     \<lparr> so_IsIssuable = \<lambda>w s x. SubArray_IsIssuable (sa_load w s) x,
       so_IssueCommand = \<lambda>w s r. bind_res (SubArray_IssueCommand env (sa_load w s) r) (\<lambda>(s, ok). Inr (sa_store s, s, ok)),
       so_NextIssuable = \<lambda>s x. SubArray_NextIssuable s x,
       so_Idle = SubArray_Idle \<rparr>"

section \<open>State\<close>

datatype DDR3BankState =
  DDR3BANK_UNKNOWN | DDR3BANK_OPEN | DDR3BANK_CLOSED | DDR3BANK_PDPF | DDR3BANK_PDA | DDR3BANK_PDPS

record BankParams =
  bp_sa :: SAParams
  bp_tPD :: ncycle_t
  bp_tXP :: ncycle_t
  bp_tXPDLL :: ncycle_t
  bp_tRDPDEN :: ncycle_t
  bp_tWRPDEN :: ncycle_t
  bp_InitPD :: bool
  bp_MATHeight :: u64

record 'c DDR3Bank =
  bk_p :: BankParams
  bk_this :: nat
  bk_at :: AddressTranslator
  bk_children :: "'c list"
  subArrayNum :: u64
  activeSubArrayQueue :: "u64 list"
  bk_state :: DDR3BankState
  bk_openRow :: u64
  bk_nextActivate :: ncycle_t
  bk_nextPrecharge :: ncycle_t
  bk_nextRead :: ncycle_t
  bk_nextWrite :: ncycle_t
  bk_nextPowerDown :: ncycle_t
  bk_nextPowerUp :: ncycle_t
  bk_writeCycle :: bool
  bk_dataCycles :: u64
  activeCycles :: u64
  standbyCycles :: u64
  fastExitActiveCycles :: u64
  fastExitPrechargeCycles :: u64
  slowExitPrechargeCycles :: u64
  bk_actWaits :: u64
  bk_actWaitTotal :: u64
  bk_reads :: u64
  bk_writes :: u64
  bk_activates :: u64
  bk_precharges :: u64
  bk_refreshes :: u64

definition DDR3Bank_init :: "BankParams \<Rightarrow> nat \<Rightarrow> AddressTranslator \<Rightarrow> 'c DDR3Bank" where
  "DDR3Bank_init p this at =
     \<lparr> bk_p = p, bk_this = this, bk_at = at, bk_children = [], subArrayNum = 0, activeSubArrayQueue = [],
       bk_state = DDR3BANK_CLOSED, bk_openRow = 0, bk_nextActivate = 0, bk_nextPrecharge = 0, bk_nextRead = 0,
       bk_nextWrite = 0, bk_nextPowerDown = 0, bk_nextPowerUp = 0, bk_writeCycle = False, bk_dataCycles = 0,
       activeCycles = 0, standbyCycles = 0, fastExitActiveCycles = 0, fastExitPrechargeCycles = 0,
       slowExitPrechargeCycles = 0, bk_actWaits = 0, bk_actWaitTotal = 0, bk_reads = 0, bk_writes = 0,
       bk_activates = 0, bk_precharges = 0, bk_refreshes = 0 \<rparr>"

text \<open>\<open>new_sa\<close> makes the subarray with a given number. The child of a request is found with the subarray field.\<close>

definition DDR3Bank_SetConfig :: "'c DDR3Bank \<Rightarrow> (u64 \<Rightarrow> 'c) \<Rightarrow> nvm_error + 'c DDR3Bank" where
  "DDR3Bank_SetConfig b new_sa =
     (let p = bk_p b in
      if bp_MATHeight p = 0 then Inl DivisionByZero
      else
        let b = b\<lparr> subArrayNum := sp_ROWS (bp_sa p) div bp_MATHeight p \<rparr>;
            b = b\<lparr> bk_at := SetDefaultField (bk_at b) SUBARRAY_FIELD,
                   bk_children := map (\<lambda>i. new_sa (of_nat i)) [0..<unat (subArrayNum b)] \<rparr>
        in Inr (if bp_InitPD p then b\<lparr> bk_state := DDR3BANK_PDPF \<rparr> else b))"

section \<open>Children\<close>

text \<open>
  \<^verbatim>\<open>GetChild( request )\<close> indexes the array with what the decoder says, \<^verbatim>\<open>GetChild( number )\<close> asserts
  the bound. The out parameters of the decoder start at zero here; it sets every one it returns.
\<close>

definition get_child :: "AddressTranslator \<Rightarrow> nat \<Rightarrow> NVMainRequest \<Rightarrow> nvm_error + u64" where
  "get_child at n x =
     bind_res (Translate_request at (rq_address x) (\<lambda>_. 0)) (\<lambda>(_, i). if unat i < n then Inr i else Inl OutOfBounds)"

definition child_index :: "'c DDR3Bank \<Rightarrow> NVMainRequest \<Rightarrow> nvm_error + u64" where
  "child_index b x = get_child (bk_at b) (length (bk_children b)) x"

definition assert_child :: "'c DDR3Bank \<Rightarrow> u64 \<Rightarrow> nvm_error + u64" where
  "assert_child b i = bind_res (assert_res (unat i < length (bk_children b))) (\<lambda>_. Inr i)"

definition child_issuable ::
  "'c sa_ops \<Rightarrow> world \<Rightarrow> 'c DDR3Bank \<Rightarrow> u64 \<Rightarrow> NVMainRequest \<Rightarrow> nvm_error + 'c DDR3Bank \<times> bool" where
  "child_issuable ops w b i x =
     bind_res (so_IsIssuable ops w (bk_children b ! unat i) x) (\<lambda>(c, ok).
     Inr (b\<lparr> bk_children := (bk_children b)[unat i := c] \<rparr>, ok))"

definition child_issue ::
  "'c sa_ops \<Rightarrow> world \<Rightarrow> 'c DDR3Bank \<Rightarrow> u64 \<Rightarrow> nat \<Rightarrow> nvm_error + world \<times> 'c DDR3Bank \<times> bool" where
  "child_issue ops w b i r =
     bind_res (so_IssueCommand ops w (bk_children b ! unat i) r) (\<lambda>(w, c, ok).
     Inr (w, b\<lparr> bk_children := (bk_children b)[unat i := c] \<rparr>, ok))"

text \<open>The command goes to the subarray of the request; \<open>accepted\<close> is what the bank does when it was accepted.\<close>

definition pass_on ::
  "'c sa_ops \<Rightarrow> world \<Rightarrow> 'c DDR3Bank \<Rightarrow> nat \<Rightarrow> NVMainRequest \<Rightarrow> ('c DDR3Bank \<Rightarrow> 'c DDR3Bank)
     \<Rightarrow> nvm_error + world \<times> 'c DDR3Bank \<times> bool" where
  "pass_on ops w b r x accepted =
     bind_res (child_index b x) (\<lambda>i.
     bind_res (child_issue ops w b i r) (\<lambda>(w, b, success).
     Inr (w, if success then accepted b else b, success)))"

section \<open>Power\<close>

definition DDR3Bank_PowerDown :: "world \<Rightarrow> 'c DDR3Bank \<Rightarrow> NVMainRequest \<Rightarrow> nvm_error + 'c DDR3Bank \<times> bool" where
  "DDR3Bank_PowerDown w b x =
     (if bk_nextPowerDown b \<le> w_now w \<and> (bk_state b = DDR3BANK_OPEN \<or> bk_state b = DDR3BANK_CLOSED) then
        let b' = b\<lparr> bk_nextPowerUp := max (bk_nextPowerUp b) (w_now w + bp_tPD (bk_p b)) \<rparr>
        in if bk_state b = DDR3BANK_OPEN then
             bind_res (assert_res (rq_type x = POWERDOWN_PDA)) (\<lambda>_. Inr (b'\<lparr> bk_state := DDR3BANK_PDA \<rparr>, True))
           else Inr (b'\<lparr> bk_state := if rq_type x = POWERDOWN_PDPS then DDR3BANK_PDPS else DDR3BANK_PDPF \<rparr>, True)
      else Inr (b, False))"

definition powered_down :: "'c DDR3Bank \<Rightarrow> bool" where
  "powered_down b \<longleftrightarrow> bk_state b = DDR3BANK_PDPF \<or> bk_state b = DDR3BANK_PDPS \<or> bk_state b = DDR3BANK_PDA"

definition DDR3Bank_PowerUp :: "world \<Rightarrow> 'c DDR3Bank \<Rightarrow> 'c DDR3Bank \<times> bool" where
  "DDR3Bank_PowerUp w b =
     (if bk_nextPowerUp b \<le> w_now w \<and> powered_down b then
        let up = w_now w + bp_tXP (bk_p b) in
        (b\<lparr> bk_nextPowerDown := max (bk_nextPowerDown b) up,
            bk_nextActivate := max (bk_nextActivate b) up,
            bk_nextPrecharge := max (bk_nextPrecharge b) up,
            bk_nextWrite := max (bk_nextWrite b) up,
            bk_nextRead := max (bk_nextRead b)
              (if bk_state b = DDR3BANK_PDPS then w_now w + bp_tXPDLL (bk_p b) else up),
            bk_state := if bk_state b = DDR3BANK_PDA then DDR3BANK_OPEN else DDR3BANK_CLOSED \<rparr>, True)
      else (b, False))"

section \<open>Commands\<close>

definition activate_done :: "NVMainRequest \<Rightarrow> 'c DDR3Bank \<Rightarrow> 'c DDR3Bank" where
  "activate_done x b =
     b\<lparr> bk_openRow := na_row (rq_address x), bk_state := DDR3BANK_OPEN,
        activeSubArrayQueue := na_subarray (rq_address x) # activeSubArrayQueue b, bk_activates := bk_activates b + 1 \<rparr>"

definition DDR3Bank_Activate ::
  "'c sa_ops \<Rightarrow> world \<Rightarrow> 'c DDR3Bank \<Rightarrow> nat \<Rightarrow> nvm_error + world \<times> 'c DDR3Bank \<times> bool" where
  "DDR3Bank_Activate ops w b r =
     bind_res (w_req w r) (\<lambda>x.
     if bk_nextActivate b > w_now w then Inr (w, b, False)
     else if bk_state b \<noteq> DDR3BANK_CLOSED \<and> activeSubArrayQueue b = [] then Inr (w, b, False)
     else
       let b = b\<lparr> bk_nextPowerDown := max (bk_nextPowerDown b) (w_now w + sp_tRCD (bp_sa (bk_p b))) \<rparr>
       in pass_on ops w b r x (activate_done x))"

text \<open>A command with an implicit precharge takes its subarray off the list.\<close>

definition closed_subarray :: "'c DDR3Bank \<Rightarrow> u64 \<Rightarrow> 'c DDR3Bank" where
  "closed_subarray b i =
     (let b = b\<lparr> bk_precharges := bk_precharges b + 1, activeSubArrayQueue := remove1 i (activeSubArrayQueue b) \<rparr>
      in if activeSubArrayQueue b = [] then b\<lparr> bk_state := DDR3BANK_CLOSED \<rparr> else b)"

definition bank_read_deadlines :: "world \<Rightarrow> NVMainRequest \<Rightarrow> 'c DDR3Bank \<Rightarrow> 'c DDR3Bank" where
  "bank_read_deadlines w x b =
     (let p = bp_sa (bk_p b); now = w_now w; pre = bursts p (rq_burstCount x - 1) in
      b\<lparr> bk_nextPowerDown := max (bk_nextPowerDown b)
           (if rq_type x = READ_PRECHARGE then now + pre + sp_tAL p + sp_tRTP p + sp_tRP p
            else pre + now + bp_tRDPDEN (bk_p b)),
         bk_nextRead := max (bk_nextRead b) (now + bursts p (rq_burstCount x)),
         bk_nextWrite := max (bk_nextWrite b)
           (now + pre + sp_tCAS p + sp_tBURST p + sp_tRTRS p - sp_tCWD p) \<rparr>)"

definition read_done :: "NVMainRequest \<Rightarrow> 'c DDR3Bank \<Rightarrow> 'c DDR3Bank" where
  "read_done x b =
     (let b = (if rq_type x = READ_PRECHARGE then closed_subarray b (na_subarray (rq_address x)) else b)
      in b\<lparr> bk_dataCycles := bk_dataCycles b + sp_tBURST (bp_sa (bk_p b)), bk_reads := bk_reads b + 1 \<rparr>)"

definition DDR3Bank_Read ::
  "'c sa_ops \<Rightarrow> world \<Rightarrow> 'c DDR3Bank \<Rightarrow> nat \<Rightarrow> nvm_error + world \<times> 'c DDR3Bank \<times> bool" where
  "DDR3Bank_Read ops w b r =
     bind_res (w_req w r) (\<lambda>x.
     if bk_nextRead b > w_now w then Inr (w, b, False)
     else if bk_state b \<noteq> DDR3BANK_OPEN then Inr (w, b, False)
     else
       let b = bank_read_deadlines w x b
       in pass_on ops w b r x (read_done x))"

text \<open>
  A write with precharge takes the maximum with \<^verbatim>\<open>nextActivate\<close> where the others take it with
  \<^verbatim>\<open>nextPowerDown\<close>.
\<close>

definition bank_write_deadlines :: "world \<Rightarrow> NVMainRequest \<Rightarrow> 'c DDR3Bank \<Rightarrow> 'c DDR3Bank" where
  "bank_write_deadlines w x b =
     (let p = bp_sa (bk_p b); now = w_now w; pre = bursts p (rq_burstCount x - 1) in
      b\<lparr> bk_nextPowerDown :=
           (if rq_type x = WRITE_PRECHARGE
            then max (bk_nextActivate b) (now + pre + sp_tAL p + sp_tCWD p + sp_tBURST p + sp_tWR p + sp_tRP p)
            else max (bk_nextPowerDown b) (pre + now + bp_tWRPDEN (bk_p b))),
         bk_nextRead := max (bk_nextRead b) (now + pre + sp_tCWD p + sp_tBURST p + sp_tWTR p),
         bk_nextWrite := max (bk_nextWrite b) (now + bursts p (rq_burstCount x)) \<rparr>)"

definition write_done :: "NVMainRequest \<Rightarrow> 'c DDR3Bank \<Rightarrow> 'c DDR3Bank" where
  "write_done x b =
     (let b = b\<lparr> bk_dataCycles := bk_dataCycles b + sp_tBURST (bp_sa (bk_p b)), bk_writeCycle := True,
                 bk_writes := bk_writes b + 1 \<rparr>
      in if rq_type x = WRITE_PRECHARGE then closed_subarray b (na_subarray (rq_address x)) else b)"

definition DDR3Bank_Write ::
  "'c sa_ops \<Rightarrow> world \<Rightarrow> 'c DDR3Bank \<Rightarrow> nat \<Rightarrow> nvm_error + world \<times> 'c DDR3Bank \<times> bool" where
  "DDR3Bank_Write ops w b r =
     bind_res (w_req w r) (\<lambda>x.
     if bk_nextWrite b > w_now w then Inr (w, b, False)
     else if bk_state b \<noteq> DDR3BANK_OPEN then Inr (w, b, False)
     else
       let b = bank_write_deadlines w x b
       in pass_on ops w b r x (write_done x))"

definition precharge_one ::
  "'c sa_ops \<Rightarrow> nat \<Rightarrow> NVMainRequest \<Rightarrow> world \<Rightarrow> 'c DDR3Bank \<Rightarrow> nvm_error + world \<times> 'c DDR3Bank \<times> bool" where
  "precharge_one ops r x w b =
     pass_on ops w b r x
       (\<lambda>b. b\<lparr> activeSubArrayQueue := remove1 (na_subarray (rq_address x)) (activeSubArrayQueue b) \<rparr>)"

definition precharge_done :: "'c DDR3Bank \<Rightarrow> 'c DDR3Bank" where
  "precharge_done b =
     (let b = (if activeSubArrayQueue b = [] then b\<lparr> bk_state := DDR3BANK_CLOSED \<rparr> else b)
      in b\<lparr> bk_precharges := bk_precharges b + 1 \<rparr>)"

text \<open>
  \<^verbatim>\<open>PRECHARGE_ALL\<close>: a copy of the request goes to every open subarray but the last, which gets the request
  itself.
\<close>

fun precharge_all ::
  "'c sa_ops \<Rightarrow> nat \<Rightarrow> u64 list \<Rightarrow> world \<Rightarrow> 'c DDR3Bank \<Rightarrow> nvm_error + world \<times> 'c DDR3Bank \<times> bool" where
  "precharge_all ops r [] w b = Inr (w, b, True)"
| "precharge_all ops r [i] w b =
     bind_res (assert_child (b\<lparr> activeSubArrayQueue := [] \<rparr>) i) (\<lambda>i.
     child_issue ops w (b\<lparr> activeSubArrayQueue := [] \<rparr>) i r)"
| "precharge_all ops r (i # j # is) w b =
     bind_res (w_req w r) (\<lambda>x.
     let b = b\<lparr> activeSubArrayQueue := j # is \<rparr>;
         w = w\<lparr> w_heap := (w_heap w)(w_fresh w \<mapsto> copy_request (w_fresh w) (x\<lparr> rq_owner := bk_this b \<rparr>)),
                w_fresh := Suc (w_fresh w) \<rparr>
     in bind_res (assert_child b i) (\<lambda>i.
        bind_res (child_issue ops w b i (w_fresh w - 1)) (\<lambda>(w, b, success).
        if success then precharge_all ops r (j # is) w b else Inr (w, b, False))))"

definition precharge_children ::
  "'c sa_ops \<Rightarrow> nat \<Rightarrow> NVMainRequest \<Rightarrow> world \<Rightarrow> 'c DDR3Bank \<Rightarrow> nvm_error + world \<times> 'c DDR3Bank \<times> bool" where
  "precharge_children ops r x w b =
     (if rq_type x = PRECHARGE then precharge_one ops r x w b
      else if rq_type x = PRECHARGE_ALL then precharge_all ops r (activeSubArrayQueue b) w b
      else Inr (w, b, False))"

definition DDR3Bank_Precharge ::
  "'c sa_ops \<Rightarrow> world \<Rightarrow> 'c DDR3Bank \<Rightarrow> nat \<Rightarrow> nvm_error + world \<times> 'c DDR3Bank \<times> bool" where
  "DDR3Bank_Precharge ops w b r =
     bind_res (w_req w r) (\<lambda>x.
     if bk_nextPrecharge b > w_now w then Inr (w, b, False)
     else if bk_state b \<noteq> DDR3BANK_CLOSED \<and> bk_state b \<noteq> DDR3BANK_OPEN then Inr (w, b, False)
     else
       let b = b\<lparr> bk_nextPowerDown := max (bk_nextPowerDown b) (w_now w + sp_tRP (bp_sa (bk_p b))) \<rparr>
       in bind_res (precharge_children ops r x w b) (\<lambda>(w, b, success).
          Inr (w, if success then precharge_done b else b, success)))"

definition DDR3Bank_Refresh ::
  "'c sa_ops \<Rightarrow> world \<Rightarrow> 'c DDR3Bank \<Rightarrow> nat \<Rightarrow> nvm_error + world \<times> 'c DDR3Bank \<times> bool" where
  "DDR3Bank_Refresh ops w b r =
     bind_res (w_req w r) (\<lambda>x.
     if bk_nextActivate b > w_now w then Inr (w, b, False)
     else
       let b = b\<lparr> bk_nextPowerDown := max (bk_nextPowerDown b) (w_now w + sp_tRFC (bp_sa (bk_p b))) \<rparr>
       in pass_on ops w b r x (\<lambda>b. b\<lparr> bk_refreshes := bk_refreshes b + 1 \<rparr>))"

section \<open>Issuing\<close>

definition DDR3Bank_NextIssuable :: "'c sa_ops \<Rightarrow> 'c DDR3Bank \<Rightarrow> NVMainRequest \<Rightarrow> nvm_error + ncycle_t" where
  "DDR3Bank_NextIssuable ops b x =
     (let nextCompare = (case rq_type x of
            ACTIVATE \<Rightarrow> bk_nextActivate b | REFRESH \<Rightarrow> bk_nextActivate b
          | READ \<Rightarrow> bk_nextRead b | READ_PRECHARGE \<Rightarrow> bk_nextRead b
          | WRITE \<Rightarrow> bk_nextWrite b | WRITE_PRECHARGE \<Rightarrow> bk_nextWrite b
          | PRECHARGE \<Rightarrow> bk_nextPrecharge b | PRECHARGE_ALL \<Rightarrow> bk_nextPrecharge b
          | _ \<Rightarrow> 0)
      in bind_res (child_index b x) (\<lambda>i. Inr (max (so_NextIssuable ops (bk_children b ! unat i) x) nextCompare)))"

text \<open>Asking children one after the other, up to the first that refuses.\<close>

fun all_issuable ::
  "'c sa_ops \<Rightarrow> world \<Rightarrow> NVMainRequest \<Rightarrow> u64 list \<Rightarrow> 'c DDR3Bank \<Rightarrow> nvm_error + 'c DDR3Bank \<times> bool" where
  "all_issuable ops w x [] b = Inr (b, True)"
| "all_issuable ops w x (i # is) b =
     bind_res (assert_child b i) (\<lambda>i.
     bind_res (child_issuable ops w b i x) (\<lambda>(b, ok).
     if ok then all_issuable ops w x is b else Inr (b, False)))"

definition ask_child :: "'c sa_ops \<Rightarrow> world \<Rightarrow> 'c DDR3Bank \<Rightarrow> NVMainRequest \<Rightarrow> nvm_error + 'c DDR3Bank \<times> bool" where
  "ask_child ops w b x = bind_res (child_index b x) (\<lambda>i. child_issuable ops w b i x)"

text \<open>The own constraints of the bank for a command; power commands ask the children in any case.\<close>

definition bank_blocks :: "world \<Rightarrow> 'c DDR3Bank \<Rightarrow> OpType \<Rightarrow> bool" where
  "bank_blocks w b t \<longleftrightarrow>
     (case t of
        ACTIVATE \<Rightarrow> bk_nextActivate b > w_now w \<or> powered_down b
      | READ \<Rightarrow> bk_nextRead b > w_now w \<or> bk_state b \<noteq> DDR3BANK_OPEN
      | READ_PRECHARGE \<Rightarrow> bk_nextRead b > w_now w \<or> bk_state b \<noteq> DDR3BANK_OPEN
      | WRITE \<Rightarrow> bk_nextWrite b > w_now w \<or> bk_state b \<noteq> DDR3BANK_OPEN
      | WRITE_PRECHARGE \<Rightarrow> bk_nextWrite b > w_now w \<or> bk_state b \<noteq> DDR3BANK_OPEN
      | PRECHARGE \<Rightarrow> bk_nextPrecharge b > w_now w \<or> bk_state b \<noteq> DDR3BANK_CLOSED \<and> bk_state b \<noteq> DDR3BANK_OPEN
      | PRECHARGE_ALL \<Rightarrow> bk_nextPrecharge b > w_now w \<or> bk_state b \<noteq> DDR3BANK_CLOSED \<and> bk_state b \<noteq> DDR3BANK_OPEN
      | REFRESH \<Rightarrow> bk_nextActivate b > w_now w \<or> bk_state b \<noteq> DDR3BANK_CLOSED \<and> bk_state b \<noteq> DDR3BANK_OPEN
      | POWERUP \<Rightarrow> bk_nextPowerUp b > w_now w \<or> \<not> powered_down b
      | POWERDOWN_PDA \<Rightarrow> bk_nextPowerDown b > w_now w \<or> bk_state b \<noteq> DDR3BANK_CLOSED \<and> bk_state b \<noteq> DDR3BANK_OPEN
      | POWERDOWN_PDPF \<Rightarrow> bk_nextPowerDown b > w_now w \<or> bk_state b \<noteq> DDR3BANK_CLOSED
      | POWERDOWN_PDPS \<Rightarrow> bk_nextPowerDown b > w_now w \<or> bk_state b \<noteq> DDR3BANK_CLOSED
      | _ \<Rightarrow> False)"

definition is_power :: "OpType \<Rightarrow> bool" where
  "is_power t \<longleftrightarrow> t = POWERDOWN_PDA \<or> t = POWERDOWN_PDPF \<or> t = POWERDOWN_PDPS \<or> t = POWERUP"

text \<open>A refused activation is counted, with the time left to \<^verbatim>\<open>nextActivate\<close>, which may lie in the past.\<close>

definition DDR3Bank_IsIssuable ::
  "'c sa_ops \<Rightarrow> world \<Rightarrow> 'c DDR3Bank \<Rightarrow> NVMainRequest \<Rightarrow> nvm_error + 'c DDR3Bank \<times> bool" where
  "DDR3Bank_IsIssuable ops w b x =
     (if is_power (rq_type x) then
        bind_res (all_issuable ops w x (map of_nat [0..<unat (subArrayNum b)]) b) (\<lambda>(b', ok).
        Inr (b', ok \<and> \<not> bank_blocks w b (rq_type x)))
      else if bank_blocks w b (rq_type x) then
        Inr (if rq_type x = ACTIVATE
             then b\<lparr> bk_actWaits := bk_actWaits b + 1,
                     bk_actWaitTotal := bk_actWaitTotal b + (bk_nextActivate b - w_now w) \<rparr>
             else b, False)
      else if rq_type x = PRECHARGE_ALL then all_issuable ops w x (activeSubArrayQueue b) b
      else ask_child ops w b x)"

definition DDR3Bank_IssueCommand ::
  "'c sa_ops \<Rightarrow> world \<Rightarrow> 'c DDR3Bank \<Rightarrow> nat \<Rightarrow> nvm_error + world \<times> 'c DDR3Bank \<times> bool" where
  "DDR3Bank_IssueCommand ops w b r =
     bind_res (w_req w r) (\<lambda>x.
     bind_res (DDR3Bank_IsIssuable ops w b x) (\<lambda>(b, ok).
     if \<not> ok then Inr (w, b, False)
     else case rq_type x of
            ACTIVATE \<Rightarrow> DDR3Bank_Activate ops w b r
          | READ \<Rightarrow> DDR3Bank_Read ops w b r
          | READ_PRECHARGE \<Rightarrow> DDR3Bank_Read ops w b r
          | WRITE \<Rightarrow> DDR3Bank_Write ops w b r
          | WRITE_PRECHARGE \<Rightarrow> DDR3Bank_Write ops w b r
          | PRECHARGE \<Rightarrow> DDR3Bank_Precharge ops w b r
          | PRECHARGE_ALL \<Rightarrow> DDR3Bank_Precharge ops w b r
          | REFRESH \<Rightarrow> DDR3Bank_Refresh ops w b r
          | POWERDOWN_PDA \<Rightarrow> bind_res (DDR3Bank_PowerDown w b x) (\<lambda>(b, ok). Inr (w, b, ok))
          | POWERDOWN_PDPF \<Rightarrow> bind_res (DDR3Bank_PowerDown w b x) (\<lambda>(b, ok). Inr (w, b, ok))
          | POWERDOWN_PDPS \<Rightarrow> bind_res (DDR3Bank_PowerDown w b x) (\<lambda>(b, ok). Inr (w, b, ok))
          | POWERUP \<Rightarrow> (case DDR3Bank_PowerUp w b of (b, ok) \<Rightarrow> Inr (w, b, ok))
          | _ \<Rightarrow> bind_res (child_index b x) (\<lambda>i. child_issue ops w b i r)))"

definition DDR3Bank_Idle :: "'c sa_ops \<Rightarrow> 'c DDR3Bank \<Rightarrow> nvm_error + bool" where
  "DDR3Bank_Idle ops b =
     fold_res (\<lambda>i idle. if \<not> idle then Inr False
         else bind_res (assert_child b (of_nat i)) (\<lambda>_. Inr (so_Idle ops (bk_children b ! i))))
       [0..<unat (subArrayNum b)] True"

definition DDR3Bank_Cycle :: "'c DDR3Bank \<Rightarrow> ncycle_t \<Rightarrow> 'c DDR3Bank" where
  "DDR3Bank_Cycle b steps =
     (case bk_state b of
        DDR3BANK_PDPF \<Rightarrow> b\<lparr> fastExitPrechargeCycles := fastExitPrechargeCycles b + steps \<rparr>
      | DDR3BANK_PDA \<Rightarrow> b\<lparr> fastExitActiveCycles := fastExitActiveCycles b + steps \<rparr>
      | DDR3BANK_PDPS \<Rightarrow> b\<lparr> slowExitPrechargeCycles := slowExitPrechargeCycles b + steps \<rparr>
      | DDR3BANK_OPEN \<Rightarrow> b\<lparr> activeCycles := activeCycles b + steps \<rparr>
      | DDR3BANK_CLOSED \<Rightarrow> b\<lparr> standbyCycles := standbyCycles b + steps \<rparr>
      | DDR3BANK_UNKNOWN \<Rightarrow> b)"

section \<open>A small bank\<close>

definition bank_example_params :: BankParams where
  "bank_example_params = \<lparr> bp_sa = sa_example_params, bp_tPD = 4, bp_tXP = 5, bp_tXPDLL = 11, bp_tRDPDEN = 7, bp_tWRPDEN = 9,
     bp_InitPD = False, bp_MATHeight = 32 \<rparr>"

definition bank_child :: "u64 \<Rightarrow> unit SubArray" where
  "bank_child i = SubArray_init sa_example_params (7 + unat i) [(3, 7 + unat i)] EventQueue_init 100 () None"

definition bank_example :: "unit SubArray DDR3Bank" where
  "bank_example = (case DDR3Bank_SetConfig (DDR3Bank_init bank_example_params 5 AddressTranslator_init) bank_child of
     Inr b \<Rightarrow> b | Inl _ \<Rightarrow> DDR3Bank_init bank_example_params 5 AddressTranslator_init)"

definition bank_request :: "nat \<Rightarrow> OpType \<Rightarrow> u64 \<Rightarrow> NVMainRequest" where
  "bank_request p t i = (let x = sa_request p t in x\<lparr> rq_address := (rq_address x)\<lparr> translated := True, na_subarray := i \<rparr> \<rparr>)"

definition bank_world :: world where
  "bank_world = \<lparr> w_queue = EventQueue_init, w_fresh = 100, w_heap = [1 \<mapsto> bank_request 1 ACTIVATE 0, 2 \<mapsto> bank_request 2 ACTIVATE 1,
     3 \<mapsto> bank_request 3 PRECHARGE_ALL 0, 4 \<mapsto> bank_request 4 WRITE_PRECHARGE 1, 5 \<mapsto> bank_request 5 POWERDOWN_PDA 0,
     6 \<mapsto> bank_request 6 REFRESH 0, 7 \<mapsto> bank_request 7 POWERDOWN_PDPF 0], w_sim = None \<rparr>"

definition w_at :: "ncycle_t \<Rightarrow> world \<Rightarrow> world" where
  "w_at n w = w\<lparr> w_queue := (w_queue w)\<lparr> currentCycle := n \<rparr> \<rparr>"

text \<open>Commands one after the other, each at its cycle.\<close>

fun bank_run :: "(ncycle_t \<times> nat) list \<Rightarrow> world \<times> unit SubArray DDR3Bank \<Rightarrow> nvm_error + world \<times> unit SubArray DDR3Bank" where
  "bank_run [] wb = Inr wb"
| "bank_run ((n, r) # cs) (w, b) = bind_res (DDR3Bank_IssueCommand (subarray_ops sa_example_env) (w_at n w) b r)
     (\<lambda>(w, b, ok). if ok then bank_run cs (w, b) else Inl AssertFailed)"

text \<open>The small bank after some commands, and whether it takes one more.\<close>

definition bank_after :: "(ncycle_t \<times> nat) list \<Rightarrow> world \<times> unit SubArray DDR3Bank" where
  "bank_after cs = (case bank_run cs (bank_world, bank_example) of Inr wb \<Rightarrow> wb | Inl _ \<Rightarrow> (bank_world, bank_example))"

definition bank_accepts_at :: "ncycle_t \<Rightarrow> nat \<Rightarrow> world \<times> unit SubArray DDR3Bank \<Rightarrow> bool" where
  "bank_accepts_at n r wb =
     (case DDR3Bank_IssueCommand (subarray_ops sa_example_env) (w_at n (fst wb)) (snd wb) r of Inr (_, _, ok) \<Rightarrow> ok | Inl _ \<Rightarrow> False)"

end
