(* ===== verification/Nvm_BankState.thy ===== *)
theory Nvm_BankState
  imports Nvm_Bank
begin

text \<open>
  The state of a bank: power-down and power-up, the list of open subarrays, and its deadlines, for
  subarrays that may do anything.
\<close>

section \<open>Power-down and power-up\<close>


lemma bank_example_power:
  "let (w, b) = bank_after [(1, 1), (2, 2)] in
     bk_state b = DDR3BANK_OPEN \<and> bk_nextPowerDown b \<le> 20 \<and> bk_nextPowerUp b = 0 \<and> bp_tPD (bk_p b) = 4 \<and> activeSubArrayQueue b = [1, 0]"
  by code_simp


section \<open>Open subarrays\<close>

text \<open>A bank counts as open, awake or powered down, exactly when some subarray is listed as active.\<close>

definition ddr3_inv :: "'c DDR3Bank \<Rightarrow> bool" where
  "ddr3_inv b \<longleftrightarrow> bk_state b \<noteq> DDR3BANK_UNKNOWN
     \<and> (activeSubArrayQueue b \<noteq> [] \<longleftrightarrow> bk_state b = DDR3BANK_OPEN \<or> bk_state b = DDR3BANK_PDA)"

lemma ddr3_inv_simps [simp]:
  "ddr3_inv (b\<lparr> bk_children := cs \<rparr>) = ddr3_inv b" "ddr3_inv (b\<lparr> bk_nextPowerDown := n \<rparr>) = ddr3_inv b"
  "ddr3_inv (b\<lparr> bk_nextRead := n \<rparr>) = ddr3_inv b" "ddr3_inv (b\<lparr> bk_nextWrite := n \<rparr>) = ddr3_inv b"
  "ddr3_inv (b\<lparr> bk_actWaits := n \<rparr>) = ddr3_inv b" "ddr3_inv (b\<lparr> bk_actWaitTotal := n \<rparr>) = ddr3_inv b"
  "ddr3_inv (b\<lparr> bk_refreshes := n \<rparr>) = ddr3_inv b" "ddr3_inv (b\<lparr> bk_dataCycles := n \<rparr>) = ddr3_inv b"
  "ddr3_inv (b\<lparr> bk_reads := n \<rparr>) = ddr3_inv b" "ddr3_inv (b\<lparr> bk_writes := n \<rparr>) = ddr3_inv b"
  "ddr3_inv (b\<lparr> bk_writeCycle := f \<rparr>) = ddr3_inv b" "ddr3_inv (b\<lparr> bk_precharges := n \<rparr>) = ddr3_inv b"
  by (simp_all add: ddr3_inv_def)

lemma ddr3_inv_deadlines [simp]:
  "ddr3_inv (bank_read_deadlines w x b) = ddr3_inv b" "ddr3_inv (bank_write_deadlines w x b) = ddr3_inv b"
  by (simp_all add: bank_read_deadlines_def bank_write_deadlines_def Let_def)

lemma deadlines_state [simp]:
  "bk_state (bank_read_deadlines w x b) = bk_state b" "bk_state (bank_write_deadlines w x b) = bk_state b"
  "activeSubArrayQueue (bank_read_deadlines w x b) = activeSubArrayQueue b"
  "activeSubArrayQueue (bank_write_deadlines w x b) = activeSubArrayQueue b"
  "bk_children (bank_read_deadlines w x b) = bk_children b" "bk_children (bank_write_deadlines w x b) = bk_children b"
  by (simp_all add: bank_read_deadlines_def bank_write_deadlines_def Let_def)

text \<open>A child keeps the bank's own state.\<close>

definition same_bank :: "'c DDR3Bank \<Rightarrow> 'c DDR3Bank \<Rightarrow> bool" where
  "same_bank b b' \<longleftrightarrow> (\<exists>cs. b' = b\<lparr> bk_children := cs \<rparr> \<and> length cs = length (bk_children b))"

lemma same_bank_refl: "same_bank b b"
  unfolding same_bank_def by (rule exI [of _ "bk_children b"]) simp

lemma same_bank_trans: "same_bank a b \<Longrightarrow> same_bank b c \<Longrightarrow> same_bank a c"
  by (auto simp: same_bank_def)

lemma same_bank_inv: "same_bank b b' \<Longrightarrow> ddr3_inv b' = ddr3_inv b"
  by (auto simp: same_bank_def)

lemma same_bank_fields:
  assumes "same_bank b b'"
  shows "bk_state b' = bk_state b" "activeSubArrayQueue b' = activeSubArrayQueue b" "bk_p b' = bk_p b"
    "length (bk_children b') = length (bk_children b)" "bk_at b' = bk_at b" "bk_this b' = bk_this b" "subArrayNum b' = subArrayNum b"
    "bk_nextActivate b' = bk_nextActivate b" "bk_nextRead b' = bk_nextRead b" "bk_nextWrite b' = bk_nextWrite b"
    "bk_nextPrecharge b' = bk_nextPrecharge b" "bk_nextPowerDown b' = bk_nextPowerDown b" "bk_nextPowerUp b' = bk_nextPowerUp b"
  using assms by (auto simp: same_bank_def)

lemma child_issue_same: "child_issue ops w b i r = Inr (w', b', ok) \<Longrightarrow> same_bank b b'"
  by (auto simp: child_issue_def bind_res_eq_Inr same_bank_def)

lemma child_issuable_same: "child_issuable ops w b i x = Inr (b', ok) \<Longrightarrow> same_bank b b'"
  by (auto simp: child_issuable_def bind_res_eq_Inr same_bank_def)

lemma all_issuable_same: "all_issuable ops w x is b = Inr (b', ok) \<Longrightarrow> same_bank b b'"
  by (induction "is" arbitrary: b)
    (auto simp: bind_res_eq_Inr same_bank_refl split: if_splits dest!: child_issuable_same intro: same_bank_trans)

lemma ask_child_same: "ask_child ops w b x = Inr (b', ok) \<Longrightarrow> same_bank b b'"
  by (auto simp: ask_child_def bind_res_eq_Inr dest: child_issuable_same)

lemma IsIssuable_inv: "DDR3Bank_IsIssuable ops w b x = Inr (b', ok) \<Longrightarrow> ddr3_inv b' = ddr3_inv b"
  by (auto simp: DDR3Bank_IsIssuable_def bind_res_eq_Inr split: if_splits
      dest!: all_issuable_same ask_child_same same_bank_inv)

lemma IsIssuable_same: "DDR3Bank_IsIssuable ops w b x = Inr (b', True) \<Longrightarrow> same_bank b b'"
  by (auto simp: DDR3Bank_IsIssuable_def bind_res_eq_Inr split: if_splits
      intro: all_issuable_same ask_child_same)

text \<open>One round of \<open>precharge_all\<close>: the world with the copy, and what the subarray does with it.\<close>

definition with_copy :: "world \<Rightarrow> NVMainRequest \<Rightarrow> world" where
  "with_copy w x = w\<lparr> w_heap := (w_heap w)(w_fresh w \<mapsto> copy_request (w_fresh w) x), w_fresh := Suc (w_fresh w) \<rparr>"

lemma precharge_all_Cons:
  assumes "precharge_all ops r (i # j # is) w b = Inr (w', b', ok)"
  obtains x w1 b1 ok1 where "w_req w r = Inr x" "unat i < length (bk_children b)"
    "child_issue ops (with_copy w (x\<lparr> rq_owner := bk_this b \<rparr>)) (b\<lparr> activeSubArrayQueue := j # is \<rparr>) i (w_fresh w) = Inr (w1, b1, ok1)"
    "if ok1 then precharge_all ops r (j # is) w1 b1 = Inr (w', b', ok) else w' = w1 \<and> b' = b1 \<and> \<not> ok"
  using assms
  by (auto simp: bind_res_eq_Inr Let_def assert_child_def with_copy_def split: if_splits)

lemma precharge_all_one:
  assumes "precharge_all ops r [i] w b = Inr (w', b', ok)"
  shows "unat i < length (bk_children b)" "child_issue ops w (b\<lparr> activeSubArrayQueue := [] \<rparr>) i r = Inr (w', b', ok)"
  using assms by (auto simp: bind_res_eq_Inr assert_child_def)

lemma precharge_all_queue:
  assumes "precharge_all ops r q w b = Inr (w', b', True)" "activeSubArrayQueue b = q"
  shows "activeSubArrayQueue b' = [] \<and> bk_state b' = bk_state b"
  using assms
proof (induction q arbitrary: w b rule: induct_list012)
  case (2 i)
  then show ?case using same_bank_fields(1,2) [OF child_issue_same [OF precharge_all_one(2) [OF "2.prems"(1)]]] by simp
next
  case (3 i j q)
  obtain x w1 b1 ok1 where i: "child_issue ops (with_copy w (x\<lparr> rq_owner := bk_this b \<rparr>)) (b\<lparr> activeSubArrayQueue := j # q \<rparr>) i (w_fresh w) = Inr (w1, b1, ok1)"
    and n: "if ok1 then precharge_all ops r (j # q) w1 b1 = Inr (w', b', True) else w' = w1 \<and> b' = b1 \<and> \<not> True"
    using precharge_all_Cons [OF "3.prems"(1)] .
  have f: "activeSubArrayQueue b1 = j # q" "bk_state b1 = bk_state b"
    using same_bank_fields(1,2) [OF child_issue_same [OF i]] by simp_all
  have "precharge_all ops r (j # q) w1 b1 = Inr (w', b', True)" using n by (cases ok1) simp_all
  then show ?case using "3.IH"(2) [of w1 b1] f by simp
qed simp

text \<open>A command that ends with what a subarray answers.\<close>

lemma pass_on_cases:
  assumes "pass_on ops w b r x f = Inr (w', b', ok)"
  obtains i b1 where "child_index b x = Inr i" "child_issue ops w b i r = Inr (w', b1, ok)" "b' = (if ok then f b1 else b1)"
proof -
  obtain i where i: "child_index b x = Inr i" using assms by (auto simp: pass_on_def bind_res_eq_Inr)
  obtain v b1 s where m: "child_issue ops w b i r = Inr (v, b1, s)"
    using assms i by (cases "child_issue ops w b i r") (auto simp: pass_on_def)
  then show ?thesis using assms i that [of i b1] by (auto simp: pass_on_def)
qed

lemma pass_on_inv:
  assumes "pass_on ops w b r x f = Inr (w', b', True)" "\<And>b1. same_bank b b1 \<Longrightarrow> ddr3_inv (f b1)"
  shows "ddr3_inv b'"
  using assms by (auto elim!: pass_on_cases dest: child_issue_same)

lemma closed_subarray_inv:
  assumes "ddr3_inv b" "bk_state b = DDR3BANK_OPEN"
  shows "ddr3_inv (closed_subarray b i)"
  using assms by (simp add: closed_subarray_def Let_def ddr3_inv_def)

lemma done_inv:
  "ddr3_inv (activate_done x b)"
  "ddr3_inv b \<Longrightarrow> bk_state b = DDR3BANK_OPEN \<Longrightarrow> ddr3_inv (read_done x b)"
  "ddr3_inv b \<Longrightarrow> bk_state b = DDR3BANK_OPEN \<Longrightarrow> ddr3_inv (write_done x b)"
  by (simp_all add: activate_done_def read_done_def write_done_def Let_def closed_subarray_inv) (simp add: ddr3_inv_def)

lemma precharge_done_inv:
  "bk_state b = DDR3BANK_CLOSED \<and> activeSubArrayQueue b = [] \<or> bk_state b = DDR3BANK_OPEN \<Longrightarrow> ddr3_inv (precharge_done b)"
  by (auto simp: ddr3_inv_def precharge_done_def Let_def)

lemma command_inv:
  assumes "ddr3_inv b"
  shows "DDR3Bank_Activate ops w b r = Inr (w', b', True) \<Longrightarrow> ddr3_inv b'"
    and "DDR3Bank_Read ops w b r = Inr (w', b', True) \<Longrightarrow> ddr3_inv b'"
    and "DDR3Bank_Write ops w b r = Inr (w', b', True) \<Longrightarrow> ddr3_inv b'"
    and "DDR3Bank_Refresh ops w b r = Inr (w', b', True) \<Longrightarrow> ddr3_inv b'"
    and "DDR3Bank_PowerDown w b x = Inr (b', True) \<Longrightarrow> ddr3_inv b'"
    and "DDR3Bank_PowerUp w b = (b', True) \<Longrightarrow> ddr3_inv b'"
  subgoal by (auto simp: DDR3Bank_Activate_def bind_res_eq_Inr Let_def done_inv split: if_splits elim!: pass_on_inv)
  subgoal using assms
    by (auto simp: DDR3Bank_Read_def bind_res_eq_Inr Let_def same_bank_inv same_bank_fields split: if_splits elim!: pass_on_inv intro!: done_inv)
  subgoal using assms
    by (auto simp: DDR3Bank_Write_def bind_res_eq_Inr Let_def same_bank_inv same_bank_fields split: if_splits elim!: pass_on_inv intro!: done_inv)
  subgoal using assms
    by (auto simp: DDR3Bank_Refresh_def bind_res_eq_Inr Let_def same_bank_inv split: if_splits elim!: pass_on_inv)
  subgoal using assms by (auto simp: DDR3Bank_PowerDown_def Let_def bind_res_eq_Inr ddr3_inv_def split: if_splits)
  subgoal using assms by (auto simp: DDR3Bank_PowerUp_def Let_def powered_down_def ddr3_inv_def split: if_splits)
  done

lemma precharge_one_queue:
  assumes "precharge_one ops r x w b = Inr (w', b', True)"
  shows "bk_state b' = bk_state b \<and> activeSubArrayQueue b' = remove1 (na_subarray (rq_address x)) (activeSubArrayQueue b)"
  using assms unfolding precharge_one_def by (elim pass_on_cases) (simp add: same_bank_fields [OF child_issue_same])

lemma precharge_children_queue:
  assumes "precharge_children ops r x w b = Inr (w', b', True)"
  shows "bk_state b' = bk_state b \<and> (activeSubArrayQueue b = [] \<longrightarrow> activeSubArrayQueue b' = [])"
  using assms precharge_one_queue [of ops r x w b w' b'] precharge_all_queue [of ops r _ w b w' b']
  by (auto simp: precharge_children_def split: if_splits)

lemma Precharge_cases:
  assumes "DDR3Bank_Precharge ops w b r = Inr (w', b', ok)" "w_req w r = Inr x"
    and "\<not> bk_nextPrecharge b > w_now w" "bk_state b = DDR3BANK_CLOSED \<or> bk_state b = DDR3BANK_OPEN"
  obtains b1 where "precharge_children ops r x w
      (b\<lparr> bk_nextPowerDown := max (bk_nextPowerDown b) (w_now w + sp_tRP (bp_sa (bk_p b))) \<rparr>) = Inr (w', b1, ok)"
    "b' = (if ok then precharge_done b1 else b1)"
proof -
  let ?b = "b\<lparr> bk_nextPowerDown := max (bk_nextPowerDown b) (w_now w + sp_tRP (bp_sa (bk_p b))) \<rparr>"
  let ?m = "precharge_children ops r x w ?b"
  have g: "\<not> (bk_state b \<noteq> DDR3BANK_CLOSED \<and> bk_state b \<noteq> DDR3BANK_OPEN)" using assms(4) by auto
  have e: "bind_res ?m (\<lambda>(w, b, success). Inr (w, if success then precharge_done b else b, success)) = Inr (w', b', ok)"
    using assms(1) unfolding DDR3Bank_Precharge_def assms(2) bind_res_simps if_not_P [OF assms(3)] if_not_P [OF g] Let_def by simp
  then obtain v b1 s where m: "?m = Inr (v, b1, s)" by (cases ?m) auto
  then show ?thesis using e that [of b1] by (simp only: m) auto
qed

lemma Precharge_inv:
  assumes "DDR3Bank_Precharge ops w b r = Inr (w', b', True)" "ddr3_inv b"
  shows "ddr3_inv b'"
proof -
  obtain x where x: "w_req w r = Inr x" using assms(1) by (auto simp: DDR3Bank_Precharge_def bind_res_eq_Inr)
  have g: "\<not> bk_nextPrecharge b > w_now w" and s: "bk_state b = DDR3BANK_CLOSED \<or> bk_state b = DDR3BANK_OPEN"
    using assms(1) x by (auto simp: DDR3Bank_Precharge_def split: if_splits)
  have q: "bk_state b = DDR3BANK_CLOSED \<Longrightarrow> activeSubArrayQueue b = []" using assms(2) by (auto simp: ddr3_inv_def)
  obtain b1 where m: "precharge_children ops r x w
      (b\<lparr> bk_nextPowerDown := max (bk_nextPowerDown b) (w_now w + sp_tRP (bp_sa (bk_p b))) \<rparr>) = Inr (w', b1, True)"
    and b': "b' = (if True then precharge_done b1 else b1)"
    using Precharge_cases [OF assms(1) x g s] .
  have "ddr3_inv (precharge_done b1)"
    by (rule precharge_done_inv) (use precharge_children_queue [OF m] s q in auto)
  then show ?thesis using b' by simp
qed

text \<open>
  The steps of a bank in the running system: a command that is accepted, one that \<^verbatim>\<open>IsIssuable\<close> refuses,
  the accounting of cycles, and anything that happens in the world or inside the subarrays.
\<close>

inductive bank_step :: "'c sa_ops \<Rightarrow> 'c DDR3Bank \<Rightarrow> 'c DDR3Bank \<Rightarrow> bool" for ops where
  accept: "DDR3Bank_IssueCommand ops w b r = Inr (w', b', True) \<Longrightarrow> bank_step ops b b'"
| refuse: "DDR3Bank_IsIssuable ops w b x = Inr (b', ok) \<Longrightarrow> bank_step ops b b'"
| cycle: "bank_step ops b (DDR3Bank_Cycle b steps)"
| outside: "bank_step ops b (b\<lparr> bk_children := cs \<rparr>)"

lemma child_issue_inv: "child_issue ops w b i r = Inr (w', b', ok) \<Longrightarrow> ddr3_inv b \<Longrightarrow> ddr3_inv b'"
  using same_bank_inv [OF child_issue_same] by blast

lemma IssueCommand_inv:
  assumes "DDR3Bank_IssueCommand ops w b r = Inr (w', b', True)" "ddr3_inv b"
  shows "ddr3_inv b'"
proof -
  obtain x c where x: "w_req w r = Inr x" and c: "DDR3Bank_IsIssuable ops w b x = Inr (c, True)"
    and d: "(case rq_type x of
            ACTIVATE \<Rightarrow> DDR3Bank_Activate ops w c r | READ \<Rightarrow> DDR3Bank_Read ops w c r | READ_PRECHARGE \<Rightarrow> DDR3Bank_Read ops w c r
          | WRITE \<Rightarrow> DDR3Bank_Write ops w c r | WRITE_PRECHARGE \<Rightarrow> DDR3Bank_Write ops w c r
          | PRECHARGE \<Rightarrow> DDR3Bank_Precharge ops w c r | PRECHARGE_ALL \<Rightarrow> DDR3Bank_Precharge ops w c r
          | REFRESH \<Rightarrow> DDR3Bank_Refresh ops w c r
          | POWERDOWN_PDA \<Rightarrow> bind_res (DDR3Bank_PowerDown w c x) (\<lambda>(b, ok). Inr (w, b, ok))
          | POWERDOWN_PDPF \<Rightarrow> bind_res (DDR3Bank_PowerDown w c x) (\<lambda>(b, ok). Inr (w, b, ok))
          | POWERDOWN_PDPS \<Rightarrow> bind_res (DDR3Bank_PowerDown w c x) (\<lambda>(b, ok). Inr (w, b, ok))
          | POWERUP \<Rightarrow> (case DDR3Bank_PowerUp w c of (b, ok) \<Rightarrow> Inr (w, b, ok))
          | _ \<Rightarrow> bind_res (child_index c x) (\<lambda>i. child_issue ops w c i r)) = Inr (w', b', True)"
    using assms(1) by (auto simp: DDR3Bank_IssueCommand_def bind_res_eq_Inr split: if_splits)
  have i: "ddr3_inv c" using IsIssuable_inv [OF c] assms(2) by simp
  show ?thesis
    using d i command_inv [OF i]
    by (cases "rq_type x") (auto simp: bind_res_eq_Inr split: prod.splits intro: Precharge_inv child_issue_inv)
qed

lemma ddr3_inv_step: "bank_step ops b b' \<Longrightarrow> ddr3_inv b \<Longrightarrow> ddr3_inv b'"
proof (induction rule: bank_step.induct)
  case (accept w b r w' b')
  then show ?case by (rule IssueCommand_inv)
next
  case (cycle b steps)
  then show ?case by (cases "bk_state b") (simp_all add: DDR3Bank_Cycle_def ddr3_inv_def)
qed (simp_all add: IsIssuable_inv)

lemma ddr3_inv_start: "DDR3Bank_SetConfig (DDR3Bank_init p this at) new_sa = Inr b \<Longrightarrow> ddr3_inv b"
  by (auto simp: DDR3Bank_SetConfig_def DDR3Bank_init_def Let_def ddr3_inv_def split: if_splits)


lemma bank_after_steps: "(bank_step (subarray_ops sa_example_env))\<^sup>*\<^sup>* bank_example (snd (bank_after cs))"
proof -
  have "bank_run cs (w, b) = Inr (w', b') \<Longrightarrow> (bank_step (subarray_ops sa_example_env))\<^sup>*\<^sup>* b b'" for w b w' b'
  proof (induction cs arbitrary: w b)
    case (Cons c cs)
    obtain n r where c: "c = (n, r)" by (cases c)
    obtain w1 b1 where "DDR3Bank_IssueCommand (subarray_ops sa_example_env) (w_at n w) b r = Inr (w1, b1, True)"
      "bank_run cs (w1, b1) = Inr (w', b')"
      using Cons.prems unfolding c by (auto simp: bind_res_eq_Inr split: if_splits)
    then show ?case using Cons.IH by (blast intro: converse_rtranclp_into_rtranclp bank_step.accept)
  qed simp
  then show ?thesis by (cases "bank_run cs (bank_world, bank_example)") (auto simp: bank_after_def)
qed

lemma bank_example_configured:
  "DDR3Bank_SetConfig (DDR3Bank_init bank_example_params 5 AddressTranslator_init) bank_child = Inr bank_example"
  by (simp add: bank_example_def DDR3Bank_SetConfig_def DDR3Bank_init_def bank_example_params_def Let_def)


section \<open>Deadlines\<close>

text \<open>The deadlines of a bank, in the order activate, precharge, read, write, power-down, power-up.\<close>

definition bank_due :: "'c DDR3Bank \<Rightarrow> ncycle_t list" where
  "bank_due b = [bk_nextActivate b, bk_nextPrecharge b, bk_nextRead b, bk_nextWrite b, bk_nextPowerDown b, bk_nextPowerUp b]"

definition later :: "'c DDR3Bank \<Rightarrow> 'c DDR3Bank \<Rightarrow> bool" where
  "later b b' \<longleftrightarrow> list_all2 (\<le>) (bank_due b) (bank_due b')"

lemma later_refl: "later b b"
  by (simp add: later_def bank_due_def)

lemma later_trans: "later a b \<Longrightarrow> later b c \<Longrightarrow> later a c"
  by (auto simp: later_def bank_due_def)

lemma later_due: "bank_due c = bank_due b' \<Longrightarrow> later b b' \<Longrightarrow> later b c"
  by (simp add: later_def)

lemma same_bank_due: "same_bank b b' \<Longrightarrow> bank_due b' = bank_due b"
  by (auto simp: same_bank_def bank_due_def)

lemma due_done [simp]:
  "bank_due (activate_done x b) = bank_due b" "bank_due (closed_subarray b i) = bank_due b" "bank_due (read_done x b) = bank_due b"
  "bank_due (write_done x b) = bank_due b" "bank_due (precharge_done b) = bank_due b" "bank_due (b\<lparr> bk_refreshes := n \<rparr>) = bank_due b"
  "bank_due (b\<lparr> activeSubArrayQueue := q \<rparr>) = bank_due b" "bank_due (b\<lparr> bk_actWaits := n \<rparr>) = bank_due b"
  "bank_due (b\<lparr> bk_actWaitTotal := n \<rparr>) = bank_due b"
  by (simp_all add: bank_due_def activate_done_def closed_subarray_def read_done_def write_done_def precharge_done_def Let_def)

lemma pass_on_due:
  assumes "pass_on ops w b r x f = Inr (w', b', ok)" "\<And>b. bank_due (f b) = bank_due b"
  shows "bank_due b' = bank_due b"
  using assms(1)
proof (elim pass_on_cases)
  fix i b1
  assume "child_issue ops w b i r = Inr (w', b1, ok)" "b' = (if ok then f b1 else b1)"
  then show ?thesis using same_bank_due [OF child_issue_same] assms(2) by (cases ok) simp_all
qed

lemma precharge_all_due: "precharge_all ops r q w b = Inr (w', b', ok) \<Longrightarrow> bank_due b' = bank_due b"
proof (induction q arbitrary: w b rule: induct_list012)
  case (2 i)
  then show ?case using same_bank_due [OF child_issue_same [OF precharge_all_one(2) [OF "2.prems"]]] by simp
next
  case (3 i j q)
  obtain x w1 b1 ok1 where i: "child_issue ops (with_copy w (x\<lparr> rq_owner := bk_this b \<rparr>)) (b\<lparr> activeSubArrayQueue := j # q \<rparr>) i (w_fresh w) = Inr (w1, b1, ok1)"
    and n: "if ok1 then precharge_all ops r (j # q) w1 b1 = Inr (w', b', ok) else w' = w1 \<and> b' = b1 \<and> \<not> ok"
    using precharge_all_Cons [OF "3.prems"] .
  have "bank_due b1 = bank_due b" using same_bank_due [OF child_issue_same [OF i]] by simp
  then show ?case using n "3.IH"(2) [of w1 b1] by (cases ok1) simp_all
qed simp

lemma precharge_children_due: "precharge_children ops r x w b = Inr (w', b', ok) \<Longrightarrow> bank_due b' = bank_due b"
  by (auto simp: precharge_children_def precharge_one_def split: if_splits dest: precharge_all_due elim: pass_on_due)

lemma Precharge_later:
  assumes "DDR3Bank_Precharge ops w b r = Inr (w', b', ok)"
  shows "later b b'"
proof -
  obtain x where x: "w_req w r = Inr x" using assms by (auto simp: DDR3Bank_Precharge_def bind_res_eq_Inr)
  show ?thesis
  proof (cases "bk_nextPrecharge b > w_now w \<or> bk_state b \<noteq> DDR3BANK_CLOSED \<and> bk_state b \<noteq> DDR3BANK_OPEN")
    case True
    then show ?thesis using assms x by (auto simp: DDR3Bank_Precharge_def later_refl split: if_splits)
  next
    case False
    let ?b = "b\<lparr> bk_nextPowerDown := max (bk_nextPowerDown b) (w_now w + sp_tRP (bp_sa (bk_p b))) \<rparr>"
    obtain b1 where m: "precharge_children ops r x w ?b = Inr (w', b1, ok)" and b': "b' = (if ok then precharge_done b1 else b1)"
      using Precharge_cases [OF assms x] False by blast
    have "bank_due b' = bank_due ?b" using precharge_children_due [OF m] b' by (cases ok) simp_all
    then show ?thesis by (rule later_due) (simp add: later_def bank_due_def)
  qed
qed

lemma later_updates:
  "later b (b\<lparr> bk_nextPowerDown := max (bk_nextPowerDown b) n \<rparr>)" "later b (bank_read_deadlines w x b)"
  "rq_type x \<noteq> WRITE_PRECHARGE \<Longrightarrow> later b (bank_write_deadlines w x b)"
  by (simp_all add: later_def bank_due_def bank_read_deadlines_def bank_write_deadlines_def Let_def)

lemma commands_later:
  shows "DDR3Bank_Activate ops w b r = Inr (w', b', ok) \<Longrightarrow> later b b'" "DDR3Bank_Read ops w b r = Inr (w', b', ok) \<Longrightarrow> later b b'"
    "DDR3Bank_Refresh ops w b r = Inr (w', b', ok) \<Longrightarrow> later b b'"
    "DDR3Bank_Write ops w b r = Inr (w', b', ok) \<Longrightarrow> w_req w r = Inr x \<Longrightarrow> rq_type x \<noteq> WRITE_PRECHARGE \<Longrightarrow> later b b'"
    "DDR3Bank_PowerDown w b x = Inr (b', ok) \<Longrightarrow> later b b'" "DDR3Bank_PowerUp w b = (b', ok) \<Longrightarrow> later b b'"
  subgoal by (auto simp: DDR3Bank_Activate_def bind_res_eq_Inr Let_def later_refl later_updates split: if_splits dest!: pass_on_due intro: later_due)
  subgoal by (auto simp: DDR3Bank_Read_def bind_res_eq_Inr Let_def later_refl later_updates split: if_splits dest!: pass_on_due intro: later_due)
  subgoal by (auto simp: DDR3Bank_Refresh_def bind_res_eq_Inr Let_def later_refl later_updates split: if_splits dest!: pass_on_due intro: later_due)
  subgoal by (auto simp: DDR3Bank_Write_def bind_res_eq_Inr Let_def later_refl later_updates split: if_splits dest!: pass_on_due intro: later_due)
  subgoal by (auto simp: DDR3Bank_PowerDown_def Let_def bind_res_eq_Inr later_def bank_due_def split: if_splits)
  subgoal by (auto simp: DDR3Bank_PowerUp_def Let_def later_def bank_due_def split: if_splits)
  done

lemma IsIssuable_due: "DDR3Bank_IsIssuable ops w b x = Inr (b', ok) \<Longrightarrow> bank_due b' = bank_due b"
  by (auto simp: DDR3Bank_IsIssuable_def bind_res_eq_Inr split: if_splits dest!: all_issuable_same ask_child_same same_bank_due)

text \<open>C25: the deadlines of a bank only move forward. Whatever the subarrays do and whether a command is
  accepted or refused, no deadline of the bank gets earlier, for every command but \<^verbatim>\<open>WRITE_PRECHARGE\<close>.\<close>

theorem bank_deadlines_monotone:
  assumes "DDR3Bank_IssueCommand ops w b r = Inr (w', b', ok)" "w_heap w r = Some x" "rq_type x \<noteq> WRITE_PRECHARGE"
  shows "list_all2 (\<le>) (bank_due b) (bank_due b')"
proof -
  have x: "w_req w r = Inr x" using assms(2) by (simp add: w_req_def)
  obtain c k where c: "DDR3Bank_IsIssuable ops w b x = Inr (c, k)"
    using assms(1) x by (auto simp: DDR3Bank_IssueCommand_def bind_res_eq_Inr)
  have "later c b'"
    using assms(1,3) x c
    by (cases k; cases "rq_type x")
      (auto simp: DDR3Bank_IssueCommand_def bind_res_eq_Inr later_refl split: prod.splits
        intro: commands_later Precharge_later later_due [OF same_bank_due [OF child_issue_same]])
  then show ?thesis using IsIssuable_due [OF c] by (simp add: later_def)
qed

theorem bank_deadlines_monotone_witness:
  "\<exists>w' b' ok. DDR3Bank_IssueCommand (subarray_ops sa_example_env) (w_at 1 bank_world) bank_example 6 = Inr (w', b', ok)
     \<and> list_all2 (\<le>) (bank_due bank_example) (bank_due b')"
proof -
  have "case DDR3Bank_IssueCommand (subarray_ops sa_example_env) (w_at 1 bank_world) bank_example 6 of Inl _ \<Rightarrow> False | Inr _ \<Rightarrow> True"
    by code_simp
  then obtain w' b' ok where i: "DDR3Bank_IssueCommand (subarray_ops sa_example_env) (w_at 1 bank_world) bank_example 6 = Inr (w', b', ok)"
    by (auto split: sum.splits)
  show ?thesis using i bank_deadlines_monotone [OF i, of "bank_request 6 REFRESH 0"]
    by (simp add: w_at_def bank_world_def bank_request_def sa_request_def Let_def)
qed

lemma Write_due:
  assumes "DDR3Bank_Write ops w b r = Inr (w', b', True)" "w_req w r = Inr x"
  shows "bank_due b' = bank_due (bank_write_deadlines w x b)"
  using assms by (auto simp: DDR3Bank_Write_def Let_def split: if_splits dest!: pass_on_due)

text \<open>\<^verbatim>\<open>WRITE_PRECHARGE\<close> forgets the power-down deadline. It takes the maximum with the activation
  deadline in place of the old power-down deadline: after it the bank may power down as soon as this write
  allows it, whatever the commands before it need. In the small bank a refresh at cycle 1 forbids power-down
  before cycle 21, and a write with precharge at cycle 8 in the other subarray brings that down to 18.\<close>

theorem WRITE_PRECHARGE_forgets_powerdown:
  assumes "DDR3Bank_IssueCommand ops w b r = Inr (w', b', True)" "w_heap w r = Some x" "rq_type x = WRITE_PRECHARGE"
  shows "bk_nextPowerDown b' = (let p = bp_sa (bk_p b) in max (bk_nextActivate b)
    (w_now w + bursts p (rq_burstCount x - 1) + sp_tAL p + sp_tCWD p + sp_tBURST p + sp_tWR p + sp_tRP p))"
proof -
  have x: "w_req w r = Inr x" using assms(2) by (simp add: w_req_def)
  obtain c where c: "DDR3Bank_IsIssuable ops w b x = Inr (c, True)" "DDR3Bank_Write ops w c r = Inr (w', b', True)"
    using assms(1,3) x by (auto simp: DDR3Bank_IssueCommand_def bind_res_eq_Inr split: if_splits)
  show ?thesis
    using Write_due [OF c(2) x] same_bank_fields [OF IsIssuable_same [OF c(1)]] assms(3)
    by (simp add: bank_due_def bank_write_deadlines_def Let_def)
qed

lemma bank_example_refresh:
  "let (w, b) = bank_after [(1, 6), (2, 2)]; x = w_heap w 4 in
     bank_accepts_at 8 4 (w, b) \<and> bk_nextPowerDown b = 21 \<and> bk_nextActivate b = 0 \<and> bk_p b = bank_example_params
     \<and> map_option rq_type x = Some WRITE_PRECHARGE \<and> map_option rq_burstCount x = Some 1"
  by code_simp

theorem WRITE_PRECHARGE_forgets_powerdown_witness:
  "bk_nextPowerDown (snd (bank_after [(1, 6), (2, 2)])) = 21
    \<and> (\<exists>w' b'. DDR3Bank_IssueCommand (subarray_ops sa_example_env) (w_at 8 (fst (bank_after [(1, 6), (2, 2)])))
         (snd (bank_after [(1, 6), (2, 2)])) 4 = Inr (w', b', True) \<and> bk_nextPowerDown b' = 18)"
proof -
  obtain w b where wb: "bank_after [(1, 6), (2, 2)] = (w, b)" by (cases "bank_after [(1, 6), (2, 2)]")
  have f: "bank_accepts_at 8 4 (w, b)" "bk_nextPowerDown b = 21" "bk_nextActivate b = 0" "bk_p b = bank_example_params"
      "map_option rq_type (w_heap w 4) = Some WRITE_PRECHARGE" "map_option rq_burstCount (w_heap w 4) = Some 1"
    using bank_example_refresh wb by (simp_all add: Let_def)
  obtain x where x: "w_heap w 4 = Some x" "rq_type x = WRITE_PRECHARGE" "rq_burstCount x = 1" using f(5,6) by auto
  obtain w' b' where i: "DDR3Bank_IssueCommand (subarray_ops sa_example_env) (w_at 8 w) b 4 = Inr (w', b', True)"
    using f(1) by (auto simp: bank_accepts_at_def split: sum.splits)
  have "bk_nextPowerDown b' = 18"
    using WRITE_PRECHARGE_forgets_powerdown [OF i, of x] x f(3,4)
    by (simp add: w_at_def bank_example_params_def sa_example_params_def bursts_def Let_def)
  then show ?thesis using wb f(2) i by auto
qed

end
