(* ===== verification/Nvm_BankChecks.thy ===== *)
theory Nvm_BankChecks
  imports Nvm_BankState
begin

text \<open>
  A bank and its subarrays: what the bank relies on, as the locale \<open>subarray_contract\<close>, and that the
  subarrays of \<open>Nvm_SubArray\<close> keep it.
\<close>

section \<open>Commands a bank lets pass\<close>

text \<open>
  What a bank relies on: a subarray that calls a command issuable accepts it, also when another
  subarray of the bank was precharged in between, and a precharge touches no other request.
\<close>

locale subarray_contract =
  fixes ops :: "'c sa_ops" and good :: "'c \<Rightarrow> bool"
  assumes good_issuable: "good c \<Longrightarrow> so_IsIssuable ops w c x = Inr (c', ok) \<Longrightarrow> good c'"
    and accepts: "good c \<Longrightarrow> so_IsIssuable ops w c x = Inr (c', True) \<Longrightarrow> w_heap w r = Some x \<Longrightarrow>
      so_IssueCommand ops w c' r = Inr (w', c'', k) \<Longrightarrow> k"
    and accepts_precharge: "good c \<Longrightarrow> so_IsIssuable ops w c x = Inr (c', True) \<Longrightarrow> rq_type x = PRECHARGE_ALL \<Longrightarrow>
      w_now v = w_now w \<Longrightarrow> w_heap v r = Some y \<Longrightarrow> rq_type y = PRECHARGE_ALL \<Longrightarrow>
      so_IssueCommand ops v c' r = Inr (v', c'', k) \<Longrightarrow> k"
    and precharge_world: "good c \<Longrightarrow> w_heap w r = Some y \<Longrightarrow> rq_type y = PRECHARGE_ALL \<Longrightarrow>
      so_IssueCommand ops w c r = Inr (w', c', k) \<Longrightarrow>
      w_now w' = w_now w \<and> w_fresh w \<le> w_fresh w' \<and> (q \<noteq> r \<longrightarrow> w_heap w' q = w_heap w q)"
begin

definition can_take :: "world \<Rightarrow> NVMainRequest \<Rightarrow> 'c \<Rightarrow> bool" where
  "can_take w x c' \<longleftrightarrow> (\<exists>c. good c \<and> so_IsIssuable ops w c x = Inr (c', True))"

lemma can_take_good: "can_take w x c \<Longrightarrow> good c"
  by (auto simp: can_take_def dest: good_issuable)

lemma all_issuable_can_take:
  assumes "all_issuable ops w x is b = Inr (b', True)" "distinct is" "list_all good (bk_children b)"
  shows "(\<forall>i\<in>set is. unat i < length (bk_children b') \<and> can_take w x (bk_children b' ! unat i))
    \<and> (\<forall>i. i \<notin> set is \<longrightarrow> bk_children b' ! unat i = bk_children b ! unat i)"
  using assms
proof (induction "is" arbitrary: b)
  case (Cons i "is")
  from Cons.prems(1) obtain b1 where l: "unat i < length (bk_children b)" and b1: "child_issuable ops w b i x = Inr (b1, True)"
    and r: "all_issuable ops w x is b1 = Inr (b', True)"
    by (auto simp: bind_res_eq_Inr assert_child_def split: if_splits)
  from b1 obtain c where c: "so_IsIssuable ops w (bk_children b ! unat i) x = Inr (c, True)"
    and u: "bk_children b1 = (bk_children b)[unat i := c]"
    by (auto simp: child_issuable_def bind_res_eq_Inr)
  have g: "good (bk_children b ! unat i)" using Cons.prems(3) l by (simp add: list_all_length)
  then have "list_all good (bk_children b1)"
    using Cons.prems(3) good_issuable [OF g c] unfolding u by (auto simp: list_all_iff dest!: set_update_subset_insert [THEN subsetD])
  then have IH: "\<forall>i\<in>set is. unat i < length (bk_children b') \<and> can_take w x (bk_children b' ! unat i)"
      "\<forall>i. i \<notin> set is \<longrightarrow> bk_children b' ! unat i = bk_children b1 ! unat i"
    using Cons.IH [OF r] Cons.prems(2) by simp_all
  have "length (bk_children b') = length (bk_children b)"
    using same_bank_fields(4) [OF all_issuable_same [OF Cons.prems(1)]] .
  moreover have "bk_children b' ! unat i = c" using IH(2) Cons.prems(2) l u by simp
  moreover have "can_take w x c" using g c unfolding can_take_def by blast
  moreover have "bk_children b1 ! unat j = bk_children b ! unat j" if "j \<noteq> i" for j
    using that u by (simp add: unat_arith_simps(3))
  ultimately show ?case using IH l by auto
qed simp

lemma precharge_all_accepts:
  assumes "precharge_all ops r q v b = Inr (v', b', k)" "distinct q" "r < w_fresh v" "w_now v = w_now w"
    and "rq_type x = PRECHARGE_ALL" "w_heap v r = Some y" "rq_type y = PRECHARGE_ALL"
    and "\<forall>i\<in>set q. can_take w x (bk_children b ! unat i)"
  shows "k"
  using assms
proof (induction q arbitrary: v b rule: induct_list012)
  case (2 i)
  obtain c c' where c: "good c" "so_IsIssuable ops w c x = Inr (bk_children b ! unat i, True)"
    using "2.prems"(8) by (auto simp: can_take_def)
  obtain c' where "so_IssueCommand ops v (bk_children b ! unat i) r = Inr (v', c', k)"
    using precharge_all_one(2) [OF "2.prems"(1)] by (auto simp: child_issue_def bind_res_eq_Inr)
  then show ?case using accepts_precharge [OF c "2.prems"(5,4,6,7)] by blast
next
  case (3 i j q)
  obtain z w1 b1 k1 where z: "w_req v r = Inr z" and l: "unat i < length (bk_children b)"
    and s: "child_issue ops (with_copy v (z\<lparr> rq_owner := bk_this b \<rparr>)) (b\<lparr> activeSubArrayQueue := j # q \<rparr>) i (w_fresh v) = Inr (w1, b1, k1)"
    and n: "if k1 then precharge_all ops r (j # q) w1 b1 = Inr (v', b', k) else v' = w1 \<and> b' = b1 \<and> \<not> k"
    using precharge_all_Cons [OF "3.prems"(1)] .
  let ?u = "with_copy v (z\<lparr> rq_owner := bk_this b \<rparr>)" let ?y = "copy_request (w_fresh v) (z\<lparr> rq_owner := bk_this b \<rparr>)"
  have zy: "z = y" using z "3.prems"(6) by (simp add: w_req_def)
  have h: "w_heap ?u (w_fresh v) = Some ?y" "rq_type ?y = PRECHARGE_ALL" "w_now ?u = w_now w" "w_heap ?u r = Some y" "r < w_fresh ?u"
    using "3.prems"(3,4,6,7) zy by (auto simp: with_copy_def copy_request_def)
  obtain c where c: "good c" "so_IsIssuable ops w c x = Inr (bk_children b ! unat i, True)"
    using "3.prems"(8) by (auto simp: can_take_def)
  obtain c' where i: "so_IssueCommand ops ?u (bk_children b ! unat i) (w_fresh v) = Inr (w1, c', k1)"
    and b1: "bk_children b1 = (bk_children b)[unat i := c']"
    using s by (auto simp: child_issue_def bind_res_eq_Inr)
  have k1: "k1" using accepts_precharge [OF c "3.prems"(5) h(3,1,2) i] .
  have "good (bk_children b ! unat i)" by (rule can_take_good [of w x]) (use "3.prems"(8) in simp)
  then have w1: "w_now w1 = w_now w" "w_fresh ?u \<le> w_fresh w1" "w_heap w1 r = Some y"
    using precharge_world [OF _ h(1,2) i, of r] h(3,4) "3.prems"(3) by auto
  have "can_take w x (bk_children b1 ! unat m)" if "m \<in> set (j # q)" for m
  proof -
    have "unat i \<noteq> unat m" using that "3.prems"(2) by (auto dest: unsigned_word_eqI)
    then show ?thesis using that "3.prems"(8) b1 by auto
  qed
  then show ?case
    using "3.IH"(2) [of w1 b1] n k1 "3.prems"(2,5,7) w1 h(5) by auto
qed simp

lemma child_issue_accepts:
  assumes "can_take w x (bk_children b ! unat i)" "w_heap w r = Some x" "child_issue ops w b i r = Inr (w', b', k)"
  shows "k"
proof -
  obtain c where c: "good c" "so_IsIssuable ops w c x = Inr (bk_children b ! unat i, True)" using assms(1) by (auto simp: can_take_def)
  obtain c' where "so_IssueCommand ops w (bk_children b ! unat i) r = Inr (w', c', k)"
    using assms(3) by (auto simp: child_issue_def bind_res_eq_Inr)
  then show ?thesis using accepts [OF c assms(2)] by blast
qed

lemma ask_child_can_take:
  assumes "ask_child ops w b x = Inr (b', True)" "list_all good (bk_children b)"
  shows "\<exists>i. child_index b' x = Inr i \<and> can_take w x (bk_children b' ! unat i)"
proof -
  obtain i where i: "child_index b x = Inr i" and s: "child_issuable ops w b i x = Inr (b', True)"
    using assms(1) by (auto simp: ask_child_def bind_res_eq_Inr)
  then obtain c where c: "so_IsIssuable ops w (bk_children b ! unat i) x = Inr (c, True)"
    and u: "b' = b\<lparr> bk_children := (bk_children b)[unat i := c] \<rparr>"
    by (auto simp: child_issuable_def bind_res_eq_Inr)
  have l: "unat i < length (bk_children b)" using i by (auto simp: child_index_def get_child_def bind_res_eq_Inr split: if_splits)
  then have "good (bk_children b ! unat i)" using assms(2) by (simp add: list_all_length)
  then have "can_take w x c" using c unfolding can_take_def by blast
  then show ?thesis using i l u by (auto simp: child_index_def)
qed

lemma pass_on_accepts:
  assumes "child_index b x = Inr i" "can_take w x (bk_children b ! unat i)" "w_heap w r = Some x"
    and "pass_on ops w b' r x f = Inr (w', b'', k)" "bk_children b' = bk_children b" "bk_at b' = bk_at b"
  shows "k"
proof -
  have "child_index b' x = Inr i" using assms(1,5,6) by (simp add: child_index_def)
  then obtain b1 where "child_issue ops w b' i r = Inr (w', b1, k)" using assms(4) by (auto elim!: pass_on_cases)
  then show ?thesis using child_issue_accepts [of w x b' i] assms(2,3,5) by simp
qed

lemma Precharge_accepts:
  assumes "DDR3Bank_Precharge ops w b r = Inr (w', b', k)" "w_heap w r = Some x" "r < w_fresh w" "\<not> bank_blocks w b (rq_type x)"
    and "rq_type x = PRECHARGE \<and> (\<exists>i. child_index b x = Inr i \<and> can_take w x (bk_children b ! unat i))
      \<or> rq_type x = PRECHARGE_ALL \<and> distinct (activeSubArrayQueue b)
        \<and> (\<forall>i\<in>set (activeSubArrayQueue b). can_take w x (bk_children b ! unat i))"
  shows "k"
proof -
  have x: "w_req w r = Inr x" using assms(2) by (simp add: w_req_def)
  have g: "\<not> bk_nextPrecharge b > w_now w" and s: "bk_state b = DDR3BANK_CLOSED \<or> bk_state b = DDR3BANK_OPEN"
    using assms(4,5) by (auto simp: bank_blocks_def)
  let ?b = "b\<lparr> bk_nextPowerDown := max (bk_nextPowerDown b) (w_now w + sp_tRP (bp_sa (bk_p b))) \<rparr>"
  obtain b1 where m: "precharge_children ops r x w ?b = Inr (w', b1, k)"
    using Precharge_cases [OF assms(1) x g s] by blast
  show ?thesis
  proof (cases "rq_type x = PRECHARGE")
    case True
    then obtain i where i: "child_index b x = Inr i" "can_take w x (bk_children b ! unat i)" using assms(5) by auto
    show ?thesis using m True pass_on_accepts [OF i assms(2), of ?b]
      by (simp add: precharge_children_def precharge_one_def)
  next
    case False
    then have a: "rq_type x = PRECHARGE_ALL" "distinct (activeSubArrayQueue b)"
      "\<forall>i\<in>set (activeSubArrayQueue ?b). can_take w x (bk_children ?b ! unat i)" using assms(5) by auto
    have "precharge_all ops r (activeSubArrayQueue b) w ?b = Inr (w', b1, k)"
      using m a(1) by (simp add: precharge_children_def)
    then show ?thesis
      using precharge_all_accepts [of r "activeSubArrayQueue b" w ?b w' b1 k w x x] a assms(2,3) by simp
  qed
qed

lemma bank_accepts:
  assumes "ddr3_inv b" "distinct (activeSubArrayQueue b)" "list_all good (bk_children b)" "w_heap w r = Some x" "r < w_fresh w"
    and "DDR3Bank_IsIssuable ops w b x = Inr (c, True)" "DDR3Bank_IssueCommand ops w b r = Inr (w', b', k)"
  shows "k"
proof -
  have x: "w_req w r = Inr x" using assms(4) by (simp add: w_req_def)
  note f = same_bank_fields [OF IsIssuable_same [OF assms(6)]]
  have nb: "\<not> bank_blocks w b (rq_type x)" using assms(6) by (auto simp: DDR3Bank_IsIssuable_def bind_res_eq_Inr split: if_splits)
  then have nc: "\<not> bank_blocks w c (rq_type x)" using f by (cases "rq_type x") (simp_all add: bank_blocks_def powered_down_def)
  have inv: "ddr3_inv c" using IsIssuable_inv [OF assms(6)] assms(1) by simp
  have child: "\<exists>i. child_index c x = Inr i \<and> can_take w x (bk_children c ! unat i)"
    if "\<not> is_power (rq_type x)" "rq_type x \<noteq> PRECHARGE_ALL"
    using assms(3,6) that nb by (intro ask_child_can_take [of w b]) (simp_all add: DDR3Bank_IsIssuable_def)
  have all: "\<forall>i\<in>set (activeSubArrayQueue c). can_take w x (bk_children c ! unat i)" if "rq_type x = PRECHARGE_ALL"
    using all_issuable_can_take [of w x "activeSubArrayQueue b" b c] assms(2,3,6) that nb f(2)
    by (simp add: DDR3Bank_IsIssuable_def is_power_def)
  have dist: "distinct (activeSubArrayQueue c)" using assms(2) f(2) by simp
  show ?thesis
  proof (cases "is_power (rq_type x)")
    case True
    then show ?thesis using assms(6,7) nc x
      by (auto simp: DDR3Bank_IssueCommand_def is_power_def bank_blocks_def DDR3Bank_PowerDown_def DDR3Bank_PowerUp_def Let_def bind_res_eq_Inr
          split: if_splits)
  next
    case np: False
    show ?thesis
    proof (cases "rq_type x = PRECHARGE \<or> rq_type x = PRECHARGE_ALL")
      case True
      then have "DDR3Bank_Precharge ops w c r = Inr (w', b', k)" using assms(6,7) x by (auto simp: DDR3Bank_IssueCommand_def)
      then show ?thesis by (rule Precharge_accepts [OF _ assms(4,5) nc]) (use True child all dist in \<open>auto simp: is_power_def\<close>)
    next
      case False
      then obtain i where i: "child_index c x = Inr i" "can_take w x (bk_children c ! unat i)" using child np by auto
      note p = pass_on_accepts [OF i assms(4)]
      have st: "rq_type x = ACTIVATE \<Longrightarrow> \<not> (bk_state c \<noteq> DDR3BANK_CLOSED \<and> activeSubArrayQueue c = [])"
        using inv nc by (cases "bk_state c") (auto simp: ddr3_inv_def bank_blocks_def powered_down_def)
      show ?thesis using assms(6,7) x nc st False np i child_issue_accepts [OF i(2) assms(4)]
        by (cases "rq_type x")
          (auto simp: DDR3Bank_IssueCommand_def DDR3Bank_Activate_def DDR3Bank_Read_def DDR3Bank_Write_def DDR3Bank_Refresh_def
            bank_blocks_def is_power_def Let_def bank_read_deadlines_def bank_write_deadlines_def split: if_splits dest!: p)
    qed
  qed
qed

end

section \<open>The subarrays of the model\<close>

text \<open>A write-through subarray keeps the contract: its precharge changes no request but its own.\<close>

definition sa_good :: "'e SubArray \<Rightarrow> bool" where
  "sa_good s \<longleftrightarrow> saved_before s \<and> writeMode s = WRITE_THROUGH"

lemma sa_load_simps [simp]:
  "sa_load w (sa_load v s) = sa_load w s" "sa_heap (sa_load w s) = w_heap w" "sa_queue (sa_load w s) = w_queue w"
  "sa_fresh (sa_load w s) = w_fresh w" "sa_good (sa_load w s) = sa_good s" "nextPrecharge (sa_load w s) = nextPrecharge s"
  "sa_state (sa_load w s) = sa_state s" "writeMode (sa_load w s) = writeMode s" "saved_before (sa_load w s) = saved_before s"
  by (simp_all add: sa_load_def sa_good_def saved_before_def)

lemma sa_store_simps [simp]:
  "w_queue (sa_store s) = sa_queue s" "w_fresh (sa_store s) = sa_fresh s" "w_heap (sa_store s) = sa_heap s" "w_sim (sa_store s) = sa_sim s"
  by (simp_all add: sa_store_def)

lemma IsIssuable_unchanged: "SubArray_IsIssuable s x = Inr (t, True) \<Longrightarrow> t = s"
  by (auto simp: SubArray_IsIssuable_def Let_def bind_res_eq_Inr split: OpType.splits if_splits)

lemma IsIssuable_good:
  assumes "SubArray_IsIssuable s x = Inr (t, ok)" "sa_good s"
  shows "sa_good t"
  using saved_before_timing [OF IsIssuable_timing [OF assms(1)]] IsIssuable_timing [OF assms(1)] assms(2)
  by (simp add: sa_good_def timing_def)

lemma Precharge_world:
  assumes "Precharge env s r = Inr (t, k)" "writeMode s = WRITE_THROUGH"
  shows "sa_now t = sa_now s" "sa_fresh s \<le> sa_fresh t" "q \<noteq> r \<Longrightarrow> sa_heap t q = sa_heap s q"
proof -
  show "sa_now t = sa_now s" using Precharge_timing [OF assms(1)] by (auto simp: timing_def closing_def split: if_splits)
  have p: "precharge_time env s r = Inr (s, max 1 (sp_tRP (sa_p s)))" using assms(2) by (simp add: precharge_time_def)
  have "sa_fresh s \<le> sa_fresh t \<and> (q \<noteq> r \<longrightarrow> sa_heap t q = sa_heap s q)"
    using assms(1) unfolding Precharge_def Let_def p respond_def
    by (auto elim!: bind_res_elim simp: put_req_def split: if_splits)
  then show "sa_fresh s \<le> sa_fresh t" "q \<noteq> r \<Longrightarrow> sa_heap t q = sa_heap s q" by simp_all
qed

lemma precharge_issuable:
  assumes "SubArray_IsIssuable (sa_load w c) x = Inr (c', True)" "rq_type x = PRECHARGE_ALL" "w_now v = w_now w" "rq_type y = PRECHARGE_ALL"
  shows "SubArray_IsIssuable (sa_load v c') y = Inr (sa_load v c', True)"
  using assms IsIssuable_unchanged [OF assms(1)] by (auto simp: SubArray_IsIssuable_def Let_def)

interpretation sub: subarray_contract "subarray_ops env" sa_good for env :: "'e sa_env"
proof
  fix w v w' v' :: world and c c' c'' :: "'e SubArray" and x y and r q :: nat and ok k
  assume g: "sa_good c"
  show "sa_good c'" if "so_IsIssuable (subarray_ops env) w c x = Inr (c', ok)"
    using that g IsIssuable_good [of "sa_load w c" x c' ok] by (simp add: subarray_ops_def)
  { assume i: "so_IsIssuable (subarray_ops env) w c x = Inr (c', True)"
    then have c': "c' = sa_load w c" "SubArray_IsIssuable (sa_load w c) x = Inr (c', True)"
      by (simp_all add: subarray_ops_def IsIssuable_unchanged)
    show "k" if "w_heap w r = Some x" "so_IssueCommand (subarray_ops env) w c' r = Inr (w', c'', k)"
      using that c' g issuable_accepted [of "sa_load w c" r x "sa_load w c" env c'' k]
      by (auto simp: subarray_ops_def bind_res_eq_Inr sa_good_def)
    show "k" if "rq_type x = PRECHARGE_ALL" "w_now v = w_now w" "w_heap v r = Some y" "rq_type y = PRECHARGE_ALL"
      "so_IssueCommand (subarray_ops env) v c' r = Inr (v', c'', k)"
      using that(5) precharge_issuable [OF c'(2) that(1,2,4)] that(3) c'(1) g issuable_accepted [of "sa_load v c'" r y "sa_load v c'" env c'' k]
      by (auto simp: subarray_ops_def bind_res_eq_Inr sa_good_def) }
  show "w_now w' = w_now w \<and> w_fresh w \<le> w_fresh w' \<and> (q \<noteq> r \<longrightarrow> w_heap w' q = w_heap w q)"
    if "w_heap w r = Some y" "rq_type y = PRECHARGE_ALL" "so_IssueCommand (subarray_ops env) w c r = Inr (w', c', k)"
  proof -
    have "SubArray_IssueCommand env (sa_load w c) r = Inr (c', k)" and w': "w' = sa_store c'"
      using that(3) by (auto simp: subarray_ops_def bind_res_eq_Inr)
    then have "Precharge env (sa_load w c) r = Inr (c', k) \<or> c' = sa_load w c"
      using that(1,2) by (auto simp: SubArray_IssueCommand_def get_req_def SubArray_IsIssuable_def Let_def bind_res_eq_Inr split: if_splits)
    then show ?thesis
      using Precharge_world(1,2) [of env "sa_load w c" r c' k] Precharge_world(3) [of env "sa_load w c" r c' k q] g w' by (auto simp: sa_good_def)
  qed
qed

text \<open>C10: the bank and its subarrays agree. When \<^verbatim>\<open>IsIssuable\<close> of a bank of write-through subarrays
  lets a command pass, \<^verbatim>\<open>IssueCommand\<close> carries it out: no subarray refuses it, also for
  \<^verbatim>\<open>PRECHARGE_ALL\<close>, which copies the request for every open subarray and precharges one after the other.\<close>

theorem bank_issuable_command_is_accepted:
  assumes "ddr3_inv b" "distinct (activeSubArrayQueue b)" "list_all sa_good (bk_children b)"
    and "w_heap w r = Some x" "r < w_fresh w" "DDR3Bank_IsIssuable (subarray_ops env) w b x = Inr (c, True)"
    and "DDR3Bank_IssueCommand (subarray_ops env) w b r = Inr (w', b', ok)"
  shows "ok"
  using sub.bank_accepts [OF assms] .

lemma bank_example_open:
  "let (w, b) = bank_after [(1, 1), (2, 2)]; x = w_heap w 3 in bk_state b = DDR3BANK_OPEN \<and> activeSubArrayQueue b = [1, 0]
     \<and> 3 < w_fresh w \<and> list_all sa_good (bk_children b) \<and> bank_accepts_at 50 3 (w, b)
     \<and> (case x of Some x \<Rightarrow> (case DDR3Bank_IsIssuable (subarray_ops sa_example_env) (w_at 50 w) b x of Inr (_, ok) \<Rightarrow> ok | Inl _ \<Rightarrow> False)
        | None \<Rightarrow> False)"
  by code_simp

theorem bank_issuable_command_is_accepted_witness:
  "\<exists>w b w' b'. bank_after [(1, 1), (2, 2)] = (w, b) 
     \<and> DDR3Bank_IssueCommand (subarray_ops sa_example_env) (w_at 50 w) b 3 = Inr (w', b', True)"
proof -
  obtain w b where wb: "bank_after [(1, 1), (2, 2)] = (w, b)" by (cases "bank_after [(1, 1), (2, 2)]")
  obtain x c where x: "w_heap w 3 = Some x" and c: "DDR3Bank_IsIssuable (subarray_ops sa_example_env) (w_at 50 w) b x = Inr (c, True)"
    and f: "bk_state b = DDR3BANK_OPEN" "activeSubArrayQueue b = [1, 0]" "3 < w_fresh w" "list_all sa_good (bk_children b)"
      "bank_accepts_at 50 3 (w, b)"
    using bank_example_open wb by (auto simp: Let_def split: option.splits sum.splits)
  obtain w' b' ok where i: "DDR3Bank_IssueCommand (subarray_ops sa_example_env) (w_at 50 w) b 3 = Inr (w', b', ok)"
    using f(5) by (auto simp: bank_accepts_at_def split: sum.splits)
  have "ok" by (rule bank_issuable_command_is_accepted [OF _ _ f(4) _ _ c i]) (use f x in \<open>simp_all add: ddr3_inv_def w_at_def\<close>)
  then show ?thesis using wb i by auto
qed

end
