(* ===== verification/Nvm_Rank.thy ===== *)
theory Nvm_Rank
  imports Nvm_BankChecks
begin

text \<open>
  \<^verbatim>\<open>Ranks/StandardRank/StandardRank.cpp\<close>: a rank of banks. It spaces activations and refreshes (a minimum
  distance, and a window in which only \<^verbatim>\<open>rawNum\<close> of them may fall, kept in a ring buffer), shares the data bus
  among its banks, and powers all banks down and up together.

  Banks are virtual, the record \<open>bk_ops\<close>; \<open>ddr3_ops\<close> fills it with the model of \<^verbatim>\<open>DDR3Bank\<close>. Power and
  energy, all floating point, and the statistics summed up from the banks are left out.
\<close>

record 'c bk_ops =
  bo_IsIssuable :: "world \<Rightarrow> 'c \<Rightarrow> NVMainRequest \<Rightarrow> nvm_error + 'c \<times> bool"
  bo_IssueCommand :: "world \<Rightarrow> 'c \<Rightarrow> nat \<Rightarrow> nvm_error + world \<times> 'c \<times> bool"
  bo_NextIssuable :: "'c \<Rightarrow> NVMainRequest \<Rightarrow> nvm_error + ncycle_t"
  bo_Idle :: "'c \<Rightarrow> nvm_error + bool"
  bo_Cycle :: "'c \<Rightarrow> ncycle_t \<Rightarrow> 'c"

definition ddr3_ops :: "'c sa_ops \<Rightarrow> 'c DDR3Bank bk_ops" where
  "ddr3_ops ops =
     \<lparr> bo_IsIssuable = DDR3Bank_IsIssuable ops, bo_IssueCommand = DDR3Bank_IssueCommand ops,
       bo_NextIssuable = DDR3Bank_NextIssuable ops, bo_Idle = DDR3Bank_Idle ops, bo_Cycle = DDR3Bank_Cycle \<rparr>"

section \<open>State\<close>

datatype StandardRank_State =
  STANDARDRANK_UNKNOWN | STANDARDRANK_OPEN | STANDARDRANK_CLOSED | STANDARDRANK_REFRESHING
  | STANDARDRANK_PDPF | STANDARDRANK_PDA | STANDARDRANK_PDPS

text \<open>\<open>rp_RAW\<close> is the configured window, if the configuration has one.\<close>

record RankParams =
  rp_bank :: BankParams
  rp_tCMD :: ncycle_t
  rp_tRAW :: ncycle_t
  rp_tRRDR :: ncycle_t
  rp_tPPD :: ncycle_t
  rp_tOST :: ncycle_t
  rp_RAW :: "u64 option"
  rp_BANKS :: u64
  rp_BanksPerRefresh :: u64
  rp_DeviceWidth :: u64
  rp_BusWidth :: u64

record 'c StandardRank =
  rk_p :: RankParams
  rk_this :: nat
  rk_hooks :: "(nat \<times> nat) list"
  rk_at :: AddressTranslator
  rk_children :: "'c list"
  rk_state :: StandardRank_State
  bankCount :: u64
  deviceCount :: u64
  rk_lastActivate :: "ncycle_t list"
  RAWindex :: u64
  rawNum :: u64
  banksPerRefresh :: u64
  rk_nextRead :: ncycle_t
  rk_nextWrite :: ncycle_t
  rk_nextActivate :: ncycle_t
  rk_nextPrecharge :: ncycle_t
  rk_activeCycles :: u64
  rk_standbyCycles :: u64
  rk_fastExitActiveCycles :: u64
  rk_fastExitPrechargeCycles :: u64
  slowExitCycles :: u64
  rrdWaits :: u64
  rrdWaitTotal :: u64
  fawWaits :: u64
  fawWaitTotal :: u64
  rk_actWaits :: u64
  rk_actWaitTotal :: u64

definition StandardRank_init :: "RankParams \<Rightarrow> nat \<Rightarrow> (nat \<times> nat) list \<Rightarrow> AddressTranslator \<Rightarrow> 'c StandardRank" where
  "StandardRank_init p this hooks at =
     \<lparr> rk_p = p, rk_this = this, rk_hooks = hooks, rk_at = at, rk_children = [], rk_state = STANDARDRANK_CLOSED,
       bankCount = 0, deviceCount = 0, rk_lastActivate = [], RAWindex = 0, rawNum = 0, banksPerRefresh = 0,
       rk_nextRead = 0, rk_nextWrite = 0, rk_nextActivate = 0, rk_nextPrecharge = 0,
       rk_activeCycles = 0, rk_standbyCycles = 0, rk_fastExitActiveCycles = 0, rk_fastExitPrechargeCycles = 0,
       slowExitCycles = 0, rrdWaits = 0, rrdWaitTotal = 0, fawWaits = 0, fawWaitTotal = 0, rk_actWaits = 0, rk_actWaitTotal = 0 \<rparr>"

definition StandardRank_SetConfig :: "'c StandardRank \<Rightarrow> (u64 \<Rightarrow> 'c) \<Rightarrow> nvm_error + 'c StandardRank" where
  "StandardRank_SetConfig r new_bank =
     (let p = rk_p r; raw = (case rp_RAW p of None \<Rightarrow> 4 | Some n \<Rightarrow> n) in
      bind_res (assert_res (raw \<noteq> 0)) (\<lambda>_.
      if rp_DeviceWidth p = 0 then Inl DivisionByZero
      else Inr (r\<lparr> banksPerRefresh := rp_BanksPerRefresh p, rawNum := raw,
        deviceCount := rp_BusWidth p div rp_DeviceWidth p + (if rp_BusWidth p mod rp_DeviceWidth p \<noteq> 0 then 1 else 0),
        bankCount := rp_BANKS p, rk_at := SetDefaultField (rk_at r) BANK_FIELD,
        rk_children := map (\<lambda>i. new_bank (of_nat i)) [0..<unat (rp_BANKS p)],
        rk_lastActivate := replicate (unat raw) 0,
        rk_nextRead := rp_tCMD p, rk_nextWrite := rp_tCMD p, rk_nextActivate := rp_tCMD p, rk_nextPrecharge := rp_tCMD p,
        fawWaits := 0, rrdWaits := 0, rk_actWaits := 0, fawWaitTotal := 0, rrdWaitTotal := 0, rk_actWaitTotal := 0 \<rparr>)))"

section \<open>Banks of a rank\<close>

definition bank_index :: "'c StandardRank \<Rightarrow> NVMainRequest \<Rightarrow> nvm_error + u64" where
  "bank_index r x = get_child (rk_at r) (length (rk_children r)) x"

definition assert_bank :: "'c StandardRank \<Rightarrow> u64 \<Rightarrow> nvm_error + u64" where
  "assert_bank r i = bind_res (assert_res (unat i < length (rk_children r))) (\<lambda>_. Inr i)"

definition bank_issuable ::
  "'c bk_ops \<Rightarrow> world \<Rightarrow> 'c StandardRank \<Rightarrow> u64 \<Rightarrow> NVMainRequest \<Rightarrow> nvm_error + 'c StandardRank \<times> bool" where
  "bank_issuable ops w r i x =
     bind_res (bo_IsIssuable ops w (rk_children r ! unat i) x) (\<lambda>(c, ok).
     Inr (r\<lparr> rk_children := (rk_children r)[unat i := c] \<rparr>, ok))"

definition bank_issue ::
  "'c bk_ops \<Rightarrow> world \<Rightarrow> 'c StandardRank \<Rightarrow> u64 \<Rightarrow> nat \<Rightarrow> nvm_error + world \<times> 'c StandardRank \<times> bool" where
  "bank_issue ops w r i q =
     bind_res (bo_IssueCommand ops w (rk_children r ! unat i) q) (\<lambda>(w, c, ok).
     Inr (w, r\<lparr> rk_children := (rk_children r)[unat i := c] \<rparr>, ok))"

definition ask_bank :: "'c bk_ops \<Rightarrow> world \<Rightarrow> 'c StandardRank \<Rightarrow> NVMainRequest \<Rightarrow> nvm_error + 'c StandardRank \<times> bool" where
  "ask_bank ops w r x = bind_res (bank_index r x) (\<lambda>i. bank_issuable ops w r i x)"

definition to_bank ::
  "'c bk_ops \<Rightarrow> world \<Rightarrow> 'c StandardRank \<Rightarrow> nat \<Rightarrow> NVMainRequest \<Rightarrow> nvm_error + world \<times> 'c StandardRank \<times> bool" where
  "to_bank ops w r q x = bind_res (bank_index r x) (\<lambda>i. bank_issue ops w r i q)"

definition StandardRank_Idle :: "'c bk_ops \<Rightarrow> 'c StandardRank \<Rightarrow> nvm_error + bool" where
  "StandardRank_Idle ops r =
     fold_res (\<lambda>i idle. if \<not> idle then Inr False
         else bind_res (assert_bank r (of_nat i)) (\<lambda>_. bo_Idle ops (rk_children r ! i)))
       [0..<unat (bankCount r)] True"

text \<open>\<^verbatim>\<open>InsertEvent( EventResponse, this, request, cycle )\<close>.\<close>

definition rank_event :: "'c StandardRank \<Rightarrow> world \<Rightarrow> nat \<Rightarrow> ncycle_t \<Rightarrow> nvm_error + world" where
  "rank_event r w q when =
     bind_res (InsertEvent_object (w_queue w) (rk_hooks r) (w_fresh w) EventResponse (rk_this r) (Some q) when None 0)
       (\<lambda>eq. Inr (w\<lparr> w_queue := eq, w_fresh := Suc (w_fresh w) \<rparr>))"

section \<open>The activation window\<close>

text \<open>\<^verbatim>\<open>lastActivate\<close> is a ring buffer of the last \<^verbatim>\<open>rawNum\<close> activations; the slot after \<^verbatim>\<open>RAWindex\<close> is the oldest.\<close>

definition activate_slot :: "'c StandardRank \<Rightarrow> u64 \<Rightarrow> nvm_error + ncycle_t" where
  "activate_slot r i = (if unat i < length (rk_lastActivate r) then Inr (rk_lastActivate r ! unat i) else Inl OutOfBounds)"

definition oldest_activate :: "'c StandardRank \<Rightarrow> nvm_error + ncycle_t" where
  "oldest_activate r = (if rawNum r = 0 then Inl DivisionByZero else activate_slot r ((RAWindex r + 1) mod rawNum r))"

definition record_activate :: "ncycle_t \<Rightarrow> 'c StandardRank \<Rightarrow> nvm_error + 'c StandardRank" where
  "record_activate now r =
     (if rawNum r = 0 then Inl DivisionByZero
      else let i = (RAWindex r + 1) mod rawNum r in
        bind_res (activate_slot r i) (\<lambda>_. Inr (r\<lparr> RAWindex := i, rk_lastActivate := (rk_lastActivate r)[unat i := now] \<rparr>)))"

definition activates_at :: "world \<Rightarrow> 'c StandardRank \<Rightarrow> nvm_error + 'c StandardRank" where
  "activates_at w r =
     bind_res (record_activate (w_now w) r) (\<lambda>r.
     Inr (r\<lparr> rk_nextActivate := max (rk_nextActivate r) (w_now w + rp_tRRDR (rk_p r)) \<rparr>))"

section \<open>Commands\<close>

text \<open>The answer of the bank is ignored, and the command counts as issued also when it comes too early.\<close>

definition StandardRank_Activate ::
  "'c bk_ops \<Rightarrow> world \<Rightarrow> 'c StandardRank \<Rightarrow> nat \<Rightarrow> nvm_error + world \<times> 'c StandardRank \<times> bool" where
  "StandardRank_Activate ops w r q =
     bind_res (w_req w q) (\<lambda>x.
     if na_bank (rq_address x) \<ge> bankCount r then Inr (w, r, False)
     else bind_res (if rk_nextActivate r \<le> w_now w
                    then bind_res (oldest_activate r) (\<lambda>old. Inr (old + rp_tRAW (rk_p r) \<le> w_now w)) else Inr False) (\<lambda>free.
       if free then
         bind_res (to_bank ops w r q x) (\<lambda>(w, r, _).
         let r = (if rk_state r = STANDARDRANK_CLOSED then r\<lparr> rk_state := STANDARDRANK_OPEN \<rparr> else r)
         in bind_res (activates_at w r) (\<lambda>r. Inr (w, r, True)))
       else Inr (w, r, True)))"

text \<open>A read or write with precharge schedules a precharge of the rank itself, which only settles its state.\<close>

definition own_precharge :: "'c StandardRank \<Rightarrow> world \<Rightarrow> ncycle_t \<Rightarrow> nvm_error + world" where
  "own_precharge r w when =
     (let pre = (NVMainRequest_init (w_fresh w))\<lparr> rq_type := PRECHARGE, rq_owner := rk_this r \<rparr>;
          w = w\<lparr> w_heap := (w_heap w)(w_fresh w \<mapsto> pre), w_fresh := Suc (w_fresh w) \<rparr>
      in rank_event r w (w_fresh w - 1) when)"

definition rank_read_deadlines :: "world \<Rightarrow> NVMainRequest \<Rightarrow> 'c StandardRank \<Rightarrow> 'c StandardRank" where
  "rank_read_deadlines w x r =
     (let p = bp_sa (rp_bank (rk_p r)) in
      r\<lparr> rk_nextRead := max (rk_nextRead r) (w_now w + bursts p (rq_burstCount x)),
         rk_nextWrite := max (rk_nextWrite r)
           (w_now w + bursts p (rq_burstCount x - 1) + sp_tCAS p + sp_tBURST p + sp_tRTRS p - sp_tCWD p) \<rparr>)"

definition StandardRank_Read ::
  "'c bk_ops \<Rightarrow> world \<Rightarrow> 'c StandardRank \<Rightarrow> nat \<Rightarrow> nvm_error + world \<times> 'c StandardRank \<times> bool" where
  "StandardRank_Read ops w r q =
     bind_res (w_req w q) (\<lambda>x.
     if na_bank (rq_address x) \<ge> bankCount r then Inr (w, r, False)
     else if rk_nextRead r > w_now w then Inr (w, r, False)
     else bind_res (to_bank ops w r q x) (\<lambda>(w, r, success).
       bind_res (w_req w q) (\<lambda>x.
       let r = rank_read_deadlines w x r; p = bp_sa (rp_bank (rk_p r))
       in bind_res (if rq_type x = READ_PRECHARGE
                    then own_precharge r w (bursts p (rq_burstCount x - 1) + w_now w + sp_tAL p + sp_tRTP p)
                    else Inr w) (\<lambda>w. Inr (w, r, success)))))"

definition rank_write_deadlines :: "world \<Rightarrow> NVMainRequest \<Rightarrow> 'c StandardRank \<Rightarrow> 'c StandardRank" where
  "rank_write_deadlines w x r =
     (let p = bp_sa (rp_bank (rk_p r)) in
      r\<lparr> rk_nextRead := max (rk_nextRead r)
           (w_now w + bursts p (rq_burstCount x - 1) + sp_tCWD p + sp_tBURST p + sp_tWTR p),
         rk_nextWrite := max (rk_nextWrite r) (w_now w + bursts p (rq_burstCount x)) \<rparr>)"

definition StandardRank_Write ::
  "'c bk_ops \<Rightarrow> world \<Rightarrow> 'c StandardRank \<Rightarrow> nat \<Rightarrow> nvm_error + world \<times> 'c StandardRank \<times> bool" where
  "StandardRank_Write ops w r q =
     bind_res (w_req w q) (\<lambda>x.
     if na_bank (rq_address x) \<ge> bankCount r then Inr (w, r, False)
     else if rk_nextWrite r > w_now w then Inr (w, r, False)
     else bind_res (to_bank ops w r q x) (\<lambda>(w, r, success).
       bind_res (w_req w q) (\<lambda>x.
       let r = rank_write_deadlines w x r; p = bp_sa (rp_bank (rk_p r))
       in bind_res (if rq_type x = WRITE_PRECHARGE
                    then own_precharge r w (w_now w + bursts p (rq_burstCount x - 1) + sp_tAL p + sp_tCWD p + sp_tBURST p + sp_tWR p)
                    else Inr w) (\<lambda>w. Inr (w, r, success)))))"

definition settle_closed :: "'c bk_ops \<Rightarrow> 'c StandardRank \<Rightarrow> nvm_error + 'c StandardRank" where
  "settle_closed ops r =
     bind_res (StandardRank_Idle ops r) (\<lambda>idle. Inr (if idle then r\<lparr> rk_state := STANDARDRANK_CLOSED \<rparr> else r))"

definition StandardRank_Precharge ::
  "'c bk_ops \<Rightarrow> world \<Rightarrow> 'c StandardRank \<Rightarrow> nat \<Rightarrow> nvm_error + world \<times> 'c StandardRank \<times> bool" where
  "StandardRank_Precharge ops w r q =
     bind_res (w_req w q) (\<lambda>x.
     if na_bank (rq_address x) \<ge> bankCount r then Inr (w, r, False)
     else bind_res (to_bank ops w r q x) (\<lambda>(w, r, success).
       bind_res (settle_closed ops r) (\<lambda>r.
       Inr (w, r\<lparr> rk_nextPrecharge := max (rk_nextPrecharge r) (w_now w + rp_tPPD (rk_p r)) \<rparr>, success))))"

text \<open>Asking banks one after the other, up to the first that refuses.\<close>

fun banks_issuable ::
  "'c bk_ops \<Rightarrow> world \<Rightarrow> NVMainRequest \<Rightarrow> u64 list \<Rightarrow> 'c StandardRank \<Rightarrow> nvm_error + 'c StandardRank \<times> bool" where
  "banks_issuable ops w x [] r = Inr (r, True)"
| "banks_issuable ops w x (i # is) r =
     bind_res (assert_bank r i) (\<lambda>i.
     bind_res (bank_issuable ops w r i x) (\<lambda>(r, ok).
     if ok then banks_issuable ops w x is r else Inr (r, False)))"

definition all_banks :: "'c StandardRank \<Rightarrow> u64 list" where
  "all_banks r = map of_nat [0..<length (rk_children r)]"

definition CanPowerDown :: "'c bk_ops \<Rightarrow> world \<Rightarrow> 'c StandardRank \<Rightarrow> NVMainRequest \<Rightarrow> nvm_error + 'c StandardRank \<times> bool" where
  "CanPowerDown ops w r x =
     (if rk_state r = STANDARDRANK_REFRESHING then Inr (r, False) else banks_issuable ops w x (all_banks r) r)"

text \<open>Power commands go to every bank; each has to accept.\<close>

fun issue_all :: "'c bk_ops \<Rightarrow> nat \<Rightarrow> u64 list \<Rightarrow> world \<Rightarrow> 'c StandardRank \<Rightarrow> nvm_error + world \<times> 'c StandardRank" where
  "issue_all ops q [] w r = Inr (w, r)"
| "issue_all ops q (i # is) w r =
     bind_res (assert_bank r i) (\<lambda>i.
     bind_res (bank_issue ops w r i q) (\<lambda>(w, r, rv).
     bind_res (assert_res rv) (\<lambda>_. issue_all ops q is w r)))"

definition StandardRank_PowerDown ::
  "'c bk_ops \<Rightarrow> world \<Rightarrow> 'c StandardRank \<Rightarrow> nat \<Rightarrow> nvm_error + world \<times> 'c StandardRank \<times> bool" where
  "StandardRank_PowerDown ops w r q =
     bind_res (issue_all ops q (all_banks r) w r) (\<lambda>(w, r).
     bind_res (w_req w q) (\<lambda>x.
     let r = (case rq_type x of
                POWERDOWN_PDA \<Rightarrow> r\<lparr> rk_state := STANDARDRANK_PDA \<rparr>
              | POWERDOWN_PDPF \<Rightarrow> r\<lparr> rk_state := STANDARDRANK_PDPF \<rparr>
              | POWERDOWN_PDPS \<Rightarrow> r\<lparr> rk_state := STANDARDRANK_PDPS \<rparr>
              | _ \<Rightarrow> r)
     in bind_res (rank_event r w q (w_now w + bp_tPD (rp_bank (rk_p r)))) (\<lambda>w. Inr (w, r, True))))"

text \<open>\<open>count_issuable\<close> asks every bank and counts those that agree.\<close>

fun count_issuable ::
  "'c bk_ops \<Rightarrow> world \<Rightarrow> NVMainRequest \<Rightarrow> u64 list \<Rightarrow> 'c StandardRank \<Rightarrow> u64 \<Rightarrow> nvm_error + 'c StandardRank \<times> u64" where
  "count_issuable ops w x [] r n = Inr (r, n)"
| "count_issuable ops w x (i # is) r n =
     bind_res (assert_bank r i) (\<lambda>i.
     bind_res (bank_issuable ops w r i x) (\<lambda>(r, ok).
     count_issuable ops w x is r (if ok then n + 1 else n)))"

definition CanPowerUp :: "'c bk_ops \<Rightarrow> world \<Rightarrow> 'c StandardRank \<Rightarrow> NVMainRequest \<Rightarrow> nvm_error + 'c StandardRank \<times> bool" where
  "CanPowerUp ops w r x =
     bind_res (count_issuable ops w x (all_banks r) r 0) (\<lambda>(r, n).
     bind_res (assert_res (n = 0 \<or> n = of_nat (length (rk_children r)))) (\<lambda>_.
     Inr (r, n = of_nat (length (rk_children r)))))"

definition StandardRank_PowerUp ::
  "'c bk_ops \<Rightarrow> world \<Rightarrow> 'c StandardRank \<Rightarrow> nat \<Rightarrow> nvm_error + world \<times> 'c StandardRank \<times> bool" where
  "StandardRank_PowerUp ops w r q =
     bind_res (issue_all ops q (all_banks r) w r) (\<lambda>(w, r).
     let p = rp_bank (rk_p r);
         (r, puTimer) = (case rk_state r of
                STANDARDRANK_PDA \<Rightarrow> (r\<lparr> rk_state := STANDARDRANK_OPEN \<rparr>, bp_tXP p)
              | STANDARDRANK_PDPF \<Rightarrow> (r\<lparr> rk_state := STANDARDRANK_CLOSED \<rparr>, bp_tXP p)
              | STANDARDRANK_PDPS \<Rightarrow> (r\<lparr> rk_state := STANDARDRANK_CLOSED \<rparr>, bp_tXPDLL p)
              | _ \<Rightarrow> (r, 1))
     in bind_res (rank_event r w q (w_now w + puTimer)) (\<lambda>w. Inr (w, r, True)))"

text \<open>A copy of the refresh goes to every bank of the group; what the banks answer is ignored.\<close>

fun refresh_banks ::
  "'c bk_ops \<Rightarrow> nat \<Rightarrow> u64 list \<Rightarrow> world \<Rightarrow> 'c StandardRank \<Rightarrow> nvm_error + world \<times> 'c StandardRank" where
  "refresh_banks ops q [] w r = Inr (w, r)"
| "refresh_banks ops q (i # is) w r =
     bind_res (w_req w q) (\<lambda>x.
     let w = w\<lparr> w_heap := (w_heap w)(w_fresh w \<mapsto> copy_request (w_fresh w) x), w_fresh := Suc (w_fresh w) \<rparr>
     in bind_res (assert_bank r i) (\<lambda>i.
        bind_res (bank_issue ops w r i (w_fresh w - 1)) (\<lambda>(w, r, _). refresh_banks ops q is w r)))"

definition refresh_group_of :: "'c StandardRank \<Rightarrow> NVMainRequest \<Rightarrow> u64 list" where
  "refresh_group_of r x = map (\<lambda>i. na_bank (rq_address x) + of_nat i) [0..<unat (banksPerRefresh r)]"

definition StandardRank_Refresh ::
  "'c bk_ops \<Rightarrow> world \<Rightarrow> 'c StandardRank \<Rightarrow> nat \<Rightarrow> nvm_error + world \<times> 'c StandardRank \<times> bool" where
  "StandardRank_Refresh ops w r q =
     bind_res (assert_res (rk_nextActivate r \<le> w_now w)) (\<lambda>_.
     bind_res (w_req w q) (\<lambda>x.
     bind_res (assert_res (na_bank (rq_address x) + banksPerRefresh r \<le> bankCount r)) (\<lambda>_.
     bind_res (refresh_banks ops q (refresh_group_of r x) w r) (\<lambda>(w, r).
     bind_res (w_req w q) (\<lambda>x.
     let r = r\<lparr> rk_state := STANDARDRANK_REFRESHING \<rparr>;
         w = w\<lparr> w_heap := (w_heap w)(q \<mapsto> x\<lparr> rq_owner := rk_this r \<rparr>) \<rparr>
     in bind_res (rank_event r w q (w_now w + sp_tRFC (bp_sa (rp_bank (rk_p r))))) (\<lambda>w.
        bind_res (activates_at w r) (\<lambda>r. Inr (w, r, True))))))))"

section \<open>Issuing\<close>

definition StandardRank_NextIssuable :: "'c bk_ops \<Rightarrow> 'c StandardRank \<Rightarrow> NVMainRequest \<Rightarrow> nvm_error + ncycle_t" where
  "StandardRank_NextIssuable ops r x =
     bind_res (case rq_type x of
            ACTIVATE \<Rightarrow> bind_res (oldest_activate r) (\<lambda>old. Inr (max (rk_nextActivate r) (old + rp_tRAW (rk_p r))))
          | REFRESH \<Rightarrow> bind_res (oldest_activate r) (\<lambda>old. Inr (max (rk_nextActivate r) (old + rp_tRAW (rk_p r))))
          | READ \<Rightarrow> Inr (rk_nextRead r) | READ_PRECHARGE \<Rightarrow> Inr (rk_nextRead r)
          | WRITE \<Rightarrow> Inr (rk_nextWrite r) | WRITE_PRECHARGE \<Rightarrow> Inr (rk_nextWrite r)
          | PRECHARGE \<Rightarrow> Inr (rk_nextPrecharge r) | PRECHARGE_ALL \<Rightarrow> Inr (rk_nextPrecharge r)
          | _ \<Rightarrow> Inl AssertFailed) (\<lambda>nextCompare.
     bind_res (bank_index r x) (\<lambda>i.
     bind_res (bo_NextIssuable ops (rk_children r ! unat i) x) (\<lambda>n. Inr (max n nextCompare))))"

text \<open>Whether an activation or refresh comes too early for the rank.\<close>

definition too_early :: "world \<Rightarrow> 'c StandardRank \<Rightarrow> nvm_error + bool" where
  "too_early w r =
     (if rk_nextActivate r > w_now w then Inr True
      else bind_res (oldest_activate r) (\<lambda>old. Inr (old + rp_tRAW (rk_p r) > w_now w)))"

definition count_waits :: "world \<Rightarrow> 'c StandardRank \<Rightarrow> nvm_error + 'c StandardRank" where
  "count_waits w r =
     (let now = w_now w; p = rk_p r;
          r = (if rk_nextActivate r > now
               then r\<lparr> rk_actWaits := rk_actWaits r + 1, rk_actWaitTotal := rk_actWaitTotal r + (rk_nextActivate r - now) \<rparr> else r)
      in bind_res (activate_slot r (RAWindex r)) (\<lambda>last.
         let r = (if last + rp_tRRDR p > now
                  then r\<lparr> rrdWaits := rrdWaits r + 1, rrdWaitTotal := rrdWaitTotal r + (last + rp_tRRDR p - now) \<rparr> else r)
         in bind_res (oldest_activate r) (\<lambda>old.
            Inr (if old + rp_tRAW p > now
                 then r\<lparr> fawWaits := fawWaits r + 1, fawWaitTotal := fawWaitTotal r + (old + rp_tRAW p - now) \<rparr> else r))))"

definition activate_issuable ::
  "'c bk_ops \<Rightarrow> world \<Rightarrow> 'c StandardRank \<Rightarrow> NVMainRequest \<Rightarrow> nvm_error + 'c StandardRank \<times> bool" where
  "activate_issuable ops w r x =
     bind_res (too_early w r) (\<lambda>early.
     bind_res (if early then Inr (r, False) else ask_bank ops w r x) (\<lambda>(r, rv).
     if rv then Inr (r, True) else bind_res (count_waits w r) (\<lambda>r. Inr (r, False))))"

definition refresh_issuable ::
  "'c bk_ops \<Rightarrow> world \<Rightarrow> 'c StandardRank \<Rightarrow> NVMainRequest \<Rightarrow> nvm_error + 'c StandardRank \<times> bool" where
  "refresh_issuable ops w r x =
     bind_res (too_early w r) (\<lambda>early.
     if early then Inr (r, False)
     else bind_res (assert_res (na_bank (rq_address x) + banksPerRefresh r \<le> bankCount r)) (\<lambda>_.
       banks_issuable ops w x (refresh_group_of r x) r))"

definition StandardRank_IsIssuable ::
  "'c bk_ops \<Rightarrow> world \<Rightarrow> 'c StandardRank \<Rightarrow> NVMainRequest \<Rightarrow> nvm_error + 'c StandardRank \<times> bool" where
  "StandardRank_IsIssuable ops w r x =
     (case rq_type x of
        ACTIVATE \<Rightarrow> activate_issuable ops w r x
      | READ \<Rightarrow> if rk_nextRead r > w_now w then Inr (r, False) else ask_bank ops w r x
      | READ_PRECHARGE \<Rightarrow> if rk_nextRead r > w_now w then Inr (r, False) else ask_bank ops w r x
      | WRITE \<Rightarrow> if rk_nextWrite r > w_now w then Inr (r, False) else ask_bank ops w r x
      | WRITE_PRECHARGE \<Rightarrow> if rk_nextWrite r > w_now w then Inr (r, False) else ask_bank ops w r x
      | PRECHARGE \<Rightarrow> if rk_nextPrecharge r > w_now w then Inr (r, False) else ask_bank ops w r x
      | PRECHARGE_ALL \<Rightarrow> if rk_nextPrecharge r > w_now w then Inr (r, False) else ask_bank ops w r x
      | POWERDOWN_PDA \<Rightarrow> CanPowerDown ops w r x
      | POWERDOWN_PDPF \<Rightarrow> CanPowerDown ops w r x
      | POWERDOWN_PDPS \<Rightarrow> CanPowerDown ops w r x
      | POWERUP \<Rightarrow> CanPowerUp ops w r x
      | REFRESH \<Rightarrow> refresh_issuable ops w r x
      | _ \<Rightarrow> ask_bank ops w r x)"

definition StandardRank_IssueCommand ::
  "'c bk_ops \<Rightarrow> world \<Rightarrow> 'c StandardRank \<Rightarrow> nat \<Rightarrow> nvm_error + world \<times> 'c StandardRank \<times> bool" where
  "StandardRank_IssueCommand ops w r q =
     bind_res (w_req w q) (\<lambda>x.
     bind_res (StandardRank_IsIssuable ops w r x) (\<lambda>(r, ok).
     if \<not> ok then Inr (w, r, False)
     else case rq_type x of
            ACTIVATE \<Rightarrow> StandardRank_Activate ops w r q
          | READ \<Rightarrow> StandardRank_Read ops w r q
          | READ_PRECHARGE \<Rightarrow> StandardRank_Read ops w r q
          | WRITE \<Rightarrow> StandardRank_Write ops w r q
          | WRITE_PRECHARGE \<Rightarrow> StandardRank_Write ops w r q
          | PRECHARGE \<Rightarrow> StandardRank_Precharge ops w r q
          | PRECHARGE_ALL \<Rightarrow> StandardRank_Precharge ops w r q
          | POWERDOWN_PDA \<Rightarrow> StandardRank_PowerDown ops w r q
          | POWERDOWN_PDPF \<Rightarrow> StandardRank_PowerDown ops w r q
          | POWERDOWN_PDPS \<Rightarrow> StandardRank_PowerDown ops w r q
          | POWERUP \<Rightarrow> StandardRank_PowerUp ops w r q
          | REFRESH \<Rightarrow> StandardRank_Refresh ops w r q
          | _ \<Rightarrow> Inr (w, r, True)))"

text \<open>Reads and writes of other ranks on the same bus.\<close>

definition StandardRank_Notify :: "world \<Rightarrow> 'c StandardRank \<Rightarrow> NVMainRequest \<Rightarrow> 'c StandardRank" where
  "StandardRank_Notify w r x =
     (let p = bp_sa (rp_bank (rk_p r)); now = w_now w in
      if rq_type x = READ \<or> rq_type x = READ_PRECHARGE then
        r\<lparr> rk_nextRead := max (rk_nextRead r) (now + sp_tBURST p + sp_tRTRS p),
           rk_nextWrite := max (rk_nextWrite r) (now + sp_tCAS p + sp_tBURST p + sp_tRTRS p - sp_tCWD p) \<rparr>
      else if rq_type x = WRITE \<or> rq_type x = WRITE_PRECHARGE then
        r\<lparr> rk_nextWrite := max (rk_nextWrite r) (now + sp_tBURST p + rp_tOST (rk_p r)),
           rk_nextRead := max (rk_nextRead r) (now + sp_tBURST p + sp_tCWD p + sp_tRTRS p - sp_tCAS p) \<rparr>
      else r)"

text \<open>The flag tells whether the request goes on to the parent.\<close>

definition StandardRank_RequestComplete ::
  "'c bk_ops \<Rightarrow> world \<Rightarrow> 'c StandardRank \<Rightarrow> nat \<Rightarrow> nvm_error + world \<times> 'c StandardRank \<times> bool" where
  "StandardRank_RequestComplete ops w r q =
     bind_res (w_req w q) (\<lambda>x.
     if rq_owner x = rk_this r then
       bind_res (if rq_type x = PRECHARGE \<or> rq_type x = REFRESH then settle_closed ops r else Inr r) (\<lambda>r.
       Inr (w\<lparr> w_heap := (w_heap w)(q := None) \<rparr>, r, False))
     else Inr (w, r, True))"

definition StandardRank_Cycle :: "'c bk_ops \<Rightarrow> 'c StandardRank \<Rightarrow> ncycle_t \<Rightarrow> 'c StandardRank" where
  "StandardRank_Cycle ops r steps =
     (let r = r\<lparr> rk_children := map (\<lambda>c. bo_Cycle ops c steps) (rk_children r) \<rparr> in
      case rk_state r of
        STANDARDRANK_PDA \<Rightarrow> r\<lparr> rk_fastExitActiveCycles := rk_fastExitActiveCycles r + steps \<rparr>
      | STANDARDRANK_PDPF \<Rightarrow> r\<lparr> rk_fastExitPrechargeCycles := rk_fastExitPrechargeCycles r + steps \<rparr>
      | STANDARDRANK_PDPS \<Rightarrow> r\<lparr> slowExitCycles := slowExitCycles r + steps \<rparr>
      | STANDARDRANK_REFRESHING \<Rightarrow> r\<lparr> rk_activeCycles := rk_activeCycles r + steps \<rparr>
      | STANDARDRANK_OPEN \<Rightarrow> r\<lparr> rk_activeCycles := rk_activeCycles r + steps \<rparr>
      | STANDARDRANK_CLOSED \<Rightarrow> r\<lparr> rk_standbyCycles := rk_standbyCycles r + steps \<rparr>
      | STANDARDRANK_UNKNOWN \<Rightarrow> r)"

section \<open>A small rank\<close>

definition rank_example_params :: RankParams where
  "rank_example_params = \<lparr> rp_bank = bank_example_params, rp_tCMD = 1, rp_tRAW = 10, rp_tRRDR = 3, rp_tPPD = 0, rp_tOST = 1,
     rp_RAW = Some 2, rp_BANKS = 2, rp_BanksPerRefresh = 1, rp_DeviceWidth = 8, rp_BusWidth = 64 \<rparr>"

definition rank_example :: "unit SubArray DDR3Bank StandardRank" where
  "rank_example = (case StandardRank_SetConfig (StandardRank_init rank_example_params 20 [(9, 20)] AddressTranslator_init) (\<lambda>_. bank_example) of
     Inr r \<Rightarrow> r | Inl _ \<Rightarrow> StandardRank_init rank_example_params 20 [(9, 20)] AddressTranslator_init)"

definition rank_request :: "nat \<Rightarrow> OpType \<Rightarrow> u64 \<Rightarrow> u64 \<Rightarrow> NVMainRequest" where
  "rank_request p t i j = (let x = bank_request p t j in x\<lparr> rq_address := (rq_address x)\<lparr> na_bank := i \<rparr> \<rparr>)"

definition rank_world :: world where
  "rank_world = \<lparr> w_queue = EventQueue_init, w_fresh = 100, w_heap = [1 \<mapsto> rank_request 1 ACTIVATE 0 0, 2 \<mapsto> rank_request 2 ACTIVATE 1 0,
     3 \<mapsto> rank_request 3 ACTIVATE 0 1, 4 \<mapsto> rank_request 4 POWERDOWN_PDPF 0 0], w_sim = None \<rparr>"

abbreviation example_ops :: "unit SubArray DDR3Bank bk_ops" where
  "example_ops \<equiv> ddr3_ops (subarray_ops sa_example_env)"

definition rank_step :: "ncycle_t \<Rightarrow> nat \<Rightarrow> world \<times> unit SubArray DDR3Bank StandardRank \<Rightarrow> world \<times> unit SubArray DDR3Bank StandardRank" where
  "rank_step n q = (\<lambda>(w, r). case StandardRank_IssueCommand example_ops (w_at n w) r q of
     Inr (w', r', ok) \<Rightarrow> (w', r') | Inl _ \<Rightarrow> (w, r))"

definition rank_takes :: "ncycle_t \<Rightarrow> nat \<Rightarrow> OpType \<Rightarrow> world \<times> unit SubArray DDR3Bank StandardRank \<Rightarrow> bool" where
  "rank_takes n q t = (\<lambda>(w, r). map_option rq_type (w_heap w q) = Some t \<and>
     (case StandardRank_IssueCommand example_ops (w_at n w) r q of Inr (w', r', ok) \<Rightarrow> ok | Inl _ \<Rightarrow> False))"

end
