(* ===== verification/Nvm_RankWindow.thy ===== *)
theory Nvm_RankWindow
  imports Nvm_Rank
begin

text \<open>
  The activation window of a rank: the ring buffer of \<^verbatim>\<open>lastActivate\<close> is refined to the list of the last
  activations, and the runs of a rank keep the distances the parameters ask for.
\<close>

section \<open>The ring buffer\<close>

text \<open>The last activations, newest first.\<close>

definition ring_ok :: "'c StandardRank \<Rightarrow> bool" where
  "ring_ok r \<longleftrightarrow> RAWindex r < rawNum r \<and> length (rk_lastActivate r) = unat (rawNum r)"

definition ring :: "nat \<Rightarrow> nat \<Rightarrow> 'a list \<Rightarrow> 'a list" where
  "ring n i xs = map (\<lambda>k. xs ! ((i + n - k) mod n)) [0..<n]"

definition recent :: "'c StandardRank \<Rightarrow> ncycle_t list" where
  "recent r = ring (unat (rawNum r)) (unat (RAWindex r)) (rk_lastActivate r)"

lemma ring_length [simp]: "length (ring n i xs) = n"
  by (simp add: ring_def)

lemma ring_last: "0 < n \<Longrightarrow> last (ring n i xs) = xs ! (Suc i mod n)"
  by (simp add: ring_def last_map)

lemma ring_slot: "Suc j < n \<Longrightarrow> (Suc i mod n + n - Suc j) mod n = (i + n - j) mod n"
proof -
  assume j: "Suc j < n"
  have "(Suc i mod n + n - Suc j) mod n = (Suc i mod n + (n - Suc j)) mod n" using j by simp
  also have "\<dots> = (Suc i + (n - Suc j)) mod n" by (simp only: mod_add_left_eq)
  also have "Suc i + (n - Suc j) = i + n - j" using j by simp
  finally show ?thesis .
qed

lemma ring_slot_new:
  assumes "Suc j < n" "i < n"
  shows "(i + n - j) mod n \<noteq> Suc i mod n"
proof (cases "j \<le> i")
  case True
  then have "(i + n - j) mod n = i - j" using assms by (simp add: mod_if)
  then show ?thesis using assms True by (cases "Suc i = n") auto
next
  case False
  then have "(i + n - j) mod n = i + n - j" using assms by simp
  then show ?thesis using assms False by (cases "Suc i = n") auto
qed

lemma ring_record:
  assumes "i < n" "length xs = n"
  shows "ring n (Suc i mod n) (xs[Suc i mod n := t]) = t # butlast (ring n i xs)"
proof (rule nth_equalityI)
  show "length (ring n (Suc i mod n) (xs[Suc i mod n := t])) = length (t # butlast (ring n i xs))" using assms by simp
  fix k
  assume "k < length (ring n (Suc i mod n) (xs[Suc i mod n := t]))"
  then have k: "k < n" by simp
  show "ring n (Suc i mod n) (xs[Suc i mod n := t]) ! k = (t # butlast (ring n i xs)) ! k"
  proof (cases k)
    case 0
    then show ?thesis using assms k by (simp add: ring_def)
  next
    case (Suc j)
    then show ?thesis
      using assms k ring_slot [of j n i] ring_slot_new [of j n i] by (simp add: ring_def nth_butlast del: upt_Suc)
  qed
qed

lemma next_slot:
  assumes "i < (n :: u64)"
  shows "unat ((i + 1) mod n) = Suc (unat i) mod unat n"
proof -
  have "i + 1 \<noteq> 0" using assms by (metis add_diff_cancel add_eq_0_iff2 diff_0 leD word_order.extremum)
  then show ?thesis using unatSuc [of i] by (simp add: unat_mod add.commute)
qed

lemma ring_ok_rawNum:
  assumes "ring_ok r"
  shows "rawNum r \<noteq> 0" "0 < unat (rawNum r)"
  using assms by (auto simp: ring_ok_def word_less_nat_alt)

lemma oldest_activate_eq:
  assumes "ring_ok r"
  shows "oldest_activate r = Inr (last (recent r))"
proof -
  note n = ring_ok_rawNum [OF assms]
  show ?thesis
    using assms n next_slot [of "RAWindex r" "rawNum r"]
    by (simp add: oldest_activate_def activate_slot_def recent_def ring_last ring_ok_def)
qed

text \<open>Recording an activation, on the list of the last ones.\<close>

lemma record_activate_recent:
  assumes "ring_ok r"
  obtains r' where "record_activate t r = Inr r'" "ring_ok r'" "recent r' = t # butlast (recent r)"
    "rawNum r' = rawNum r" "rk_p r' = rk_p r" "rk_nextActivate r' = rk_nextActivate r"
proof -
  let ?i = "(RAWindex r + 1) mod rawNum r"
  let ?r = "r\<lparr> RAWindex := ?i, rk_lastActivate := (rk_lastActivate r)[unat ?i := t] \<rparr>"
  note n = ring_ok_rawNum [OF assms]
  have i: "unat ?i = Suc (unat (RAWindex r)) mod unat (rawNum r)" using assms next_slot by (simp add: ring_ok_def)
  then have l: "unat ?i < unat (rawNum r)" using n(2) by simp
  have "record_activate t r = Inr ?r" using assms n(1) l by (simp add: record_activate_def activate_slot_def ring_ok_def Let_def)
  moreover have "ring_ok ?r" using assms l by (simp add: ring_ok_def word_less_nat_alt)
  moreover have "recent ?r = t # butlast (recent r)"
    using assms ring_record [of "unat (RAWindex r)" "unat (rawNum r)" "rk_lastActivate r" t] i
    by (simp add: recent_def ring_ok_def word_less_nat_alt)
  ultimately show ?thesis using that [of ?r] by simp
qed

section \<open>The clock\<close>

text \<open>Commands take no simulated time: subarrays and banks leave the clock alone.\<close>

locale sa_clock =
  fixes ops :: "'c sa_ops"
  assumes sa_clock: "so_IssueCommand ops w c q = Inr (w', c', ok) \<Longrightarrow> w_now w' = w_now w"
begin

lemma child_issue_clock: "child_issue ops w b i q = Inr (w', b', ok) \<Longrightarrow> w_now w' = w_now w"
  by (auto simp: child_issue_def bind_res_eq_Inr dest: sa_clock)

lemma pass_on_clock: "pass_on ops w b q x f = Inr (w', b', ok) \<Longrightarrow> w_now w' = w_now w"
  by (auto elim!: pass_on_cases dest: child_issue_clock)

lemma precharge_all_clock: "precharge_all ops q is w b = Inr (w', b', ok) \<Longrightarrow> w_now w' = w_now w"
proof (induction "is" arbitrary: w b rule: induct_list012)
  case (2 i)
  show ?case using child_issue_clock [OF precharge_all_one(2) [OF "2.prems"]] .
next
  case (3 i j "is")
  obtain x w1 b1 ok1 where i: "child_issue ops (with_copy w (x\<lparr> rq_owner := bk_this b \<rparr>)) (b\<lparr> activeSubArrayQueue := j # is \<rparr>) i (w_fresh w) = Inr (w1, b1, ok1)"
    and n: "if ok1 then precharge_all ops q (j # is) w1 b1 = Inr (w', b', ok) else w' = w1 \<and> b' = b1 \<and> \<not> ok"
    using precharge_all_Cons [OF "3.prems"] .
  have "w_now w1 = w_now w" using child_issue_clock [OF i] by (simp add: with_copy_def)
  then show ?case using n "3.IH"(2) [of w1 b1] by (cases ok1) simp_all
qed simp

lemma precharge_clock: "precharge_children ops q x w b = Inr (w', b', ok) \<Longrightarrow> w_now w' = w_now w"
  by (auto simp: precharge_children_def precharge_one_def split: if_splits dest: pass_on_clock precharge_all_clock)

lemma commands_clock:
  "DDR3Bank_Activate ops w b q = Inr (w', b', ok) \<Longrightarrow> w_now w' = w_now w" "DDR3Bank_Read ops w b q = Inr (w', b', ok) \<Longrightarrow> w_now w' = w_now w"
  "DDR3Bank_Write ops w b q = Inr (w', b', ok) \<Longrightarrow> w_now w' = w_now w" "DDR3Bank_Refresh ops w b q = Inr (w', b', ok) \<Longrightarrow> w_now w' = w_now w"
  subgoal by (auto simp: DDR3Bank_Activate_def bind_res_eq_Inr Let_def split: if_splits dest!: pass_on_clock)
  subgoal by (auto simp: DDR3Bank_Read_def bind_res_eq_Inr Let_def split: if_splits dest!: pass_on_clock)
  subgoal by (auto simp: DDR3Bank_Write_def bind_res_eq_Inr Let_def split: if_splits dest!: pass_on_clock)
  subgoal by (auto simp: DDR3Bank_Refresh_def bind_res_eq_Inr Let_def split: if_splits dest!: pass_on_clock)
  done

lemma Precharge_clock:
  assumes "DDR3Bank_Precharge ops w b q = Inr (w', b', ok)"
  shows "w_now w' = w_now w"
proof -
  obtain x where x: "w_req w q = Inr x" using assms by (auto simp: DDR3Bank_Precharge_def bind_res_eq_Inr)
  show ?thesis
  proof (cases "bk_nextPrecharge b > w_now w \<or> bk_state b \<noteq> DDR3BANK_CLOSED \<and> bk_state b \<noteq> DDR3BANK_OPEN")
    case True
    then show ?thesis using assms x by (auto simp: DDR3Bank_Precharge_def split: if_splits)
  next
    case False
    then obtain b1 where "precharge_children ops q x w
        (b\<lparr> bk_nextPowerDown := max (bk_nextPowerDown b) (w_now w + sp_tRP (bp_sa (bk_p b))) \<rparr>) = Inr (w', b1, ok)"
      using Precharge_cases [OF assms x] by blast
    then show ?thesis by (rule precharge_clock)
  qed
qed

lemma bank_clock:
  assumes "DDR3Bank_IssueCommand ops w b q = Inr (w', b', ok)"
  shows "w_now w' = w_now w"
proof -
  obtain x c k where x: "w_req w q = Inr x" and c: "DDR3Bank_IsIssuable ops w b x = Inr (c, k)"
    using assms by (auto simp: DDR3Bank_IssueCommand_def bind_res_eq_Inr)
  show ?thesis
    using assms x c
    by (cases k; cases "rq_type x")
      (auto simp: DDR3Bank_IssueCommand_def bind_res_eq_Inr split: prod.splits
        intro: commands_clock Precharge_clock child_issue_clock)
qed

end

lemma now_timing: "timing t = timing s \<Longrightarrow> sa_now t = sa_now s"
  by (simp add: timing_def)

lemma command_now:
  "sa_now (unpaused s) = sa_now s" "sa_now (activated row s) = sa_now s" "sa_now (reading x d s) = sa_now s"
  "sa_now (writing x v s) = sa_now s" "sa_now (closing st v s) = sa_now s"
  by (simp_all add: unpaused_fields)

lemma sa_commands_clock:
  shows "Activate env s r = Inr (t, ok) \<Longrightarrow> sa_now t = sa_now s" "SubArray_Read env s r = Inr (t, ok) \<Longrightarrow> sa_now t = sa_now s"
    "SubArray_Write env s r = Inr (t, ok) \<Longrightarrow> sa_now t = sa_now s" "Precharge env s r = Inr (t, ok) \<Longrightarrow> sa_now t = sa_now s"
    "Refresh s r = Inr (t, ok) \<Longrightarrow> sa_now t = sa_now s"
proof -
  show "sa_now t = sa_now s" if t: "Activate env s r = Inr (t, ok)"
  proof -
    obtain x where "get_req s r = Inr x" using t by (auto simp: Activate_def bind_res_eq_Inr)
    then show ?thesis using Activate_timing [OF t] by (cases ok) (auto simp: command_now dest!: now_timing)
  qed
  show "sa_now t = sa_now s" if t: "SubArray_Read env s r = Inr (t, ok)"
  proof -
    obtain x where x: "get_req s r = Inr x" using t by (auto simp: SubArray_Read_def bind_res_eq_Inr)
    obtain u where u: "timing u = timing (unpaused s)" "if ok then read_row env u r = Inr t else t = u"
      using Read_timing [OF t x] by (metis (full_types))
    have "sa_now u = sa_now s" using now_timing [OF u(1)] by (simp add: command_now)
    then show ?thesis using u(2) by (cases ok) (auto simp: command_now elim!: read_row_timing dest!: now_timing)
  qed
  show "sa_now t = sa_now s" if t: "SubArray_Write env s r = Inr (t, ok)"
  proof -
    obtain x where x: "get_req s r = Inr x" using t by (auto simp: SubArray_Write_def bind_res_eq_Inr)
    then show ?thesis using Write_timing [OF t x] by (cases ok) (auto simp: command_now elim!: write_row_timing dest!: now_timing)
  qed
  show "sa_now t = sa_now s" if t: "Precharge env s r = Inr (t, ok)"
    using Precharge_timing [OF t] by (cases ok) (auto simp: command_now dest!: now_timing)
  show "sa_now t = sa_now s" if t: "Refresh s r = Inr (t, ok)"
    using Refresh_timing [OF t] by (cases ok) (auto simp: command_now dest!: now_timing)
qed

lemma IssueCommand_clock:
  assumes "SubArray_IssueCommand env s q = Inr (t, ok)"
  shows "sa_now t = sa_now s"
proof -
  obtain x u b where u: "SubArray_IsIssuable s x = Inr (u, b)"
    and t: "t = u \<or> (t, ok) \<in> {v. Activate env u q = Inr v \<or> SubArray_Read env u q = Inr v \<or> SubArray_Write env u q = Inr v
       \<or> Precharge env u q = Inr v \<or> Refresh u q = Inr v}"
    using assms by (auto simp: SubArray_IssueCommand_def bind_res_eq_Inr split: if_splits OpType.splits)
  have "sa_now u = sa_now s" using now_timing [OF IsIssuable_timing [OF u]] .
  moreover have "sa_now t = sa_now u" using t sa_commands_clock(1-4) [of env u q t ok] sa_commands_clock(5) [of u q t ok] by auto
  ultimately show ?thesis by simp
qed

interpretation subc: sa_clock "subarray_ops env" for env :: "'e sa_env"
proof
  fix w w' and c c' :: "'e SubArray" and q ok
  assume "so_IssueCommand (subarray_ops env) w c q = Inr (w', c', ok)"
  then have "SubArray_IssueCommand env (sa_load w c) q = Inr (c', ok)" "w' = sa_store c'"
    by (auto simp: subarray_ops_def bind_res_eq_Inr)
  then show "w_now w' = w_now w" using IssueCommand_clock by force
qed

section \<open>What touches the window\<close>

definition window :: "'c StandardRank \<Rightarrow> RankParams \<times> u64 \<times> u64 \<times> ncycle_t list \<times> ncycle_t" where
  "window r = (rk_p r, rawNum r, RAWindex r, rk_lastActivate r, rk_nextActivate r)"

lemma window_simps [simp]:
  "window (r\<lparr> rk_children := cs \<rparr>) = window r" "window (r\<lparr> rk_state := st \<rparr>) = window r"
  "window (r\<lparr> rk_nextRead := n \<rparr>) = window r" "window (r\<lparr> rk_nextWrite := n \<rparr>) = window r" "window (r\<lparr> rk_nextPrecharge := n \<rparr>) = window r"
  "window (r\<lparr> rk_actWaits := n \<rparr>) = window r" "window (r\<lparr> rk_actWaitTotal := n \<rparr>) = window r"
  "window (r\<lparr> rrdWaits := n \<rparr>) = window r" "window (r\<lparr> rrdWaitTotal := n \<rparr>) = window r"
  "window (r\<lparr> fawWaits := n \<rparr>) = window r" "window (r\<lparr> fawWaitTotal := n \<rparr>) = window r"
  "window (r\<lparr> rk_activeCycles := n \<rparr>) = window r" "window (r\<lparr> rk_standbyCycles := n \<rparr>) = window r"
  "window (r\<lparr> rk_fastExitActiveCycles := n \<rparr>) = window r" "window (r\<lparr> rk_fastExitPrechargeCycles := n \<rparr>) = window r"
  "window (r\<lparr> slowExitCycles := n \<rparr>) = window r"
  by (simp_all add: window_def)

lemma window_deadlines [simp]:
  "window (rank_read_deadlines w x r) = window r" "window (rank_write_deadlines w x r) = window r"
  "window (StandardRank_Notify w r x) = window r" "window (StandardRank_Cycle ops r steps) = window r"
  by (simp_all add: rank_read_deadlines_def rank_write_deadlines_def StandardRank_Notify_def StandardRank_Cycle_def Let_def
      split: StandardRank_State.split)

named_theorems window_frame

lemma bank_window [window_frame]:
  "bank_issuable ops w r i x = Inr (r', ok) \<Longrightarrow> window r' = window r"
  "bank_issue ops w r i q = Inr (w', r', ok) \<Longrightarrow> window r' = window r"
  "ask_bank ops w r x = Inr (r', ok) \<Longrightarrow> window r' = window r"
  "to_bank ops w r q x = Inr (w', r', ok) \<Longrightarrow> window r' = window r"
  by (auto simp: bank_issuable_def bank_issue_def ask_bank_def to_bank_def bind_res_eq_Inr)

lemma banks_window [window_frame]:
  "banks_issuable ops w x is r = Inr (r', ok) \<Longrightarrow> window r' = window r"
  "count_issuable ops w x is r n = Inr (r', m) \<Longrightarrow> window r' = window r"
  "issue_all ops q is w r = Inr (w', r') \<Longrightarrow> window r' = window r"
  "refresh_banks ops q is w r = Inr (w', r') \<Longrightarrow> window r' = window r"
  subgoal by (induction "is" arbitrary: r) (auto simp: bind_res_eq_Inr split: if_splits dest!: bank_window)
  subgoal by (induction "is" arbitrary: r n) (auto simp: bind_res_eq_Inr split: if_splits dest!: bank_window)
  subgoal by (induction "is" arbitrary: w r) (auto simp: bind_res_eq_Inr dest!: bank_window)
  subgoal by (induction "is" arbitrary: w r) (auto simp: bind_res_eq_Inr Let_def dest!: bank_window)
  done

lemma settle_closed_window [window_frame]: "settle_closed ops r = Inr r' \<Longrightarrow> window r' = window r"
  by (auto simp: settle_closed_def bind_res_eq_Inr)

lemma count_waits_window [window_frame]: "count_waits w r = Inr r' \<Longrightarrow> window r' = window r"
  by (auto simp: count_waits_def Let_def bind_res_eq_Inr)

lemma activate_issuable_window [window_frame]: "activate_issuable ops w r x = Inr (r', ok) \<Longrightarrow> window r' = window r"
  by (auto simp: activate_issuable_def bind_res_eq_Inr split: if_splits dest!: window_frame)

lemma other_issuable_window [window_frame]:
  "refresh_issuable ops w r x = Inr (r', ok) \<Longrightarrow> window r' = window r" "CanPowerDown ops w r x = Inr (r', ok) \<Longrightarrow> window r' = window r"
  "CanPowerUp ops w r x = Inr (r', ok) \<Longrightarrow> window r' = window r"
  by (auto simp: refresh_issuable_def CanPowerDown_def CanPowerUp_def bind_res_eq_Inr split: if_splits dest!: window_frame)

lemma IsIssuable_window [window_frame]: "StandardRank_IsIssuable ops w r x = Inr (r', ok) \<Longrightarrow> window r' = window r"
  by (auto simp: StandardRank_IsIssuable_def split: OpType.splits if_splits dest!: window_frame)

lemma command_window [window_frame]:
  "StandardRank_Read ops w r q = Inr (w', r', ok) \<Longrightarrow> window r' = window r"
  "StandardRank_Write ops w r q = Inr (w', r', ok) \<Longrightarrow> window r' = window r"
  "StandardRank_Precharge ops w r q = Inr (w', r', ok) \<Longrightarrow> window r' = window r"
  "StandardRank_PowerDown ops w r q = Inr (w', r', ok) \<Longrightarrow> window r' = window r"
  "StandardRank_PowerUp ops w r q = Inr (w', r', ok) \<Longrightarrow> window r' = window r"
  subgoal by (auto simp: StandardRank_Read_def bind_res_eq_Inr Let_def split: if_splits dest!: window_frame)
  subgoal by (auto simp: StandardRank_Write_def bind_res_eq_Inr Let_def split: if_splits dest!: window_frame)
  subgoal by (auto simp: StandardRank_Precharge_def bind_res_eq_Inr Let_def split: if_splits dest!: window_frame)
  subgoal by (auto simp: StandardRank_PowerDown_def Let_def elim!: bind_res_elim dest!: banks_window(3)
      cong: if_cong split: OpType.splits)
  subgoal by (auto simp: StandardRank_PowerUp_def Let_def elim!: bind_res_elim dest!: banks_window(3) split: StandardRank_State.splits)
  done

lemma RequestComplete_window [window_frame]: "StandardRank_RequestComplete ops w r q = Inr (w', r', up) \<Longrightarrow> window r' = window r"
  by (auto simp: StandardRank_RequestComplete_def bind_res_eq_Inr split: if_splits dest!: window_frame)

lemma rank_event_clock: "rank_event r w q when = Inr w' \<Longrightarrow> w_now w' = w_now w"
  by (auto simp: rank_event_def bind_res_eq_Inr InsertEvent_object_def InsertEvent_hook_def InsertEvent_def Let_def split: option.splits)

section \<open>Runs of a rank\<close>

text \<open>
  A run of a rank with what happens around it. The list holds the cycles of the activations and refreshes it has
  issued, newest first; the clock is that of the last command. Other modules may change the world,
  and the banks in the way \<open>E\<close> allows.
\<close>

inductive rank_run :: "'c bk_ops \<Rightarrow> ('c \<Rightarrow> 'c \<Rightarrow> bool) \<Rightarrow> 'c StandardRank \<Rightarrow> ncycle_t list \<Rightarrow> ncycle_t \<Rightarrow> 'c StandardRank \<Rightarrow> bool" for ops E r0 where
  start: "rank_run ops E r0 [] 0 r0"
| issue: "rank_run ops E r0 ts n r \<Longrightarrow> n \<le> w_now w \<Longrightarrow> w_heap w q = Some x \<Longrightarrow>
    StandardRank_IssueCommand ops w r q = Inr (w', r', ok) \<Longrightarrow>
    rank_run ops E r0 (if ok \<and> (rq_type x = ACTIVATE \<or> rq_type x = REFRESH) then w_now w # ts else ts) (w_now w) r'"
| ask: "rank_run ops E r0 ts n r \<Longrightarrow> StandardRank_IsIssuable ops w r x = Inr (r', ok) \<Longrightarrow> rank_run ops E r0 ts n r'"
| notify: "rank_run ops E r0 ts n r \<Longrightarrow> rank_run ops E r0 ts n (StandardRank_Notify w r x)"
| complete: "rank_run ops E r0 ts n r \<Longrightarrow> StandardRank_RequestComplete ops w r q = Inr (w', r', up) \<Longrightarrow> rank_run ops E r0 ts n r'"
| cycle: "rank_run ops E r0 ts n r \<Longrightarrow> rank_run ops E r0 ts n (StandardRank_Cycle ops r steps)"
| outside: "rank_run ops E r0 ts n r \<Longrightarrow> list_all2 E (rk_children r) cs \<Longrightarrow> rank_run ops E r0 ts n (r\<lparr> rk_children := cs \<rparr>)"

text \<open>Any \<open>k\<close> successive entries span at least \<open>d\<close> cycles.\<close>

definition spaced :: "nat \<Rightarrow> ncycle_t \<Rightarrow> ncycle_t list \<Rightarrow> bool" where
  "spaced k d ts \<longleftrightarrow> (\<forall>i. i + k < length ts \<longrightarrow> unat (ts ! (i + k)) + unat d \<le> unat (ts ! i))"

lemma spaced_Nil [simp]: "spaced k d []"
  by (simp add: spaced_def)

lemma spaced_Cons:
  assumes "spaced k d ts" "0 < k" "k \<le> length ts \<Longrightarrow> unat (ts ! (k - 1)) + unat d \<le> unat t"
  shows "spaced k d (t # ts)"
  unfolding spaced_def
proof (intro allI impI)
  fix i
  assume i: "i + k < length (t # ts)"
  show "unat ((t # ts) ! (i + k)) + unat d \<le> unat ((t # ts) ! i)"
  proof (cases i)
    case 0
    then show ?thesis using i assms(2,3) by (cases k) auto
  next
    case (Suc j)
    then have "unat (ts ! (j + k)) + unat d \<le> unat (ts ! j)" using assms(1) i unfolding spaced_def by simp
    then show ?thesis using Suc by simp
  qed
qed

text \<open>The invariant: the ring buffer holds the newest entries of the list.\<close>

definition window_inv :: "RankParams \<Rightarrow> u64 \<Rightarrow> ncycle_t list \<Rightarrow> ncycle_t \<Rightarrow> 'c StandardRank \<Rightarrow> bool" where
  "window_inv p m ts n r \<longleftrightarrow> ring_ok r \<and> rk_p r = p \<and> rawNum r = m
     \<and> recent r = take (unat m) (ts @ replicate (unat m) 0)
     \<and> list_all (\<lambda>t. t \<le> n) ts \<and> (ts \<noteq> [] \<longrightarrow> hd ts + rp_tRRDR p \<le> rk_nextActivate r)
     \<and> spaced 1 (rp_tRRDR p) ts \<and> spaced (unat m) (rp_tRAW p) ts"

lemma window_inv_frame: "window r' = window r \<Longrightarrow> window_inv p m ts n r' = window_inv p m ts n r"
  by (simp add: window_inv_def window_def ring_ok_def recent_def)

lemma too_early_frame: "window r' = window r \<Longrightarrow> too_early w r' = too_early w r"
  by (simp add: too_early_def oldest_activate_def activate_slot_def window_def)

lemma window_inv_later: "window_inv p m ts n r \<Longrightarrow> n \<le> n' \<Longrightarrow> window_inv p m ts n' r"
  by (auto simp: window_inv_def list_all_iff)

lemma take_newest: "0 < m \<Longrightarrow> t # butlast (take m (ts @ replicate m z)) = take m (t # ts @ replicate m z)"
proof (cases m)
  case (Suc k)
  then have "butlast (take m (ts @ replicate m z)) = take k (ts @ replicate m z)" by (simp add: butlast_take del: take_append)
  then show ?thesis using Suc by simp
qed simp

lemma take_oldest: "0 < m \<Longrightarrow> m \<le> length ts \<Longrightarrow> last (take m (ts @ zs)) = ts ! (m - 1)"
proof -
  assume m: "0 < m" "m \<le> length ts"
  then have "take m ts \<noteq> []" by auto
  then have "last (take m ts) = ts ! (m - 1)" using m last_conv_nth [of "take m ts"] by (simp add: min_absorb2)
  then show ?thesis using m by simp
qed

lemma no_wrap: "unat (n :: u64) + unat d < 2 ^ 64 \<Longrightarrow> t \<le> n \<Longrightarrow> unat (t + d) = unat t + unat d"
  by (rule unat_add_lem [THEN iffD1]) (simp add: word_le_nat_alt)

lemma window_inv_activate:
  assumes "window_inv p m ts n r" "n \<le> now" "too_early w r = Inr False" "w_now w = now"
    and "activates_at w' r = Inr r'" "w_now w' = now"
    and "unat now + unat (rp_tRAW p) < 2 ^ 64" "unat now + unat (rp_tRRDR p) < 2 ^ 64"
  shows "window_inv p m (now # ts) now r'"
proof -
  have ok: "ring_ok r" and p: "rk_p r = p" and m: "rawNum r = m" and rec: "recent r = take (unat m) (ts @ replicate (unat m) 0)"
    and le: "list_all (\<lambda>t. t \<le> now) ts" and hd: "ts \<noteq> [] \<Longrightarrow> hd ts + rp_tRRDR p \<le> rk_nextActivate r"
    and s1: "spaced 1 (rp_tRRDR p) ts" and s2: "spaced (unat m) (rp_tRAW p) ts"
    using window_inv_later [OF assms(1,2)] by (simp_all add: window_inv_def)
  have m0: "0 < unat m" using ring_ok_rawNum [OF ok] m by simp
  have free: "rk_nextActivate r \<le> now" "last (recent r) + rp_tRAW p \<le> now"
    using assms(3,4) p oldest_activate_eq [OF ok] by (auto simp: too_early_def bind_res_eq_Inr split: if_splits)
  obtain r1 where r1: "record_activate now r = Inr r1" "ring_ok r1" "recent r1 = now # butlast (recent r)" "rawNum r1 = rawNum r"
      "rk_p r1 = rk_p r" "rk_nextActivate r1 = rk_nextActivate r"
    using record_activate_recent [OF ok] .
  have r': "r' = r1\<lparr> rk_nextActivate := max (rk_nextActivate r) (now + rp_tRRDR p) \<rparr>"
    using assms(5,6) r1 p by (simp add: activates_at_def)
  have "spaced 1 (rp_tRRDR p) (now # ts)"
  proof (rule spaced_Cons [OF s1])
    assume "1 \<le> length ts"
    then have ne: "ts \<noteq> []" by auto
    then have "hd ts + rp_tRRDR p \<le> now" "hd ts \<le> now" using hd free(1) le by (auto simp: neq_Nil_conv)
    then show "unat (ts ! (1 - 1)) + unat (rp_tRRDR p) \<le> unat now"
      using no_wrap [OF assms(8), of "hd ts"] ne by (simp add: word_le_nat_alt hd_conv_nth)
  qed simp
  moreover have "spaced (unat m) (rp_tRAW p) (now # ts)"
  proof (rule spaced_Cons [OF s2 m0])
    assume l: "unat m \<le> length ts"
    then have "last (recent r) = ts ! (unat m - 1)" using take_oldest [OF m0 l] rec by simp
    moreover have "ts ! (unat m - 1) \<le> now" using le l m0 by (simp add: list_all_length)
    ultimately show "unat (ts ! (unat m - 1)) + unat (rp_tRAW p) \<le> unat now"
      using free(2) no_wrap [OF assms(7), of "ts ! (unat m - 1)"] by (simp add: word_le_nat_alt)
  qed
  moreover have "recent r' = take (unat m) ((now # ts) @ replicate (unat m) 0)"
    using r1(3) rec take_newest [OF m0, of now ts 0] by (simp add: r' recent_def)
  ultimately show ?thesis using r1 p m le by (simp add: window_inv_def r' ring_ok_def)
qed

section \<open>The activation window\<close>

lemma window_SetConfig:
  assumes "StandardRank_SetConfig (StandardRank_init p this hooks at) new_bank = Inr r"
  shows "window_inv p (rawNum r) [] 0 r"
proof -
  let ?m = "case rp_RAW p of None \<Rightarrow> 4 | Some n \<Rightarrow> n"
  have m: "?m \<noteq> 0" and r: "rk_p r = p" "rawNum r = ?m" "RAWindex r = 0" "rk_lastActivate r = replicate (unat ?m) 0"
    using assms by (auto simp: StandardRank_SetConfig_def StandardRank_init_def Let_def bind_res_eq_Inr split: if_splits)
  then show ?thesis
    by (auto simp: window_inv_def ring_ok_def recent_def ring_def word_neq_0_conv intro!: nth_equalityI)
qed

text \<open>A rank relies on its banks to leave the clock alone.\<close>

locale rank_banks =
  fixes ops :: "'c bk_ops"
  assumes bo_clock: "bo_IssueCommand ops w c q = Inr (w', c', ok) \<Longrightarrow> w_now w' = w_now w"
begin

lemma bank_issue_clock: "bank_issue ops w r i q = Inr (w', r', ok) \<Longrightarrow> w_now w' = w_now w"
  by (auto simp: bank_issue_def bind_res_eq_Inr dest: bo_clock)

lemma to_bank_clock: "to_bank ops w r q x = Inr (w', r', ok) \<Longrightarrow> w_now w' = w_now w"
  by (auto simp: to_bank_def bind_res_eq_Inr dest: bank_issue_clock)

lemma refresh_banks_clock: "refresh_banks ops q is w r = Inr (w', r') \<Longrightarrow> w_now w' = w_now w"
  by (induction "is" arbitrary: w r) (auto simp: bind_res_eq_Inr Let_def dest!: bank_issue_clock)

lemma Activate_window:
  assumes "StandardRank_Activate ops w r q = Inr (w', r', True)" "too_early w r = Inr False"
  obtains v r1 where "window r1 = window r" "w_now v = w_now w" "activates_at v r1 = Inr r'"
proof -
  have free: "(if rk_nextActivate r \<le> w_now w
      then bind_res (oldest_activate r) (\<lambda>old. Inr (old + rp_tRAW (rk_p r) \<le> w_now w)) else Inr False) = Inr True"
    using assms(2) by (auto simp: too_early_def bind_res_eq_Inr split: if_splits)
  obtain x v r1 k where b: "to_bank ops w r q x = Inr (v, r1, k)"
    and a: "activates_at v (if rk_state r1 = STANDARDRANK_CLOSED then r1\<lparr> rk_state := STANDARDRANK_OPEN \<rparr> else r1) = Inr r'"
    using assms(1) unfolding StandardRank_Activate_def free
    by (auto simp: Let_def elim!: bind_res_elim split: if_splits)
  show ?thesis by (rule that [OF _ to_bank_clock [OF b] a]) (simp add: bank_window(4) [OF b])
qed

lemma Refresh_window:
  assumes "StandardRank_Refresh ops w r q = Inr (w', r', ok)"
  obtains v r1 where "window r1 = window r" "w_now v = w_now w" "activates_at v r1 = Inr r'"
proof -
  obtain x bs v r1 y u where b: "refresh_banks ops q bs w r = Inr (v, r1)"
    and e: "rank_event (r1\<lparr> rk_state := STANDARDRANK_REFRESHING \<rparr>) (v\<lparr> w_heap := (w_heap v)(q \<mapsto> y) \<rparr>) q x = Inr u"
    and a: "activates_at u (r1\<lparr> rk_state := STANDARDRANK_REFRESHING \<rparr>) = Inr r'"
    using assms by (auto simp: StandardRank_Refresh_def Let_def elim!: bind_res_elim)
  have "w_now u = w_now w" using rank_event_clock [OF e] refresh_banks_clock [OF b] by simp
  then show ?thesis by (intro that [OF _ _ a]) (simp_all add: banks_window(4) [OF b])
qed

lemma issued_window:
  assumes "StandardRank_IssueCommand ops w r q = Inr (w', r', ok)" "w_heap w q = Some x"
  obtains (same) "window r' = window r" "\<not> (ok \<and> (rq_type x = ACTIVATE \<or> rq_type x = REFRESH))"
  | (activate) v r1 where "ok" "rq_type x = ACTIVATE \<or> rq_type x = REFRESH" "too_early w r = Inr False"
      "window r1 = window r" "w_now v = w_now w" "activates_at v r1 = Inr r'"
proof -
  have x: "w_req w q = Inr x" using assms(2) by (simp add: w_req_def)
  obtain c k where c: "StandardRank_IsIssuable ops w r x = Inr (c, k)"
    using assms(1) x by (auto simp: StandardRank_IssueCommand_def bind_res_eq_Inr)
  have wc: "window c = window r" using IsIssuable_window [OF c] .
  show ?thesis
  proof (cases "k \<and> (rq_type x = ACTIVATE \<or> rq_type x = REFRESH)")
    case True
    then have e: "too_early w r = Inr False"
      using c by (auto simp: StandardRank_IsIssuable_def activate_issuable_def refresh_issuable_def bind_res_eq_Inr split: if_splits)
    then have ec: "too_early w c = Inr False"
      using too_early_frame [OF wc] by simp
    show ?thesis
    proof (cases ok)
      case k: True
      have "StandardRank_Activate ops w c q = Inr (w', r', True) \<or> StandardRank_Refresh ops w c q = Inr (w', r', True)"
        using assms(1) x c True k by (auto simp: StandardRank_IssueCommand_def)
      then obtain v r1 where "window r1 = window c" "w_now v = w_now w" "activates_at v r1 = Inr r'"
        using Activate_window [OF _ ec] Refresh_window by metis
      then show ?thesis using activate [OF k _ e] True wc by simp
    next
      case f: False
      then have "r' = c" using assms(1) x c True
        by (auto simp: StandardRank_IssueCommand_def StandardRank_Activate_def StandardRank_Refresh_def Let_def bind_res_eq_Inr split: if_splits)
      then show ?thesis using same f wc by simp
    qed
  next
    case False
    then have "window r' = window c" using assms(1) x c
      by (cases k; cases "rq_type x") (auto simp: StandardRank_IssueCommand_def dest: command_window)
    then show ?thesis using same wc False assms(1) x c by (auto simp: StandardRank_IssueCommand_def split: if_splits)
  qed
qed

lemma rank_run_window:
  assumes "rank_run ops E r0 ts n r" "window_inv p m [] 0 r0"
    and "unat n + unat (rp_tRAW p) < 2 ^ 64" "unat n + unat (rp_tRRDR p) < 2 ^ 64"
  shows "window_inv p m ts n r"
  using assms
proof (induction rule: rank_run.induct)
  case (issue ts n r w q x w' r' ok)
  have le: "unat n \<le> unat (w_now w)" using issue.hyps(2) by (simp add: word_le_nat_alt)
  then have i: "window_inv p m ts n r" using issue.IH issue.prems by simp
  show ?case
  proof (cases rule: issued_window [OF issue.hyps(4,3)])
    case 1
    then show ?thesis using window_inv_frame [OF 1(1)] window_inv_later [OF i issue.hyps(2)] by auto
  next
    case (2 v r1)
    have "window_inv p m ts n r1" "too_early w r1 = Inr False"
      using window_inv_frame [OF 2(4)] too_early_frame [OF 2(4)] i 2(3) by simp_all
    then show ?thesis
      using window_inv_activate [OF _ issue.hyps(2) _ refl 2(6,5) issue.prems(2,3)] 2(1,2) by simp
  qed
next
  case (ask ts n r w x r' ok)
  then show ?case using window_inv_frame [OF IsIssuable_window [OF ask.hyps(2)]] by simp
next
  case (complete ts n r w q w' r' up)
  then show ?case using window_inv_frame [OF RequestComplete_window [OF complete.hyps(2)]] by simp
next
  case (notify ts n r w x)
  then show ?case by (simp add: window_inv_frame [OF window_deadlines(3)])
next
  case (cycle ts n r steps)
  then show ?case by (simp add: window_inv_frame [OF window_deadlines(4)])
next
  case (outside ts n r cs)
  then show ?case by (simp add: window_inv_frame [OF window_simps(1)])
qed simp

end


lemma count_waits_total:
  assumes "ring_ok r"
  shows "\<exists>r'. count_waits w r = Inr r'"
proof -
  define r1 where "r1 = (if rk_nextActivate r > w_now w
      then r\<lparr> rk_actWaits := rk_actWaits r + 1, rk_actWaitTotal := rk_actWaitTotal r + (rk_nextActivate r - w_now w) \<rparr> else r)"
  have w1: "window r1 = window r" by (simp add: r1_def)
  then obtain l where l: "activate_slot r1 (RAWindex r1) = Inr l"
    using assms by (auto simp: activate_slot_def ring_ok_def window_def word_less_nat_alt)
  define r2 where "r2 = (if l + rp_tRRDR (rk_p r) > w_now w
      then r1\<lparr> rrdWaits := rrdWaits r1 + 1, rrdWaitTotal := rrdWaitTotal r1 + (l + rp_tRRDR (rk_p r) - w_now w) \<rparr> else r1)"
  have "window r2 = window r" using w1 by (simp add: r2_def)
  then have "ring_ok r2" using assms by (simp add: ring_ok_def window_def)
  then have o: "oldest_activate r2 = Inr (last (recent r2))" by (rule oldest_activate_eq)
  show ?thesis unfolding count_waits_def Let_def r1_def [symmetric] l bind_res_simps r2_def [symmetric] o by blast
qed

interpretation ddr3: rank_banks "ddr3_ops (subarray_ops env)" for env :: "'e sa_env"
  by unfold_locales (auto simp: ddr3_ops_def dest: subc.bank_clock)

text \<open>Runs of the small rank.\<close>

lemma rank_takes_run:
  assumes "rank_takes n q t (w, r)" "rank_run example_ops E r0 ts m r" "m \<le> n"
  shows "rank_run example_ops E r0 (if t = ACTIVATE \<or> t = REFRESH then n # ts else ts) n (snd (rank_step n q (w, r)))"
proof -
  obtain x where x: "w_heap w q = Some x" "rq_type x = t" using assms(1) by (auto simp: rank_takes_def)
  obtain w' r' where i: "StandardRank_IssueCommand example_ops (w_at n w) r q = Inr (w', r', True)"
    using assms(1) by (auto simp: rank_takes_def split: sum.splits)
  have "w_now (w_at n w) = n" "w_heap (w_at n w) q = Some x" using x by (simp_all add: w_at_def)
  then show ?thesis using rank_run.issue [OF assms(2) _ _ i, of x] assms(3) x(2) i by (auto simp: rank_step_def split: if_splits)
qed

lemma rank_example_configured:
  "StandardRank_SetConfig (StandardRank_init rank_example_params 20 [(9, 20)] AddressTranslator_init) (\<lambda>_. bank_example) = Inr rank_example"
  by (simp add: rank_example_def StandardRank_SetConfig_def rank_example_params_def StandardRank_init_def Let_def)

lemma rank_example_activates:
  "rank_takes 10 1 ACTIVATE (rank_world, rank_example) \<and> (let s = rank_step 10 1 (rank_world, rank_example) in
     rank_takes 13 2 ACTIVATE s \<and> rank_takes 20 3 ACTIVATE (rank_step 13 2 s))"
  by code_simp

text \<open>C6: the row activation window. In every run of a configured rank of DDR3 banks, two successive
  activations or refreshes are at least \<^verbatim>\<open>tRRDR\<close> cycles apart, and of any \<^verbatim>\<open>rawNum\<close> + 1 successive ones the first
  and the last are at least \<^verbatim>\<open>tRAW\<close> cycles apart, as long as the clock plus the two parameters stays
  below \<open>2 ^ 64\<close>.\<close>

theorem activation_window:
  assumes "StandardRank_SetConfig (StandardRank_init p this hooks at) new_bank = Inr r0"
    and "rank_run (ddr3_ops (subarray_ops env)) E r0 ts n r"
    and "unat n + unat (rp_tRAW p) < 2 ^ 64" "unat n + unat (rp_tRRDR p) < 2 ^ 64"
  shows "(i + 1 < length ts \<longrightarrow> unat (ts ! (i + 1)) + unat (rp_tRRDR p) \<le> unat (ts ! i))
    \<and> (i + unat (rawNum r) < length ts \<longrightarrow> unat (ts ! (i + unat (rawNum r))) + unat (rp_tRAW p) \<le> unat (ts ! i))"
proof -
  have "window_inv p (rawNum r0) ts n r" using ddr3.rank_run_window [OF assms(2) window_SetConfig [OF assms(1)] assms(3,4)] .
  then show ?thesis by (simp add: window_inv_def spaced_def)
qed

theorem activation_window_witness:
  "\<exists>r. rank_run example_ops same_bank rank_example [20, 13, 10] 20 r \<and> unat (10 :: ncycle_t) + 10 \<le> unat (20 :: ncycle_t)
     \<and> unat (13 :: ncycle_t) + 3 \<le> unat (20 :: ncycle_t)"
proof -
  obtain w1 r1 where s1: "rank_step 10 1 (rank_world, rank_example) = (w1, r1)" by (cases "rank_step 10 1 (rank_world, rank_example)")
  obtain w2 r2 where s2: "rank_step 13 2 (w1, r1) = (w2, r2)" by (cases "rank_step 13 2 (w1, r1)")
  obtain w3 r where s3: "rank_step 20 3 (w2, r2) = (w3, r)" by (cases "rank_step 20 3 (w2, r2)")
  have t: "rank_takes 10 1 ACTIVATE (rank_world, rank_example)" "rank_takes 13 2 ACTIVATE (w1, r1)" "rank_takes 20 3 ACTIVATE (w2, r2)"
    using rank_example_activates s1 s2 by (simp_all add: Let_def)
  have "rank_run example_ops same_bank rank_example [10] 10 r1" using rank_takes_run [OF t(1) rank_run.start] s1 by simp
  from rank_takes_run [OF t(2) this] have "rank_run example_ops same_bank rank_example [13, 10] 13 r2" using s2 by simp
  from rank_takes_run [OF t(3) this] have run: "rank_run example_ops same_bank rank_example [20, 13, 10] 20 r" using s3 by simp
  have p: "rp_tRAW rank_example_params = 10" "rp_tRRDR rank_example_params = 3" by (simp_all add: rank_example_params_def)
  have "window_inv rank_example_params (rawNum rank_example) [20, 13, 10] 20 r"
    using ddr3.rank_run_window [OF run window_SetConfig [OF rank_example_configured]] p by simp
  then have "rawNum r = 2"
    by (simp add: window_inv_def rank_example_def StandardRank_SetConfig_def rank_example_params_def StandardRank_init_def Let_def)
  then have "unat (10 :: ncycle_t) + 10 \<le> unat (20 :: ncycle_t) \<and> unat (13 :: ncycle_t) + 3 \<le> unat (20 :: ncycle_t)"
    using activation_window [OF rank_example_configured run, of 0] p by simp
  then show ?thesis using run by blast
qed

text \<open>The first activation waits for the window. The entries of the ring buffer start at cycle 0, so a
  configured rank refuses every activation and every refresh before cycle \<^verbatim>\<open>tRAW\<close>, as if \<^verbatim>\<open>rawNum\<close> of them had
  been issued at cycle 0. The comment beside the initialisation wants no delays at start.\<close>

theorem first_activation_waits:
  assumes "StandardRank_SetConfig (StandardRank_init p this hooks at) new_bank = Inr r"
    and "w_now w < rp_tRAW p" "w_heap w q = Some x" "rq_type x = ACTIVATE \<or> rq_type x = REFRESH"
  shows "\<exists>r'. StandardRank_IssueCommand ops w r q = Inr (w, r', False)"
proof -
  have i: "ring_ok r" "rk_p r = p" "recent r = take (unat (rawNum r)) (replicate (unat (rawNum r)) 0)"
    using window_SetConfig [OF assms(1)] by (simp_all add: window_inv_def)
  then have "last (recent r) = 0" using ring_ok_rawNum [OF i(1)] by (simp add: last_replicate)
  then have e: "too_early w r = Inr True" using assms(2) i(2) oldest_activate_eq [OF i(1)] by (simp add: too_early_def)
  obtain r' where "count_waits w r = Inr r'" using count_waits_total [OF i(1)] by blast
  then show ?thesis using assms(3,4) e
    by (auto simp: StandardRank_IssueCommand_def StandardRank_IsIssuable_def activate_issuable_def refresh_issuable_def w_req_def)
qed

theorem first_activation_waits_witness:
  "\<exists>r'. StandardRank_IssueCommand example_ops (w_at 9 rank_world) rank_example 1 = Inr (w_at 9 rank_world, r', False)"
  by (rule first_activation_waits [OF rank_example_configured, where x = "rank_request 1 ACTIVATE 0 0"])
    (simp_all add: w_at_def rank_example_params_def rank_world_def rank_request_def bank_request_def sa_request_def Let_def)

end
