(* ===== verification/Nvm_RankPower.thy ===== *)
theory Nvm_RankPower
  imports Nvm_RankWindow
begin

text \<open>
  The power state of the banks of a rank: only power commands change it, and these reach all banks alike.
\<close>

section \<open>Banks power down and up together\<close>

text \<open>What decides whether a bank can be powered up.\<close>

definition bank_power :: "'c DDR3Bank \<Rightarrow> ncycle_t \<times> ncycle_t \<times> bool" where
  "bank_power b = (bp_tPD (bk_p b), bk_nextPowerUp b, powered_down b)"

definition bank_formed :: "'c DDR3Bank \<Rightarrow> bool" where
  "bank_formed b \<longleftrightarrow> unat (subArrayNum b) \<le> length (bk_children b)"

definition lockstep :: "'c DDR3Bank StandardRank \<Rightarrow> bool" where
  "lockstep r \<longleftrightarrow> (\<exists>v. list_all (\<lambda>b. bank_power b = v \<and> bank_formed b) (rk_children r))"

definition same_power :: "'c DDR3Bank \<Rightarrow> 'c DDR3Bank \<Rightarrow> bool" where
  "same_power b b' \<longleftrightarrow> bank_power b' = bank_power b \<and> (bank_formed b \<longrightarrow> bank_formed b')"

lemma same_power_refl: "same_power b b"
  by (simp add: same_power_def)

lemma same_power_trans: "same_power a b \<Longrightarrow> same_power b c \<Longrightarrow> same_power a c"
  by (simp add: same_power_def)

lemma same_bank_power: "same_bank b b' \<Longrightarrow> same_power b b'"
  by (auto simp: same_bank_def same_power_def bank_power_def bank_formed_def powered_down_def)

lemma power_deadlines:
  "same_power b (b\<lparr> bk_nextPowerDown := n \<rparr>)" "same_power b (bank_read_deadlines w x b)" "same_power b (bank_write_deadlines w x b)"
  "same_power b (b\<lparr> bk_actWaits := n, bk_actWaitTotal := m \<rparr>)" "same_power b (b\<lparr> bk_refreshes := n \<rparr>)"
  "same_power b (b\<lparr> activeSubArrayQueue := q \<rparr>)"
  by (simp_all add: same_power_def bank_power_def bank_formed_def powered_down_def bank_read_deadlines_def bank_write_deadlines_def Let_def)

lemma power_done:
  "\<not> powered_down b \<Longrightarrow> same_power b (activate_done x b)" "bk_state b = DDR3BANK_OPEN \<Longrightarrow> same_power b (closed_subarray b i)"
  "bk_state b = DDR3BANK_OPEN \<Longrightarrow> same_power b (read_done x b)" "bk_state b = DDR3BANK_OPEN \<Longrightarrow> same_power b (write_done x b)"
  "\<not> powered_down b \<Longrightarrow> same_power b (precharge_done b)"
  by (simp_all add: same_power_def bank_power_def bank_formed_def powered_down_def activate_done_def closed_subarray_def read_done_def
      write_done_def precharge_done_def Let_def)

lemma pass_on_power:
  assumes "pass_on ops w b q x f = Inr (w', b', ok)" "\<And>c. same_bank b c \<Longrightarrow> same_power c (f c)"
  shows "same_power b b'"
  using assms(1)
proof (elim pass_on_cases)
  fix i c
  assume "child_issue ops w b i q = Inr (w', c, ok)" "b' = (if ok then f c else c)"
  then show ?thesis using child_issue_same assms(2) same_bank_power same_power_trans by (cases ok) (simp; blast)+
qed

lemma precharge_all_power: "precharge_all ops q is w b = Inr (w', b', ok) \<Longrightarrow> same_power b b'"
proof (induction "is" arbitrary: w b rule: induct_list012)
  case (2 i)
  show ?case
    using same_bank_power [OF child_issue_same [OF precharge_all_one(2) [OF "2.prems"]]] power_deadlines(6) same_power_trans by blast
next
  case (3 i j "is")
  obtain x w1 b1 ok1 where i: "child_issue ops (with_copy w (x\<lparr> rq_owner := bk_this b \<rparr>)) (b\<lparr> activeSubArrayQueue := j # is \<rparr>) i (w_fresh w) = Inr (w1, b1, ok1)"
    and n: "if ok1 then precharge_all ops q (j # is) w1 b1 = Inr (w', b', ok) else w' = w1 \<and> b' = b1 \<and> \<not> ok"
    using precharge_all_Cons [OF "3.prems"] .
  have "same_power b b1" using same_bank_power [OF child_issue_same [OF i]] power_deadlines(6) same_power_trans by blast
  then show ?case using n "3.IH"(2) [of w1 b1] same_power_trans by (cases ok1) auto
qed (simp add: same_power_refl)

lemma precharge_children_power:
  assumes "precharge_children ops q x w b = Inr (w', b', ok)"
  shows "same_power b b'"
  using assms
  by (auto simp: precharge_children_def precharge_one_def same_power_refl power_deadlines split: if_splits
      intro: precharge_all_power elim: pass_on_power)

lemma Precharge_power:
  assumes "DDR3Bank_Precharge ops w b q = Inr (w', b', ok)"
  shows "same_power b b'"
proof -
  obtain x where x: "w_req w q = Inr x" using assms by (auto simp: DDR3Bank_Precharge_def bind_res_eq_Inr)
  show ?thesis
  proof (cases "bk_nextPrecharge b > w_now w \<or> bk_state b \<noteq> DDR3BANK_CLOSED \<and> bk_state b \<noteq> DDR3BANK_OPEN")
    case True
    then show ?thesis using assms x by (auto simp: DDR3Bank_Precharge_def same_power_refl split: if_splits)
  next
    case False
    let ?b = "b\<lparr> bk_nextPowerDown := max (bk_nextPowerDown b) (w_now w + sp_tRP (bp_sa (bk_p b))) \<rparr>"
    from False obtain c where m: "precharge_children ops q x w ?b = Inr (w', c, ok)" and b': "b' = (if ok then precharge_done c else c)"
      using Precharge_cases [OF assms x] by blast
    have c: "same_power b c" using precharge_children_power [OF m] power_deadlines(1) same_power_trans by blast
    moreover have "\<not> powered_down b" using False by (auto simp: powered_down_def)
    ultimately have "same_power c (precharge_done c)" by (intro power_done) (simp add: same_power_def bank_power_def)
    then show ?thesis using c b' same_power_trans by (cases ok) auto
  qed
qed

lemma pass_on_power_after:
  assumes "pass_on ops w c q x f = Inr (w', b', ok)" "same_power b c" "\<And>d. same_bank c d \<Longrightarrow> same_power d (f d)"
  shows "same_power b b'"
  using same_power_trans [OF assms(2) pass_on_power [OF assms(1,3)]] .

lemma Activate_power:
  assumes "DDR3Bank_Activate ops w b q = Inr (w', b', ok)" "\<not> powered_down b"
  shows "same_power b b'"
proof -
  let ?c = "b\<lparr> bk_nextPowerDown := max (bk_nextPowerDown b) (w_now w + sp_tRCD (bp_sa (bk_p b))) \<rparr>"
  have "b' = b \<or> (\<exists>x. pass_on ops w ?c q x (activate_done x) = Inr (w', b', ok))"
    using assms(1) by (auto simp: DDR3Bank_Activate_def bind_res_eq_Inr Let_def split: if_splits)
  moreover have "same_power d (activate_done x d)" if "same_bank ?c d" for d x
    using assms(2) same_bank_fields(1) [OF that] by (intro power_done(1)) (simp add: powered_down_def)
  ultimately show ?thesis using pass_on_power_after [OF _ power_deadlines(1)] same_power_refl by blast
qed

lemma Read_power:
  assumes "DDR3Bank_Read ops w b q = Inr (w', b', ok)"
  shows "same_power b b'"
proof -
  have "b' = b \<or> bk_state b = DDR3BANK_OPEN \<and> (\<exists>x. pass_on ops w (bank_read_deadlines w x b) q x (read_done x) = Inr (w', b', ok))"
    using assms by (auto simp: DDR3Bank_Read_def bind_res_eq_Inr Let_def split: if_splits)
  moreover have "same_power d (read_done x d)" if "same_bank (bank_read_deadlines w x b) d" "bk_state b = DDR3BANK_OPEN" for d x
    using that(2) same_bank_fields(1) [OF that(1)] by (intro power_done) simp
  ultimately show ?thesis using pass_on_power_after [OF _ power_deadlines(2)] same_power_refl by blast
qed

lemma Write_power:
  assumes "DDR3Bank_Write ops w b q = Inr (w', b', ok)"
  shows "same_power b b'"
proof -
  have "b' = b \<or> bk_state b = DDR3BANK_OPEN \<and> (\<exists>x. pass_on ops w (bank_write_deadlines w x b) q x (write_done x) = Inr (w', b', ok))"
    using assms by (auto simp: DDR3Bank_Write_def bind_res_eq_Inr Let_def split: if_splits)
  moreover have "same_power d (write_done x d)" if "same_bank (bank_write_deadlines w x b) d" "bk_state b = DDR3BANK_OPEN" for d x
    using that(2) same_bank_fields(1) [OF that(1)] by (intro power_done) simp
  ultimately show ?thesis using pass_on_power_after [OF _ power_deadlines(3)] same_power_refl by blast
qed

lemma Refresh_power:
  assumes "DDR3Bank_Refresh ops w b q = Inr (w', b', ok)"
  shows "same_power b b'"
proof -
  let ?c = "b\<lparr> bk_nextPowerDown := max (bk_nextPowerDown b) (w_now w + sp_tRFC (bp_sa (bk_p b))) \<rparr>"
  have "b' = b \<or> (\<exists>x. pass_on ops w ?c q x (\<lambda>b. b\<lparr> bk_refreshes := bk_refreshes b + 1 \<rparr>) = Inr (w', b', ok))"
    using assms by (auto simp: DDR3Bank_Refresh_def bind_res_eq_Inr Let_def split: if_splits)
  then show ?thesis
  proof (elim disjE exE)
    fix x
    assume "pass_on ops w ?c q x (\<lambda>b. b\<lparr> bk_refreshes := bk_refreshes b + 1 \<rparr>) = Inr (w', b', ok)"
    then show ?thesis by (rule pass_on_power_after) (simp_all add: power_deadlines)
  qed (simp add: same_power_refl)
qed

lemma IsIssuable_power: "DDR3Bank_IsIssuable ops w b x = Inr (b', ok) \<Longrightarrow> same_power b b'"
  by (auto simp: DDR3Bank_IsIssuable_def bind_res_eq_Inr same_power_refl power_deadlines split: if_splits
      dest!: all_issuable_same ask_child_same intro: same_bank_power)

text \<open>Only power commands change it, and they change all banks alike.\<close>

lemma IssueCommand_power:
  assumes "DDR3Bank_IssueCommand ops w b q = Inr (w', b', ok)" "w_req w q = Inr x" "\<not> is_power (rq_type x)"
  shows "same_power b b'"
proof -
  obtain c k where c: "DDR3Bank_IsIssuable ops w b x = Inr (c, k)"
    using assms(1,2) by (auto simp: DDR3Bank_IssueCommand_def bind_res_eq_Inr)
  have p: "rq_type x = ACTIVATE \<Longrightarrow> k \<Longrightarrow> \<not> powered_down c"
    using c IsIssuable_power [OF c]
    by (auto simp: DDR3Bank_IsIssuable_def is_power_def bank_blocks_def same_power_def bank_power_def split: if_splits)
  have "same_power c b'"
    using assms c p
    by (cases k; cases "rq_type x")
      (auto simp: DDR3Bank_IssueCommand_def is_power_def bind_res_eq_Inr same_power_refl
        intro: Activate_power Read_power Write_power Refresh_power Precharge_power same_bank_power child_issue_same)
  then show ?thesis using IsIssuable_power [OF c] same_power_trans by blast
qed

definition power_after :: "OpType \<Rightarrow> ncycle_t \<Rightarrow> ncycle_t \<times> ncycle_t \<times> bool \<Rightarrow> ncycle_t \<times> ncycle_t \<times> bool" where
  "power_after t now = (\<lambda>(pd, up, down). if t = POWERUP then (pd, up, False) else (pd, max up (now + pd), True))"

lemma IssueCommand_power_command:
  assumes "DDR3Bank_IssueCommand ops w b q = Inr (w', b', True)" "w_req w q = Inr x" "is_power (rq_type x)"
  shows "w' = w \<and> bank_power b' = power_after (rq_type x) (w_now w) (bank_power b) \<and> (bank_formed b \<longrightarrow> bank_formed b')"
proof -
  obtain c where c: "DDR3Bank_IsIssuable ops w b x = Inr (c, True)"
    using assms(1,2) by (auto simp: DDR3Bank_IssueCommand_def bind_res_eq_Inr split: if_splits)
  have s: "same_power b c" using IsIssuable_power [OF c] .
  have "(rq_type x = POWERUP \<and> DDR3Bank_PowerUp w c = (b', True) \<or> rq_type x \<noteq> POWERUP \<and> DDR3Bank_PowerDown w c x = Inr (b', True)) \<and> w' = w"
    using assms c by (auto simp: DDR3Bank_IssueCommand_def is_power_def bind_res_eq_Inr split: prod.splits)
  then have "w' = w \<and> bank_power b' = power_after (rq_type x) (w_now w) (bank_power c) \<and> (bank_formed c \<longrightarrow> bank_formed b')"
    by (auto simp: DDR3Bank_PowerUp_def DDR3Bank_PowerDown_def power_after_def bank_power_def bank_formed_def powered_down_def
        Let_def bind_res_eq_Inr split: if_splits)
  then show ?thesis using s by (auto simp: same_power_def)
qed

text \<open>The banks of a rank, compared one by one.\<close>

abbreviation powers :: "'c DDR3Bank StandardRank \<Rightarrow> 'c DDR3Bank StandardRank \<Rightarrow> bool" where
  "powers r r' \<equiv> list_all2 same_power (rk_children r) (rk_children r')"

lemma powers_refl: "powers r r"
  by (simp add: list_all2_refl same_power_refl)

lemma powers_trans: "powers a b \<Longrightarrow> powers b c \<Longrightarrow> powers a c"
  by (rule list_all2_trans [OF same_power_trans])

lemma powers_update:
  "unat i < length (rk_children r) \<Longrightarrow> same_power (rk_children r ! unat i) c \<Longrightarrow> powers r (r\<lparr> rk_children := (rk_children r)[unat i := c] \<rparr>)"
  by (auto simp: list_all2_conv_all_nth nth_list_update same_power_refl)

lemma powers_lockstep: "powers r r' \<Longrightarrow> lockstep r \<Longrightarrow> lockstep r'"
  unfolding lockstep_def by (auto simp: list_all2_conv_all_nth list_all_length same_power_def)

named_theorems powers_frame

lemma assert_bank_Inr [simp]: "assert_bank r i = Inr j \<longleftrightarrow> j = i \<and> unat i < length (rk_children r)"
  by (auto simp: assert_bank_def bind_res_eq_Inr)

lemma bank_index_bound: "bank_index r x = Inr i \<Longrightarrow> unat i < length (rk_children r)"
  by (auto simp: bank_index_def get_child_def bind_res_eq_Inr split: if_splits)

lemma bank_issuable_powers:
  "bank_issuable (ddr3_ops sops) w r i x = Inr (r', ok) \<Longrightarrow> unat i < length (rk_children r) \<Longrightarrow> powers r r'"
  by (auto simp: bank_issuable_def ddr3_ops_def bind_res_eq_Inr intro!: powers_update dest: IsIssuable_power)

lemma ask_bank_powers [powers_frame]: "ask_bank (ddr3_ops sops) w r x = Inr (r', ok) \<Longrightarrow> powers r r'"
  by (auto simp: ask_bank_def bind_res_eq_Inr dest!: bank_index_bound intro: bank_issuable_powers)

lemma banks_issuable_powers [powers_frame]:
  "banks_issuable (ddr3_ops sops) w x is r = Inr (r', ok) \<Longrightarrow> powers r r'"
  "count_issuable (ddr3_ops sops) w x is r n = Inr (r', m) \<Longrightarrow> powers r r'"
  subgoal by (induction "is" arbitrary: r)
      (auto simp: bind_res_eq_Inr powers_refl split: if_splits dest!: bank_issuable_powers intro: powers_trans)
  subgoal by (induction "is" arbitrary: r n)
      (auto simp: bind_res_eq_Inr powers_refl split: if_splits dest!: bank_issuable_powers intro: powers_trans)
  done

lemma powers_children: "rk_children r' = rk_children r \<Longrightarrow> powers r r'"
  by (simp add: powers_refl)

lemma count_waits_children: "count_waits w r = Inr r' \<Longrightarrow> rk_children r' = rk_children r"
  by (auto simp: count_waits_def Let_def bind_res_eq_Inr)

lemma activates_at_children: "activates_at w r = Inr r' \<Longrightarrow> rk_children r' = rk_children r"
  by (auto simp: activates_at_def record_activate_def Let_def bind_res_eq_Inr split: if_splits)

lemma settle_closed_children: "settle_closed ops r = Inr r' \<Longrightarrow> rk_children r' = rk_children r"
  by (auto simp: settle_closed_def bind_res_eq_Inr)

lemma rank_IsIssuable_powers:
  assumes "StandardRank_IsIssuable (ddr3_ops sops) w r x = Inr (r', ok)"
  shows "powers r r'"
proof -
  have "activate_issuable (ddr3_ops sops) w r x = Inr (r', ok) \<Longrightarrow> powers r r'"
    by (auto simp: activate_issuable_def bind_res_eq_Inr powers_refl split: if_splits dest!: count_waits_children powers_frame)
  moreover have "refresh_issuable (ddr3_ops sops) w r x = Inr (r', ok) \<Longrightarrow> powers r r'"
    by (auto simp: refresh_issuable_def bind_res_eq_Inr powers_refl split: if_splits dest: powers_frame)
  moreover have "CanPowerDown (ddr3_ops sops) w r x = Inr (r', ok) \<Longrightarrow> powers r r'" "CanPowerUp (ddr3_ops sops) w r x = Inr (r', ok) \<Longrightarrow> powers r r'"
    by (auto simp: CanPowerDown_def CanPowerUp_def bind_res_eq_Inr powers_refl split: if_splits dest: powers_frame)
  ultimately show ?thesis using assms
    by (auto simp: StandardRank_IsIssuable_def powers_refl split: OpType.splits if_splits dest: powers_frame)
qed

text \<open>Commands for one bank, and refreshes.\<close>

lemma bank_issue_powers:
  assumes "bank_issue (ddr3_ops sops) w r i q = Inr (w', r', ok)" "unat i < length (rk_children r)" "w_req w q = Inr x" "\<not> is_power (rq_type x)"
  shows "powers r r'"
  using assms by (auto simp: bank_issue_def ddr3_ops_def bind_res_eq_Inr intro!: powers_update dest: IssueCommand_power)

lemma to_bank_powers:
  assumes "to_bank (ddr3_ops sops) w r q x = Inr (w', r', ok)" "w_req w q = Inr x" "\<not> is_power (rq_type x)"
  shows "powers r r'"
  using assms by (auto simp: to_bank_def bind_res_eq_Inr dest!: bank_index_bound intro: bank_issue_powers)

lemma Read_powers:
  assumes "StandardRank_Read (ddr3_ops sops) w r q = Inr (w', r', ok)" "w_req w q = Inr x" "\<not> is_power (rq_type x)"
  shows "powers r r'"
  using assms to_bank_powers [OF _ assms(2,3)]
  by (auto simp: StandardRank_Read_def rank_read_deadlines_def Let_def bind_res_eq_Inr powers_refl split: if_splits)

lemma Write_powers:
  assumes "StandardRank_Write (ddr3_ops sops) w r q = Inr (w', r', ok)" "w_req w q = Inr x" "\<not> is_power (rq_type x)"
  shows "powers r r'"
  using assms to_bank_powers [OF _ assms(2,3)]
  by (auto simp: StandardRank_Write_def rank_write_deadlines_def Let_def bind_res_eq_Inr powers_refl split: if_splits)

lemma Precharge_powers:
  assumes "StandardRank_Precharge (ddr3_ops sops) w r q = Inr (w', r', ok)" "w_req w q = Inr x" "\<not> is_power (rq_type x)"
  shows "powers r r'"
proof (cases "na_bank (rq_address x) \<ge> bankCount r")
  case True
  then show ?thesis using assms by (auto simp: StandardRank_Precharge_def powers_refl)
next
  case False
  then obtain v c k d where b: "to_bank (ddr3_ops sops) w r q x = Inr (v, c, k)" and d: "settle_closed (ddr3_ops sops) c = Inr d"
    and r': "rk_children r' = rk_children d"
    using assms by (auto simp: StandardRank_Precharge_def elim!: bind_res_elim)
  show ?thesis using to_bank_powers [OF b assms(2,3)] settle_closed_children [OF d] r' by simp
qed

lemma Activate_powers:
  assumes "StandardRank_Activate (ddr3_ops sops) w r q = Inr (w', r', ok)" "w_req w q = Inr x" "\<not> is_power (rq_type x)"
  shows "powers r r'"
proof -
  have "r' = r \<or> (\<exists>v c k d. to_bank (ddr3_ops sops) w r q x = Inr (v, c, k) \<and> rk_children d = rk_children c \<and> activates_at v d = Inr r')"
    using assms(1,2) by (auto simp: StandardRank_Activate_def Let_def elim!: bind_res_elim split: if_splits) force+
  then show ?thesis
    using to_bank_powers [OF _ assms(2,3)] activates_at_children powers_refl by fastforce
qed

section \<open>The power commands of a rank\<close>

lemma issue_all_power:
  assumes "issue_all (ddr3_ops sops) q is w r = Inr (w', r')" "w_req w q = Inr x" "is_power (rq_type x)" "distinct is"
  shows "w' = w \<and> length (rk_children r') = length (rk_children r)
    \<and> (\<forall>i. unat i < length (rk_children r) \<longrightarrow> (bank_formed (rk_children r ! unat i) \<longrightarrow> bank_formed (rk_children r' ! unat i)) \<and>
        bank_power (rk_children r' ! unat i) = (if i \<in> set is then power_after (rq_type x) (w_now w) (bank_power (rk_children r ! unat i))
          else bank_power (rk_children r ! unat i)))"
  using assms
proof (induction "is" arbitrary: r)
  case (Cons i "is")
  obtain w1 c1 where l: "unat i < length (rk_children r)"
    and b: "DDR3Bank_IssueCommand sops w (rk_children r ! unat i) q = Inr (w1, c1, True)"
    and n: "issue_all (ddr3_ops sops) q is w1 (r\<lparr> rk_children := (rk_children r)[unat i := c1] \<rparr>) = Inr (w', r')"
    using Cons.prems(1) by (auto simp: bank_issue_def ddr3_ops_def bind_res_eq_Inr)
  note p = IssueCommand_power_command [OF b Cons.prems(2,3)]
  have n': "issue_all (ddr3_ops sops) q is w (r\<lparr> rk_children := (rk_children r)[unat i := c1] \<rparr>) = Inr (w', r')" using n p by simp
  note IH = Cons.IH [OF n' Cons.prems(2,3)]
  have e: "unat i = unat j \<longleftrightarrow> i = j" for j by (auto dest: unsigned_word_eqI)
  then show ?case using IH Cons.prems(4) p l by (auto simp: nth_list_update e)
qed simp

lemma all_banks_set: "length (rk_children r) < 2 ^ 64 \<Longrightarrow> unat i < length (rk_children r) \<Longrightarrow> i \<in> set (all_banks r)"
  by (auto simp: all_banks_def intro!: image_eqI [of _ _ "unat i"])

lemma all_banks_distinct: "length (rk_children r) < 2 ^ 64 \<Longrightarrow> distinct (all_banks r)"
  by (auto simp: all_banks_def distinct_map inj_on_def dest!: arg_cong [of _ _ unat] simp: unat_of_nat)

lemma issue_all_lockstep:
  assumes "issue_all (ddr3_ops sops) q (all_banks r) w r = Inr (w', r')" "w_req w q = Inr x" "is_power (rq_type x)" "lockstep r"
    and "length (rk_children r) < 2 ^ 64"
  shows "lockstep r'"
proof -
  note i = issue_all_power [OF assms(1-3) all_banks_distinct [OF assms(5)]]
  obtain v where v: "list_all (\<lambda>b. bank_power b = v \<and> bank_formed b) (rk_children r)" using assms(4) by (auto simp: lockstep_def)
  have "bank_power (rk_children r' ! k) = power_after (rq_type x) (w_now w) v \<and> bank_formed (rk_children r' ! k)"
    if k: "k < length (rk_children r')" for k
  proof -
    have u: "unat (of_nat k :: u64) = k" using k i assms(5) by (simp add: unat_of_nat)
    then have "(of_nat k :: u64) \<in> set (all_banks r)" using all_banks_set [OF assms(5), of "of_nat k"] k i by simp
    then show ?thesis using i k u v by (auto simp: list_all_length dest!: spec [of _ "of_nat k :: u64"])
  qed
  then show ?thesis
    unfolding lockstep_def by (intro exI [of _ "power_after (rq_type x) (w_now w) v"]) (simp add: list_all_length)
qed

text \<open>
  What this needs of subarrays: they never object to power-up, and a refresh changes the type of no request.
\<close>

locale power_subarrays =
  fixes sops :: "'c sa_ops"
  assumes powerup_ok: "rq_type x = POWERUP \<Longrightarrow> \<exists>c'. so_IsIssuable sops w c x = Inr (c', True)"
    and refresh_types: "w_heap w p = Some y \<Longrightarrow> rq_type y = REFRESH \<Longrightarrow> so_IssueCommand sops w c p = Inr (w', c', k) \<Longrightarrow>
      map_option rq_type (w_heap w' q) = map_option rq_type (w_heap w q)"
begin

lemma bank_refresh_types:
  assumes "DDR3Bank_IssueCommand sops w b p = Inr (w', b', k)" "w_heap w p = Some y" "rq_type y = REFRESH"
  shows "map_option rq_type (w_heap w' q) = map_option rq_type (w_heap w q)"
proof -
  have y: "w_req w p = Inr y" using assms(2) by (simp add: w_req_def)
  obtain c ok where c: "DDR3Bank_IsIssuable sops w b y = Inr (c, ok)"
    using assms(1) y by (auto simp: DDR3Bank_IssueCommand_def bind_res_eq_Inr)
  have "w' = w \<or> (\<exists>v a s t. so_IssueCommand sops w s p = Inr (w', t, a))"
    using assms y c
    by (auto simp: DDR3Bank_IssueCommand_def DDR3Bank_Refresh_def pass_on_def child_issue_def Let_def bind_res_eq_Inr split: if_splits)
  then show ?thesis using refresh_types [OF assms(2,3)] by auto
qed

lemma refresh_banks_powers:
  assumes "refresh_banks (ddr3_ops sops) q is w r = Inr (w', r')" "w_heap w q = Some x" "rq_type x = REFRESH"
  shows "powers r r'"
  using assms
proof (induction "is" arbitrary: w r x)
  case (Cons i "is")
  let ?v = "w\<lparr> w_heap := (w_heap w)(w_fresh w \<mapsto> copy_request (w_fresh w) x), w_fresh := Suc (w_fresh w) \<rparr>"
  obtain w1 c1 k where l: "unat i < length (rk_children r)"
    and b: "DDR3Bank_IssueCommand sops ?v (rk_children r ! unat i) (w_fresh w) = Inr (w1, c1, k)"
    and n: "refresh_banks (ddr3_ops sops) q is w1 (r\<lparr> rk_children := (rk_children r)[unat i := c1] \<rparr>) = Inr (w', r')"
    using Cons.prems by (auto simp: w_req_def Let_def bank_issue_def ddr3_ops_def bind_res_eq_Inr)
  have t: "rq_type (copy_request (w_fresh w) x) = REFRESH" using Cons.prems(3) by (simp add: copy_request_def)
  have "map_option rq_type (w_heap w1 q) = map_option rq_type (w_heap ?v q)"
    by (rule bank_refresh_types [OF b _ t]) simp
  then have "map_option rq_type (w_heap w1 q) = Some REFRESH" using Cons.prems(2,3) t by auto
  then obtain y where "w_heap w1 q = Some y" "rq_type y = REFRESH" by auto
  then have "powers (r\<lparr> rk_children := (rk_children r)[unat i := c1] \<rparr>) r'" using Cons.IH [OF n] by blast
  moreover have "powers r (r\<lparr> rk_children := (rk_children r)[unat i := c1] \<rparr>)"
  proof (rule powers_update [OF l])
    show "same_power (rk_children r ! unat i) c1" by (rule IssueCommand_power [OF b]) (use t in \<open>auto simp: w_req_def is_power_def\<close>)
  qed
  ultimately show ?case using powers_trans by blast
qed (simp add: powers_refl)

lemma Refresh_powers:
  assumes "StandardRank_Refresh (ddr3_ops sops) w r q = Inr (w', r', ok)" "w_heap w q = Some x" "rq_type x = REFRESH"
  shows "powers r r'"
proof -
  obtain bs v c u where b: "refresh_banks (ddr3_ops sops) q bs w r = Inr (v, c)"
    and a: "activates_at u (c\<lparr> rk_state := STANDARDRANK_REFRESHING \<rparr>) = Inr r'"
    using assms(1) by (auto simp: StandardRank_Refresh_def Let_def elim!: bind_res_elim)
  show ?thesis using refresh_banks_powers [OF b assms(2,3)] activates_at_children [OF a] by simp
qed

definition rank_ok :: "'c DDR3Bank StandardRank \<Rightarrow> bool" where
  "rank_ok r \<longleftrightarrow> lockstep r \<and> length (rk_children r) < 2 ^ 64"

lemma powers_ok: "powers r r' \<Longrightarrow> rank_ok r \<Longrightarrow> rank_ok r'"
  by (auto simp: rank_ok_def powers_lockstep dest: list_all2_lengthD)

lemma issue_all_ok:
  assumes "issue_all (ddr3_ops sops) q (all_banks r) w r = Inr (w', r')" "w_req w q = Inr x" "is_power (rq_type x)" "rank_ok r"
  shows "rank_ok r'"
  using issue_all_lockstep [OF assms(1-3)] issue_all_power [OF assms(1-3) all_banks_distinct] assms(4) by (simp add: rank_ok_def)

lemma power_command_ok:
  assumes "StandardRank_PowerDown (ddr3_ops sops) w r q = Inr (w', r', ok) \<or> StandardRank_PowerUp (ddr3_ops sops) w r q = Inr (w', r', ok)"
    and "w_req w q = Inr x" "is_power (rq_type x)" "rank_ok r"
  shows "rank_ok r'"
proof -
  obtain v c where i: "issue_all (ddr3_ops sops) q (all_banks r) w r = Inr (v, c)" and "rk_children r' = rk_children c"
    using assms(1)
    by (auto simp: StandardRank_PowerDown_def StandardRank_PowerUp_def Let_def elim!: bind_res_elim split: OpType.splits StandardRank_State.splits)
  then show ?thesis using issue_all_ok [OF i assms(2-4)] by (simp add: rank_ok_def lockstep_def)
qed

lemma rank_IssueCommand_ok:
  assumes "StandardRank_IssueCommand (ddr3_ops sops) w r q = Inr (w', r', ok)" "w_heap w q = Some x" "rank_ok r"
  shows "rank_ok r'"
proof -
  have x: "w_req w q = Inr x" using assms(2) by (simp add: w_req_def)
  obtain c k where c: "StandardRank_IsIssuable (ddr3_ops sops) w r x = Inr (c, k)"
    using assms(1) x by (auto simp: StandardRank_IssueCommand_def bind_res_eq_Inr)
  have g: "rank_ok c" using powers_ok [OF rank_IsIssuable_powers [OF c] assms(3)] .
  show ?thesis
  proof (cases "is_power (rq_type x)")
    case True
    then show ?thesis using assms(1) x c g power_command_ok [OF _ x True g, of w' r' ok]
      by (cases k) (auto simp: StandardRank_IssueCommand_def is_power_def)
  next
    case False
    have "powers c r'" using assms(1,2) x c False
      by (cases k; cases "rq_type x")
        (auto simp: StandardRank_IssueCommand_def is_power_def powers_refl
          intro: Read_powers [OF _ x False] Write_powers [OF _ x False] Precharge_powers [OF _ x False] Activate_powers [OF _ x False] Refresh_powers)
    then show ?thesis using powers_ok g by blast
  qed
qed

lemma rank_run_ok:
  assumes "rank_run (ddr3_ops sops) same_bank r0 ts n r" "rank_ok r0"
  shows "rank_ok r"
  using assms
proof (induction rule: rank_run.induct)
  case (issue ts n r w q x w' r' ok)
  then show ?case using rank_IssueCommand_ok by blast
next
  case (ask ts n r w x r' ok)
  then show ?case using powers_ok rank_IsIssuable_powers by blast
next
  case (notify ts n r w x)
  then show ?case by (auto intro: powers_ok [rotated] simp: StandardRank_Notify_def Let_def powers_refl)
next
  case (complete ts n r w q w' r' up)
  then have "rk_children r' = rk_children r"
    by (auto simp: StandardRank_RequestComplete_def bind_res_eq_Inr split: if_splits dest: settle_closed_children)
  then show ?case using complete powers_ok powers_children by blast
next
  case (cycle ts n r steps)
  have "rk_children (StandardRank_Cycle (ddr3_ops sops) r steps) = map (\<lambda>c. DDR3Bank_Cycle c steps) (rk_children r)"
    by (simp add: StandardRank_Cycle_def Let_def ddr3_ops_def split: StandardRank_State.split)
  moreover have "same_power b (DDR3Bank_Cycle b steps)" for b :: "'c DDR3Bank"
    by (simp add: DDR3Bank_Cycle_def same_power_def bank_power_def bank_formed_def powered_down_def split: DDR3BankState.split)
  ultimately have "powers r (StandardRank_Cycle (ddr3_ops sops) r steps)" by (simp add: list_all2_conv_all_nth)
  then show ?case using cycle powers_ok by blast
next
  case (outside ts n r cs)
  have "powers r (r\<lparr> rk_children := cs \<rparr>)"
    using outside.hyps(2) by (auto simp: list_all2_conv_all_nth intro: same_bank_power)
  then show ?case using outside powers_ok by blast
qed

text \<open>All banks give the same answer to a power-up.\<close>

definition up_ok :: "ncycle_t \<Rightarrow> ncycle_t \<times> ncycle_t \<times> bool \<Rightarrow> bool" where
  "up_ok now = (\<lambda>(pd, up, down). up \<le> now \<and> down)"

lemma all_issuable_powerup:
  assumes "rq_type x = POWERUP" "list_all (\<lambda>i. unat i < length (bk_children b)) is"
  shows "\<exists>b'. all_issuable sops w x is b = Inr (b', True)"
  using assms(2)
proof (induction "is" arbitrary: b)
  case (Cons i "is")
  obtain c where c: "so_IsIssuable sops w (bk_children b ! unat i) x = Inr (c, True)" using powerup_ok [OF assms(1)] by blast
  then show ?case
    using Cons.IH [of "b\<lparr> bk_children := (bk_children b)[unat i := c] \<rparr>"] Cons.prems
    by (auto simp: assert_child_def child_issuable_def)
qed simp

lemma bank_powerup:
  assumes "rq_type x = POWERUP" "bank_formed b"
  shows "\<exists>b'. DDR3Bank_IsIssuable sops w b x = Inr (b', up_ok (w_now w) (bank_power b))"
proof -
  have "list_all (\<lambda>i. unat i < length (bk_children b)) (map of_nat [0..<unat (subArrayNum b)] :: u64 list)"
    using assms(2) unsigned_less [of "subArrayNum b"] by (auto simp: list_all_iff bank_formed_def unat_of_nat)
  then obtain b' where "all_issuable sops w x (map of_nat [0..<unat (subArrayNum b)]) b = Inr (b', True)"
    using all_issuable_powerup [OF assms(1)] by blast
  then show ?thesis
    using assms(1) by (auto simp: DDR3Bank_IsIssuable_def is_power_def bank_blocks_def up_ok_def bank_power_def)
qed

lemma count_powerup:
  assumes "rq_type x = POWERUP" "list_all (\<lambda>b. bank_power b = v \<and> bank_formed b) (rk_children r)"
    and "list_all (\<lambda>i. unat i < length (rk_children r)) is"
  shows "\<exists>r'. count_issuable (ddr3_ops sops) w x is r n = Inr (r', if up_ok (w_now w) v then n + of_nat (length is) else n)
    \<and> length (rk_children r') = length (rk_children r)"
  using assms(2,3)
proof (induction "is" arbitrary: r n)
  case (Cons i "is")
  let ?b = "rk_children r ! unat i"
  have b: "bank_power ?b = v" "bank_formed ?b" and l: "unat i < length (rk_children r)"
    using Cons.prems by (auto simp: list_all_length)
  obtain c where c: "DDR3Bank_IsIssuable sops w ?b x = Inr (c, up_ok (w_now w) v)" using bank_powerup [OF assms(1) b(2)] b(1) by blast
  let ?r = "r\<lparr> rk_children := (rk_children r)[unat i := c] \<rparr>"
  have "list_all (\<lambda>b. bank_power b = v \<and> bank_formed b) (rk_children ?r)"
    using Cons.prems(1) IsIssuable_power [OF c] b l by (auto simp: list_all_length nth_list_update same_power_def)
  then show ?case
    using Cons.IH [of ?r "if up_ok (w_now w) v then n + 1 else n"] Cons.prems(2) c l
    by (auto simp: bank_issuable_def assert_bank_def ddr3_ops_def add.assoc)
qed simp

lemma CanPowerUp_total:
  assumes "rank_ok r" "rq_type x = POWERUP"
  shows "\<exists>r' ok. CanPowerUp (ddr3_ops sops) w r x = Inr (r', ok)"
proof -
  obtain v where v: "list_all (\<lambda>b. bank_power b = v \<and> bank_formed b) (rk_children r)" using assms(1) by (auto simp: rank_ok_def lockstep_def)
  have l: "list_all (\<lambda>i. unat i < length (rk_children r)) (all_banks r)"
    using assms(1) by (auto simp: all_banks_def list_all_iff rank_ok_def unat_of_nat)
  obtain r' where "count_issuable (ddr3_ops sops) w x (all_banks r) r 0
      = Inr (r', if up_ok (w_now w) v then 0 + of_nat (length (all_banks r)) else 0)" "length (rk_children r') = length (rk_children r)"
    using count_powerup [OF assms(2) v l] by blast
  then show ?thesis by (auto simp: CanPowerUp_def all_banks_def)
qed

end

lemma Refresh_types:
  assumes "SubArray_IssueCommand env s p = Inr (t, k)" "sa_heap s p = Some y" "rq_type y = REFRESH"
  shows "map_option rq_type (sa_heap t q) = map_option rq_type (sa_heap s q)"
proof -
  have y: "get_req s p = Inr y" using assms(2) by (simp add: get_req_def)
  obtain u ok where u: "SubArray_IsIssuable s y = Inr (u, ok)"
    using assms(1) y by (auto simp: SubArray_IssueCommand_def bind_res_eq_Inr)
  have h: "sa_heap u = sa_heap s" using IsIssuable_heap [OF u] .
  have "t = u \<or> Refresh u p = Inr (t, k)" using assms y u by (auto simp: SubArray_IssueCommand_def split: if_splits)
  then show ?thesis
    using h assms(2) by (auto simp: Refresh_def get_req_def respond_def put_req_def Let_def bind_res_eq_Inr split: if_splits)
qed

interpretation subp: power_subarrays "subarray_ops env" for env :: "'e sa_env"
proof
  fix w w' and c c' :: "'e SubArray" and x y and p q :: nat and k
  show "\<exists>c'. so_IsIssuable (subarray_ops env) w c x = Inr (c', True)" if "rq_type x = POWERUP"
    using that by (simp add: subarray_ops_def SubArray_IsIssuable_def Let_def)
  show "map_option rq_type (w_heap w' q) = map_option rq_type (w_heap w q)"
    if "w_heap w p = Some y" "rq_type y = REFRESH" "so_IssueCommand (subarray_ops env) w c p = Inr (w', c', k)"
    using that Refresh_types [of env "sa_load w c" p c' k y q] by (auto simp: subarray_ops_def bind_res_eq_Inr)
qed

lemma bank_power_start:
  "DDR3Bank_SetConfig (DDR3Bank_init p this at) new_sa = Inr b \<Longrightarrow> bank_power b = (bp_tPD p, 0, bp_InitPD p) \<and> bank_formed b"
  by (auto simp: DDR3Bank_SetConfig_def DDR3Bank_init_def Let_def bank_power_def bank_formed_def powered_down_def split: if_splits)

lemma lockstep_start:
  assumes "StandardRank_SetConfig (StandardRank_init p this hooks at) new_bank = Inr r"
    and "\<And>i. \<exists>this at new_sa. DDR3Bank_SetConfig (DDR3Bank_init (rp_bank p) this at) new_sa = Inr (new_bank i)"
  shows "subp.rank_ok r"
proof -
  have "bank_power (new_bank i) = (bp_tPD (rp_bank p), 0, bp_InitPD (rp_bank p)) \<and> bank_formed (new_bank i)" for i
    using assms(2) [of i] bank_power_start by blast
  moreover have "rk_children r = map (\<lambda>i. new_bank (of_nat i)) [0..<unat (rp_BANKS p)]"
    using assms(1) by (auto simp: StandardRank_SetConfig_def StandardRank_init_def Let_def bind_res_eq_Inr split: if_splits)
  ultimately show ?thesis
    using unsigned_less [of "rp_BANKS p"] by (auto simp: subp.rank_ok_def lockstep_def list_all_iff)
qed

text \<open>C7: the banks of a rank are powered down and up in lockstep. In every run of a configured rank of
  DDR3 banks, in which other modules touch the banks only inside their subarrays, either all banks are powered
  down or none is, and the assertion of \<^verbatim>\<open>CanPowerUp\<close>, that no or all banks can be powered up, never fails.\<close>

theorem banks_power_in_lockstep:
  assumes "StandardRank_SetConfig (StandardRank_init p this hooks at) new_bank = Inr r0"
    and "\<And>i. \<exists>this at new_sa. DDR3Bank_SetConfig (DDR3Bank_init (rp_bank p) this at) new_sa = Inr (new_bank i)"
    and "rank_run (ddr3_ops (subarray_ops env)) same_bank r0 ts n r" "rq_type x = POWERUP"
  shows "(list_all powered_down (rk_children r) \<or> list_all (\<lambda>b. \<not> powered_down b) (rk_children r))
    \<and> (\<exists>r' ok. CanPowerUp (ddr3_ops (subarray_ops env)) w r x = Inr (r', ok))"
proof -
  have i: "subp.rank_ok r" using subp.rank_run_ok [OF assms(3) lockstep_start [OF assms(1,2)]] .
  then have "list_all powered_down (rk_children r) \<or> list_all (\<lambda>b. \<not> powered_down b) (rk_children r)"
    by (auto simp: subp.rank_ok_def lockstep_def bank_power_def list_all_iff)
  then show ?thesis using subp.CanPowerUp_total [OF i assms(4)] by blast
qed

lemma rank_example_powers:
  "rank_takes 5 4 POWERDOWN_PDPF (rank_world, rank_example) \<and> list_all powered_down (rk_children (snd (rank_step 5 4 (rank_world, rank_example))))"
  by code_simp

theorem banks_power_in_lockstep_witness:
  "\<exists>r. rank_run example_ops same_bank rank_example [] 5 r \<and> list_all powered_down (rk_children r)
    \<and> (\<exists>r' ok. CanPowerUp example_ops (w_at 9 rank_world) r (rank_request 5 POWERUP 0 0) = Inr (r', ok))"
proof -
  let ?r = "snd (rank_step 5 4 (rank_world, rank_example))"
  have run: "rank_run example_ops same_bank rank_example [] 5 ?r"
    using rank_takes_run [OF conjunct1 [OF rank_example_powers] rank_run.start] by simp
  have c: "\<exists>this at new_sa. DDR3Bank_SetConfig (DDR3Bank_init (rp_bank rank_example_params) this at) new_sa = Inr bank_example" for i :: u64
    using bank_example_configured by (auto simp: rank_example_params_def)
  have "rq_type (rank_request 5 POWERUP 0 0) = POWERUP" by (simp add: rank_request_def bank_request_def sa_request_def Let_def)
  from banks_power_in_lockstep [OF rank_example_configured c run this]
  show ?thesis using run rank_example_powers by blast
qed

end
