(* ===== verification/Nvm_Bus.thy ===== *)
theory Nvm_Bus
  imports Nvm_RankPower
begin

text \<open>
  \<^verbatim>\<open>Interconnect/OffChipBus\<close> and \<^verbatim>\<open>Interconnect/OnChipBus\<close>: the bus between a memory controller and its ranks. A
  command goes to the rank it names, the other ranks are told about it, so that they keep off the data bus.

  Ranks are virtual, the record \<open>rank_ops\<close>; \<open>standard_ops\<close> fills it with the model of \<^verbatim>\<open>StandardRank\<close>. The two buses
  differ in that the off-chip one delays the answers. The resistor networks of the I/O power, floating point, are
  left out.
\<close>

record 'c rank_ops =
  ro_IsIssuable :: "world \<Rightarrow> 'c \<Rightarrow> NVMainRequest \<Rightarrow> nvm_error + 'c \<times> bool"
  ro_IssueCommand :: "world \<Rightarrow> 'c \<Rightarrow> nat \<Rightarrow> nvm_error + world \<times> 'c \<times> bool"
  ro_NextIssuable :: "'c \<Rightarrow> NVMainRequest \<Rightarrow> nvm_error + ncycle_t"
  ro_Notify :: "world \<Rightarrow> 'c \<Rightarrow> NVMainRequest \<Rightarrow> 'c"
  ro_Cycle :: "'c \<Rightarrow> ncycle_t \<Rightarrow> 'c"

definition standard_ops :: "'c bk_ops \<Rightarrow> 'c StandardRank rank_ops" where
  "standard_ops ops =
     \<lparr> ro_IsIssuable = StandardRank_IsIssuable ops, ro_IssueCommand = StandardRank_IssueCommand ops,
       ro_NextIssuable = StandardRank_NextIssuable ops, ro_Notify = StandardRank_Notify, ro_Cycle = StandardRank_Cycle ops \<rparr>"

text \<open>\<open>bus_parent\<close> is the hook of the controller.\<close>

record 'c Bus =
  bus_parent :: nat
  bus_at :: AddressTranslator
  bus_children :: "'c list"
  numRanks :: u64
  offChipDelay :: ncycle_t

definition OffChipBus_init :: "nat \<Rightarrow> AddressTranslator \<Rightarrow> 'c Bus" where
  "OffChipBus_init parent at = \<lparr> bus_parent = parent, bus_at = at, bus_children = [], numRanks = 0, offChipDelay = 0 \<rparr>"

definition OnChipBus_init :: "nat \<Rightarrow> AddressTranslator \<Rightarrow> 'c Bus" where
  "OnChipBus_init parent at = \<lparr> bus_parent = parent, bus_at = at, bus_children = [], numRanks = 0, offChipDelay = 0 \<rparr>"

definition OnChipBus_SetConfig :: "'c Bus \<Rightarrow> u64 \<Rightarrow> (u64 \<Rightarrow> 'c) \<Rightarrow> 'c Bus" where
  "OnChipBus_SetConfig b ranks new_rank =
     b\<lparr> numRanks := ranks, bus_at := SetDefaultField (bus_at b) RANK_FIELD,
        bus_children := map (\<lambda>i. new_rank (of_nat i)) [0..<unat ranks] \<rparr>"

definition OffChipBus_SetConfig :: "'c Bus \<Rightarrow> ncycle_t \<Rightarrow> u64 \<Rightarrow> (u64 \<Rightarrow> 'c) \<Rightarrow> 'c Bus" where
  "OffChipBus_SetConfig b latency ranks new_rank =
     b\<lparr> offChipDelay := latency, numRanks := ranks, bus_at := SetDefaultField (bus_at b) RANK_FIELD,
        bus_children := map (\<lambda>i. new_rank (of_nat i)) [0..<unat ranks] \<rparr>"

definition rank_index :: "'c Bus \<Rightarrow> NVMainRequest \<Rightarrow> nvm_error + u64" where
  "rank_index b x = get_child (bus_at b) (length (bus_children b)) x"

definition OffChipBus_IsIssuable :: "'c rank_ops \<Rightarrow> world \<Rightarrow> 'c Bus \<Rightarrow> NVMainRequest \<Rightarrow> nvm_error + 'c Bus \<times> bool" where
  "OffChipBus_IsIssuable ops w b x =
     bind_res (rank_index b x) (\<lambda>i.
     bind_res (ro_IsIssuable ops w (bus_children b ! unat i) x) (\<lambda>(c, ok).
     Inr (b\<lparr> bus_children := (bus_children b)[unat i := c] \<rparr>, ok)))"

text \<open>The other ranks are told, by their place in the list.\<close>

definition notify_others :: "'c rank_ops \<Rightarrow> world \<Rightarrow> u64 \<Rightarrow> NVMainRequest \<Rightarrow> 'c Bus \<Rightarrow> 'c Bus" where
  "notify_others ops w i x b =
     b\<lparr> bus_children := map (\<lambda>j. let c = bus_children b ! j in if j \<noteq> unat i then ro_Notify ops w c x else c)
          [0..<length (bus_children b)] \<rparr>"

definition OffChipBus_IssueCommand :: "'c rank_ops \<Rightarrow> world \<Rightarrow> 'c Bus \<Rightarrow> nat \<Rightarrow> nvm_error + world \<times> 'c Bus \<times> bool" where
  "OffChipBus_IssueCommand ops w b q =
     bind_res (w_req w q) (\<lambda>x.
     bind_res (OffChipBus_IsIssuable ops w b x) (\<lambda>(b, ok).
     bind_res (assert_res ok) (\<lambda>_.
     bind_res (rank_index b x) (\<lambda>i.
     bind_res (ro_IssueCommand ops w (bus_children b ! unat i) q) (\<lambda>(w, c, success).
     let b = b\<lparr> bus_children := (bus_children b)[unat i := c] \<rparr>
     in if success then bind_res (w_req w q) (\<lambda>x. bind_res (rank_index b x) (\<lambda>i. Inr (w, notify_others ops w i x b, True)))
        else Inr (w, b, False))))))"

definition OffChipBus_RequestComplete :: "world \<Rightarrow> 'c Bus \<Rightarrow> nat \<Rightarrow> world" where
  "OffChipBus_RequestComplete w b q =
     w\<lparr> w_queue := InsertEvent_hook (w_queue w) (w_fresh w) EventResponse (Some (bus_parent b)) (Some q)
          (w_now w + offChipDelay b) None 0, w_fresh := Suc (w_fresh w) \<rparr>"

definition OffChipBus_Cycle :: "'c rank_ops \<Rightarrow> 'c Bus \<Rightarrow> ncycle_t \<Rightarrow> 'c Bus" where
  "OffChipBus_Cycle ops b steps = b\<lparr> bus_children := map (\<lambda>c. ro_Cycle ops c steps) (bus_children b) \<rparr>"

text \<open>\<^verbatim>\<open>NVMObject::NextIssuable\<close>, which both buses inherit.\<close>

definition bus_NextIssuable :: "'c rank_ops \<Rightarrow> 'c Bus \<Rightarrow> NVMainRequest \<Rightarrow> nvm_error + ncycle_t" where
  "bus_NextIssuable ops b x = bind_res (rank_index b x) (\<lambda>i. ro_NextIssuable ops (bus_children b ! unat i) x)"

text \<open>The on-chip bus has the same code for these.\<close>

definition OnChipBus_IsIssuable :: "'c rank_ops \<Rightarrow> world \<Rightarrow> 'c Bus \<Rightarrow> NVMainRequest \<Rightarrow> nvm_error + 'c Bus \<times> bool" where
  "OnChipBus_IsIssuable = OffChipBus_IsIssuable"

definition OnChipBus_IssueCommand :: "'c rank_ops \<Rightarrow> world \<Rightarrow> 'c Bus \<Rightarrow> nat \<Rightarrow> nvm_error + world \<times> 'c Bus \<times> bool" where
  "OnChipBus_IssueCommand = OffChipBus_IssueCommand"

definition OnChipBus_Cycle :: "'c rank_ops \<Rightarrow> 'c Bus \<Rightarrow> ncycle_t \<Rightarrow> 'c Bus" where
  "OnChipBus_Cycle = OffChipBus_Cycle"

section \<open>A bus of two small ranks, each with an open row\<close>

definition bus_example :: "unit SubArray DDR3Bank StandardRank Bus" where
  "bus_example = OffChipBus_SetConfig (OffChipBus_init 30 AddressTranslator_init) 2 2 (\<lambda>_. snd (rank_step 10 1 (rank_world, rank_example)))"

definition bus_request :: "nat \<Rightarrow> OpType \<Rightarrow> u64 \<Rightarrow> NVMainRequest" where
  "bus_request p t k = (let x = rank_request p t 0 0 in x\<lparr> rq_address := (rq_address x)\<lparr> na_rank := k \<rparr> \<rparr>)"

definition bus_world :: world where
  "bus_world = \<lparr> w_queue = EventQueue_init, w_fresh = 100, w_heap = [3 \<mapsto> bus_request 3 READ 0, 4 \<mapsto> bus_request 4 WRITE 1], w_sim = None \<rparr>"

definition bus_issue :: "ncycle_t \<Rightarrow> nat \<Rightarrow> world \<times> unit SubArray DDR3Bank StandardRank Bus
    \<Rightarrow> world \<times> unit SubArray DDR3Bank StandardRank Bus" where
  "bus_issue n q = (\<lambda>(w, b). case OffChipBus_IssueCommand (standard_ops example_ops) (w_at n w) b q of
     Inr (w', b', ok) \<Rightarrow> (w', b') | Inl _ \<Rightarrow> (w, b))"

definition bus_names :: "nat \<Rightarrow> OpType \<Rightarrow> u64 \<Rightarrow> world \<times> unit SubArray DDR3Bank StandardRank Bus \<Rightarrow> bool" where
  "bus_names q t i = (\<lambda>(w, b). case w_heap w q of None \<Rightarrow> False | Some x \<Rightarrow> rq_type x = t \<and> rank_index b x = Inr i)"

definition bus_takes :: "ncycle_t \<Rightarrow> nat \<Rightarrow> OpType \<Rightarrow> u64 \<Rightarrow> world \<times> unit SubArray DDR3Bank StandardRank Bus \<Rightarrow> bool" where
  "bus_takes n q t i = (\<lambda>(w, b). bus_names q t i (w, b) \<and>
     (case OffChipBus_IssueCommand (standard_ops example_ops) (w_at n w) b q of Inr (w', b', ok) \<Rightarrow> ok | Inl _ \<Rightarrow> False))"

text \<open>The rest of the system takes its time and leaves the banks as they were.\<close>

definition bus_later :: "world \<times> unit SubArray DDR3Bank StandardRank Bus \<Rightarrow> world \<times> unit SubArray DDR3Bank StandardRank Bus" where
  "bus_later s = (w_at 23 bus_world, (snd s)\<lparr> bus_children :=
     map (\<lambda>r. r\<lparr> rk_children := rk_children (bus_children bus_example ! 0) \<rparr>) (bus_children (snd s)) \<rparr>)"

end
