(* ===== verification/Nvm_BusTiming.thy ===== *)
theory Nvm_BusTiming
  imports Nvm_Bus
begin

text \<open>
  Timing across the ranks of a bus (\<^verbatim>\<open>Interconnect/OffChipBus\<close> over \<^verbatim>\<open>Ranks/StandardRank\<close>): the deadlines of data
  commands in a rank only grow, and with them those of all ranks in every run of the bus, an instance of the locale
  \<open>deadlines\<close>; reads and writes of different ranks keep apart on the data bus.
\<close>

section \<open>The data deadlines of a rank\<close>

definition data_due :: "'c StandardRank \<Rightarrow> RankParams \<times> ncycle_t \<times> ncycle_t" where
  "data_due r = (rk_p r, rk_nextRead r, rk_nextWrite r)"

definition data_later :: "'c StandardRank \<Rightarrow> 'c StandardRank \<Rightarrow> bool" where
  "data_later r r' \<longleftrightarrow> rk_p r' = rk_p r \<and> rk_nextRead r \<le> rk_nextRead r' \<and> rk_nextWrite r \<le> rk_nextWrite r'"

lemma data_later_due: "data_due r' = data_due r \<Longrightarrow> data_later r r'"
  by (simp add: data_due_def data_later_def)

lemma data_later_refl: "data_later r r"
  by (simp add: data_later_def)

lemma data_later_trans: "data_later a b \<Longrightarrow> data_later b c \<Longrightarrow> data_later a c"
  by (auto simp: data_later_def)

lemma data_due_simps [simp]:
  "data_due (r\<lparr> rk_children := cs \<rparr>) = data_due r" "data_due (r\<lparr> rk_state := st \<rparr>) = data_due r"
  "data_due (r\<lparr> rk_nextPrecharge := n \<rparr>) = data_due r" "data_due (r\<lparr> rk_nextActivate := n \<rparr>) = data_due r"
  "data_due (r\<lparr> RAWindex := i, rk_lastActivate := l \<rparr>) = data_due r"
  "data_due (r\<lparr> rk_actWaits := n \<rparr>) = data_due r" "data_due (r\<lparr> rk_actWaitTotal := n \<rparr>) = data_due r"
  "data_due (r\<lparr> rrdWaits := n \<rparr>) = data_due r" "data_due (r\<lparr> rrdWaitTotal := n \<rparr>) = data_due r"
  "data_due (r\<lparr> fawWaits := n \<rparr>) = data_due r" "data_due (r\<lparr> fawWaitTotal := n \<rparr>) = data_due r"
  "data_due (StandardRank_Cycle ops r steps) = data_due r"
  by (simp_all add: data_due_def StandardRank_Cycle_def Let_def split: StandardRank_State.split)

named_theorems data_frame

lemma bank_data [data_frame]:
  "bank_issuable ops w r i x = Inr (r', ok) \<Longrightarrow> data_due r' = data_due r"
  "bank_issue ops w r i q = Inr (w', r', ok) \<Longrightarrow> data_due r' = data_due r"
  "ask_bank ops w r x = Inr (r', ok) \<Longrightarrow> data_due r' = data_due r"
  "to_bank ops w r q x = Inr (w', r', ok) \<Longrightarrow> data_due r' = data_due r"
  by (auto simp: bank_issuable_def bank_issue_def ask_bank_def to_bank_def bind_res_eq_Inr)

lemma banks_data [data_frame]:
  "banks_issuable ops w x is r = Inr (r', ok) \<Longrightarrow> data_due r' = data_due r"
  "count_issuable ops w x is r n = Inr (r', m) \<Longrightarrow> data_due r' = data_due r"
  "issue_all ops q is w r = Inr (w', r') \<Longrightarrow> data_due r' = data_due r"
  "refresh_banks ops q is w r = Inr (w', r') \<Longrightarrow> data_due r' = data_due r"
  subgoal by (induction "is" arbitrary: r) (auto simp: bind_res_eq_Inr split: if_splits dest!: bank_data)
  subgoal by (induction "is" arbitrary: r n) (auto simp: bind_res_eq_Inr split: if_splits dest!: bank_data)
  subgoal by (induction "is" arbitrary: w r) (auto simp: bind_res_eq_Inr dest!: bank_data)
  subgoal by (induction "is" arbitrary: w r) (auto simp: bind_res_eq_Inr Let_def dest!: bank_data)
  done

lemma own_data [data_frame]:
  "settle_closed ops r = Inr r' \<Longrightarrow> data_due r' = data_due r" "count_waits w r = Inr r' \<Longrightarrow> data_due r' = data_due r"
  "activates_at w r = Inr r' \<Longrightarrow> data_due r' = data_due r"
  subgoal by (auto simp: settle_closed_def bind_res_eq_Inr)
  subgoal by (auto simp: count_waits_def Let_def bind_res_eq_Inr)
  subgoal by (auto simp: activates_at_def record_activate_def Let_def bind_res_eq_Inr split: if_splits)
  done

lemma issuable_data [data_frame]:
  "activate_issuable ops w r x = Inr (r', ok) \<Longrightarrow> data_due r' = data_due r"
  "refresh_issuable ops w r x = Inr (r', ok) \<Longrightarrow> data_due r' = data_due r" "CanPowerDown ops w r x = Inr (r', ok) \<Longrightarrow> data_due r' = data_due r"
  "CanPowerUp ops w r x = Inr (r', ok) \<Longrightarrow> data_due r' = data_due r"
  by (auto simp: activate_issuable_def refresh_issuable_def CanPowerDown_def CanPowerUp_def bind_res_eq_Inr split: if_splits dest!: data_frame)

lemma IsIssuable_data [data_frame]: "StandardRank_IsIssuable ops w r x = Inr (r', ok) \<Longrightarrow> data_due r' = data_due r"
  by (auto simp: StandardRank_IsIssuable_def split: OpType.splits if_splits dest!: data_frame)

lemma command_data [data_frame]:
  "StandardRank_Activate ops w r q = Inr (w', r', ok) \<Longrightarrow> data_due r' = data_due r"
  "StandardRank_Refresh ops w r q = Inr (w', r', ok) \<Longrightarrow> data_due r' = data_due r"
  "StandardRank_Precharge ops w r q = Inr (w', r', ok) \<Longrightarrow> data_due r' = data_due r"
  "StandardRank_PowerDown ops w r q = Inr (w', r', ok) \<Longrightarrow> data_due r' = data_due r"
  "StandardRank_PowerUp ops w r q = Inr (w', r', ok) \<Longrightarrow> data_due r' = data_due r"
  subgoal by (auto simp: StandardRank_Activate_def Let_def elim!: bind_res_elim split: if_splits dest!: own_data(3) bank_data(4))
  subgoal by (auto simp: StandardRank_Refresh_def Let_def elim!: bind_res_elim dest!: own_data(3) banks_data(4))
  subgoal by (auto simp: StandardRank_Precharge_def bind_res_eq_Inr Let_def split: if_splits dest!: data_frame)
  subgoal by (auto simp: StandardRank_PowerDown_def Let_def elim!: bind_res_elim dest!: banks_data(3) split: OpType.splits)
  subgoal by (auto simp: StandardRank_PowerUp_def Let_def elim!: bind_res_elim dest!: banks_data(3) split: StandardRank_State.splits)
  done

lemma RequestComplete_data [data_frame]: "StandardRank_RequestComplete ops w r q = Inr (w', r', up) \<Longrightarrow> data_due r' = data_due r"
  by (auto simp: StandardRank_RequestComplete_def bind_res_eq_Inr split: if_splits dest!: data_frame)

lemma data_later_updates:
  "data_later r (rank_read_deadlines w x r)" "data_later r (rank_write_deadlines w x r)" "data_later r (StandardRank_Notify w r x)"
  by (simp_all add: data_later_def rank_read_deadlines_def rank_write_deadlines_def StandardRank_Notify_def Let_def)

lemma column_later:
  "StandardRank_Read ops w r q = Inr (w', r', ok) \<Longrightarrow> data_later r r'" "StandardRank_Write ops w r q = Inr (w', r', ok) \<Longrightarrow> data_later r r'"
  subgoal
    by (auto simp: StandardRank_Read_def Let_def data_later_refl elim!: bind_res_elim split: if_splits dest!: bank_data(4)
        intro: data_later_trans [OF data_later_due data_later_updates(1)])
  subgoal
    by (auto simp: StandardRank_Write_def Let_def data_later_refl elim!: bind_res_elim split: if_splits dest!: bank_data(4)
        intro: data_later_trans [OF data_later_due data_later_updates(2)])
  done

lemma rank_IssueCommand_later:
  assumes "StandardRank_IssueCommand ops w r q = Inr (w', r', ok)"
  shows "data_later r r'"
proof -
  obtain x c k where x: "w_req w q = Inr x" and c: "StandardRank_IsIssuable ops w r x = Inr (c, k)"
    using assms by (auto simp: StandardRank_IssueCommand_def bind_res_eq_Inr)
  have "data_later c r'" using assms x c
    by (cases k; cases "rq_type x")
      (auto simp: StandardRank_IssueCommand_def data_later_refl intro: column_later data_later_due command_data)
  then show ?thesis using data_later_trans data_later_due IsIssuable_data [OF c] by blast
qed

text \<open>A read or write that is accepted is not before its deadline.\<close>

lemma rank_accepts_due:
  assumes "StandardRank_IssueCommand ops w r q = Inr (w', r', True)" "w_req w q = Inr x"
  shows "rq_type x = READ \<or> rq_type x = READ_PRECHARGE \<Longrightarrow> rk_nextRead r \<le> w_now w"
    "rq_type x = WRITE \<or> rq_type x = WRITE_PRECHARGE \<Longrightarrow> rk_nextWrite r \<le> w_now w"
  using assms by (auto simp: StandardRank_IssueCommand_def StandardRank_IsIssuable_def bind_res_eq_Inr split: if_splits)

context rank_banks begin

lemma rank_clock:
  assumes "StandardRank_IssueCommand ops w r q = Inr (w', r', ok)"
  shows "w_now w' = w_now w"
proof -
  obtain x c k where x: "w_req w q = Inr x" and c: "StandardRank_IsIssuable ops w r x = Inr (c, k)"
    using assms by (auto simp: StandardRank_IssueCommand_def bind_res_eq_Inr)
  have all: "issue_all ops q is w r = Inr (w', r') \<Longrightarrow> w_now w' = w_now w" for "is" w r w' r'
    by (induction "is" arbitrary: w r) (auto simp: bind_res_eq_Inr dest!: bank_issue_clock)
  have own: "own_precharge r w when = Inr w' \<Longrightarrow> w_now w' = w_now w" for r :: "'c StandardRank" and w w' "when"
    by (auto simp: own_precharge_def Let_def dest!: rank_event_clock)
  have read: "StandardRank_Read ops w c q = Inr (w', r', ok) \<Longrightarrow> w_now w' = w_now w"
    by (auto simp: StandardRank_Read_def Let_def elim!: bind_res_elim split: if_splits dest!: to_bank_clock own)
  have "write": "StandardRank_Write ops w c q = Inr (w', r', ok) \<Longrightarrow> w_now w' = w_now w"
    by (auto simp: StandardRank_Write_def Let_def elim!: bind_res_elim split: if_splits dest!: to_bank_clock own)
  have act: "StandardRank_Activate ops w c q = Inr (w', r', ok) \<Longrightarrow> w_now w' = w_now w"
    by (auto simp: StandardRank_Activate_def Let_def elim!: bind_res_elim split: if_splits dest!: to_bank_clock)
  have pre: "StandardRank_Precharge ops w c q = Inr (w', r', ok) \<Longrightarrow> w_now w' = w_now w"
    by (auto simp: StandardRank_Precharge_def Let_def elim!: bind_res_elim split: if_splits dest!: to_bank_clock)
  have ref: "StandardRank_Refresh ops w c q = Inr (w', r', ok) \<Longrightarrow> w_now w' = w_now w"
    by (auto simp: StandardRank_Refresh_def Let_def elim!: bind_res_elim dest!: refresh_banks_clock rank_event_clock)
  have pd: "StandardRank_PowerDown ops w c q = Inr (w', r', ok) \<Longrightarrow> w_now w' = w_now w"
    by (auto simp: StandardRank_PowerDown_def Let_def elim!: bind_res_elim dest!: all rank_event_clock)
  have pu: "StandardRank_PowerUp ops w c q = Inr (w', r', ok) \<Longrightarrow> w_now w' = w_now w"
    by (auto simp: StandardRank_PowerUp_def Let_def case_prod_beta elim!: bind_res_elim dest!: all rank_event_clock)
  show ?thesis
    using assms x c
    by (cases k; cases "rq_type x") (auto simp: StandardRank_IssueCommand_def intro: read "write" act pre ref pd pu)
qed

end

section \<open>Runs of a bus\<close>

inductive bus_step :: "'c bk_ops \<Rightarrow> world \<times> 'c StandardRank Bus \<Rightarrow> world \<times> 'c StandardRank Bus \<Rightarrow> bool" for ops where
  issue: "OffChipBus_IssueCommand (standard_ops ops) w b q = Inr (w', b', ok) \<Longrightarrow> bus_step ops (w, b) (w', b')"
| ask: "OffChipBus_IsIssuable (standard_ops ops) w b x = Inr (b', ok) \<Longrightarrow> bus_step ops (w, b) (w, b')"
| complete: "i < length (bus_children b) \<Longrightarrow> StandardRank_RequestComplete ops w (bus_children b ! i) q = Inr (w', c, up) \<Longrightarrow>
    bus_step ops (w, b) (w', b\<lparr> bus_children := (bus_children b)[i := c] \<rparr>)"
| respond: "bus_step ops (w, b) (OffChipBus_RequestComplete w b q, b)"
| cycle: "bus_step ops (w, b) (w, OffChipBus_Cycle (standard_ops ops) b steps)"
| outside: "w_now w \<le> w_now w' \<Longrightarrow> list_all2 (\<lambda>r r'. \<exists>cs. r' = r\<lparr> rk_children := cs \<rparr>) (bus_children b) rs \<Longrightarrow>
    bus_step ops (w, b) (w', b\<lparr> bus_children := rs \<rparr>)"

abbreviation ranks_later :: "'c StandardRank Bus \<Rightarrow> 'c StandardRank Bus \<Rightarrow> bool" where
  "ranks_later b b' \<equiv> list_all2 data_later (bus_children b) (bus_children b')"

lemma ranks_later_trans: "ranks_later a b \<Longrightarrow> ranks_later b c \<Longrightarrow> ranks_later a c"
  by (rule list_all2_trans [OF data_later_trans])

lemma ranks_later_update:
  "i < length (bus_children b) \<Longrightarrow> data_later (bus_children b ! i) c \<Longrightarrow> ranks_later b (b\<lparr> bus_children := (bus_children b)[i := c] \<rparr>)"
  by (auto simp: list_all2_conv_all_nth nth_list_update data_later_refl)

lemma rank_index_bound: "rank_index b x = Inr i \<Longrightarrow> unat i < length (bus_children b)"
  by (auto simp: rank_index_def get_child_def bind_res_eq_Inr split: if_splits)

lemma bus_IsIssuable_cases:
  assumes "OffChipBus_IsIssuable (standard_ops ops) w b x = Inr (b', ok)"
  obtains i c where "rank_index b x = Inr i" "StandardRank_IsIssuable ops w (bus_children b ! unat i) x = Inr (c, ok)"
    "b' = b\<lparr> bus_children := (bus_children b)[unat i := c] \<rparr>"
  using assms by (auto simp: OffChipBus_IsIssuable_def standard_ops_def bind_res_eq_Inr)

lemma bus_IsIssuable_later:
  assumes "OffChipBus_IsIssuable (standard_ops ops) w b x = Inr (b', ok)"
  shows "ranks_later b b' \<and> bus_at b' = bus_at b"
proof -
  obtain i c where i: "rank_index b x = Inr i" and c: "StandardRank_IsIssuable ops w (bus_children b ! unat i) x = Inr (c, ok)"
    and b': "b' = b\<lparr> bus_children := (bus_children b)[unat i := c] \<rparr>"
    using bus_IsIssuable_cases [OF assms] .
  show ?thesis using ranks_later_update [OF rank_index_bound [OF i] data_later_due [OF IsIssuable_data [OF c]]] b' by simp
qed

lemma notify_others_later: "ranks_later b (notify_others (standard_ops ops) w i x b)"
  by (auto simp: notify_others_def standard_ops_def Let_def list_all2_conv_all_nth data_later_refl data_later_updates)

lemma notify_others_nth:
  "j < length (bus_children b) \<Longrightarrow> bus_children (notify_others (standard_ops ops) w i x b) ! j
     = (if j \<noteq> unat i then StandardRank_Notify w (bus_children b ! j) x else bus_children b ! j)"
  by (simp add: notify_others_def standard_ops_def Let_def)

text \<open>What a bus does for a command that a rank accepts or refuses.\<close>

lemma bus_issue_cases:
  assumes "OffChipBus_IssueCommand (standard_ops ops) w b q = Inr (w', b', ok)" "w_req w q = Inr x"
  obtains i c d where "rank_index b x = Inr i" "data_due c = data_due (bus_children b ! unat i)"
    "StandardRank_IssueCommand ops w c q = Inr (w', d, ok)"
    "if ok then \<exists>y j. w_req w' q = Inr y \<and> rank_index b y = Inr j \<and>
        b' = notify_others (standard_ops ops) w' j y (b\<lparr> bus_children := (bus_children b)[unat i := d] \<rparr>)
      else b' = b\<lparr> bus_children := (bus_children b)[unat i := d] \<rparr>"
proof -
  obtain b1 where i: "OffChipBus_IsIssuable (standard_ops ops) w b x = Inr (b1, True)"
    using assms by (auto simp: OffChipBus_IssueCommand_def bind_res_eq_Inr)
  obtain i c where x: "rank_index b x = Inr i" and c: "StandardRank_IsIssuable ops w (bus_children b ! unat i) x = Inr (c, True)"
    and b1: "b1 = b\<lparr> bus_children := (bus_children b)[unat i := c] \<rparr>"
    using bus_IsIssuable_cases [OF i] .
  have r: "rank_index b1 z = rank_index b z" "rank_index (b\<lparr> bus_children := (bus_children b)[unat i := d] \<rparr>) z = rank_index b z" for z d
    by (simp_all add: rank_index_def b1)
  obtain d where d: "StandardRank_IssueCommand ops w c q = Inr (w', d, ok)"
    "if ok then \<exists>y j. w_req w' q = Inr y \<and> rank_index b y = Inr j \<and>
        b' = notify_others (standard_ops ops) w' j y (b\<lparr> bus_children := (bus_children b)[unat i := d] \<rparr>)
      else b' = b\<lparr> bus_children := (bus_children b)[unat i := d] \<rparr>"
    using assms i x rank_index_bound [OF x] unfolding OffChipBus_IssueCommand_def
    by (auto simp: r b1 standard_ops_def Let_def elim!: bind_res_elim split: if_splits)
  show ?thesis by (rule that [OF x IsIssuable_data [OF c] d])
qed

datatype column = Column_read | Column_write

fun rank_due :: "column \<Rightarrow> 'c StandardRank \<Rightarrow> ncycle_t" where
  "rank_due Column_read r = rk_nextRead r"
| "rank_due Column_write r = rk_nextWrite r"

definition bus_due :: "nat \<times> column \<Rightarrow> world \<times> 'c StandardRank Bus \<Rightarrow> ncycle_t" where
  "bus_due = (\<lambda>(i, k) (w, b). if i < length (bus_children b) then rank_due k (bus_children b ! i) else 0)"

definition bus_clock :: "world \<times> 'c StandardRank Bus \<Rightarrow> ncycle_t" where
  "bus_clock = (\<lambda>(w, b). w_now w)"

lemma rank_due_later: "data_later r r' \<Longrightarrow> rank_due k r \<le> rank_due k r'"
  by (cases k) (simp_all add: data_later_def)

lemma bus_due_later: "ranks_later b b' \<Longrightarrow> bus_due k (w, b) \<le> bus_due k (w', b')"
  by (cases k) (auto simp: bus_due_def list_all2_conv_all_nth intro: rank_due_later)

lemma bus_event_clock: "currentCycle (InsertEvent_hook q i t to req when d prio) = currentCycle q"
  by (simp add: InsertEvent_hook_def InsertEvent_def Let_def split: option.split)

context rank_banks begin

lemma bus_step_later:
  assumes "bus_step ops s t"
  shows "ranks_later (snd s) (snd t) \<and> w_now (fst s) \<le> w_now (fst t)"
  using assms
proof cases
  case (issue w b q w' b' ok)
  obtain x where x: "w_req w q = Inr x" using issue(3) by (auto simp: OffChipBus_IssueCommand_def bind_res_eq_Inr)
  obtain i c d where i: "rank_index b x = Inr i" and c: "data_due c = data_due (bus_children b ! unat i)"
    and d: "StandardRank_IssueCommand ops w c q = Inr (w', d, ok)"
    and b': "if ok then \<exists>y j. w_req w' q = Inr y \<and> rank_index b y = Inr j \<and>
        b' = notify_others (standard_ops ops) w' j y (b\<lparr> bus_children := (bus_children b)[unat i := d] \<rparr>)
      else b' = b\<lparr> bus_children := (bus_children b)[unat i := d] \<rparr>"
    using bus_issue_cases [OF issue(3) x] .
  have "data_later (bus_children b ! unat i) d" using rank_IssueCommand_later [OF d] data_later_due [OF c] data_later_trans by blast
  then have u: "ranks_later b (b\<lparr> bus_children := (bus_children b)[unat i := d] \<rparr>)" by (rule ranks_later_update [OF rank_index_bound [OF i]])
  have "ranks_later b b'"
  proof (cases ok)
    case True
    then obtain y j where "b' = notify_others (standard_ops ops) w' j y (b\<lparr> bus_children := (bus_children b)[unat i := d] \<rparr>)"
      using b' by auto
    then show ?thesis using ranks_later_trans [OF u notify_others_later] by simp
  qed (use u b' in simp)
  then show ?thesis using issue rank_clock [OF d] by simp
next
  case (ask w b x b' ok)
  then show ?thesis using bus_IsIssuable_later [OF ask(3)] by simp
next
  case (complete i b w q w' c up)
  have "w_now w' = w_now w" using complete(4) by (auto simp: StandardRank_RequestComplete_def bind_res_eq_Inr split: if_splits)
  then show ?thesis using complete(1-3) ranks_later_update [OF complete(3) data_later_due [OF RequestComplete_data [OF complete(4)]]] by simp
next
  case (respond w b q)
  then show ?thesis
    by (simp add: OffChipBus_RequestComplete_def bus_event_clock list_all2_refl data_later_refl)
next
  case (cycle w b steps)
  then show ?thesis
    by (auto simp: OffChipBus_Cycle_def standard_ops_def list_all2_conv_all_nth intro!: data_later_due)
next
  case (outside w w' b rs)
  then show ?thesis by (auto simp: list_all2_conv_all_nth intro!: data_later_due)
qed

end

text \<open>The deadlines of all ranks of a bus are deadlines in the sense of the locale of subarrays.\<close>

lemma bus_deadlines: "rank_banks ops \<Longrightarrow> deadlines (bus_step ops) (\<lambda>_. True) bus_due bus_clock"
proof (unfold_locales)
  fix s t k
  assume "rank_banks ops" "bus_step ops s t"
  then have "ranks_later (snd s) (snd t)" "w_now (fst s) \<le> w_now (fst t)" by (simp_all add: rank_banks.bus_step_later)
  then show "bus_due k s \<le> bus_due k t" "bus_clock s \<le> bus_clock t"
    using bus_due_later [of "snd s" "snd t" k "fst s" "fst t"] by (simp_all add: bus_clock_def case_prod_beta)
qed simp

interpretation bus: deadlines "bus_step (ddr3_ops (subarray_ops env))" "\<lambda>_. True" bus_due bus_clock for env :: "'e sa_env"
  by (rule bus_deadlines) (rule ddr3.rank_banks_axioms)

section \<open>Turning the data bus around\<close>

definition is_read :: "OpType \<Rightarrow> bool" where
  "is_read t \<longleftrightarrow> t = READ \<or> t = READ_PRECHARGE"

definition is_write :: "OpType \<Rightarrow> bool" where
  "is_write t \<longleftrightarrow> t = WRITE \<or> t = WRITE_PRECHARGE"

definition column_of :: "OpType \<Rightarrow> column" where
  "column_of t = (if is_read t then Column_read else Column_write)"

text \<open>The cycle in which the data of a command starts on the bus.\<close>

definition data_start :: "SAParams \<Rightarrow> OpType \<Rightarrow> ncycle_t \<Rightarrow> nat" where
  "data_start p t now = unat now + unat (if is_read t then sp_tCAS p else sp_tCWD p)"

definition data_gap :: "RankParams \<Rightarrow> OpType \<Rightarrow> OpType \<Rightarrow> nat" where
  "data_gap p t u = unat (if is_write t \<and> is_write u then rp_tOST p else sp_tRTRS (bp_sa (rp_bank p)))"

definition notified :: "RankParams \<Rightarrow> OpType \<Rightarrow> OpType \<Rightarrow> ncycle_t \<Rightarrow> ncycle_t" where
  "notified p t u now =
     (let q = bp_sa (rp_bank p) in
      if is_read t then if is_read u then now + sp_tBURST q + sp_tRTRS q else now + sp_tCAS q + sp_tBURST q + sp_tRTRS q - sp_tCWD q
      else if is_write u then now + sp_tBURST q + rp_tOST p else now + sp_tBURST q + sp_tCWD q + sp_tRTRS q - sp_tCAS q)"

lemma Notify_due:
  assumes "is_read (rq_type x) \<or> is_write (rq_type x)" "is_read u \<or> is_write u"
  shows "notified (rk_p r) (rq_type x) u (w_now w) \<le> rank_due (column_of u) (StandardRank_Notify w r x)"
  using assms
  by (auto simp: notified_def is_read_def is_write_def column_of_def StandardRank_Notify_def Let_def)

lemma unat_sum_le:
  assumes "unat (a :: u64) + unat b < 2 ^ 64"
  shows "unat (a + b) = unat a + unat b"
  using assms by (simp add: unat_add_lem [THEN iffD1])

lemma unat_diff_ge: "unat a \<le> unat (a - b) + unat (b :: u64)"
proof -
  have "unat a = (unat (a - b) + unat b) mod 2 ^ 64" using unat_word_ariths(1) [of "a - b" b] by simp
  then show ?thesis by (metis mod_less_eq_dividend)
qed

lemma notified_gap:
  assumes "notified p t u now \<le> now'" "is_read t \<or> is_write t" "is_read u \<or> is_write u" "q = bp_sa (rp_bank p)"
    and "unat now + unat (sp_tCAS q) + unat (sp_tCWD q) + unat (sp_tBURST q) + unat (sp_tRTRS q) + unat (rp_tOST p) < 2 ^ 64"
  shows "data_start q t now + unat (sp_tBURST q) + data_gap p t u \<le> data_start q u now'"
proof -
  have n: "\<not> (is_read t \<and> is_write t)" "\<not> (is_read u \<and> is_write u)" by (auto simp: is_read_def is_write_def)
  have le: "unat (notified p t u now) \<le> unat now'" using assms(1) by (simp add: word_le_nat_alt)
  consider (rr) "is_read t" "is_read u" | (rw) "is_read t" "is_write u" "\<not> is_read u" | (ww) "is_write t" "is_write u" "\<not> is_read t" "\<not> is_read u"
    | (wr) "is_write t" "is_read u" "\<not> is_read t" "\<not> is_write u"
    using assms(2,3) n by blast
  then show ?thesis
  proof cases
    case rr
    then show ?thesis using le n assms(4,5) by (auto simp: notified_def data_start_def data_gap_def unat_sum_le Let_def)
  next
    case ww
    then show ?thesis using le n assms(4,5) by (auto simp: notified_def data_start_def data_gap_def unat_sum_le Let_def)
  next
    case rw
    have "unat (now + sp_tCAS q + sp_tBURST q + sp_tRTRS q) = unat now + unat (sp_tCAS q) + unat (sp_tBURST q) + unat (sp_tRTRS q)"
      using assms(5) by (simp add: unat_sum_le)
    then show ?thesis
      using rw le n assms(4) unat_diff_ge [of "now + sp_tCAS q + sp_tBURST q + sp_tRTRS q" "sp_tCWD q"]
      by (auto simp: notified_def data_start_def data_gap_def Let_def)
  next
    case wr
    have "unat (now + sp_tBURST q + sp_tCWD q + sp_tRTRS q) = unat now + unat (sp_tBURST q) + unat (sp_tCWD q) + unat (sp_tRTRS q)"
      using assms(5) by (simp add: unat_sum_le)
    then show ?thesis
      using wr le n assms(4) unat_diff_ge [of "now + sp_tBURST q + sp_tCWD q + sp_tRTRS q" "sp_tCAS q"]
      by (auto simp: notified_def data_start_def data_gap_def Let_def)
  qed
qed

text \<open>A read or write that a bus accepts sets the deadlines of the other ranks, and finds its own deadline passed.\<close>

context rank_banks begin

lemma bus_step_clock:
  assumes "OffChipBus_IssueCommand (standard_ops ops) w b q = Inr (w1, b1, ok)"
  shows "w_now w1 = w_now w"
proof -
  obtain x where x: "w_req w q = Inr x" using assms by (auto simp: OffChipBus_IssueCommand_def bind_res_eq_Inr)
  obtain c d where "StandardRank_IssueCommand ops w c q = Inr (w1, d, ok)" using bus_issue_cases [OF assms x] by blast
  then show ?thesis by (rule rank_clock)
qed

lemma bus_accept_sets:
  assumes "OffChipBus_IssueCommand (standard_ops ops) w b q = Inr (w1, b1, True)"
    and "w_req w1 q = Inr x" "rank_index b1 x = Inr i" "is_read (rq_type x) \<or> is_write (rq_type x)"
    and "j < length (bus_children b1)" "j \<noteq> unat i" "is_read u \<or> is_write u"
  shows "notified (rk_p (bus_children b ! j)) (rq_type x) u (w_now w) \<le> bus_due (j, column_of u) (w1, b1)"
proof -
  obtain x0 where x0: "w_req w q = Inr x0" using assms(1) by (auto simp: OffChipBus_IssueCommand_def bind_res_eq_Inr)
  obtain i0 c d where i0: "rank_index b x0 = Inr i0" and c: "data_due c = data_due (bus_children b ! unat i0)"
    and d: "StandardRank_IssueCommand ops w c q = Inr (w1, d, True)"
    and b1: "\<exists>y j. w_req w1 q = Inr y \<and> rank_index b y = Inr j \<and>
        b1 = notify_others (standard_ops ops) w1 j y (b\<lparr> bus_children := (bus_children b)[unat i0 := d] \<rparr>)"
    using bus_issue_cases [OF assms(1) x0] by (metis (full_types))
  let ?b = "b\<lparr> bus_children := (bus_children b)[unat i0 := d] \<rparr>"
  obtain k where k: "rank_index b x = Inr k" and e: "b1 = notify_others (standard_ops ops) w1 k x ?b" using b1 assms(2) by auto
  have "rank_index b1 x = rank_index b x" by (simp add: e notify_others_def rank_index_def)
  then have ki: "k = i" using k assms(3) by simp
  have len: "j < length (bus_children ?b)" using assms(5) by (simp add: e notify_others_def)
  have later: "data_later (bus_children b ! unat i0) d" using rank_IssueCommand_later [OF d] data_later_due [OF c] data_later_trans by blast
  have p: "rk_p (bus_children ?b ! j) = rk_p (bus_children b ! j)"
    using later len by (cases "j = unat i0") (simp_all add: data_later_def)
  have "bus_children b1 ! j = StandardRank_Notify w1 (bus_children ?b ! j) x"
    using notify_others_nth [OF len, of ops w1 k x] assms(6) ki by (simp add: e)
  then show ?thesis
    using Notify_due [OF assms(4,7), of "bus_children ?b ! j" w1] p rank_clock [OF d] assms(5) by (simp add: bus_due_def)
qed

lemma bus_accept_meets:
  assumes "OffChipBus_IssueCommand (standard_ops ops) w b q = Inr (w1, b1, True)"
    and "w_req w q = Inr x" "rank_index b x = Inr i" "is_read (rq_type x) \<or> is_write (rq_type x)"
  shows "bus_due (unat i, column_of (rq_type x)) (w, b) \<le> w_now w"
proof -
  obtain i' c d where i': "rank_index b x = Inr i'" and c: "data_due c = data_due (bus_children b ! unat i')"
    and d: "StandardRank_IssueCommand ops w c q = Inr (w1, d, True)"
    using bus_issue_cases [OF assms(1,2)] by blast
  have "rank_due (column_of (rq_type x)) c \<le> w_now w"
    using rank_accepts_due [OF d assms(2)] assms(4) by (auto simp: column_of_def is_read_def is_write_def)
  moreover have "rank_due k c = rank_due k (bus_children b ! unat i)" for k
    using c i' assms(3) by (cases k) (simp_all add: data_due_def)
  ultimately show ?thesis using rank_index_bound [OF assms(3)] by (simp add: bus_due_def)
qed

end

lemma bus_run_length: "(bus_step ops)\<^sup>*\<^sup>* s t \<Longrightarrow> rank_banks ops \<Longrightarrow> length (bus_children (snd t)) = length (bus_children (snd s))"
proof (induction rule: rtranclp_induct)
  case (step t u)
  have "ranks_later (snd t) (snd u)" using rank_banks.bus_step_later [OF step.prems step.hyps(2)] by simp
  then show ?case using step by (simp add: list_all2_lengthD)
qed simp



lemma bus_example_read: "bus_takes 20 3 READ 0 (bus_world, bus_example)"
  by code_simp

lemma bus_example_told: "bus_names 3 READ 0 (bus_issue 20 3 (bus_world, bus_example))"
  by code_simp

text \<open>The other rank takes a write in cycle 23, the first one it may.\<close>

lemma bus_example_write: "bus_takes 23 4 WRITE 1 (bus_later (bus_issue 20 3 (bus_world, bus_example)))"
  by code_simp

lemma bus_example_params: "rk_p (bus_children bus_example ! 1) = rank_example_params"
  by code_simp

lemma bus_takes_issue:
  assumes "bus_takes n q t i (w, b)"
  obtains w' b' where "OffChipBus_IssueCommand (standard_ops example_ops) (w_at n w) b q = Inr (w', b', True)"
    "bus_issue n q (w, b) = (w', b')"
  using assms by (auto simp: bus_takes_def bus_issue_def split: sum.splits)

lemma bus_names_req: "bus_names q t i (w, b) \<Longrightarrow> \<exists>x. w_req (w_at n w) q = Inr x \<and> rq_type x = t \<and> rank_index b x = Inr i"
  by (auto simp: bus_names_def w_req_def w_at_def split: option.splits)


end
