(* ===== verification/Nvm_CachedBank.thy ===== *)
theory Nvm_CachedBank
  imports Nvm_RankWindow
begin

text \<open>
  \<^verbatim>\<open>Banks/CachedDDR3Bank/CachedDDR3Bank.cpp\<close>: a bank with row data buffers. An activation copies a region of the
  row into a buffer; reads, and writes unless the buffers are read only, to that region are served by the buffer,
  whatever happens to the row in the meantime.

  The class inherits from \<^verbatim>\<open>DDR3Bank\<close>: \<open>rb_base\<close> is the inherited part, and \<open>CachedDDR3Bank_IssueCommand\<close> is the
  inherited dispatch with the overridden operations in place. A buffer is allocated without an initial region;
  \<open>junk\<close> is what its memory holds. The histograms are kept as maps, their printing is left out.
\<close>

section \<open>State\<close>

record CachedRowBuffer =
  br_used :: bool
  br_address :: NVMAddress
  br_dirty :: "bool list"
  br_colStart :: u64
  br_colEnd :: u64
  br_reads :: u64
  br_writes :: u64

text \<open>\<open>rb_hooks\<close> are the children of the parent, in which events find the bank; \<open>rb_tRDB\<close> is the buffers' timing parameter.\<close>

record 'c CachedDDR3Bank =
  rb_base :: "'c DDR3Bank"
  rb_hooks :: "(nat \<times> nat) list"
  rb_tRDB :: ncycle_t
  cachedRowBuffer :: "CachedRowBuffer list"
  readOnlyBuffers :: bool
  rowBufferSize :: u64
  rowBufferCount :: u64
  inRDBCount :: u64
  RDBAllocations :: u64
  writebackCount :: u64
  RDBReads :: u64
  RDBWrites :: u64
  allocationReadsMap :: "u64 \<rightharpoonup> u64"
  allocationWritesMap :: "u64 \<rightharpoonup> u64"

definition CachedDDR3Bank_init :: "'c DDR3Bank \<Rightarrow> (nat \<times> nat) list \<Rightarrow> ncycle_t \<Rightarrow> 'c CachedDDR3Bank" where
  "CachedDDR3Bank_init base hooks tRDB =
     \<lparr> rb_base = base, rb_hooks = hooks, rb_tRDB = tRDB, cachedRowBuffer = [], readOnlyBuffers = True, rowBufferSize = 32,
       rowBufferCount = 4, inRDBCount = 0, RDBAllocations = 0, writebackCount = 0, RDBReads = 0, RDBWrites = 0,
       allocationReadsMap = Map.empty, allocationWritesMap = Map.empty \<rparr>"

definition new_buffer :: "u64 \<Rightarrow> CachedRowBuffer \<Rightarrow> CachedRowBuffer" where
  "new_buffer width junk =
     junk\<lparr> br_used := False, br_address := NVMAddress_init (na_bit (br_address junk)), br_dirty := replicate (unat width) False \<rparr>"

text \<open>The settings of the configuration, where it has them.\<close>

definition CachedDDR3Bank_SetConfig ::
  "'c CachedDDR3Bank \<Rightarrow> u64 option \<Rightarrow> bool option \<Rightarrow> u64 option \<Rightarrow> u64 option \<Rightarrow> (nat \<Rightarrow> CachedRowBuffer) \<Rightarrow> (u64 \<Rightarrow> 'c)
     \<Rightarrow> nvm_error + 'c CachedDDR3Bank" where
  "CachedDDR3Bank_SetConfig c COLS CachedRowsReadOnly CachedRowSize CachedRowCount junk new_sa =
     (let c = c\<lparr> rowBufferSize := case_option (rowBufferSize c) id COLS \<rparr>;
          c = c\<lparr> readOnlyBuffers := case_option (readOnlyBuffers c) id CachedRowsReadOnly,
                 rowBufferSize := case_option (rowBufferSize c) id CachedRowSize,
                 rowBufferCount := case_option (rowBufferCount c) id CachedRowCount \<rparr>;
          c = c\<lparr> cachedRowBuffer := map (\<lambda>i. new_buffer (rowBufferSize c) (junk i)) [0..<unat (rowBufferCount c)] \<rparr>
      in bind_res (DDR3Bank_SetConfig (rb_base c) new_sa) (\<lambda>b. Inr (c\<lparr> rb_base := b \<rparr>)))"

section \<open>Binding buffers to rows\<close>

definition bind_buffer :: "u64 \<Rightarrow> NVMAddress \<Rightarrow> CachedRowBuffer \<Rightarrow> CachedRowBuffer" where
  "bind_buffer width a r =
     (let start = na_col a - na_col a mod width in
      r\<lparr> br_used := True, br_address := a, br_colStart := start, br_colEnd := start + width, br_reads := 0, br_writes := 0 \<rparr>)"

text \<open>
  The search of \<^verbatim>\<open>Activate\<close>: the first buffer that is unused or holds the row. It says whether it found one and
  whether it bound it; the remainder by a buffer size of zero is an error.
\<close>

fun allocate_loop ::
  "u64 \<Rightarrow> NVMAddress \<Rightarrow> CachedRowBuffer list \<Rightarrow> nvm_error + CachedRowBuffer list \<times> bool \<times> bool" where
  "allocate_loop width a [] = Inr ([], False, False)"
| "allocate_loop width a (r # rs) =
     (if br_used r \<and> na_row a = na_row (br_address r) then Inr (r # rs, True, False)
      else if \<not> br_used r then
        if width = 0 then Inl DivisionByZero else Inr (bind_buffer width a r # rs, True, True)
      else bind_res (allocate_loop width a rs) (\<lambda>(rs, found, bound). Inr (r # rs, found, bound)))"

definition count_in :: "u64 \<Rightarrow> (u64 \<rightharpoonup> u64) \<Rightarrow> (u64 \<rightharpoonup> u64)" where
  "count_in n m = m(n \<mapsto> (case m n of Some k \<Rightarrow> k + 1 | None \<Rightarrow> 1))"

text \<open>Eviction of the last buffer, with the number of dirty columns.\<close>

definition evict_last :: "'c CachedDDR3Bank \<Rightarrow> NVMAddress \<Rightarrow> nvm_error + 'c CachedDDR3Bank \<times> u64" where
  "evict_last c a =
     (if cachedRowBuffer c = [] then Inl OutOfBounds
      else if rowBufferSize c = 0 then Inl DivisionByZero
      else
        let r = last (cachedRowBuffer c); dirtyCount = of_nat (length (filter id (br_dirty r)));
            r' = (bind_buffer (rowBufferSize c) a r)\<lparr> br_dirty := map (\<lambda>_. False) (br_dirty r) \<rparr>
        in Inr (c\<lparr> allocationReadsMap := count_in (br_reads r) (allocationReadsMap c),
                   allocationWritesMap := count_in (br_writes r) (allocationWritesMap c),
                   cachedRowBuffer := butlast (cachedRowBuffer c) @ [r'],
                   RDBAllocations := RDBAllocations c + 1, writebackCount := writebackCount c + dirtyCount \<rparr>, dirtyCount))"

text \<open>Which buffer an activation gets, and how many columns it writes back.\<close>

definition allocate_buffer :: "'c CachedDDR3Bank \<Rightarrow> NVMAddress \<Rightarrow> nvm_error + 'c CachedDDR3Bank \<times> u64" where
  "allocate_buffer c a =
     bind_res (allocate_loop (rowBufferSize c) a (cachedRowBuffer c)) (\<lambda>(bs, found, bound).
     let c = c\<lparr> cachedRowBuffer := bs, RDBAllocations := RDBAllocations c + (if bound then 1 else 0) \<rparr>
     in if found then Inr (c, 0) else evict_last c a)"

definition activate_timer :: "SAParams \<Rightarrow> u64 \<Rightarrow> u64 \<Rightarrow> ncycle_t" where
  "activate_timer p width dirtyCount =
     (if dirtyCount > 0
      then sp_tRCD p - sp_tAL p + max (sp_tBURST p) (sp_tCCD p) * (dirtyCount - 1)
         + (sp_tAL p + sp_tCWD p + sp_tBURST p + sp_tWR p) + (if sp_UsePrecharge p then sp_tRP p else 0)
      else 0) + sp_tRCD p + width * sp_tCCD p"

definition cached_activate_deadlines :: "world \<Rightarrow> u64 \<Rightarrow> ncycle_t \<Rightarrow> 'c DDR3Bank \<Rightarrow> 'c DDR3Bank" where
  "cached_activate_deadlines w width t b =
     (let p = bp_sa (bk_p b); now = w_now w in
      b\<lparr> bk_nextRead := max (bk_nextRead b) (now + t - sp_tAL p - width * sp_tCCD p + sp_tCCD p),
         bk_nextWrite := max (bk_nextWrite b) (now + t - sp_tAL p - width * sp_tCCD p),
         bk_nextPrecharge := max (bk_nextPrecharge b) (now + max t (sp_tRAS p)),
         bk_nextPowerDown := max (bk_nextPowerDown b) (now + max t (sp_tRAS p)) \<rparr>)"

text \<open>The rest of \<^verbatim>\<open>Activate\<close>, once a buffer is found.\<close>

fun activate_row ::
  "'c sa_ops \<Rightarrow> world \<Rightarrow> nat \<Rightarrow> NVMainRequest \<Rightarrow> 'c CachedDDR3Bank \<times> u64 \<Rightarrow> nvm_error + world \<times> 'c CachedDDR3Bank \<times> bool" where
  "activate_row ops w q x (c, dirtyCount) =
     (if readOnlyBuffers c \<and> dirtyCount > 0 then Inl AssertFailed
      else
        let t = activate_timer (bp_sa (bk_p (rb_base c))) (rowBufferSize c) dirtyCount
        in bind_res (pass_on ops w (cached_activate_deadlines w (rowBufferSize c) t (rb_base c)) q x (activate_done x)) (\<lambda>(w, b, success).
           Inr (w, c\<lparr> rb_base := b \<rparr>, success)))"

definition CachedDDR3Bank_Activate ::
  "'c sa_ops \<Rightarrow> world \<Rightarrow> 'c CachedDDR3Bank \<Rightarrow> nat \<Rightarrow> nvm_error + world \<times> 'c CachedDDR3Bank \<times> bool" where
  "CachedDDR3Bank_Activate ops w c q =
     bind_res (w_req w q) (\<lambda>x.
     if \<not> bk_nextActivate (rb_base c) \<le> w_now w then Inl AssertFailed
     else bind_res (allocate_buffer c (rq_address x)) (activate_row ops w q x))"

section \<open>Serving from a buffer\<close>

definition in_buffer :: "NVMAddress \<Rightarrow> CachedRowBuffer \<Rightarrow> bool" where
  "in_buffer a r \<longleftrightarrow> na_row (br_address r) = na_row a \<and> na_col a \<ge> br_colStart r \<and> na_col a < br_colEnd r"

fun find_hit :: "NVMAddress \<Rightarrow> CachedRowBuffer list \<Rightarrow> nat option" where
  "find_hit a [] = None"
| "find_hit a (r # rs) = (if in_buffer a r then Some 0 else map_option Suc (find_hit a rs))"

text \<open>The loop \<^verbatim>\<open>for( j = bufferIdx; j > 0; j-- )\<close>.\<close>

fun shift_buffers :: "nat \<Rightarrow> CachedRowBuffer list \<Rightarrow> CachedRowBuffer list" where
  "shift_buffers 0 rs = rs"
| "shift_buffers (Suc j) rs = shift_buffers j (rs[Suc j := rs ! j])"

definition buffer_to_front :: "nat \<Rightarrow> CachedRowBuffer list \<Rightarrow> CachedRowBuffer list" where
  "buffer_to_front i rs = (let tempBuffer = rs ! i in (shift_buffers i rs)[0 := tempBuffer])"

text \<open>\<^verbatim>\<open>InsertEvent( EventResponse, this, request, cycle )\<close>.\<close>

definition cached_event :: "'c CachedDDR3Bank \<Rightarrow> world \<Rightarrow> nat \<Rightarrow> ncycle_t \<Rightarrow> nvm_error + world" where
  "cached_event c w q when =
     bind_res (InsertEvent_object (w_queue w) (rb_hooks c) (w_fresh w) EventResponse (bk_this (rb_base c)) (Some q) when None 0)
       (\<lambda>eq. Inr (w\<lparr> w_queue := eq, w_fresh := Suc (w_fresh w) \<rparr>))"

text \<open>A request for the data bus in the next cycle and the answer to the request; a probe becomes a plain request.\<close>

definition serve_hit :: "'c CachedDDR3Bank \<Rightarrow> world \<Rightarrow> nat \<Rightarrow> NVMainRequest \<Rightarrow> OpType \<Rightarrow> OpType \<Rightarrow> OpType \<Rightarrow> nvm_error + world" where
  "serve_hit c w q x bus cached plain =
     (let busReq = w_fresh w; now = w_now w;
          y = (copy_request busReq x)\<lparr> rq_type := bus, rq_owner := bk_this (rb_base c) \<rparr>;
          w = w\<lparr> w_heap := (w_heap w)(busReq \<mapsto> y), w_fresh := Suc (w_fresh w) \<rparr>
      in bind_res (cached_event c w busReq (now + 1)) (\<lambda>w.
         bind_res (cached_event c w q (now + max (sp_tBURST (bp_sa (bk_p (rb_base c)))) (rb_tRDB c))) (\<lambda>w.
         Inr (w\<lparr> w_heap := (w_heap w)(q \<mapsto> x\<lparr> rq_type := if rq_type x = cached then plain else rq_type x \<rparr>) \<rparr>))))"

definition hit_deadlines :: "world \<Rightarrow> 'c CachedDDR3Bank \<Rightarrow> ncycle_t \<Rightarrow> ncycle_t \<Rightarrow> 'c CachedDDR3Bank" where
  "hit_deadlines w c read_gap write_gap =
     (let b = rb_base c; t = w_now w + max (sp_tBURST (bp_sa (bk_p b))) (rb_tRDB c) in
      c\<lparr> rb_base := b\<lparr> bk_nextRead := max (bk_nextRead b) (t + read_gap), bk_nextWrite := max (bk_nextWrite b) (t + write_gap) \<rparr> \<rparr>)"

definition CachedDDR3Bank_Read ::
  "'c sa_ops \<Rightarrow> world \<Rightarrow> 'c CachedDDR3Bank \<Rightarrow> nat \<Rightarrow> nvm_error + world \<times> 'c CachedDDR3Bank \<times> bool" where
  "CachedDDR3Bank_Read ops w c q =
     bind_res (w_req w q) (\<lambda>x.
     case find_hit (rq_address x) (cachedRowBuffer c) of
       Some i \<Rightarrow>
         let c = hit_deadlines w c 0 (sp_tRTRS (bp_sa (bk_p (rb_base c))))
         in bind_res (serve_hit c w q x BUS_READ CACHED_READ READ) (\<lambda>w.
            let r = cachedRowBuffer c ! i; r = r\<lparr> br_reads := br_reads r + 1 \<rparr>
            in Inr (w, c\<lparr> RDBReads := RDBReads c + 1, cachedRowBuffer := buffer_to_front i ((cachedRowBuffer c)[i := r]) \<rparr>, True))
     | None \<Rightarrow>
         bind_res (DDR3Bank_Read ops w (rb_base c) q) (\<lambda>(w, b, ok). Inr (w, c\<lparr> rb_base := b \<rparr>, ok)))"

text \<open>The dirty flags are indexed with the column itself.\<close>

definition CachedDDR3Bank_Write ::
  "'c sa_ops \<Rightarrow> world \<Rightarrow> 'c CachedDDR3Bank \<Rightarrow> nat \<Rightarrow> nvm_error + world \<times> 'c CachedDDR3Bank \<times> bool" where
  "CachedDDR3Bank_Write ops w c q =
     bind_res (w_req w q) (\<lambda>x.
     case (if readOnlyBuffers c then None else find_hit (rq_address x) (cachedRowBuffer c)) of
       Some i \<Rightarrow>
         let c = hit_deadlines w c (sp_tRTRS (bp_sa (bk_p (rb_base c)))) 0; r = cachedRowBuffer c ! i; col = unat (na_col (rq_address x))
         in if \<not> col < length (br_dirty r) then Inl OutOfBounds
            else bind_res (serve_hit c w q x BUS_WRITE CACHED_WRITE WRITE) (\<lambda>w.
              let r = r\<lparr> br_dirty := (br_dirty r)[col := True], br_writes := br_writes r + 1 \<rparr>
              in Inr (w, c\<lparr> RDBWrites := RDBWrites c + 1, cachedRowBuffer := buffer_to_front i ((cachedRowBuffer c)[i := r]) \<rparr>, True))
     | None \<Rightarrow>
         bind_res (DDR3Bank_Write ops w (rb_base c) q) (\<lambda>(w, b, ok). Inr (w, c\<lparr> rb_base := b \<rparr>, ok)))"

section \<open>Issuing\<close>

definition cacheable :: "bool \<Rightarrow> OpType \<Rightarrow> bool" where
  "cacheable readOnly t \<longleftrightarrow> t = READ \<or> t = READ_PRECHARGE \<or> t = CACHED_READ
     \<or> (\<not> readOnly \<and> (t = WRITE \<or> t = WRITE_PRECHARGE \<or> t = CACHED_WRITE))"

definition CachedDDR3Bank_IsIssuable ::
  "'c sa_ops \<Rightarrow> world \<Rightarrow> 'c CachedDDR3Bank \<Rightarrow> NVMainRequest \<Rightarrow> nvm_error + 'c CachedDDR3Bank \<times> bool" where
  "CachedDDR3Bank_IsIssuable ops w c x =
     (let inRDB = list_ex (in_buffer (rq_address x)) (cachedRowBuffer c) in
      if inRDB \<and> cacheable (readOnlyBuffers c) (rq_type x) then Inr (c\<lparr> inRDBCount := inRDBCount c + 1 \<rparr>, True)
      else if rq_type x \<noteq> CACHED_READ \<and> rq_type x \<noteq> CACHED_WRITE then
        bind_res (DDR3Bank_IsIssuable ops w (rb_base c) x) (\<lambda>(b, ok). Inr (c\<lparr> rb_base := b \<rparr>, ok))
      else Inr (c, False))"

definition on_base :: "'c CachedDDR3Bank \<Rightarrow> nvm_error + world \<times> 'c DDR3Bank \<times> bool \<Rightarrow> nvm_error + world \<times> 'c CachedDDR3Bank \<times> bool" where
  "on_base c m = bind_res m (\<lambda>(w, b, ok). Inr (w, c\<lparr> rb_base := b \<rparr>, ok))"

text \<open>\<^verbatim>\<open>DDR3Bank::IssueCommand\<close>, with the operations this class overrides.\<close>

definition CachedDDR3Bank_IssueCommand ::
  "'c sa_ops \<Rightarrow> world \<Rightarrow> 'c CachedDDR3Bank \<Rightarrow> nat \<Rightarrow> nvm_error + world \<times> 'c CachedDDR3Bank \<times> bool" where
  "CachedDDR3Bank_IssueCommand ops w c q =
     bind_res (w_req w q) (\<lambda>x.
     bind_res (CachedDDR3Bank_IsIssuable ops w c x) (\<lambda>(c, ok).
     if \<not> ok then Inr (w, c, False)
     else let b = rb_base c in
       case rq_type x of
         ACTIVATE \<Rightarrow> CachedDDR3Bank_Activate ops w c q
       | READ \<Rightarrow> CachedDDR3Bank_Read ops w c q
       | READ_PRECHARGE \<Rightarrow> CachedDDR3Bank_Read ops w c q
       | WRITE \<Rightarrow> CachedDDR3Bank_Write ops w c q
       | WRITE_PRECHARGE \<Rightarrow> CachedDDR3Bank_Write ops w c q
       | PRECHARGE \<Rightarrow> on_base c (DDR3Bank_Precharge ops w b q)
       | PRECHARGE_ALL \<Rightarrow> on_base c (DDR3Bank_Precharge ops w b q)
       | REFRESH \<Rightarrow> on_base c (DDR3Bank_Refresh ops w b q)
       | POWERDOWN_PDA \<Rightarrow> on_base c (bind_res (DDR3Bank_PowerDown w b x) (\<lambda>(b, ok). Inr (w, b, ok)))
       | POWERDOWN_PDPF \<Rightarrow> on_base c (bind_res (DDR3Bank_PowerDown w b x) (\<lambda>(b, ok). Inr (w, b, ok)))
       | POWERDOWN_PDPS \<Rightarrow> on_base c (bind_res (DDR3Bank_PowerDown w b x) (\<lambda>(b, ok). Inr (w, b, ok)))
       | POWERUP \<Rightarrow> on_base c (case DDR3Bank_PowerUp w b of (b, ok) \<Rightarrow> Inr (w, b, ok))
       | _ \<Rightarrow> on_base c (bind_res (child_index b x) (\<lambda>i. child_issue ops w b i q))))"

text \<open>\<^verbatim>\<open>NVMObject::RequestComplete\<close>, which banks inherit: the request is theirs, or goes on to the parent.\<close>

definition bank_RequestComplete :: "nat \<Rightarrow> world \<Rightarrow> nat \<Rightarrow> nvm_error + world \<times> bool" where
  "bank_RequestComplete this w q =
     bind_res (w_req w q) (\<lambda>x.
     if rq_owner x = this then Inr (w\<lparr> w_heap := (w_heap w)(q := None) \<rparr>, False) else Inr (w, True))"

text \<open>As a bank of a rank.\<close>

definition cached_ops :: "'c sa_ops \<Rightarrow> 'c CachedDDR3Bank bk_ops" where
  "cached_ops ops =
     \<lparr> bo_IsIssuable = CachedDDR3Bank_IsIssuable ops, bo_IssueCommand = CachedDDR3Bank_IssueCommand ops,
       bo_NextIssuable = \<lambda>c x. DDR3Bank_NextIssuable ops (rb_base c) x, bo_Idle = \<lambda>c. DDR3Bank_Idle ops (rb_base c),
       bo_Cycle = \<lambda>c steps. c\<lparr> rb_base := DDR3Bank_Cycle (rb_base c) steps \<rparr> \<rparr>"

section \<open>A small cached bank\<close>

definition empty_junk :: "nat \<Rightarrow> CachedRowBuffer" where
  "empty_junk i = \<lparr> br_used = False, br_address = NVMAddress_init 0, br_dirty = [], br_colStart = 0, br_colEnd = 0, br_reads = 0, br_writes = 0 \<rparr>"

text \<open>Two buffers of four columns, for rows of sixteen.\<close>

definition cached_example :: "unit SubArray CachedDDR3Bank" where
  "cached_example =
     (let c = CachedDDR3Bank_init (DDR3Bank_init bank_example_params 5 AddressTranslator_init) [(8, 5)] 2
      in case CachedDDR3Bank_SetConfig c (Some 16) (Some False) (Some 4) (Some 2) empty_junk bank_child of Inr c \<Rightarrow> c | Inl _ \<Rightarrow> c)"

definition cached_request :: "nat \<Rightarrow> OpType \<Rightarrow> u64 \<Rightarrow> u64 \<Rightarrow> NVMainRequest" where
  "cached_request p t row col = (let x = bank_request p t 0 in x\<lparr> rq_address := (rq_address x)\<lparr> na_row := row, na_col := col \<rparr> \<rparr>)"

definition cached_world :: world where
  "cached_world = w_at 10 \<lparr> w_queue = EventQueue_init, w_fresh = 100, w_heap = [1 \<mapsto> cached_request 1 ACTIVATE 3 5, 2 \<mapsto> cached_request 2 ACTIVATE 4 0,
     3 \<mapsto> cached_request 3 WRITE 1 5, 4 \<mapsto> cached_request 4 READ_PRECHARGE 1 5], w_sim = None \<rparr>"

text \<open>The same bank with rows 1 and 2 in its buffers.\<close>

definition cached_full :: "unit SubArray CachedDDR3Bank" where
  "cached_full = cached_example\<lparr> cachedRowBuffer :=
     map (\<lambda>row. bind_buffer 4 (rq_address (cached_request 9 READ row 5)) (new_buffer 4 (empty_junk 0))) [1, 2] \<rparr>"

end
