(* ===== verification/Nvm_CachedBuffers.thy ===== *)
theory Nvm_CachedBuffers
  imports Nvm_CachedBank
begin

text \<open>
  The row data buffers of \<^verbatim>\<open>Banks/CachedDDR3Bank\<close>: a refinement of an abstract list of row regions that every run
  keeps, what a hit does and does not do, and the writes that leave the array of dirty flags. Cached banks keep the
  clock, so ranks of them are instances of the locale \<open>rank_banks\<close> and inherit the lemmas on the activation window.
\<close>

section \<open>Buffers as a list of row regions\<close>

text \<open>
  The abstract view: the regions held, most recently served first, as pairs of a row and its first column. An
  activation admits its region at the far end, where the next victim is taken from; a hit promotes a region.
\<close>

type_synonym region = "u64 \<times> u64"

definition region_of :: "CachedRowBuffer \<Rightarrow> region" where
  "region_of r = (na_row (br_address r), br_colStart r)"

definition held :: "'c CachedDDR3Bank \<Rightarrow> region list" where
  "held c = map region_of (filter br_used (cachedRowBuffer c))"

definition serves :: "u64 \<Rightarrow> NVMAddress \<Rightarrow> region \<Rightarrow> bool" where
  "serves width a = (\<lambda>(row, start). row = na_row a \<and> start \<le> na_col a \<and> na_col a < start + width)"

definition promote :: "u64 \<Rightarrow> NVMAddress \<Rightarrow> region list \<Rightarrow> region list" where
  "promote width a xs = (case find (serves width a) xs of None \<Rightarrow> xs | Some k \<Rightarrow> k # remove1 k xs)"

definition admit :: "nat \<Rightarrow> u64 \<Rightarrow> NVMAddress \<Rightarrow> region list \<Rightarrow> region list" where
  "admit n width a xs =
     (let k = (na_row a, na_col a - na_col a mod width) in
      if na_row a \<in> fst ` set xs then xs else if length xs < n then xs @ [k] else butlast xs @ [k])"

definition rdb_effect :: "nat \<Rightarrow> u64 \<Rightarrow> bool \<Rightarrow> OpType \<Rightarrow> NVMAddress \<Rightarrow> region list \<Rightarrow> region list" where
  "rdb_effect n width readOnly t a xs =
     (if t = ACTIVATE then admit n width a xs
      else if t = READ \<or> t = READ_PRECHARGE \<or> \<not> readOnly \<and> (t = WRITE \<or> t = WRITE_PRECHARGE) then promote width a xs
      else xs)"

text \<open>The buffers in use come first, hold different rows, and cover regions of the configured width; unused ones serve nothing.\<close>

definition buffer_ok :: "u64 \<Rightarrow> bool \<Rightarrow> CachedRowBuffer \<Rightarrow> bool" where
  "buffer_ok width readOnly r \<longleftrightarrow> length (br_dirty r) = unat width \<and> (readOnly \<longrightarrow> \<not> list_ex id (br_dirty r))
     \<and> (if br_used r then br_colEnd r = br_colStart r + width else br_colEnd r \<le> br_colStart r)"

definition buffers_split :: "u64 \<Rightarrow> bool \<Rightarrow> CachedRowBuffer list \<Rightarrow> CachedRowBuffer list \<Rightarrow> bool" where
  "buffers_split width readOnly us vs \<longleftrightarrow> list_all (buffer_ok width readOnly) (us @ vs) \<and> list_all br_used us
     \<and> \<not> list_ex br_used vs \<and> distinct (map (fst \<circ> region_of) us)"

definition buffers_ok :: "'c CachedDDR3Bank \<Rightarrow> bool" where
  "buffers_ok c \<longleftrightarrow> length (cachedRowBuffer c) = unat (rowBufferCount c)
     \<and> (\<exists>us vs. cachedRowBuffer c = us @ vs \<and> buffers_split (rowBufferSize c) (readOnlyBuffers c) us vs)"

lemma buffers_okI:
  "cachedRowBuffer c = us @ vs \<Longrightarrow> length us + length vs = unat (rowBufferCount c)
    \<Longrightarrow> buffers_split (rowBufferSize c) (readOnlyBuffers c) us vs \<Longrightarrow> buffers_ok c"
  by (auto simp: buffers_ok_def)

lemma split_held: "buffers_split width ro us vs \<Longrightarrow> cachedRowBuffer c = us @ vs \<Longrightarrow> held c = map region_of us"
proof -
  assume a: "buffers_split width ro us vs" "cachedRowBuffer c = us @ vs"
  have "filter br_used us = us" "filter br_used vs = []"
    using a(1) by (auto simp: buffers_split_def list_all_iff list_ex_iff filter_id_conv filter_empty_conv)
  then show ?thesis by (simp add: held_def a(2))
qed

subsection \<open>Moving a buffer to the front\<close>

lemma length_shift [simp]: "length (shift_buffers i rs) = length rs"
  by (induction i arbitrary: rs) simp_all

lemma shift_buffers_eq:
  "i < length rs \<Longrightarrow> shift_buffers i rs = rs ! 0 # take i rs @ drop (Suc i) rs"
proof (induction i arbitrary: rs)
  case 0
  then show ?case by (cases rs) simp_all
next
  case (Suc i)
  then show ?case
    by (simp add: nth_append take_Suc_conv_app_nth Cons_nth_drop_Suc drop_update_swap)
       (simp add: nth_list_update take_update_cancel upd_conv_take_nth_drop Cons_nth_drop_Suc [symmetric] drop_update_swap)
qed

lemma buffer_to_front_eq:
  assumes "i < length rs"
  shows "buffer_to_front i (rs[i := r]) = r # take i rs @ drop (Suc i) rs"
  using assms by (simp add: buffer_to_front_def shift_buffers_eq)

subsection \<open>Hits\<close>

lemma find_hit_Some: "find_hit a rs = Some i \<Longrightarrow> i < length rs \<and> in_buffer a (rs ! i)"
  by (induction rs arbitrary: i) (auto split: if_splits)

lemma find_hit_None: "find_hit a rs = None \<longleftrightarrow> \<not> list_ex (in_buffer a) rs"
  by (induction rs) auto

lemma unused_serves_nothing: "buffer_ok width ro r \<Longrightarrow> \<not> br_used r \<Longrightarrow> \<not> in_buffer a r"
  by (auto simp: buffer_ok_def in_buffer_def)

lemma used_serves: "buffer_ok width ro r \<Longrightarrow> br_used r \<Longrightarrow> in_buffer a r = serves width a (region_of r)"
  by (auto simp: buffer_ok_def in_buffer_def serves_def region_of_def)

lemma split_buffers:
  assumes "buffers_split width ro us vs"
  shows "r \<in> set us \<Longrightarrow> buffer_ok width ro r \<and> br_used r" "r \<in> set vs \<Longrightarrow> buffer_ok width ro r \<and> \<not> br_used r"
  using assms by (auto simp: buffers_split_def list_all_iff list_ex_iff)

lemma find_hit_split:
  assumes "buffers_split width ro us vs"
  shows "find_hit a (us @ vs) = find_hit a us"
proof -
  have n: "find_hit a vs = None"
    unfolding find_hit_None list_ex_iff using split_buffers(2) [OF assms] unused_serves_nothing [of width ro] by metis
  show ?thesis by (induction us) (simp_all add: n)
qed

lemma find_hit_serves:
  assumes "list_all (\<lambda>r. buffer_ok width ro r \<and> br_used r) us"
  shows "find (serves width a) (map region_of us) = map_option (\<lambda>i. region_of (us ! i)) (find_hit a us)"
  using assms by (induction us) (auto simp: used_serves option.map_comp comp_def)

lemma remove1_nth: "distinct xs \<Longrightarrow> i < length xs \<Longrightarrow> remove1 (xs ! i) xs = take i xs @ drop (Suc i) xs"
proof (induction xs arbitrary: i)
  case (Cons x xs)
  then show ?case by (cases i) auto
qed simp

lemma split_promote:
  assumes "buffers_split width ro us vs" "find_hit a us = Some i" "region_of r = region_of (us ! i)" "br_used r" "buffer_ok width ro r"
  shows "buffers_split width ro (r # take i us @ drop (Suc i) us) vs"
    "map region_of (r # take i us @ drop (Suc i) us) = promote width a (map region_of us)"
proof -
  have i: "i < length us" using find_hit_Some [OF assms(2)] by simp
  have us: "list_all (\<lambda>r. buffer_ok width ro r \<and> br_used r) us" using split_buffers(1) [OF assms(1)] by (simp add: list_all_iff)
  have d: "distinct (map fst (map region_of us))" using assms(1) by (simp add: buffers_split_def comp_def)
  then have dk: "distinct (map region_of us)" using inj_on_imageI2 [of fst region_of] by (auto simp: distinct_map)
  have rm: "remove1 (region_of (us ! i)) (map region_of us) = map region_of (take i us @ drop (Suc i) us)"
    using remove1_nth [OF dk] i by (simp add: take_map drop_map)
  show e: "map region_of (r # take i us @ drop (Suc i) us) = promote width a (map region_of us)"
    by (simp only: promote_def find_hit_serves [OF us] assms(2) option.map option.case rm list.map assms(3))
  have "mset (map fst (map region_of (r # take i us @ drop (Suc i) us))) = mset (map fst (map region_of us))"
    using rm i assms(3) by (metis (no_types, lifting) list.simps(9) mset_map mset_remove1 mset.simps(2) insert_DiffM length_map nth_map nth_mem set_mset_mset)
  then have "distinct (map fst (map region_of (r # take i us @ drop (Suc i) us)))" using d mset_eq_imp_distinct_iff by blast
  then show "buffers_split width ro (r # take i us @ drop (Suc i) us) vs"
    using assms(1,4,5) by (auto simp: buffers_split_def list_all_iff comp_def dest: in_set_takeD in_set_dropD)
qed

subsection \<open>Allocation\<close>

lemma bind_buffer_simps [simp]:
  "br_used (bind_buffer width a r)" "region_of (bind_buffer width a r) = (na_row a, na_col a - na_col a mod width)"
  "br_dirty (bind_buffer width a r) = br_dirty r"
  by (simp_all add: bind_buffer_def region_of_def Let_def)

lemma bind_buffer_ok: "buffer_ok width ro r \<Longrightarrow> buffer_ok width ro (bind_buffer width a r)"
  by (simp add: buffer_ok_def bind_buffer_def Let_def)

lemma allocate_used:
  assumes "list_all br_used us" "na_row a \<notin> fst ` set (map region_of us)"
  shows "allocate_loop width a (us @ vs) = bind_res (allocate_loop width a vs) (\<lambda>(rs, found, bound). Inr (us @ rs, found, bound))"
  using assms
  by (induction us) (auto simp: region_of_def bind_res_def split: sum.splits)

lemma allocate_held:
  assumes "list_all br_used us" "na_row a \<in> fst ` set (map region_of us)"
  shows "allocate_loop width a (us @ vs) = Inr (us @ vs, True, False)"
  using assms by (induction us) (fastforce simp: region_of_def)+

lemma allocate_buffer_admits:
  assumes "allocate_buffer c a = Inr (c', d)" "buffers_ok c"
  shows "buffers_ok c' \<and> held c' = admit (unat (rowBufferCount c)) (rowBufferSize c) a (held c)
    \<and> rb_base c' = rb_base c \<and> rowBufferCount c' = rowBufferCount c \<and> rowBufferSize c' = rowBufferSize c
    \<and> readOnlyBuffers c' = readOnlyBuffers c \<and> (readOnlyBuffers c \<longrightarrow> d = 0)"
proof -
  let ?w = "rowBufferSize c"
  obtain us vs where rs: "cachedRowBuffer c = us @ vs" and s: "buffers_split ?w (readOnlyBuffers c) us vs"
    and n: "length (cachedRowBuffer c) = unat (rowBufferCount c)"
    using assms(2) by (auto simp: buffers_ok_def)
  have h: "held c = map region_of us" using split_held [OF s rs] .
  have u: "list_all br_used us" using s by (simp add: buffers_split_def)
  show ?thesis
  proof (cases "na_row a \<in> fst ` set (map region_of us)")
    case True
    have "c\<lparr> cachedRowBuffer := us @ vs, RDBAllocations := RDBAllocations c + 0 \<rparr> = c" using rs by (cases c) simp
    then have c': "c' = c" "d = 0" using assms(1) allocate_held [OF u True] rs by (auto simp: allocate_buffer_def Let_def)
    then show ?thesis using True h assms(2) by (simp add: admit_def Let_def)
  next
    case False
    note l = allocate_used [OF u False, of ?w]
    show ?thesis
    proof (cases vs)
      case Nil
      have e: "allocate_loop ?w a (cachedRowBuffer c) = Inr (us, False, False)" using l [of "[]"] rs Nil by simp
      have "cachedRowBuffer c \<noteq> []" "?w \<noteq> 0"
        using assms(1) e Nil rs by (auto simp: allocate_buffer_def evict_last_def Let_def split: if_splits)
      then obtain ts r where us: "us = ts @ [r]" using rs Nil by (cases us rule: rev_cases) auto
      have c': "cachedRowBuffer c' = ts @ [(bind_buffer ?w a r)\<lparr> br_dirty := map (\<lambda>_. False) (br_dirty r) \<rparr>]"
        "d = of_nat (length (filter id (br_dirty r)))" "rb_base c' = rb_base c" "rowBufferCount c' = rowBufferCount c"
        "rowBufferSize c' = ?w" "readOnlyBuffers c' = readOnlyBuffers c"
        using assms(1) e Nil rs us by (auto simp: allocate_buffer_def evict_last_def Let_def split: if_splits)
      let ?r = "(bind_buffer ?w a r)\<lparr> br_dirty := map (\<lambda>_. False) (br_dirty r) \<rparr>"
      have r: "buffer_ok ?w (readOnlyBuffers c) r" using split_buffers(1) [OF s] us by simp
      have k: "region_of ?r = (na_row a, na_col a - na_col a mod ?w)" by (simp add: region_of_def bind_buffer_def Let_def)
      have ok: "buffer_ok ?w (readOnlyBuffers c) ?r" "br_used ?r"
        using r by (auto simp: buffer_ok_def bind_buffer_def Let_def list_ex_iff)
      have s': "buffers_split ?w (readOnlyBuffers c) (ts @ [?r]) []"
        using s us ok k False by (auto simp: buffers_split_def image_comp comp_def)
      have "d = 0" if "readOnlyBuffers c"
      proof -
        have "filter id (br_dirty r) = []" using r that by (auto simp: buffer_ok_def list_ex_iff filter_empty_conv)
        then show ?thesis by (simp add: c'(2))
      qed
      moreover have "held c' = admit (unat (rowBufferCount c)) ?w a (held c)"
        using split_held [OF s' , of c'] c'(1) h k us False n rs Nil by (simp add: admit_def Let_def)
      moreover have "buffers_ok c'" by (rule buffers_okI [where us = "ts @ [?r]" and vs = "[]"]) (use s' c' n rs Nil us in simp_all)
      ultimately show ?thesis using c' by simp
    next
      case (Cons v ws)
      have v: "\<not> br_used v" "buffer_ok ?w (readOnlyBuffers c) v" using split_buffers(2) [OF s] Cons by simp_all
      have z: "?w \<noteq> 0" using assms(1) l [of vs] Cons rs v by (auto simp: allocate_buffer_def)
      have c': "cachedRowBuffer c' = (us @ [bind_buffer ?w a v]) @ ws" "d = 0" "rb_base c' = rb_base c"
        "rowBufferCount c' = rowBufferCount c" "rowBufferSize c' = ?w" "readOnlyBuffers c' = readOnlyBuffers c"
        using assms(1) l [of vs] Cons rs v z by (auto simp: allocate_buffer_def Let_def)
      have s': "buffers_split ?w (readOnlyBuffers c) (us @ [bind_buffer ?w a v]) ws"
        using s Cons v(2) False bind_buffer_ok by (auto simp: buffers_split_def image_comp comp_def)
      have "length us < unat (rowBufferCount c)" using n rs Cons by simp
      then have "held c' = admit (unat (rowBufferCount c)) ?w a (held c)"
        using split_held [OF s' c'(1)] h False by (simp add: admit_def Let_def)
      moreover have "buffers_ok c'" by (rule buffers_okI [OF c'(1)]) (use s' c' n rs Cons in simp_all)
      ultimately show ?thesis using c' by simp
    qed
  qed
qed

subsection \<open>Commands\<close>

abbreviation rdb_fields :: "'c CachedDDR3Bank \<Rightarrow> CachedRowBuffer list \<times> u64 \<times> u64 \<times> bool" where
  "rdb_fields c \<equiv> (cachedRowBuffer c, rowBufferCount c, rowBufferSize c, readOnlyBuffers c)"

lemma rdb_fields_frame: "rdb_fields c' = rdb_fields c \<Longrightarrow> buffers_ok c' = buffers_ok c \<and> held c' = held c"
  by (simp add: buffers_ok_def held_def)

lemma IsIssuable_rdb: "CachedDDR3Bank_IsIssuable ops w c x = Inr (c', ok) \<Longrightarrow> rdb_fields c' = rdb_fields c"
  by (auto simp: CachedDDR3Bank_IsIssuable_def Let_def bind_res_eq_Inr split: if_splits)

lemma on_base_rdb: "on_base c m = Inr (w', c', ok) \<Longrightarrow> rdb_fields c' = rdb_fields c"
  by (auto simp: on_base_def bind_res_eq_Inr)

text \<open>A hit changes one buffer, which keeps its region, and brings it to the front.\<close>

lemma hit_promotes:
  assumes "buffers_ok c" "find_hit a (cachedRowBuffer c) = Some i" "region_of r = region_of (cachedRowBuffer c ! i)"
    and "br_used r = br_used (cachedRowBuffer c ! i)" "br_colEnd r = br_colEnd (cachedRowBuffer c ! i)"
    and "length (br_dirty r) = length (br_dirty (cachedRowBuffer c ! i))" "readOnlyBuffers c \<longrightarrow> br_dirty r = br_dirty (cachedRowBuffer c ! i)"
    and "cachedRowBuffer c' = buffer_to_front i ((cachedRowBuffer c)[i := r])"
    and "rowBufferCount c' = rowBufferCount c" "rowBufferSize c' = rowBufferSize c" "readOnlyBuffers c' = readOnlyBuffers c"
  shows "buffers_ok c' \<and> held c' = promote (rowBufferSize c) a (held c)"
proof -
  let ?w = "rowBufferSize c" and ?ro = "readOnlyBuffers c"
  obtain us vs where rs: "cachedRowBuffer c = us @ vs" and s: "buffers_split ?w ?ro us vs"
    and n: "length (cachedRowBuffer c) = unat (rowBufferCount c)"
    using assms(1) by (auto simp: buffers_ok_def)
  have h: "find_hit a us = Some i" using assms(2) find_hit_split [OF s] rs by simp
  have i: "i < length us" using find_hit_Some [OF h] by simp
  have nth: "cachedRowBuffer c ! i = us ! i" using rs i by (simp add: nth_append)
  have u: "buffer_ok ?w ?ro (us ! i)" "br_used (us ! i)" using split_buffers(1) [OF s nth_mem [OF i]] by simp_all
  have r: "buffer_ok ?w ?ro r" "br_used r" using u assms(3-7) by (simp_all add: nth buffer_ok_def region_of_def)
  have new: "cachedRowBuffer c' = (r # take i us @ drop (Suc i) us) @ vs"
    using assms(8) buffer_to_front_eq [of i "us @ vs" r] i rs by simp
  note p = split_promote [OF s h _ r(2) r(1)]
  have k: "region_of r = region_of (us ! i)" using assms(3) nth by simp
  have "buffers_ok c'" by (rule buffers_okI [OF new]) (use p(1) [OF k] n rs i assms(9-11) in simp_all)
  moreover have "held c' = promote ?w a (held c)"
    using split_held [OF p(1) [OF k] new] p(2) [OF k] split_held [OF s rs] by simp
  ultimately show ?thesis by blast
qed

lemma no_hit_no_promotion:
  assumes "buffers_ok c" "find_hit a (cachedRowBuffer c) = None"
  shows "promote (rowBufferSize c) a (held c) = held c"
proof -
  obtain us vs where rs: "cachedRowBuffer c = us @ vs" and s: "buffers_split (rowBufferSize c) (readOnlyBuffers c) us vs"
    using assms(1) by (auto simp: buffers_ok_def)
  have "find_hit a us = None" using assms(2) find_hit_split [OF s] rs by simp
  moreover have "list_all (\<lambda>r. buffer_ok (rowBufferSize c) (readOnlyBuffers c) r \<and> br_used r) us"
    using split_buffers(1) [OF s] by (simp add: list_all_iff)
  ultimately show ?thesis using split_held [OF s rs] by (simp add: promote_def find_hit_serves)
qed

lemma Read_promotes:
  assumes "CachedDDR3Bank_Read ops w c q = Inr (w', c', ok)" "w_req w q = Inr x" "buffers_ok c"
  shows "buffers_ok c' \<and> held c' = promote (rowBufferSize c) (rq_address x) (held c)"
proof (cases "find_hit (rq_address x) (cachedRowBuffer c)")
  case None
  then have "rdb_fields c' = rdb_fields c" using assms(1,2) by (auto simp: CachedDDR3Bank_Read_def bind_res_eq_Inr)
  then show ?thesis using rdb_fields_frame [of c' c] no_hit_no_promotion [OF assms(3) None] assms(3) by simp
next
  case (Some i)
  let ?r = "(cachedRowBuffer c ! i)\<lparr> br_reads := br_reads (cachedRowBuffer c ! i) + 1 \<rparr>"
  have f: "cachedRowBuffer c' = buffer_to_front i ((cachedRowBuffer c)[i := ?r])" "rowBufferCount c' = rowBufferCount c"
    "rowBufferSize c' = rowBufferSize c" "readOnlyBuffers c' = readOnlyBuffers c"
    using assms(1,2) Some by (auto simp: CachedDDR3Bank_Read_def hit_deadlines_def Let_def elim!: bind_res_elim)
  show ?thesis by (rule hit_promotes [OF assms(3) Some _ _ _ _ _ f]) (simp_all add: region_of_def)
qed

lemma Write_promotes:
  assumes "CachedDDR3Bank_Write ops w c q = Inr (w', c', ok)" "w_req w q = Inr x" "buffers_ok c"
  shows "buffers_ok c' \<and> held c' = (if readOnlyBuffers c then held c else promote (rowBufferSize c) (rq_address x) (held c))"
proof (cases "if readOnlyBuffers c then None else find_hit (rq_address x) (cachedRowBuffer c)")
  case None
  then have "rdb_fields c' = rdb_fields c" using assms(1,2) by (auto simp: CachedDDR3Bank_Write_def bind_res_eq_Inr)
  then show ?thesis using rdb_fields_frame [of c' c] no_hit_no_promotion [OF assms(3)] assms(3) None by (auto split: if_splits)
next
  case (Some i)
  then have s: "find_hit (rq_address x) (cachedRowBuffer c) = Some i" "\<not> readOnlyBuffers c" by (auto split: if_splits)
  let ?b = "cachedRowBuffer c ! i"
  let ?r = "?b\<lparr> br_dirty := (br_dirty ?b)[unat (na_col (rq_address x)) := True], br_writes := br_writes ?b + 1 \<rparr>"
  have f: "cachedRowBuffer c' = buffer_to_front i ((cachedRowBuffer c)[i := ?r])" "rowBufferCount c' = rowBufferCount c"
    "rowBufferSize c' = rowBufferSize c" "readOnlyBuffers c' = readOnlyBuffers c"
    using assms(1,2) s by (auto simp: CachedDDR3Bank_Write_def hit_deadlines_def Let_def elim!: bind_res_elim split: if_splits)
  have "buffers_ok c' \<and> held c' = promote (rowBufferSize c) (rq_address x) (held c)"
    by (rule hit_promotes [OF assms(3) s(1) _ _ _ _ _ f]) (use s(2) in \<open>simp_all add: region_of_def\<close>)
  then show ?thesis using s(2) by simp
qed

lemma cached_activate_cases:
  assumes "CachedDDR3Bank_Activate ops w c q = Inr (w', c', ok)" "w_req w q = Inr x"
  obtains c1 d b1 b where "allocate_buffer c (rq_address x) = Inr (c1, d)" "pass_on ops w b1 q x (activate_done x) = Inr (w', b, ok)"
    "c' = c1\<lparr> rb_base := b \<rparr>"
  using assms by (auto simp: CachedDDR3Bank_Activate_def Let_def bind_res_eq_Inr split: if_splits)

lemma Activate_admits:
  assumes "CachedDDR3Bank_Activate ops w c q = Inr (w', c', ok)" "w_req w q = Inr x" "buffers_ok c"
  shows "buffers_ok c' \<and> held c' = admit (unat (rowBufferCount c)) (rowBufferSize c) (rq_address x) (held c)"
proof -
  obtain c1 d where a: "allocate_buffer c (rq_address x) = Inr (c1, d)" and f: "rdb_fields c' = rdb_fields c1"
    by (rule cached_activate_cases [OF assms(1,2)]) simp
  show ?thesis using allocate_buffer_admits [OF a assms(3)] rdb_fields_frame [OF f] by simp
qed

lemma IssueCommand_effect:
  assumes "CachedDDR3Bank_IssueCommand ops w c q = Inr (w', c', k)" "w_req w q = Inr x" "buffers_ok c"
  shows "buffers_ok c' \<and> (\<exists>c1 ok. CachedDDR3Bank_IsIssuable ops w c x = Inr (c1, ok)
    \<and> held c' = (if ok then rdb_effect (unat (rowBufferCount c)) (rowBufferSize c) (readOnlyBuffers c) (rq_type x) (rq_address x) (held c) else held c))"
proof -
  obtain c1 ok where i: "CachedDDR3Bank_IsIssuable ops w c x = Inr (c1, ok)"
    using assms(1,2) by (auto simp: CachedDDR3Bank_IssueCommand_def bind_res_eq_Inr)
  have f: "rdb_fields c1 = rdb_fields c" using IsIssuable_rdb [OF i] .
  have c1: "buffers_ok c1" "held c1 = held c" using rdb_fields_frame [OF f] assms(3) by simp_all
  have "buffers_ok c' \<and> held c' = (if ok then rdb_effect (unat (rowBufferCount c1)) (rowBufferSize c1) (readOnlyBuffers c1) (rq_type x) (rq_address x) (held c1) else held c1)"
  proof (cases ok)
    case False
    then show ?thesis using assms(1,2) i c1 by (simp add: CachedDDR3Bank_IssueCommand_def)
  next
    case True
    have same: "buffers_ok c' \<and> held c' = held c1" if "on_base c1 m = Inr (w', c', k)" for m
      using rdb_fields_frame [OF on_base_rdb [OF that]] c1 by simp
    show ?thesis
      using assms(1,2) i True Read_promotes [of ops w c1 q w' c' k x] Write_promotes [of ops w c1 q w' c' k x]
        Activate_admits [of ops w c1 q w' c' k x] c1(1)
      by (cases "rq_type x") (auto simp: CachedDDR3Bank_IssueCommand_def Let_def rdb_effect_def dest: same split: if_splits)
  qed
  then show ?thesis using i f c1(2) by simp
qed

section \<open>Runs of a cached bank\<close>

text \<open>Between commands and questions, anything may happen to the rest of the system and to the inherited part of the bank.\<close>

inductive cached_step :: "'c sa_ops \<Rightarrow> world \<times> 'c CachedDDR3Bank \<Rightarrow> world \<times> 'c CachedDDR3Bank \<Rightarrow> bool" for ops where
  issue: "CachedDDR3Bank_IssueCommand ops w c q = Inr (w', c', k) \<Longrightarrow> cached_step ops (w, c) (w', c')"
| ask: "CachedDDR3Bank_IsIssuable ops w c x = Inr (c', k) \<Longrightarrow> cached_step ops (w, c) (w, c')"
| outside: "cached_step ops (w, c) (w', c\<lparr> rb_base := b \<rparr>)"

lemma cached_step_ok:
  assumes "cached_step ops s t" "buffers_ok (snd s)"
  shows "buffers_ok (snd t)"
  using assms
proof cases
  case (issue w c q w' c' k)
  then obtain x where "w_req w q = Inr x" by (auto simp: CachedDDR3Bank_IssueCommand_def bind_res_eq_Inr)
  then show ?thesis using IssueCommand_effect [OF issue(3)] issue assms(2) by simp
next
  case (ask w c x c' k)
  then show ?thesis using rdb_fields_frame [OF IsIssuable_rdb [OF ask(3)]] assms(2) by simp
next
  case (outside w c w' b)
  then show ?thesis using rdb_fields_frame [of "c\<lparr> rb_base := b \<rparr>" c] assms(2) by simp
qed

lemma cached_run_ok: "(cached_step ops)\<^sup>*\<^sup>* s t \<Longrightarrow> buffers_ok (snd s) \<Longrightarrow> buffers_ok (snd t)"
  by (induction rule: rtranclp_induct) (auto intro: cached_step_ok)

lemma cached_start:
  assumes "CachedDDR3Bank_SetConfig c COLS ro cols n junk new_sa = Inr c0" "\<And>i. br_colEnd (junk i) \<le> br_colStart (junk i)"
  shows "buffers_ok c0" "held c0 = []"
proof -
  have rs: "cachedRowBuffer c0 = map (\<lambda>i. new_buffer (rowBufferSize c0) (junk i)) [0..<unat (rowBufferCount c0)]"
    using assms(1) by (auto simp: CachedDDR3Bank_SetConfig_def Let_def bind_res_eq_Inr)
  have "buffers_split (rowBufferSize c0) (readOnlyBuffers c0) [] (cachedRowBuffer c0)"
    using assms(2) by (simp add: rs buffers_split_def buffer_ok_def new_buffer_def list_all_iff list_ex_iff)
  then show "buffers_ok c0" by (rule buffers_okI [where us = "[]" and vs = "cachedRowBuffer c0", rotated 2]) (simp_all add: rs)
  show "held c0 = []" by (simp add: held_def rs new_buffer_def filter_empty_conv)
qed

lemma held_rows:
  assumes "buffers_ok c"
  shows "distinct (map fst (held c))" "length (held c) \<le> unat (rowBufferCount c)"
proof -
  obtain us vs where rs: "cachedRowBuffer c = us @ vs" and s: "buffers_split (rowBufferSize c) (readOnlyBuffers c) us vs"
    and n: "length (cachedRowBuffer c) = unat (rowBufferCount c)"
    using assms by (auto simp: buffers_ok_def)
  show "distinct (map fst (held c))" using s split_held [OF s rs] by (simp add: buffers_split_def comp_def)
  show "length (held c) \<le> unat (rowBufferCount c)" using split_held [OF s rs] n rs by simp
qed

text \<open>C11: the row data buffers of a bank refine a list of row regions. In every run of a configured bank whose new
  buffers serve nothing, different buffers hold different rows; a command that is issuable acts on the regions
  held exactly as the abstract machine says: an activation of a row that is not held admits its region, replacing
  the last one when all buffers are taken, a read or cached write that hits brings its region to the front, and
  nothing else touches them.\<close>

theorem row_buffers_refine_regions:
  assumes "CachedDDR3Bank_SetConfig c COLS ro cols n junk new_sa = Inr c0" "\<And>i. br_colEnd (junk i) \<le> br_colStart (junk i)"
    and "(cached_step ops)\<^sup>*\<^sup>* (w0, c0) (w, d)"
    and "CachedDDR3Bank_IssueCommand ops w d q = Inr (w', d', k)" "w_req w q = Inr x"
  shows "distinct (map fst (held d')) \<and> length (held d') \<le> unat (rowBufferCount d')
    \<and> (\<exists>e ok. CachedDDR3Bank_IsIssuable ops w d x = Inr (e, ok) \<and> held d' =
        (if ok then rdb_effect (unat (rowBufferCount d)) (rowBufferSize d) (readOnlyBuffers d) (rq_type x) (rq_address x) (held d)
         else held d))"
proof -
  have "buffers_ok d" using cached_run_ok [OF assms(3)] cached_start(1) [OF assms(1,2)] by simp
  then show ?thesis using IssueCommand_effect [OF assms(4,5)] held_rows [of d'] by blast
qed

lemma cached_example_start:
  "CachedDDR3Bank_SetConfig (CachedDDR3Bank_init (DDR3Bank_init bank_example_params 5 AddressTranslator_init) [(8, 5)] 2)
     (Some 16) (Some False) (Some 4) (Some 2) empty_junk bank_child = Inr cached_example"
  by (simp add: cached_example_def CachedDDR3Bank_SetConfig_def CachedDDR3Bank_init_def DDR3Bank_SetConfig_def DDR3Bank_init_def
      bank_example_params_def Let_def)

definition cached_issues :: "world \<Rightarrow> unit SubArray CachedDDR3Bank \<Rightarrow> nat \<Rightarrow> region list \<Rightarrow> bool" where
  "cached_issues w c q regions \<longleftrightarrow> (case CachedDDR3Bank_IssueCommand (subarray_ops sa_example_env) w c q of
     Inl _ \<Rightarrow> False | Inr (w', c', ok) \<Rightarrow> ok \<and> held c' = regions)"

lemma cached_example_activates: "cached_issues cached_world cached_example 1 [(3, 4)]"
  by code_simp

lemma cached_requests:
  "w_req cached_world 1 = Inr (cached_request 1 ACTIVATE 3 5)" "w_req cached_world 2 = Inr (cached_request 2 ACTIVATE 4 0)"
  "w_req cached_world 3 = Inr (cached_request 3 WRITE 1 5)" "w_req cached_world 4 = Inr (cached_request 4 READ_PRECHARGE 1 5)"
  by (simp_all add: w_req_def cached_world_def w_at_def)

lemma cached_request_simps [simp]:
  "rq_type (cached_request p t row col) = t" "na_row (rq_address (cached_request p t row col)) = row" "na_col (rq_address (cached_request p t row col)) = col"
  by (simp_all add: cached_request_def bank_request_def sa_request_def Let_def)

theorem row_buffers_refine_regions_witness:
  "\<exists>w' d'. CachedDDR3Bank_IssueCommand (subarray_ops sa_example_env) cached_world cached_example 1 = Inr (w', d', True)
     \<and> held d' = [(3, 4)] \<and> distinct (map fst (held d')) \<and> length (held d') \<le> unat (rowBufferCount d')"
proof -
  obtain w' d' where i: "CachedDDR3Bank_IssueCommand (subarray_ops sa_example_env) cached_world cached_example 1 = Inr (w', d', True)"
    and h: "held d' = [(3, 4)]"
    using cached_example_activates by (auto simp: cached_issues_def split: sum.splits)
  have "\<And>i. br_colEnd (empty_junk i) \<le> br_colStart (empty_junk i)" by (simp add: empty_junk_def)
  from row_buffers_refine_regions [OF cached_example_start this rtranclp.rtrancl_refl i cached_requests(1)]
  show ?thesis using i h by blast
qed

section \<open>What the buffers do not do\<close>

lemma admit_full:
  "length xs = n \<Longrightarrow> na_row a \<notin> fst ` set xs \<Longrightarrow> admit n width a xs = butlast xs @ [(na_row a, na_col a - na_col a mod width)]"
  by (simp add: admit_def Let_def)

text \<open>A row just activated is the next victim. Once all buffers are taken, two activations of new rows with no
  access in between use the same buffer: the second replaces the first, and the rows activated before stay, however
  long ago they were used.\<close>

theorem activation_is_next_victim:
  assumes "buffers_ok c" "length (held c) = unat (rowBufferCount c)" "held c \<noteq> []"
    and "CachedDDR3Bank_Activate ops w c q = Inr (w1, c1, k1)" "w_req w q = Inr x"
    and "CachedDDR3Bank_Activate ops w2 (c1\<lparr> rb_base := b \<rparr>) r = Inr (w3, c3, k3)" "w_req w2 r = Inr y"
    and "na_row (rq_address x) \<notin> fst ` set (held c)" "na_row (rq_address y) \<notin> fst ` set (held c)"
    and "na_row (rq_address x) \<noteq> na_row (rq_address y)"
  shows "map fst (held c3) = butlast (map fst (held c)) @ [na_row (rq_address y)]"
proof -
  let ?c2 = "c1\<lparr> rb_base := b \<rparr>"
  have one: "buffers_ok c1" "held c1 = butlast (held c) @ [(na_row (rq_address x), na_col (rq_address x) - na_col (rq_address x) mod rowBufferSize c)]"
    using Activate_admits [OF assms(4,5,1)] admit_full [OF assms(2,8)] by simp_all
  have two: "buffers_ok ?c2" "held ?c2 = held c1" using rdb_fields_frame [of ?c2 c1] one(1) by simp_all
  have len: "length (held ?c2) = unat (rowBufferCount ?c2)"
  proof -
    obtain c0 d where "allocate_buffer c (rq_address x) = Inr (c0, d)" "rdb_fields c1 = rdb_fields c0"
      by (rule cached_activate_cases [OF assms(4,5)]) simp
    then have "rowBufferCount c1 = rowBufferCount c" using allocate_buffer_admits [OF _ assms(1)] by auto
    moreover have "length (held c1) = length (held c)" using one(2) assms(3) by (cases "held c" rule: rev_cases) simp_all
    ultimately show ?thesis using two(2) assms(2) by simp
  qed
  have new: "na_row (rq_address y) \<notin> fst ` set (held ?c2)"
    using assms(9,10) two(2) one(2) by (auto dest: in_set_butlastD)
  show ?thesis
    using Activate_admits [OF assms(6,7) two(1)] admit_full [OF len new] two(2) one(2) by (simp add: map_butlast)
qed

lemma cached_full_ok: "buffers_ok cached_full"
  by (rule buffers_okI [where us = "cachedRowBuffer cached_full" and vs = "[]"]) code_simp+

lemma cached_full_held: "held cached_full = [(1, 4), (2, 4)]" "rowBufferCount cached_full = 2" "rowBufferSize cached_full = 4" "\<not> readOnlyBuffers cached_full"
  by code_simp+

definition cached_activated :: "world \<Rightarrow> unit SubArray CachedDDR3Bank \<Rightarrow> nat \<Rightarrow> unit SubArray CachedDDR3Bank option" where
  "cached_activated w c q = (case CachedDDR3Bank_Activate (subarray_ops sa_example_env) w c q of Inl _ \<Rightarrow> None | Inr (w', c', ok) \<Rightarrow> Some c')"

definition cached_twice :: bool where
  "cached_twice \<longleftrightarrow> (case cached_activated cached_world cached_full 1 of None \<Rightarrow> False
     | Some c \<Rightarrow> cached_activated cached_world (c\<lparr> rb_base := rb_base cached_full \<rparr>) 2 \<noteq> None)"

lemma cached_example_twice: cached_twice
  by code_simp

theorem activation_is_next_victim_witness:
  "\<exists>w1 c1 k1 w3 c3 k3. CachedDDR3Bank_Activate (subarray_ops sa_example_env) cached_world cached_full 1 = Inr (w1, c1, k1)
     \<and> CachedDDR3Bank_Activate (subarray_ops sa_example_env) cached_world (c1\<lparr> rb_base := rb_base cached_full \<rparr>) 2 = Inr (w3, c3, k3)
     \<and> map fst (held c3) = [1, 4]"
proof -
  obtain w1 c1 k1 w3 c3 k3 where a: "CachedDDR3Bank_Activate (subarray_ops sa_example_env) cached_world cached_full 1 = Inr (w1, c1, k1)"
    "CachedDDR3Bank_Activate (subarray_ops sa_example_env) cached_world (c1\<lparr> rb_base := rb_base cached_full \<rparr>) 2 = Inr (w3, c3, k3)"
    using cached_example_twice by (auto simp: cached_twice_def cached_activated_def split: sum.splits option.splits)
  have "map fst (held c3) = butlast (map fst (held cached_full)) @ [4]"
    using activation_is_next_victim [OF cached_full_ok _ _ a(1) cached_requests(1) a(2) cached_requests(2)] by (simp add: cached_full_held)
  then show ?thesis using a by (auto simp: cached_full_held)
qed

text \<open>C40: a row region is not the row. A write that hits a buffer of a region that does not start the row, so that its
  column is not below the size of a buffer, marks a flag outside the array of dirty flags.\<close>

theorem cached_write_escapes:
  assumes "buffers_ok c" "\<not> readOnlyBuffers c" "find (serves (rowBufferSize c) (rq_address x)) (held c) = Some k"
    and "rowBufferSize c \<le> na_col (rq_address x)" "w_req w q = Inr x" "rq_type x = WRITE \<or> rq_type x = WRITE_PRECHARGE"
  shows "CachedDDR3Bank_IssueCommand ops w c q = Inl OutOfBounds"
proof -
  obtain us vs where rs: "cachedRowBuffer c = us @ vs" and s: "buffers_split (rowBufferSize c) (readOnlyBuffers c) us vs"
    using assms(1) by (auto simp: buffers_ok_def)
  have u: "list_all (\<lambda>r. buffer_ok (rowBufferSize c) (readOnlyBuffers c) r \<and> br_used r) us"
    using split_buffers(1) [OF s] by (simp add: list_all_iff)
  obtain i where i: "find_hit (rq_address x) (cachedRowBuffer c) = Some i"
    using assms(3) split_held [OF s rs] find_hit_serves [OF u] find_hit_split [OF s] rs by auto
  note h = find_hit_Some [OF i]
  have l: "length (br_dirty (cachedRowBuffer c ! i)) = unat (rowBufferSize c)"
    using nth_mem [OF conjunct1 [OF h]] split_buffers [OF s] rs by (auto simp: buffer_ok_def)
  have "list_ex (in_buffer (rq_address x)) (cachedRowBuffer c)" using h by (auto simp: list_ex_length)
  then show ?thesis using assms(2,4-6) i l
    by (auto simp: CachedDDR3Bank_IssueCommand_def CachedDDR3Bank_IsIssuable_def cacheable_def CachedDDR3Bank_Write_def
        hit_deadlines_def word_le_nat_alt Let_def)
qed

theorem cached_write_escapes_witness:
  "CachedDDR3Bank_IssueCommand (subarray_ops sa_example_env) cached_world cached_full 3 = Inl OutOfBounds"
  by (rule cached_write_escapes [OF cached_full_ok _ _ _ cached_requests(3), of "(1, 4)"])
    (simp_all add: cached_full_held serves_def)

text \<open>C19: a read that the probe \<^verbatim>\<open>CACHED_READ\<close> finds in a buffer is served by it, whatever the deadlines of the
  bank and whether or not a row is open: the answer comes after the longer of \<^verbatim>\<open>tBURST\<close> and \<^verbatim>\<open>tRDB\<close>, and the
  subarrays and the open row stay as they are, also for a \<^verbatim>\<open>READ_PRECHARGE\<close>, which then closes nothing.\<close>

theorem buffered_read_leaves_rows:
  assumes "CachedDDR3Bank_IsIssuable ops w c (x\<lparr> rq_type := CACHED_READ \<rparr>) = Inr (e, True)" "w_req w q = Inr x"
    and "rq_type x = READ \<or> rq_type x = READ_PRECHARGE" "find_hook (rb_hooks c) (bk_this (rb_base c)) = Some h"
  shows "\<exists>w' c'. CachedDDR3Bank_IssueCommand ops w c q = Inr (w', c', True)
    \<and> w_queue w' = InsertEvent_hook
        (InsertEvent_hook (w_queue w) (Suc (w_fresh w)) EventResponse (Some h) (Some (w_fresh w)) (w_now w + 1) None 0)
        (Suc (Suc (w_fresh w))) EventResponse (Some h) (Some q)
        (w_now w + max (sp_tBURST (bp_sa (bk_p (rb_base c)))) (rb_tRDB c)) None 0
    \<and> rb_base c' = (rb_base c)\<lparr> bk_nextRead := bk_nextRead (rb_base c'), bk_nextWrite := bk_nextWrite (rb_base c') \<rparr>"
proof -
  have hit: "list_ex (in_buffer (rq_address x)) (cachedRowBuffer c)"
    using assms(1) by (auto simp: CachedDDR3Bank_IsIssuable_def Let_def split: if_splits)
  then obtain i where i: "find_hit (rq_address x) (cachedRowBuffer c) = Some i"
    using find_hit_None [of "rq_address x" "cachedRowBuffer c"] by (cases "find_hit (rq_address x) (cachedRowBuffer c)") auto
  show ?thesis using assms(2-4) hit i
    by (auto simp: CachedDDR3Bank_IssueCommand_def CachedDDR3Bank_IsIssuable_def cacheable_def CachedDDR3Bank_Read_def
        hit_deadlines_def serve_hit_def cached_event_def InsertEvent_object_def Let_def)
qed

lemma cached_example_probe:
  "case CachedDDR3Bank_IsIssuable (subarray_ops sa_example_env) cached_world cached_full
     ((cached_request 4 READ_PRECHARGE 1 5)\<lparr> rq_type := CACHED_READ \<rparr>) of Inl _ \<Rightarrow> False | Inr (c, ok) \<Rightarrow> ok"
  by code_simp

lemma cached_full_hook: "find_hook (rb_hooks cached_full) (bk_this (rb_base cached_full)) = Some 8"
  by code_simp

theorem buffered_read_leaves_rows_witness:
  "\<exists>w' c'. CachedDDR3Bank_IssueCommand (subarray_ops sa_example_env) cached_world cached_full 4 = Inr (w', c', True)
     \<and> bk_children (rb_base c') = bk_children (rb_base cached_full) \<and> bk_state (rb_base c') = bk_state (rb_base cached_full)"
proof -
  obtain e where "CachedDDR3Bank_IsIssuable (subarray_ops sa_example_env) cached_world cached_full
      ((cached_request 4 READ_PRECHARGE 1 5)\<lparr> rq_type := CACHED_READ \<rparr>) = Inr (e, True)"
    using cached_example_probe by (auto split: sum.splits)
  from buffered_read_leaves_rows [OF this cached_requests(4) _ cached_full_hook]
  obtain w' c' where c: "CachedDDR3Bank_IssueCommand (subarray_ops sa_example_env) cached_world cached_full 4 = Inr (w', c', True)"
    and b: "rb_base c' = (rb_base cached_full)\<lparr> bk_nextRead := bk_nextRead (rb_base c'), bk_nextWrite := bk_nextWrite (rb_base c') \<rparr>"
    by auto
  have "bk_children (rb_base c') = bk_children (rb_base cached_full)" "bk_state (rb_base c') = bk_state (rb_base cached_full)"
    by (subst b, simp)+
  then show ?thesis using c by blast
qed

section \<open>Cached banks in a rank\<close>

context sa_clock begin

lemma cached_activate_clock: "CachedDDR3Bank_Activate ops w c q = Inr (w', c', ok) \<Longrightarrow> w_now w' = w_now w"
proof -
  assume a: "CachedDDR3Bank_Activate ops w c q = Inr (w', c', ok)"
  then obtain x where "w_req w q = Inr x" by (auto simp: CachedDDR3Bank_Activate_def bind_res_eq_Inr)
  then show ?thesis using cached_activate_cases [OF a] pass_on_clock by metis
qed

lemma cached_event_clock: "cached_event c w q t = Inr w' \<Longrightarrow> w_now w' = w_now w"
  by (auto simp: cached_event_def InsertEvent_object_def InsertEvent_hook_def InsertEvent_def Let_def bind_res_eq_Inr split: option.splits)

lemma serve_hit_clock: "serve_hit c w q x t u v = Inr w' \<Longrightarrow> w_now w' = w_now w"
  by (auto simp: serve_hit_def Let_def elim!: bind_res_elim dest!: cached_event_clock)

lemma cached_read_clock: "CachedDDR3Bank_Read ops w c q = Inr (w', c', ok) \<Longrightarrow> w_now w' = w_now w"
  by (auto simp: CachedDDR3Bank_Read_def Let_def elim!: bind_res_elim split: option.splits dest!: commands_clock(2) serve_hit_clock)

lemma cached_write_clock: "CachedDDR3Bank_Write ops w c q = Inr (w', c', ok) \<Longrightarrow> w_now w' = w_now w"
  by (auto simp: CachedDDR3Bank_Write_def Let_def elim!: bind_res_elim split: option.splits if_splits dest!: commands_clock(3) serve_hit_clock)

lemma cached_clock:
  assumes "CachedDDR3Bank_IssueCommand ops w c q = Inr (w', c', ok)"
  shows "w_now w' = w_now w"
proof -
  obtain x d k where x: "w_req w q = Inr x" and d: "CachedDDR3Bank_IsIssuable ops w c x = Inr (d, k)"
    using assms by (auto simp: CachedDDR3Bank_IssueCommand_def bind_res_eq_Inr)
  show ?thesis
    using assms x d
    by (cases k; cases "rq_type x")
      (auto simp: CachedDDR3Bank_IssueCommand_def on_base_def bind_res_eq_Inr Let_def split: prod.splits
        intro: cached_activate_clock cached_read_clock cached_write_clock commands_clock Precharge_clock child_issue_clock)
qed

end

interpretation cached: rank_banks "cached_ops (subarray_ops env)" for env :: "'e sa_env"
  by unfold_locales (auto simp: cached_ops_def dest: subc.cached_clock)

end
