(* ===== verification/Nvm_WriteQueue.thy ===== *)
theory Nvm_WriteQueue
  imports Nvm_FRFCFS
begin

text \<open>
  \<^verbatim>\<open>MemControl/FRFCFS-WQF/FRFCFS-WQF.cpp\<close>: a first-ready controller with a write queue of its own. Writes are drained
  in bursts: a drain starts when the write queue reaches the high watermark and ends when it is down to the low one.

  Transaction queue 0 holds the reads, queue 1 the writes. Averages, which are doubles, are left out; the counts,
  totals and extremes they come from are kept.
\<close>

section \<open>State\<close>

record 'c FRFCFS_WQF =
  wf_mc :: "'c MemoryController"
  writeQueueSize :: u64
  readQueueSize :: u64
  HighWaterMark :: u64
  LowWaterMark :: u64
  m_draining :: bool
  force_drain :: bool
  m_request_per_drain :: u64
  m_drain_start_cycle :: u64
  m_drain_end_cycle :: u64
  m_drain_start_readqueue_size :: u64
  m_drain_end_readqueue_size :: u64
  m_last_drain_end_cycle :: u64
  wf_measuredLatencies :: u64
  wf_measuredQueueLatencies :: u64
  wf_measuredTotalLatencies :: u64
  wf_mem_reads :: u64
  wf_mem_writes :: u64
  wf_starvation_precharges :: u64
  rq_rb_hits :: u64
  rq_rb_miss :: u64
  wq_rb_hits :: u64
  wq_rb_miss :: u64
  total_drains :: u64
  total_drain_writes :: u64
  total_drain_cycles :: u64
  total_non_drain_cycles :: u64
  total_read_cycles :: u64
  total_readqueue_size :: u64
  total_reads_during_drain :: u64
  drain_writes :: "u64 \<times> u64"
  drain_cycles :: "u64 \<times> u64"
  drain_spacing :: "u64 \<times> u64"
  read_spacing :: "u64 \<times> u64"
  predrain_readqueue_size :: "u64 \<times> u64"
  reads_during_drain :: "u64 \<times> u64"

text \<open>Every pair of a \<^verbatim>\<open>minimum_\<close> and a \<^verbatim>\<open>maximum_\<close> member starts with \<^verbatim>\<open>1e10\<close> and 0.\<close>

definition no_extremes :: "u64 \<times> u64" where
  "no_extremes = (10000000000, 0)"

definition FRFCFS_WQF_init :: "'c MemoryController \<Rightarrow> 'c FRFCFS_WQF" where
  "FRFCFS_WQF_init m =
     \<lparr> wf_mc = m\<lparr> transactionQueues := [[], []], starvationThreshold := 4 \<rparr>, writeQueueSize = 8, readQueueSize = 32,
       HighWaterMark = 8, LowWaterMark = 0, m_draining = False, force_drain = False, m_request_per_drain = 0,
       m_drain_start_cycle = 0, m_drain_end_cycle = 0, m_drain_start_readqueue_size = 0, m_drain_end_readqueue_size = 0,
       m_last_drain_end_cycle = 0, wf_measuredLatencies = 0, wf_measuredQueueLatencies = 0, wf_measuredTotalLatencies = 0,
       wf_mem_reads = 0, wf_mem_writes = 0, wf_starvation_precharges = 0, rq_rb_hits = 0, rq_rb_miss = 0, wq_rb_hits = 0,
       wq_rb_miss = 0, total_drains = 0, total_drain_writes = 0, total_drain_cycles = 0, total_non_drain_cycles = 0,
       total_read_cycles = 0, total_readqueue_size = 0, total_reads_during_drain = 0, drain_writes = no_extremes,
       drain_cycles = no_extremes, drain_spacing = no_extremes, read_spacing = no_extremes,
       predrain_readqueue_size = no_extremes, reads_during_drain = no_extremes \<rparr>"

definition readQueue :: "'c FRFCFS_WQF \<Rightarrow> NVMainRequest list" where
  "readQueue s = transactionQueues (wf_mc s) ! 0"

definition writeQueue :: "'c FRFCFS_WQF \<Rightarrow> NVMainRequest list" where
  "writeQueue s = transactionQueues (wf_mc s) ! 1"

text \<open>The watermarks are only brought in order one at a time.\<close>

definition check_watermarks :: "'c FRFCFS_WQF \<Rightarrow> 'c FRFCFS_WQF" where
  "check_watermarks s =
     (if HighWaterMark s > writeQueueSize s then s\<lparr> HighWaterMark := writeQueueSize s \<rparr>
      else if LowWaterMark s > HighWaterMark s then s\<lparr> LowWaterMark := 0 \<rparr> else s)"

definition FRFCFS_WQF_SetConfig ::
  "'c FRFCFS_WQF \<Rightarrow> int option \<Rightarrow> int option \<Rightarrow> int option \<Rightarrow> int option \<Rightarrow> int option \<Rightarrow> u64 option \<Rightarrow> string option
     \<Rightarrow> nvm_error + 'c FRFCFS_WQF" where
  "FRFCFS_WQF_SetConfig s StarvationThreshold ReadQueueSize WriteQueueSize High Low matHeight model =
     (let m = (wf_mc s)\<lparr> starvationThreshold := case_option (starvationThreshold (wf_mc s)) to_uint32 StarvationThreshold \<rparr>;
          s = check_watermarks (s\<lparr> readQueueSize := case_option (readQueueSize s) to_uint32 ReadQueueSize,
                writeQueueSize := case_option (writeQueueSize s) to_uint32 WriteQueueSize,
                HighWaterMark := case_option (HighWaterMark s) to_uint32 High,
                LowWaterMark := case_option (LowWaterMark s) to_uint32 Low \<rparr>)
      in bind_res (MemoryController_SetConfig m matHeight model) (\<lambda>m. Inr (s\<lparr> wf_mc := m \<rparr>)))"

section \<open>Accepting and completing requests\<close>

definition FRFCFS_WQF_IsIssuable :: "'c FRFCFS_WQF \<Rightarrow> NVMainRequest \<Rightarrow> bool" where
  "FRFCFS_WQF_IsIssuable s request \<longleftrightarrow>
     \<not> (rq_type request = READ \<and> of_nat (length (readQueue s)) \<ge> readQueueSize s
        \<or> rq_type request = WRITE \<and> (of_nat (length (writeQueue s)) \<ge> writeQueueSize s \<or> m_draining s \<or> force_drain s))"

definition FRFCFS_WQF_IssueCommand ::
  "partition_vals \<Rightarrow> 'c FRFCFS_WQF \<Rightarrow> NVMainRequest \<Rightarrow> nvm_error + 'c FRFCFS_WQF \<times> bool" where
  "FRFCFS_WQF_IssueCommand garbage s request =
     (if \<not> FRFCFS_WQF_IsIssuable s request then Inr (s, False)
      else
        let request = request\<lparr> rq_arrivalCycle := now (wf_mc s) \<rparr>
        in if rq_type request = READ then
             bind_res (Enqueue garbage (wf_mc s) 0 request) (\<lambda>m. Inr (s\<lparr> wf_mc := m, wf_mem_reads := wf_mem_reads s + 1 \<rparr>, True))
           else if rq_type request = WRITE then
             bind_res (Enqueue garbage (wf_mc s) 1 request) (\<lambda>m. Inr (s\<lparr> wf_mc := m, wf_mem_writes := wf_mem_writes s + 1 \<rparr>, True))
           else Inr (s, False))"

text \<open>\<open>None\<close>: nothing is passed to the parent.\<close>

definition FRFCFS_WQF_RequestComplete ::
  "'c FRFCFS_WQF \<Rightarrow> NVMainRequest \<Rightarrow> nvm_error + 'c FRFCFS_WQF \<times> NVMainRequest option" where
  "FRFCFS_WQF_RequestComplete s request =
     (if (rq_type request = WRITE \<or> rq_type request = WRITE_PRECHARGE)
         \<and> (has_flag FLAG_CANCELLED request \<or> has_flag FLAG_PAUSED request) then
        bind_res (Prequeue (wf_mc s) 1 request) (\<lambda>m. Inr (s\<lparr> wf_mc := m \<rparr>, None))
      else if rq_type request \<in> {READ, READ_PRECHARGE, WRITE, WRITE_PRECHARGE} then
        let request = request\<lparr> rq_status := MEM_REQUEST_COMPLETE, rq_completionCycle := now (wf_mc s) \<rparr>;
            s = s\<lparr> wf_measuredLatencies := wf_measuredLatencies s + 1,
                   wf_measuredQueueLatencies := wf_measuredQueueLatencies s + 1,
                   wf_measuredTotalLatencies := wf_measuredTotalLatencies s + 1 \<rparr>
        in Inr (s, MemoryController_RequestComplete (wf_mc s) request)
      else Inr (s, MemoryController_RequestComplete (wf_mc s) request))"

definition FRFCFS_WQF_Drain :: "'c FRFCFS_WQF \<Rightarrow> 'c FRFCFS_WQF \<times> bool" where
  "FRFCFS_WQF_Drain s = (s\<lparr> force_drain := True \<rparr>, True)"

section \<open>Starting and ending a drain\<close>

text \<open>Recording a value: a value that lowers the minimum is not looked at for the maximum, and the other way round.\<close>

definition min_or_max :: "u64 \<Rightarrow> u64 \<times> u64 \<Rightarrow> u64 \<times> u64" where
  "min_or_max v = (\<lambda>(lo, hi). if lo > v then (v, hi) else if hi < v then (lo, v) else (lo, hi))"

definition max_or_min :: "u64 \<Rightarrow> u64 \<times> u64 \<Rightarrow> u64 \<times> u64" where
  "max_or_min v = (\<lambda>(lo, hi). if hi < v then (lo, v) else if lo > v then (v, hi) else (lo, hi))"

definition drain_statistics :: "'c FRFCFS_WQF \<Rightarrow> 'c FRFCFS_WQF" where
  "drain_statistics s =
     (let end_size = of_nat (length (readQueue s));
          tmpEnterReadQueue = end_size - m_drain_start_readqueue_size s;
          tmpDuration = m_drain_end_cycle s - m_drain_start_cycle s;
          tmpInterval = m_drain_end_cycle s - m_last_drain_end_cycle s;
          tmpReadDuration = tmpInterval - tmpDuration
      in s\<lparr> m_drain_end_readqueue_size := end_size,
            total_readqueue_size := total_readqueue_size s + m_drain_start_readqueue_size s,
            total_reads_during_drain := total_reads_during_drain s + tmpEnterReadQueue,
            predrain_readqueue_size := min_or_max (m_drain_start_readqueue_size s) (predrain_readqueue_size s),
            reads_during_drain := min_or_max tmpEnterReadQueue (reads_during_drain s),
            total_drain_cycles := total_drain_cycles s + tmpDuration,
            drain_cycles := max_or_min tmpDuration (drain_cycles s),
            total_drains := total_drains s + 1,
            total_drain_writes := total_drain_writes s + m_request_per_drain s,
            drain_writes := min_or_max (m_request_per_drain s) (drain_writes s),
            total_non_drain_cycles := total_non_drain_cycles s + tmpInterval,
            drain_spacing := min_or_max tmpInterval (drain_spacing s),
            total_read_cycles := total_read_cycles s + tmpReadDuration,
            read_spacing := min_or_max tmpReadDuration (read_spacing s) \<rparr>)"

text \<open>The first drain is left out of the statistics.\<close>

definition switch_drain :: "'c FRFCFS_WQF \<Rightarrow> 'c FRFCFS_WQF" where
  "switch_drain s =
     (if \<not> m_draining s \<and> of_nat (length (writeQueue s)) \<ge> HighWaterMark s \<and> \<not> force_drain s then
        s\<lparr> m_drain_start_cycle := now (wf_mc s), m_drain_start_readqueue_size := of_nat (length (readQueue s)), m_draining := True \<rparr>
      else if m_draining s \<and> of_nat (length (writeQueue s)) \<le> LowWaterMark s \<and> \<not> force_drain s then
        let s = s\<lparr> m_drain_end_cycle := now (wf_mc s) \<rparr>;
            s = (if m_last_drain_end_cycle s \<noteq> 0 then drain_statistics s else s)
        in s\<lparr> m_request_per_drain := 0, m_last_drain_end_cycle := m_drain_end_cycle s, m_draining := False \<rparr>
      else s)"

section \<open>Scheduling\<close>

text \<open>The chain of scheduling functions, which the source writes out for either queue.\<close>

datatype picked_by = By_starved | By_hit | By_cached | By_oldest | By_closed

definition pick_request ::
  "'c child \<Rightarrow> 'c MemoryController \<Rightarrow> NVMainRequest list
     \<Rightarrow> nvm_error + (picked_by \<times> NVMainRequest \<times> NVMainRequest list) option" where
  "pick_request ch m q =
     bind_res (FindStarvedRequest m DummyPredicate q) (\<lambda>x. case x of Some y \<Rightarrow> Inr (Some (By_starved, y)) | None \<Rightarrow>
     bind_res (FindRowBufferHit m DummyPredicate q) (\<lambda>x. case x of Some y \<Rightarrow> Inr (Some (By_hit, y)) | None \<Rightarrow>
     bind_res (FindCachedAddress ch m DummyPredicate q) (\<lambda>x. case x of Some y \<Rightarrow> Inr (Some (By_cached, y)) | None \<Rightarrow>
     bind_res (FindOldestReadyRequest m DummyPredicate q) (\<lambda>x. case x of Some y \<Rightarrow> Inr (Some (By_oldest, y)) | None \<Rightarrow>
     bind_res (FindClosedBankRequest m DummyPredicate q) (\<lambda>x. Inr (map_option (\<lambda>y. (By_closed, y)) x))))))"

definition count_picked_write :: "picked_by \<Rightarrow> 'c FRFCFS_WQF \<Rightarrow> 'c FRFCFS_WQF" where
  "count_picked_write k s =
     (let more = s\<lparr> m_request_per_drain := m_request_per_drain s + 1 \<rparr> in
      case k of
        By_starved \<Rightarrow> more\<lparr> wq_rb_miss := wq_rb_miss s + 1, wf_starvation_precharges := wf_starvation_precharges s + 1 \<rparr>
      | By_hit \<Rightarrow> more\<lparr> wq_rb_hits := wq_rb_hits s + 1 \<rparr>
      | By_cached \<Rightarrow> s
      | _ \<Rightarrow> more\<lparr> wq_rb_miss := wq_rb_miss s + 1 \<rparr>)"

definition count_picked_read :: "picked_by \<Rightarrow> 'c FRFCFS_WQF \<Rightarrow> 'c FRFCFS_WQF" where
  "count_picked_read k s =
     (case k of
        By_starved \<Rightarrow> s\<lparr> rq_rb_miss := rq_rb_miss s + 1, wf_starvation_precharges := wf_starvation_precharges s + 1 \<rparr>
      | By_hit \<Rightarrow> s\<lparr> rq_rb_hits := rq_rb_hits s + 1 \<rparr>
      | By_cached \<Rightarrow> s
      | _ \<Rightarrow> s\<lparr> rq_rb_miss := rq_rb_miss s + 1 \<rparr>)"

definition writes_only :: "'c FRFCFS_WQF \<Rightarrow> bool" where
  "writes_only s \<longleftrightarrow> m_draining s \<or> (force_drain s \<and> readQueue s = [])"

definition set_queue :: "nat \<Rightarrow> NVMainRequest list \<Rightarrow> 'c FRFCFS_WQF \<Rightarrow> 'c FRFCFS_WQF" where
  "set_queue i q s = s\<lparr> wf_mc := (wf_mc s)\<lparr> transactionQueues := (transactionQueues (wf_mc s))[i := q] \<rparr> \<rparr>"

definition FRFCFS_WQF_schedule :: "'c child \<Rightarrow> 'c FRFCFS_WQF \<Rightarrow> nvm_error + 'c FRFCFS_WQF \<times> NVMainRequest option" where
  "FRFCFS_WQF_schedule ch s =
     (if writes_only s then
        bind_res (pick_request ch (wf_mc s) (writeQueue s)) (\<lambda>x. Inr (case x of
          None \<Rightarrow> (s, None) | Some (k, r, q) \<Rightarrow> (count_picked_write k (set_queue 1 q s), Some r)))
      else
        bind_res (pick_request ch (wf_mc s) (readQueue s)) (\<lambda>x. Inr (case x of
          None \<Rightarrow> (s, None) | Some (k, r, q) \<Rightarrow> (count_picked_read k (set_queue 0 q s), Some r))))"

definition forced_request :: "'c FRFCFS_WQF \<Rightarrow> NVMainRequest \<Rightarrow> NVMainRequest" where
  "forced_request s r = (if m_draining s \<or> force_drain s then add_flag FLAG_FORCED r else r)"

definition FRFCFS_WQF_Cycle :: "'c child \<Rightarrow> 'c FRFCFS_WQF \<Rightarrow> ncycle_t \<Rightarrow> nvm_error + 'c FRFCFS_WQF" where
  "FRFCFS_WQF_Cycle ch s steps =
     bind_res (FRFCFS_WQF_schedule ch (switch_drain s)) (\<lambda>(s, nextRequest).
     bind_res (case nextRequest of None \<Rightarrow> Inr (wf_mc s)
               | Some r \<Rightarrow> bind_res (IssueMemoryCommands ch (wf_mc s) (forced_request s r)) (\<lambda>(m, _). Inr m)) (\<lambda>m.
     bind_res (CycleCommandQueues ch m) (\<lambda>m.
     bind_res (MemoryController_Cycle ch m steps) (\<lambda>m.
     Inr (s\<lparr> wf_mc := m \<rparr>)))))"

end
