(* ===== verification/Nvm_WriteQueueRuns.thy ===== *)
theory Nvm_WriteQueueRuns
  imports Nvm_WriteQueue
begin

text \<open>
  What the write-queue controller does: which of its operations change the transaction queues, that the scheduler takes one
  request out of one queue and loses none, and what a drain on demand during a drain leads to.
\<close>

section \<open>Who touches the transaction queues\<close>

text \<open>Only \<^verbatim>\<open>Enqueue\<close> and \<^verbatim>\<open>Prequeue\<close> put requests into a transaction queue, and only the scheduler takes them out.\<close>

abbreviation tqs :: "'c MemoryController \<Rightarrow> NVMainRequest list list" where
  "tqs \<equiv> transactionQueues"

named_theorems tqs_frame

lemma fold_res_frame:
  assumes "fold_res f xs s = Inr t" "\<And>x s t. x \<in> set xs \<Longrightarrow> f x s = Inr t \<Longrightarrow> g t = g s"
  shows "g t = g s"
  using assms
proof (induction xs arbitrary: s)
  case (Cons x xs)
  obtain u where u: "f x s = Inr u" "fold_res f xs u = Inr t" using Cons.prems(1) by (auto simp: bind_res_eq_Inr)
  have "g t = g u" by (rule Cons.IH [OF u(2)]) (use Cons.prems(2) in auto)
  then show ?case using Cons.prems(2) [OF _ u(1)] by simp
qed simp

lemma push_tqs [simp]: "tqs (push_command m q r) = tqs m" "tqs (MoveCurrentQueue m) = tqs m" "tqs (fst (new_request m t a)) = tqs m"
  "tqs (open_row m b) = tqs m" "tqs (close_row m b) = tqs m" "tqs (set_starvation m b v) = tqs m" "tqs (push_activate ch m q r) = tqs m"
  "tqs (close_and_settle m b) = tqs m" "tqs (close_bank m i j) = tqs m" "tqs (issue_child ch m r) = tqs m" "tqs (CleanupCallback m) = tqs m"
  by (simp_all add: push_command_def MoveCurrentQueue_def new_request_def open_row_def close_row_def set_starvation_def push_activate_def
      close_and_settle_def close_bank_def issue_child_def CleanupCallback_def MakeActivateRequest_def Let_def case_prod_beta)

lemma event_tqs [tqs_frame]:
  "insert_callback m f t d p = Inr m' \<Longrightarrow> tqs m' = tqs m" "insert_cycle m t = Inr m' \<Longrightarrow> tqs m' = tqs m"
  by (auto simp: insert_callback_def insert_cycle_def bind_res_eq_Inr)

lemma make_tqs [tqs_frame]:
  "make_at m t row col bank rank sa = Inr (m', r) \<Longrightarrow> tqs m' = tqs m"
  "MakePrechargeRequest m row col bank rank sa = Inr (m', r) \<Longrightarrow> tqs m' = tqs m"
  "MakePrechargeAllRequest m row col bank rank sa = Inr (m', r) \<Longrightarrow> tqs m' = tqs m"
  "MakeRefreshRequest m row col bank rank sa = Inr (m', r) \<Longrightarrow> tqs m' = tqs m"
  "MakePowerdownRequest m op rank = Inr (m', r) \<Longrightarrow> tqs m' = tqs m" "MakePowerupRequest m rank = Inr (m', r) \<Longrightarrow> tqs m' = tqs m"
  by (auto simp: make_at_def MakePrechargeRequest_def MakePrechargeAllRequest_def MakeRefreshRequest_def MakePowerdownRequest_def
      MakePowerupRequest_def new_request_def bind_res_eq_Inr)

lemma refresh_tqs [tqs_frame]:
  "set_need v m bank rank = Inr m' \<Longrightarrow> tqs m' = tqs m" "ResetRefreshQueued m bank rank = Inr m' \<Longrightarrow> tqs m' = tqs m"
  "add_counter d m bank rank = Inr m' \<Longrightarrow> tqs m' = tqs m" "refresh_precharge i j k m = Inr m' \<Longrightarrow> tqs m' = tqs m"
  subgoal unfolding set_need_def by (erule fold_res_frame) (auto simp: bind_res_eq_Inr)
  subgoal unfolding ResetRefreshQueued_def by (erule fold_res_frame) (auto simp: bind_res_eq_Inr)
  subgoal by (auto simp: add_counter_def Let_def bind_res_eq_Inr split: if_splits)
  subgoal by (auto simp: refresh_precharge_def Let_def bind_res_eq_Inr split: if_splits dest!: make_tqs(3))
  done

definition keeps_tqs :: "('c MemoryController \<Rightarrow> nvm_error + 'c MemoryController) \<Rightarrow> bool" where
  "keeps_tqs f \<longleftrightarrow> (\<forall>m m'. f m = Inr m' \<longrightarrow> tqs m' = tqs m)"

lemma keeps_tqsD: "keeps_tqs f \<Longrightarrow> f m = Inr m' \<Longrightarrow> tqs m' = tqs m"
  by (simp add: keeps_tqs_def)

lemma refresh_group_tqs:
  assumes "keeps_tqs f" "refresh_group f i j m = Inr m'"
  shows "tqs m' = tqs m"
proof -
  have pre: "fold_res (refresh_precharge i j) xs n = Inr n' \<Longrightarrow> tqs n' = tqs n" for xs and n n' :: "'a MemoryController"
    by (erule fold_res_frame) (rule refresh_tqs(4))
  show ?thesis using assms(2)
    by (auto simp: refresh_group_def Let_def DecrementRefreshCounter_def ResetRefresh_def elim!: bind_res_elim split: if_splits
        dest!: keeps_tqsD [OF assms(1)] make_tqs(4) refresh_tqs(1,3) pre)
qed

lemma HandleRefresh_tqs:
  assumes "keeps_tqs f" "HandleRefresh_with f m = Inr (m', b)"
  shows "tqs m' = tqs m"
proof -
  have "refresh_loop f xs m = Inr (m', b) \<Longrightarrow> tqs m' = tqs m" for xs
    by (induction xs) (auto simp: Let_def bind_res_eq_Inr split: if_splits dest!: refresh_group_tqs [OF assms(1)])
  then show ?thesis using assms(2) by (simp add: HandleRefresh_with_def)
qed

lemma NextIssuable_tqs:
  assumes "\<And>m m' b. refresh m = Inr (m', b) \<Longrightarrow> tqs m' = tqs m" "NextIssuable_with ch refresh m = Inr (m', t)"
  shows "tqs m' = tqs m"
proof -
  have step: "next_step ch refresh x s = Inr s' \<Longrightarrow> tqs (fst s') = tqs (fst s)" for x s s'
    by (cases x; cases s) (auto simp: next_step_def elim!: bind_res_elim split: if_splits list.splits dest!: assms(1))
  have "fold_res (next_step ch refresh) xs s = Inr s' \<Longrightarrow> tqs (fst s') = tqs (fst s)" for xs s s'
    by (rule fold_res_frame [where g = "\<lambda>s. tqs (fst s)"]) (auto dest: step)
  then show ?thesis using assms(2) by (fastforce simp: NextIssuable_with_def bind_res_eq_Inr)
qed

lemma wake_tqs: "keeps_tqs (wake ch n)"
proof (induction n)
  case (Suc n)
  have "NextIssuable_with ch (HandleRefresh_with (wake ch n)) m = Inr (m', t) \<Longrightarrow> tqs m' = tqs m" for m m' t
    by (erule NextIssuable_tqs [rotated]) (rule HandleRefresh_tqs [OF Suc])
  then show ?case
    by (auto simp: keeps_tqs_def ScheduleCommandWake_with_def elim!: bind_res_elim split: if_splits dest!: event_tqs(1))
qed (simp add: keeps_tqs_def)

lemma wakes_tqs [tqs_frame]:
  "ScheduleCommandWake ch m = Inr m' \<Longrightarrow> tqs m' = tqs m" "HandleRefresh ch m = Inr (m', b) \<Longrightarrow> tqs m' = tqs m"
  "NextIssuable ch m = Inr (m', t) \<Longrightarrow> tqs m' = tqs m"
  subgoal unfolding ScheduleCommandWake_def by (rule keeps_tqsD [OF wake_tqs])
  subgoal unfolding HandleRefresh_def by (rule HandleRefresh_tqs [OF wake_tqs])
  subgoal unfolding NextIssuable_def by (rule NextIssuable_tqs [OF HandleRefresh_tqs [OF wake_tqs]])
  done

lemma conflict_tqs [tqs_frame]: "conflict_precharge m q a = Inr m' \<Longrightarrow> tqs m' = tqs m"
  by (auto simp: conflict_precharge_def bind_res_eq_Inr split: if_splits dest!: make_tqs(2))

lemma issue_commands_tqs [tqs_frame]: "issue_commands ch m r = Inr (m', b, c) \<Longrightarrow> tqs m' = tqs m"
  by (auto simp: issue_commands_def Let_def elim!: bind_res_elim split: if_splits dest!: conflict_tqs)

lemma IssueMemoryCommands_tqs [tqs_frame]: "IssueMemoryCommands ch m r = Inr (m', b) \<Longrightarrow> tqs m' = tqs m"
  by (auto simp: IssueMemoryCommands_def elim!: bind_res_elim split: if_splits dest!: issue_commands_tqs wakes_tqs(1))

lemma power_tqs [tqs_frame]:
  "PowerDown ch m i = Inr m' \<Longrightarrow> tqs m' = tqs m" "PowerUp ch m i = Inr m' \<Longrightarrow> tqs m' = tqs m"
  "low_power_rank ch k m = Inr m' \<Longrightarrow> tqs m' = tqs m" "HandleLowPower ch m = Inr m' \<Longrightarrow> tqs m' = tqs m"
proof -
  show d: "PowerDown ch m i = Inr m' \<Longrightarrow> tqs m' = tqs m" for i m m'
    by (auto simp: PowerDown_def Let_def elim!: bind_res_elim split: if_splits dest!: make_tqs(5))
  show u: "PowerUp ch m i = Inr m' \<Longrightarrow> tqs m' = tqs m" for i m m'
    by (auto simp: PowerUp_def elim!: bind_res_elim split: if_splits dest!: make_tqs(6))
  show l: "low_power_rank ch k m = Inr m' \<Longrightarrow> tqs m' = tqs m" for k m m'
    by (auto simp: low_power_rank_def Let_def elim!: bind_res_elim split: if_splits dest!: make_tqs(6) d u)
  show "HandleLowPower ch m = Inr m' \<Longrightarrow> tqs m' = tqs m"
    unfolding HandleLowPower_def by (erule fold_res_frame) (rule l)
qed

lemma send_head_tqs [tqs_frame]: "send_head ch m q r rs = Inr m' \<Longrightarrow> tqs m' = tqs m"
  by (auto simp: send_head_def Let_def elim!: bind_res_elim split: if_splits dest!: event_tqs refresh_tqs(2))

lemma cycle_queues_tqs [tqs_frame]: "cycle_queues ch xs m = Inr m' \<Longrightarrow> tqs m' = tqs m"
  by (induction xs) (auto simp: Let_def split: list.splits if_splits dest!: send_head_tqs)

lemma cycle_tqs [tqs_frame]:
  "CycleCommandQueues ch m = Inr m' \<Longrightarrow> tqs m' = tqs m" "cycle_wakeup ks m = Inr m' \<Longrightarrow> tqs m' = tqs m"
  "MemoryController_Cycle ch m steps = Inr m' \<Longrightarrow> tqs m' = tqs m"
proof -
  show "CycleCommandQueues ch m = Inr m' \<Longrightarrow> tqs m' = tqs m"
    by (auto simp: CycleCommandQueues_def elim!: bind_res_elim split: if_splits dest!: power_tqs(4) wakes_tqs(2) cycle_queues_tqs)
  show w: "cycle_wakeup ks m = Inr m' \<Longrightarrow> tqs m' = tqs m" for ks
    by (induction ks) (auto elim!: bind_res_elim split: if_splits dest!: event_tqs(2))
  show "MemoryController_Cycle ch m steps = Inr m' \<Longrightarrow> tqs m' = tqs m"
    by (auto simp: MemoryController_Cycle_def elim!: bind_res_elim split: if_splits dest!: w)
qed

lemma callback_tqs [tqs_frame]:
  "ProcessRefreshPulse m r = Inr m' \<Longrightarrow> tqs m' = tqs m" "CommandQueueCallback ch m = Inr m' \<Longrightarrow> tqs m' = tqs m"
  "RefreshCallback ch m r = Inr m' \<Longrightarrow> tqs m' = tqs m"
proof -
  show p: "ProcessRefreshPulse m r = Inr m' \<Longrightarrow> tqs m' = tqs m" for m m' :: "'a MemoryController" and r
    by (auto simp: ProcessRefreshPulse_def IncrementRefreshCounter_def SetRefresh_def Let_def elim!: bind_res_elim split: if_splits
        dest!: event_tqs(1) refresh_tqs(1,3))
  show "CommandQueueCallback ch m = Inr m' \<Longrightarrow> tqs m' = tqs m"
    by (auto simp: CommandQueueCallback_def Let_def elim!: bind_res_elim split: if_splits dest!: event_tqs(1) wakes_tqs(3) cycle_tqs(1))
  show "RefreshCallback ch m r = Inr m' \<Longrightarrow> tqs m' = tqs m"
    by (auto simp: RefreshCallback_def Let_def elim!: bind_res_elim split: if_splits dest!: p wakes_tqs(2))
qed

lemma enqueue_wake_tqs [tqs_frame]: "enqueue_wake m a = Inr m' \<Longrightarrow> tqs m' = tqs m"
  by (auto simp: enqueue_wake_def elim!: bind_res_elim split: if_splits dest!: event_tqs(2))

lemma Enqueue_tqs:
  assumes "Enqueue g m i r = Inr m'"
  shows "i < length (tqs m) \<and> (\<exists>x. tqs m' = (tqs m)[i := tqs m ! i @ [x]])"
proof -
  obtain x where "i < length (tqs m)" "tqs m' = (tqs m)[i := tqs m ! i @ [x]]"
    using assms by (auto simp: Enqueue_def Let_def elim!: bind_res_elim split: if_splits dest!: enqueue_wake_tqs)
  then show ?thesis by blast
qed

lemma Prequeue_tqs: "Prequeue m i r = Inr m' \<Longrightarrow> i < length (tqs m) \<and> tqs m' = (tqs m)[i := r # tqs m ! i]"
  by (auto simp: Prequeue_def split: if_splits)


section \<open>Scheduling one queue\<close>

text \<open>Two transaction queues of well-formed reads and writes.\<close>

definition wqf_ok :: "'c FRFCFS_WQF \<Rightarrow> bool" where
  "wqf_ok s \<longleftrightarrow> mc_inv (wf_mc s) \<and> RBSize (mc_p (wf_mc s)) \<noteq> 0 \<and> length (tqs (wf_mc s)) = 2
     \<and> (\<forall>r \<in> set (readQueue s) \<union> set (writeQueue s). request_ok (wf_mc s) r)"

lemma tqs_update:
  "GetCommandQueueId (m\<lparr> transactionQueues := t \<rparr>) = GetCommandQueueId m" "commandQueues (m\<lparr> transactionQueues := t \<rparr>) = commandQueues m"
  "activateQueued (m\<lparr> transactionQueues := t \<rparr>) = activateQueued m" "mc_p (m\<lparr> transactionQueues := t \<rparr>) = mc_p m"
  "mc_inv (m\<lparr> transactionQueues := t \<rparr>) = mc_inv m" "addr_ok (m\<lparr> transactionQueues := t \<rparr>) = addr_ok m"
proof -
  let ?m = "m\<lparr> transactionQueues := t \<rparr>"
  have f: "static ?m = static m" "bank_state ?m = bank_state m" by (simp_all add: static_def bank_state_def)
  show "mc_inv ?m = mc_inv m" using mc_ok_static [OF f(1)] bank_inv_frame [OF f] by (simp add: mc_inv_def)
  show "addr_ok ?m = addr_ok m" using addr_ok_static [OF f(1)] by blast
qed (simp_all add: GetCommandQueueId_def fun_eq_iff Let_def split: QueueModel.splits)

lemma pick_total:
  assumes "mc_ok m" "RBSize (mc_p m) \<noteq> 0" "\<forall>r \<in> set q. request_ok m r"
  shows "\<exists>x. pick_request ch m q = Inr x \<and> (\<forall>k z. x = Some (k, z) \<longrightarrow> taken m q z)"
proof -
  obtain x1 where x1: "FindStarvedRequest m DummyPredicate q = Inr x1" "\<forall>z. x1 = Some z \<longrightarrow> taken m q z"
    using starved_finder.found_taken [OF assms] by blast
  obtain x2 where x2: "FindRowBufferHit m DummyPredicate q = Inr x2" "\<forall>z. x2 = Some z \<longrightarrow> taken m q z"
    using hit_finder.found_taken [OF assms] by blast
  obtain x3 where x3: "FindCachedAddress ch m DummyPredicate q = Inr x3" "\<forall>z. x3 = Some z \<longrightarrow> taken m q z"
    using FindCachedAddress_taken [OF assms(1,3)] by blast
  obtain x5 where x5: "FindOldestReadyRequest m DummyPredicate q = Inr x5" "\<forall>z. x5 = Some z \<longrightarrow> taken m q z"
    using oldest_finder.found_taken [OF assms] by blast
  obtain x6 where x6: "FindClosedBankRequest m DummyPredicate q = Inr x6" "\<forall>z. x6 = Some z \<longrightarrow> taken m q z"
    using closed_finder.found_taken [OF assms] by blast
  show ?thesis
    using x1(2) x2(2) x3(2) x5(2) x6(2)
    by (cases x1; cases x2; cases x3; cases x5; cases x6) (auto simp: pick_request_def x1(1) x2(1) x3(1) x5(1) x6(1))
qed

lemma count_picked [simp]:
  "wf_mc (count_picked_write k s) = wf_mc s" "m_draining (count_picked_write k s) = m_draining s" "force_drain (count_picked_write k s) = force_drain s"
  "wf_mc (count_picked_read k s) = wf_mc s" "m_draining (count_picked_read k s) = m_draining s" "force_drain (count_picked_read k s) = force_drain s"
  by (cases k; simp add: count_picked_write_def count_picked_read_def Let_def)+

definition queue_no :: "'c FRFCFS_WQF \<Rightarrow> nat" where
  "queue_no s = (if writes_only s then 1 else 0)"

text \<open>What the scheduler does, as one case.\<close>

lemma schedule_cases:
  "FRFCFS_WQF_schedule ch s =
     bind_res (pick_request ch (wf_mc s) (tqs (wf_mc s) ! queue_no s)) (\<lambda>x. Inr (case x of
       None \<Rightarrow> (s, None)
     | Some (k, r, q) \<Rightarrow> ((if writes_only s then count_picked_write k else count_picked_read k) (set_queue (queue_no s) q s), Some r)))"
  by (cases "writes_only s")
    (auto simp: FRFCFS_WQF_schedule_def queue_no_def readQueue_def writeQueue_def intro!: arg_cong [where f = "bind_res _"] ext split: option.split)

lemma forced_fields [simp]:
  "rq_id (forced_request s r) = rq_id r" "rq_address (forced_request s r) = rq_address r" "rq_type (forced_request s r) = rq_type r"
  by (simp_all add: forced_request_def add_flag_def)

text \<open>C12: one queue at a time, and no request lost. The scheduler with a write queue ends without an error. While writes
  are drained, it looks at the write queue only, otherwise at the read queue only; the other queue stays as it is. When
  it picks a request it takes exactly that one out, the others keep their order, and \<^verbatim>\<open>IssueMemoryCommands\<close> always
  accepts it, marked as not to be cancelled during a drain: the last command of its command queue is then its access.\<close>

theorem WQF_schedules_one_queue:
  assumes "wqf_ok s" "UsePrecharge (mc_p (wf_mc s))"
    and "ClosePage (mc_p (wf_mc s)) = 2 \<Longrightarrow> \<forall>rank bank. \<not> activateQueued (wf_mc s) rank bank"
  shows "\<exists>s' x. FRFCFS_WQF_schedule ch s = Inr (s', x) \<and> (case x of None \<Rightarrow> s' = s
    | Some r \<Rightarrow> \<exists>xs y ys q m1 sch m'.
        (if writes_only s then writeQueue s = xs @ y # ys \<and> writeQueue s' = xs @ ys \<and> readQueue s' = readQueue s
         else readQueue s = xs @ y # ys \<and> readQueue s' = xs @ ys \<and> writeQueue s' = writeQueue s)
        \<and> rq_id r = rq_id y \<and> GetCommandQueueId (wf_mc s) (rq_address y) = Inr q
        \<and> issue_commands ch (wf_mc s') (forced_request s' r) = Inr (m1, True, sch) \<and> commandQueues m1 q \<noteq> []
        \<and> rq_id (last (commandQueues m1 q)) = rq_id y
        \<and> IssueMemoryCommands ch (wf_mc s') (forced_request s' r) = Inr (m', True) \<and> mc_inv m')"
proof -
  let ?m = "wf_mc s" and ?i = "queue_no s"
  have ok: "mc_ok ?m" "RBSize (mc_p ?m) \<noteq> 0" "\<forall>r \<in> set (tqs ?m ! ?i). request_ok ?m r"
    using assms(1) by (auto simp: wqf_ok_def mc_inv_def queue_no_def readQueue_def writeQueue_def)
  obtain x where x: "pick_request ch ?m (tqs ?m ! ?i) = Inr x" "\<forall>k z. x = Some (k, z) \<longrightarrow> taken ?m (tqs ?m ! ?i) z"
    using pick_total [OF ok] by blast
  show ?thesis
  proof (cases x)
    case None
    then show ?thesis using x(1) by (simp add: schedule_cases)
  next
    case (Some p)
    then obtain k r q' where p: "x = Some (k, r, q')" by (cases p) auto
    define s' where "s' = (if writes_only s then count_picked_write k else count_picked_read k) (set_queue ?i q' s)"
    have sch: "FRFCFS_WQF_schedule ch s = Inr (s', Some r)" by (simp add: schedule_cases x(1) p s'_def)
    have mc: "wf_mc s' = ?m\<lparr> transactionQueues := (tqs ?m)[?i := q'] \<rparr>" by (simp add: s'_def set_queue_def)
    obtain xs y ys where y: "tqs ?m ! ?i = xs @ y # ys" "q' = xs @ ys" "queue_free ?m r" "rq_id r = rq_id y"
      "rq_address r = rq_address y" "rq_type r = rq_type y" using taken_request [of ?m "tqs ?m ! ?i" r q'] x(2) p by blast
    have len: "length (tqs ?m) = 2" using assms(1) by (simp add: wqf_ok_def)
    have queues: "if writes_only s then writeQueue s = xs @ y # ys \<and> writeQueue s' = xs @ ys \<and> readQueue s' = readQueue s
         else readQueue s = xs @ y # ys \<and> readQueue s' = xs @ ys \<and> writeQueue s' = writeQueue s"
      using y(1,2) len by (cases "writes_only s") (simp_all add: mc queue_no_def readQueue_def writeQueue_def)
    obtain q where q: "GetCommandQueueId ?m (rq_address y) = Inr q" "commandQueues ?m q = []"
      using y(3,5) by (auto simp: queue_free_def split: sum.splits)
    have req: "request_ok ?m y" using ok(3) y(1) by simp
    obtain m1 sc where m1: "issue_commands ch (wf_mc s') (forced_request s' r) = Inr (m1, True, sc)" "mc_inv m1" "commandQueues m1 q \<noteq> []"
      "rq_id (last (commandQueues m1 q)) = rq_id r"
      using issue_commands_accepts [of "wf_mc s'" "forced_request s' r" q ch] assms q req y(5,6)
      by (auto simp: mc tqs_update wqf_ok_def request_ok_def)
    obtain m' where "ScheduleCommandWake ch m1 = Inr m'" "mc_inv m'"
      using ScheduleCommandWake_total [OF m1(2)] keeps_inv m1(2) by blast
    then obtain m' where m': "IssueMemoryCommands ch (wf_mc s') (forced_request s' r) = Inr (m', True)" "mc_inv m'"
      using m1(1,2) by (cases sc) (auto simp: IssueMemoryCommands_def)
    have id: "rq_id (last (commandQueues m1 q)) = rq_id y" using m1(4) y(4) by simp
    show ?thesis
      by (intro exI [of _ s'] exI [of _ "Some r"] conjI sch, unfold option.case)
        (intro exI [of _ xs] exI [of _ y] exI [of _ ys] exI [of _ q] exI [of _ m1] exI [of _ sc] exI [of _ m'] conjI queues y(4) q(1) m1(1,3) id m')
  qed
qed

section \<open>Draining on demand\<close>

text \<open>Steps of the controller; everything else leaves the transaction queues alone, as the callbacks do.\<close>

inductive wqf_step :: "'c child \<Rightarrow> 'c FRFCFS_WQF \<Rightarrow> 'c FRFCFS_WQF \<Rightarrow> bool" for ch where
  cycle: "FRFCFS_WQF_Cycle ch s n = Inr s' \<Longrightarrow> wqf_step ch s s'"
| issue: "FRFCFS_WQF_IssueCommand g s r = Inr (s', k) \<Longrightarrow> wqf_step ch s s'"
| complete: "FRFCFS_WQF_RequestComplete s r = Inr (s', up) \<Longrightarrow> wqf_step ch s s'"
| drain: "FRFCFS_WQF_Drain s = (s', k) \<Longrightarrow> wqf_step ch s s'"
| outside: "tqs m = tqs (wf_mc s) \<Longrightarrow> wqf_step ch s (s\<lparr> wf_mc := m \<rparr>)"

lemma callbacks_outside:
  "CommandQueueCallback ch (wf_mc s) = Inr m \<Longrightarrow> wqf_step ch s (s\<lparr> wf_mc := m \<rparr>)"
  "RefreshCallback ch (wf_mc s) r = Inr m \<Longrightarrow> wqf_step ch s (s\<lparr> wf_mc := m \<rparr>)" "wqf_step ch s (s\<lparr> wf_mc := CleanupCallback (wf_mc s) \<rparr>)"
  by (auto intro: wqf_step.outside callback_tqs)

lemma schedule_stuck:
  assumes "FRFCFS_WQF_schedule ch s = Inr (s', x)" "m_draining s" "force_drain s"
  shows "m_draining s' \<and> force_drain s' \<and> readQueue s' = readQueue s \<and> length (tqs (wf_mc s')) = length (tqs (wf_mc s))"
  using assms by (auto simp: schedule_cases writes_only_def queue_no_def set_queue_def readQueue_def elim!: bind_res_elim split: option.splits)

lemma cycle_stuck:
  assumes "FRFCFS_WQF_Cycle ch s n = Inr t" "m_draining s" "force_drain s"
  shows "m_draining t \<and> force_drain t \<and> readQueue t = readQueue s \<and> length (tqs (wf_mc t)) = length (tqs (wf_mc s))"
proof -
  have "switch_drain s = s" using assms(2,3) by (simp add: switch_drain_def)
  then obtain s' x m m1 m2 where s': "FRFCFS_WQF_schedule ch s = Inr (s', x)"
    and m: "(case x of None \<Rightarrow> Inr (wf_mc s') | Some r \<Rightarrow> bind_res (IssueMemoryCommands ch (wf_mc s') (forced_request s' r)) (\<lambda>(m, _). Inr m)) = Inr m"
    and m1: "CycleCommandQueues ch m = Inr m1" "MemoryController_Cycle ch m1 n = Inr m2" "t = s'\<lparr> wf_mc := m2 \<rparr>"
    using assms(1) by (auto simp: FRFCFS_WQF_Cycle_def elim!: bind_res_elim)
  have "tqs m = tqs (wf_mc s')" using m by (auto simp: bind_res_eq_Inr split: option.splits dest!: IssueMemoryCommands_tqs)
  then have "tqs (wf_mc t) = tqs (wf_mc s')" using cycle_tqs(1) [OF m1(1)] cycle_tqs(3) [OF m1(2)] m1(3) by simp
  then show ?thesis using schedule_stuck [OF s' assms(2,3)] m1(3) by (simp add: readQueue_def)
qed

definition grown :: "'c FRFCFS_WQF \<Rightarrow> 'c FRFCFS_WQF \<Rightarrow> bool" where
  "grown s t \<longleftrightarrow> m_draining t \<and> force_drain t \<and> length (tqs (wf_mc t)) = 2 \<and> (\<exists>new. readQueue t = readQueue s @ new)"

lemma step_stuck:
  assumes "wqf_step ch s t" "m_draining s" "force_drain s" "length (tqs (wf_mc s)) = 2"
  shows "grown s t"
  using assms(1)
proof cases
  case (cycle n)
  then show ?thesis using cycle_stuck [OF cycle assms(2,3)] assms(4) by (simp add: grown_def)
next
  case (issue g r k)
  then show ?thesis using assms(2-4)
    by (auto simp: FRFCFS_WQF_IssueCommand_def FRFCFS_WQF_IsIssuable_def grown_def readQueue_def Let_def elim!: bind_res_elim
        split: if_splits dest!: Enqueue_tqs)
next
  case (complete r up)
  then show ?thesis using assms(2-4)
    by (auto simp: FRFCFS_WQF_RequestComplete_def grown_def readQueue_def Let_def elim!: bind_res_elim split: if_splits dest!: Prequeue_tqs)
next
  case (drain k)
  then show ?thesis using assms(2-4) by (auto simp: FRFCFS_WQF_Drain_def grown_def readQueue_def)
next
  case (outside m)
  then show ?thesis using assms(2-4) by (simp add: grown_def readQueue_def)
qed

text \<open>C13: a drain on demand in the middle of a write drain is never over. From then on, whatever the controller is asked
  to do, it stays in the drain, refuses every write, and never takes a read out of the read queue: the queued reads
  stay at its head for ever.\<close>

theorem drain_in_drain_starves_reads:
  assumes "m_draining s" "length (tqs (wf_mc s)) = 2" "(wqf_step ch)\<^sup>*\<^sup>* (fst (FRFCFS_WQF_Drain s)) t"
  shows "m_draining t \<and> force_drain t \<and> (\<exists>new. readQueue t = readQueue s @ new)
    \<and> FRFCFS_WQF_IssueCommand g t (r\<lparr> rq_type := WRITE \<rparr>) = Inr (t, False)"
proof -
  have "grown s t" using assms(3)
  proof (induction rule: rtranclp_induct)
    case base
    then show ?case using assms(1,2) by (simp add: grown_def FRFCFS_WQF_Drain_def readQueue_def)
  next
    case (step t u)
    then show ?case using step_stuck [OF step.hyps(2)] by (auto simp: grown_def)
  qed
  then show ?thesis by (auto simp: grown_def FRFCFS_WQF_IssueCommand_def FRFCFS_WQF_IsIssuable_def)
qed


section \<open>An example\<close>

definition wqf_example :: "unit FRFCFS_WQF" where
  "wqf_example = (FRFCFS_WQF_init example_mc)\<lparr> wf_mc := (open_row example_mc (rq_address (example_read 1 513)))
     \<lparr> transactionQueues := [[example_read 3 12], map (\<lambda>r. r\<lparr> rq_type := WRITE \<rparr>) example_queue2] \<rparr>, m_draining := True \<rparr>"

definition wqf_picks :: "unit FRFCFS_WQF \<Rightarrow> nat \<Rightarrow> bool" where
  "wqf_picks s i \<longleftrightarrow> (case FRFCFS_WQF_schedule example_child s of Inr (s', Some r) \<Rightarrow> rq_id r = i | _ \<Rightarrow> False)"

lemma wqf_example_ok: "wqf_ok wqf_example"
proof -
  let ?o = "open_row example_mc (rq_address (example_read 1 513))"
  have st: "static (wf_mc wqf_example) = static example_mc"
    by (simp add: wqf_example_def FRFCFS_WQF_init_def static_def open_row_def)
  have "bank_inv ?o" using bank_inv_open_row [OF _ example_addr] example_inv by (simp add: mc_inv_def)
  then have "bank_inv (wf_mc wqf_example)"
    using bank_inv_frame [of "wf_mc wqf_example" ?o]
    by (simp add: wqf_example_def FRFCFS_WQF_init_def static_def bank_state_def)
  moreover have "mc_ok (wf_mc wqf_example)" using mc_ok_static [OF st] example_inv by (simp add: mc_inv_def)
  moreover have "request_ok (wf_mc wqf_example) r" if "r \<in> set (readQueue wqf_example) \<union> set (writeQueue wqf_example)" for r
    using that example_addr addr_ok_static [OF st]
    by (auto simp: wqf_example_def readQueue_def writeQueue_def request_ok_def example_queue2_def example_read_def)
  ultimately show ?thesis
    by (simp add: wqf_ok_def mc_inv_def wqf_example_def FRFCFS_WQF_init_def open_row_def example_mc_def example_params_def)
qed

lemma wqf_example_writes: "writeQueue wqf_example = map (\<lambda>r. r\<lparr> rq_type := WRITE \<rparr>) example_queue2"
  "readQueue wqf_example = [example_read 3 12]" "mc_p (wf_mc wqf_example) = example_params" "writes_only wqf_example"
  by (simp_all add: wqf_example_def writeQueue_def readQueue_def writes_only_def open_row_def FRFCFS_WQF_init_def example_mc_def)

lemma wqf_example_picks: "wqf_picks wqf_example 2"
  by code_simp

theorem WQF_schedules_one_queue_witness:
  "\<exists>s' r m'. FRFCFS_WQF_schedule example_child wqf_example = Inr (s', Some r) \<and> readQueue s' = [example_read 3 12]
     \<and> length (writeQueue s') = 1 \<and> IssueMemoryCommands example_child (wf_mc s') (forced_request s' r) = Inr (m', True) \<and> mc_inv m'"
proof -
  let ?s = wqf_example
  obtain s' x where sx: "FRFCFS_WQF_schedule example_child ?s = Inr (s', x)" and c: "case x of None \<Rightarrow> s' = ?s
    | Some r \<Rightarrow> \<exists>xs y ys q m1 sch m'.
        (if writes_only ?s then writeQueue ?s = xs @ y # ys \<and> writeQueue s' = xs @ ys \<and> readQueue s' = readQueue ?s
         else readQueue ?s = xs @ y # ys \<and> readQueue s' = xs @ ys \<and> writeQueue s' = writeQueue ?s)
        \<and> rq_id r = rq_id y \<and> GetCommandQueueId (wf_mc ?s) (rq_address y) = Inr q
        \<and> issue_commands example_child (wf_mc s') (forced_request s' r) = Inr (m1, True, sch) \<and> commandQueues m1 q \<noteq> []
        \<and> rq_id (last (commandQueues m1 q)) = rq_id y
        \<and> IssueMemoryCommands example_child (wf_mc s') (forced_request s' r) = Inr (m', True) \<and> mc_inv m'"
    using WQF_schedules_one_queue [OF wqf_example_ok, of example_child] by (auto simp: wqf_example_writes example_params_def)
  obtain r where r: "x = Some r" using wqf_example_picks sx by (auto simp: wqf_picks_def split: option.splits)
  have len: "length (writeQueue ?s) = 2" by (simp add: wqf_example_writes example_queue2_def)
  obtain xs y ys m' where "writeQueue ?s = xs @ y # ys" "writeQueue s' = xs @ ys" "readQueue s' = [example_read 3 12]"
    "IssueMemoryCommands example_child (wf_mc s') (forced_request s' r) = Inr (m', True)" "mc_inv m'"
    using c by (auto simp: r wqf_example_writes(2,4))
  then show ?thesis using sx r len by auto
qed

lemma wqf_example_cycles: "\<not> isl (FRFCFS_WQF_Cycle example_child (fst (FRFCFS_WQF_Drain wqf_example)) 1)"
  by code_simp

theorem drain_in_drain_starves_reads_witness:
  "\<exists>t new. FRFCFS_WQF_Cycle example_child (fst (FRFCFS_WQF_Drain wqf_example)) 1 = Inr t
     \<and> m_draining t \<and> readQueue t = example_read 3 12 # new
     \<and> FRFCFS_WQF_IssueCommand (\<lambda>_. 7) t ((example_read 4 12)\<lparr> rq_type := WRITE \<rparr>) = Inr (t, False)"
proof -
  obtain t where t: "FRFCFS_WQF_Cycle example_child (fst (FRFCFS_WQF_Drain wqf_example)) 1 = Inr t"
    using wqf_example_cycles by (cases "FRFCFS_WQF_Cycle example_child (fst (FRFCFS_WQF_Drain wqf_example)) 1") auto
  have "(wqf_step example_child)\<^sup>*\<^sup>* (fst (FRFCFS_WQF_Drain wqf_example)) t" using wqf_step.cycle [OF t] by blast
  moreover have "m_draining wqf_example" "length (tqs (wf_mc wqf_example)) = 2" by (simp_all add: wqf_example_def)
  ultimately show ?thesis
    using drain_in_drain_starves_reads [of wqf_example example_child t "\<lambda>_. 7" "example_read 4 12"] t
    by (auto simp: wqf_example_writes(2))
qed


end
