(* ===== verification/Nvm_Prefetch.thy ===== *)
theory Nvm_Prefetch
  imports Nvm_Request
begin

text \<open>
  The prefetchers \<^verbatim>\<open>src/Prefetcher.cpp\<close> (none), \<^verbatim>\<open>Prefetchers/NaivePrefetcher\<close> (the next three lines) and
  \<^verbatim>\<open>Prefetchers/STeMS\<close>, which learns sequences of offsets by program counter.

  A prefetcher is a record of its two virtual functions; the list of addresses they append to is an argument and a
  result. The three maps of \<^verbatim>\<open>STeMS\<close> own their sequences (a sequence leaves the \<^verbatim>\<open>AGT\<close> when it enters the \<^verbatim>\<open>PST\<close>,
  and the reconstruction buffers hold copies), so they hold them as values.
\<close>

section \<open>The interface\<close>

record 'p prefetcher =
  pf_NotifyAccess :: "'p \<Rightarrow> NVMainRequest \<Rightarrow> NVMAddress list \<Rightarrow> nvm_error + 'p \<times> NVMAddress list \<times> bool"
  pf_DoPrefetch :: "'p \<Rightarrow> NVMainRequest \<Rightarrow> NVMAddress list \<Rightarrow> nvm_error + 'p \<times> NVMAddress list \<times> bool"

definition Prefetcher_NotifyAccess :: "'p \<Rightarrow> NVMainRequest \<Rightarrow> NVMAddress list \<Rightarrow> nvm_error + 'p \<times> NVMAddress list \<times> bool" where
  "Prefetcher_NotifyAccess s accessOp prefetchList = Inr (s, prefetchList, False)"

definition Prefetcher_DoPrefetch :: "'p \<Rightarrow> NVMainRequest \<Rightarrow> NVMAddress list \<Rightarrow> nvm_error + 'p \<times> NVMAddress list \<times> bool" where
  "Prefetcher_DoPrefetch s triggerOp prefetchList = Inr (s, prefetchList, False)"

section \<open>NaivePrefetcher\<close>

text \<open>The loop body for \<open>i\<close> = 1, 2, 3. The address keeps the translation of the trigger.\<close>

definition next_line :: "NVMAddress \<Rightarrow> u64 \<Rightarrow> NVMAddress" where
  "next_line a i = SetPhysicalAddress a (physicalAddress a + 64 * i)"

definition Naive_DoPrefetch :: "'p \<Rightarrow> NVMainRequest \<Rightarrow> NVMAddress list \<Rightarrow> nvm_error + 'p \<times> NVMAddress list \<times> bool" where
  "Naive_DoPrefetch s triggerOp prefetchList =
     Inr (s, prefetchList @ map (next_line (rq_address triggerOp)) [1, 2, 3], True)"

definition naive :: "'p prefetcher" where
  "naive = \<lparr> pf_NotifyAccess = Prefetcher_NotifyAccess, pf_DoPrefetch = Naive_DoPrefetch \<rparr>"

section \<open>STeMS\<close>

text \<open>The arrays have 16 elements; \<open>OutOfBounds\<close> is an access past them.\<close>

record PatternSequence =
  ps_size :: u64
  ps_address :: u64
  ps_offset :: "u64 list"
  ps_delta :: "u64 list"
  ps_fetched :: "bool list"
  ps_used :: "bool list"
  useCount :: u64
  startedPrefetch :: bool

record STeMS =
  PST :: "(u64 \<times> PatternSequence) list"
  AGT :: "(u64 \<times> PatternSequence) list"
  ReconBuf :: "(u64 \<times> PatternSequence) list"

definition STeMS_init :: STeMS where
  "STeMS_init = \<lparr> PST = [], AGT = [], ReconBuf = [] \<rparr>"

definition array_get :: "'a list \<Rightarrow> u64 \<Rightarrow> nvm_error + 'a" where
  "array_get xs i = (if unat i < length xs then Inr (xs ! unat i) else Inl OutOfBounds)"

definition array_set :: "'a list \<Rightarrow> u64 \<Rightarrow> 'a \<Rightarrow> nvm_error + 'a list" where
  "array_set xs i x = (if unat i < length xs then Inr (xs[unat i := x]) else Inl OutOfBounds)"

definition positions :: "PatternSequence \<Rightarrow> u64 list" where
  "positions p = map of_nat [0..<unat (ps_size p)]"

subsection \<open>FetchNextUnused\<close>

text \<open>
  The window of the last \<open>n\<close> unused offsets, from the end of the sequence; \<open>None\<close> is an entry not found. The loop
  runs over the positions from the last one down and stops at a fetched one.
\<close>

fun last_unused :: "PatternSequence \<Rightarrow> u64 list \<Rightarrow> u64 option list \<Rightarrow> nvm_error + u64 option list" where
  "last_unused p [] window = Inr window"
| "last_unused p (i # is) window =
     bind_res (array_get (ps_fetched p) i) (\<lambda>fetched.
     if fetched then Inr window
     else bind_res (array_get (ps_offset p) i) (\<lambda>off. last_unused p is (tl window @ [Some off])))"

definition mark_offset :: "u64 \<Rightarrow> u64 \<Rightarrow> PatternSequence \<Rightarrow> nvm_error + PatternSequence" where
  "mark_offset off j p =
     bind_res (array_get (ps_offset p) j) (\<lambda>x.
     if x = off then bind_res (array_set (ps_fetched p) j True) (\<lambda>f. Inr (p\<lparr> ps_fetched := f \<rparr>)) else Inr p)"

fun fetch_offset ::
  "u64 option \<Rightarrow> PatternSequence \<times> NVMAddress list \<Rightarrow> nvm_error + PatternSequence \<times> NVMAddress list" where
  "fetch_offset None (p, l) = Inr (p, l)"
| "fetch_offset (Some off) (p, l) =
     bind_res (fold_res (mark_offset off) (positions p) (p\<lparr> startedPrefetch := True \<rparr>)) (\<lambda>p'.
     Inr (p', l @ [SetPhysicalAddress (NVMAddress_init 0) (ps_address p + off)]))"

definition FetchNextUnused ::
  "nat \<Rightarrow> PatternSequence \<times> NVMAddress list \<Rightarrow> nvm_error + PatternSequence \<times> NVMAddress list" where
  "FetchNextUnused n = (\<lambda>(p, l).
     bind_res (last_unused p (rev (positions p)) (replicate n None)) (\<lambda>window. fold_res fetch_offset window (p, l)))"

subsection \<open>NotifyAccess\<close>

fun notify_at ::
  "u64 \<Rightarrow> u64 \<Rightarrow> PatternSequence \<times> NVMAddress list \<times> bool \<Rightarrow> nvm_error + PatternSequence \<times> NVMAddress list \<times> bool" where
  "notify_at address i (p, l, successful) =
     bind_res (array_get (ps_offset p) i) (\<lambda>off.
     bind_res (array_get (ps_fetched p) i) (\<lambda>fetched.
     bind_res (array_get (ps_used p) i) (\<lambda>used.
     if address = ps_address p + off \<and> fetched \<and> \<not> used then
       bind_res (FetchNextUnused 4 (p, l)) (\<lambda>(p, l).
       bind_res (array_set (ps_used p) i True) (\<lambda>u. Inr (p\<lparr> ps_used := u \<rparr>, l, True)))
     else Inr (p, l, successful))))"

definition count_used :: "PatternSequence \<Rightarrow> nvm_error + nat" where
  "count_used p = fold_res (\<lambda>i n. bind_res (array_get (ps_used p) i) (\<lambda>u. Inr (if u then Suc n else n))) (positions p) 0"

text \<open>
  \<^verbatim>\<open>numSuccess / size >= 0.6f\<close>, in doubles: the float \<^verbatim>\<open>0.6f\<close> is 10066330 / 2^24, a little more than 0.6, and the
  quotient of numbers up to 16 is rounded far less than its distance to it. The quotient 0 / 0 compares false.
\<close>

definition mostly_used :: "nat \<Rightarrow> u64 \<Rightarrow> bool" where
  "mostly_used n sz \<longleftrightarrow> sz \<noteq> 0 \<and> 10066330 * unat sz \<le> 16777216 * n"

definition append_offset :: "u64 \<Rightarrow> PatternSequence \<Rightarrow> nvm_error + PatternSequence" where
  "append_offset off p =
     bind_res (array_set (ps_offset p) (ps_size p) off) (\<lambda>os.
     bind_res (array_set (ps_delta p) (ps_size p) 0) (\<lambda>ds.
     Inr (p\<lparr> ps_offset := os, ps_delta := ds, ps_size := ps_size p + 1 \<rparr>)))"

definition extend_PST :: "STeMS \<Rightarrow> u64 \<Rightarrow> u64 \<Rightarrow> nvm_error + STeMS" where
  "extend_PST s pc off =
     (case map_of (PST s) pc of
        None \<Rightarrow> Inr s
      | Some p \<Rightarrow> if ps_size p < 16 then bind_res (append_offset off p) (\<lambda>p. Inr (s\<lparr> PST := omap_upd pc p (PST s) \<rparr>)) else Inr s)"

definition STeMS_NotifyAccess :: "STeMS \<Rightarrow> NVMainRequest \<Rightarrow> NVMAddress list \<Rightarrow> nvm_error + STeMS \<times> NVMAddress list \<times> bool" where
  "STeMS_NotifyAccess s accessOp prefetchList =
     (let pc = rq_programCounter accessOp; address = physicalAddress (rq_address accessOp) in
      case map_of (ReconBuf s) pc of
        None \<Rightarrow> Inr (s, prefetchList, False)
      | Some rps \<Rightarrow>
          if \<not> startedPrefetch rps then Inr (s, prefetchList, False)
          else bind_res (fold_res (notify_at address) (positions rps) (rps, prefetchList, False)) (\<lambda>(p, l, successful).
            if successful then Inr (s\<lparr> ReconBuf := omap_upd pc p (ReconBuf s) \<rparr>, l, True)
            else bind_res (count_used p) (\<lambda>n.
              bind_res (if mostly_used n (ps_size p) then extend_PST s pc (address - ps_address p) else Inr s) (\<lambda>s.
              Inr (s\<lparr> ReconBuf := omap_del pc (ReconBuf s) \<rparr>, l, False)))))"

subsection \<open>DoPrefetch\<close>

fun use_at :: "u64 \<Rightarrow> u64 \<Rightarrow> PatternSequence \<times> u64 \<Rightarrow> nvm_error + PatternSequence \<times> u64" where
  "use_at address i (p, numUsed) =
     bind_res (array_get (ps_offset p) i) (\<lambda>off.
     bind_res (if ps_address p + off = address then
         bind_res (array_set (ps_fetched p) i True) (\<lambda>f.
         bind_res (array_set (ps_used p) i True) (\<lambda>u. Inr (p\<lparr> ps_fetched := f, ps_used := u \<rparr>)))
       else Inr p) (\<lambda>p.
     bind_res (array_get (ps_used p) i) (\<lambda>used. Inr (p, if used then numUsed + 1 else numUsed))))"

text \<open>Copying a sequence into a new buffer at the address of the trigger, whose arrays held \<open>junk\<close>.\<close>

definition copy_at :: "PatternSequence \<Rightarrow> u64 \<Rightarrow> PatternSequence \<Rightarrow> nvm_error + PatternSequence" where
  "copy_at ps i rps =
     bind_res (array_get (ps_offset ps) i) (\<lambda>off. bind_res (array_set (ps_offset rps) i off) (\<lambda>os.
     bind_res (array_get (ps_delta ps) i) (\<lambda>d. bind_res (array_set (ps_delta rps) i d) (\<lambda>ds.
     bind_res (array_set (ps_used rps) i False) (\<lambda>u. bind_res (array_set (ps_fetched rps) i False) (\<lambda>f.
     Inr (rps\<lparr> ps_offset := os, ps_delta := ds, ps_used := u, ps_fetched := f \<rparr>)))))))"

definition new_recon :: "PatternSequence \<Rightarrow> PatternSequence \<Rightarrow> u64 \<Rightarrow> nvm_error + PatternSequence" where
  "new_recon junk ps address =
     bind_res (fold_res (copy_at ps) (positions ps) (junk\<lparr> ps_size := ps_size ps, ps_address := address \<rparr>)) (\<lambda>rps.
     bind_res (array_set (ps_used rps) 0 True) (\<lambda>u. bind_res (array_set (ps_fetched rps) 0 True) (\<lambda>f.
     Inr (rps\<lparr> useCount := 1, startedPrefetch := False, ps_used := u, ps_fetched := f \<rparr>))))"

definition new_AGT :: "PatternSequence \<Rightarrow> u64 \<Rightarrow> nvm_error + PatternSequence" where
  "new_AGT junk address =
     bind_res (array_set (ps_offset junk) 0 0) (\<lambda>os. bind_res (array_set (ps_delta junk) 0 0) (\<lambda>ds.
     Inr (junk\<lparr> ps_address := address, ps_size := 1, ps_offset := os, ps_delta := ds \<rparr>)))"

definition train :: "STeMS \<Rightarrow> PatternSequence \<Rightarrow> u64 \<Rightarrow> u64 \<Rightarrow> nvm_error + STeMS" where
  "train s junk pc address =
     (case map_of (AGT s) pc of
        Some ps \<Rightarrow>
          let addressDiff = (if address > ps_address ps then address - ps_address ps else ps_address ps - address)
          in if addressDiff div 64 < 256 then
               bind_res (append_offset (address - ps_address ps) ps) (\<lambda>ps.
               if ps_size ps \<ge> 8 then Inr (s\<lparr> PST := omap_upd pc ps (PST s), AGT := omap_del pc (AGT s) \<rparr>)
               else Inr (s\<lparr> AGT := omap_upd pc ps (AGT s) \<rparr>))
             else Inr s
      | None \<Rightarrow> bind_res (new_AGT junk address) (\<lambda>ps. Inr (s\<lparr> AGT := omap_upd pc ps (AGT s) \<rparr>)))"

definition STeMS_DoPrefetch ::
  "PatternSequence \<Rightarrow> STeMS \<Rightarrow> NVMainRequest \<Rightarrow> NVMAddress list \<Rightarrow> nvm_error + STeMS \<times> NVMAddress list \<times> bool" where
  "STeMS_DoPrefetch junk s triggerOp prefetchList =
     (let pc = rq_programCounter triggerOp; address = physicalAddress (rq_address triggerOp) in
      case map_of (PST s) pc of
        Some ps \<Rightarrow>
          (case map_of (ReconBuf s) pc of
             Some rps \<Rightarrow>
               bind_res (fold_res (use_at address) (positions rps) (rps, 0)) (\<lambda>(p, numUsed).
               bind_res (if numUsed \<ge> 2 then FetchNextUnused 4 (p, prefetchList) else Inr (p, prefetchList)) (\<lambda>(p, l).
               Inr (s\<lparr> ReconBuf := omap_upd pc p (ReconBuf s) \<rparr>, l, False)))
           | None \<Rightarrow> bind_res (new_recon junk ps address) (\<lambda>rps.
               Inr (s\<lparr> ReconBuf := omap_upd pc rps (ReconBuf s) \<rparr>, prefetchList, False)))
      | None \<Rightarrow> bind_res (train s junk pc address) (\<lambda>s. Inr (s, prefetchList, False)))"

text \<open>\<open>junk\<close>: what the memory of a new sequence holds.\<close>

definition stems :: "PatternSequence \<Rightarrow> STeMS prefetcher" where
  "stems junk = \<lparr> pf_NotifyAccess = STeMS_NotifyAccess, pf_DoPrefetch = STeMS_DoPrefetch junk \<rparr>"


section \<open>The arrays of a sequence\<close>

text \<open>A sequence with its four arrays of 16 elements, and one that differs in its marks only.\<close>

definition seq_ok :: "PatternSequence \<Rightarrow> bool" where
  "seq_ok p \<longleftrightarrow> unat (ps_size p) \<le> 16 \<and> length (ps_offset p) = 16 \<and> length (ps_delta p) = 16 \<and> length (ps_fetched p) = 16 \<and> length (ps_used p) = 16"

definition like :: "PatternSequence \<Rightarrow> PatternSequence \<Rightarrow> bool" where
  "like p q \<longleftrightarrow> seq_ok q \<and> ps_size q = ps_size p \<and> ps_address q = ps_address p"

definition stems_ok :: "STeMS \<Rightarrow> bool" where
  "stems_ok s \<longleftrightarrow> omap_wf (PST s) \<and> omap_wf (AGT s) \<and> omap_wf (ReconBuf s)
     \<and> (\<forall>k p. map_of (PST s) k = Some p \<longrightarrow> seq_ok p \<and> 8 \<le> ps_size p)
     \<and> (\<forall>k p. map_of (AGT s) k = Some p \<longrightarrow> seq_ok p \<and> 1 \<le> ps_size p \<and> ps_size p < 8)
     \<and> (\<forall>k p. map_of (ReconBuf s) k = Some p \<longrightarrow> seq_ok p \<and> 8 \<le> ps_size p)"

lemma array_total:
  assumes "unat i < length xs"
  shows "array_get xs i = Inr (xs ! unat i)" "array_set xs i x = Inr (xs[unat i := x])"
  using assms by (simp_all add: array_get_def array_set_def)

lemma position_in: "seq_ok p \<Longrightarrow> i \<in> set (positions p) \<Longrightarrow> unat i < 16 \<and> unat i < unat (ps_size p)"
  by (auto simp: positions_def seq_ok_def unat_of_nat_small)

lemma last_unused_total:
  assumes "seq_ok p" "\<And>i. i \<in> set is \<Longrightarrow> unat i < 16"
  shows "\<exists>w. last_unused p is window = Inr w"
  using assms
proof (induction "is" arbitrary: window)
  case (Cons i "is")
  then have "unat i < 16" by simp
  then show ?case using Cons by (auto simp: array_total seq_ok_def)
qed simp

lemma like_refl: "seq_ok p \<Longrightarrow> like p p"
  by (simp add: like_def)

lemma mark_total:
  assumes "seq_ok p"
  shows "\<exists>q. fold_res (mark_offset off) (positions p) (p\<lparr> startedPrefetch := True \<rparr>) = Inr q \<and> like p q"
proof (rule fold_res_inv)
  show "like p (p\<lparr> startedPrefetch := True \<rparr>)" using assms by (simp add: like_def seq_ok_def)
  fix i q
  assume "i \<in> set (positions p)" "like p q"
  then have "unat i < 16" "seq_ok q" using position_in [OF assms] by (auto simp: like_def)
  then show "\<exists>q'. mark_offset off i q = Inr q' \<and> like p q'"
    using \<open>like p q\<close> by (auto simp: mark_offset_def array_total seq_ok_def like_def)
qed

lemma fetch_total:
  assumes "seq_ok p"
  shows "\<exists>q l'. FetchNextUnused n (p, l) = Inr (q, l') \<and> like p q"
proof -
  obtain w where w: "last_unused p (rev (positions p)) (replicate n None) = Inr w"
    using last_unused_total [OF assms, of "rev (positions p)"] position_in [OF assms] by force
  have "\<exists>t. fold_res fetch_offset w (p, l) = Inr t \<and> like p (fst t)"
  proof (rule fold_res_inv)
    show "like p (fst (p, l))" using assms by (simp add: like_refl)
    fix x and t :: "PatternSequence \<times> NVMAddress list"
    assume t: "like p (fst t)"
    obtain q l where q: "t = (q, l)" by (cases t)
    show "\<exists>t'. fetch_offset x t = Inr t' \<and> like p (fst t')"
    proof (cases x)
      case (Some off)
      obtain q' where "fold_res (mark_offset off) (positions q) (q\<lparr> startedPrefetch := True \<rparr>) = Inr q'" "like q q'"
        using mark_total [of q off] t q by (auto simp: like_def)
      then show ?thesis using t by (auto simp: Some q like_def)
    qed (use t q in auto)
  qed
  then show ?thesis using w by (auto simp: FetchNextUnused_def)
qed

lemma notify_total:
  assumes "seq_ok p"
  shows "\<exists>q l' ok. fold_res (notify_at address) (positions p) (p, l, ok0) = Inr (q, l', ok) \<and> like p q"
proof -
  have "\<exists>t. fold_res (notify_at address) (positions p) (p, l, ok0) = Inr t \<and> like p (fst t)"
  proof (rule fold_res_inv)
    show "like p (fst (p, l, ok0))" using assms by (simp add: like_refl)
    fix i and t :: "PatternSequence \<times> NVMAddress list \<times> bool"
    assume i: "i \<in> set (positions p)" and t: "like p (fst t)"
    obtain q l ok where q: "t = (q, l, ok)" by (cases t) auto
    have s: "seq_ok q" "unat i < 16" using t q position_in [OF assms i] by (auto simp: like_def)
    obtain q' l' where f: "FetchNextUnused 4 (q, l) = Inr (q', l')" "like q q'" using fetch_total [OF s(1)] by blast
    have "length (ps_used q') = 16" using f(2) by (simp add: like_def seq_ok_def)
    then have "\<exists>t'. notify_at address i (q, l, ok) = Inr t' \<and> like p (fst t')"
      using s t q f by (auto simp: array_total seq_ok_def like_def)
    then show "\<exists>t'. notify_at address i t = Inr t' \<and> like p (fst t')" by (simp only: q)
  qed
  then show ?thesis by auto
qed

lemma count_used_total: "seq_ok p \<Longrightarrow> \<exists>n. count_used p = Inr n"
  using fold_res_inv [of "\<lambda>_. True" 0 "positions p" "\<lambda>i n. bind_res (array_get (ps_used p) i) (\<lambda>u. Inr (if u then Suc n else n))"]
    position_in [of p] by (auto simp: count_used_def array_total seq_ok_def)

lemma append_total:
  assumes "seq_ok p" "ps_size p < 16"
  shows "\<exists>q. append_offset off p = Inr q \<and> seq_ok q \<and> ps_size q = ps_size p + 1 \<and> unat (ps_size q) = unat (ps_size p) + 1"
proof -
  have "unat (ps_size p) < 16" using assms(2) by (simp add: word_less_nat_alt)
  moreover from this have "unat (ps_size p + 1) = unat (ps_size p) + 1" by (simp add: unat_word_ariths)
  ultimately show ?thesis using assms(1) by (auto simp: append_offset_def array_total seq_ok_def)
qed

text \<open>The three maps after an operation on one key.\<close>

lemma stems_ok_upd:
  assumes "stems_ok s"
  shows "seq_ok p \<Longrightarrow> 8 \<le> ps_size p \<Longrightarrow> stems_ok (s\<lparr> PST := omap_upd k p (PST s) \<rparr>)"
    "seq_ok p \<Longrightarrow> 1 \<le> ps_size p \<Longrightarrow> ps_size p < 8 \<Longrightarrow> stems_ok (s\<lparr> AGT := omap_upd k p (AGT s) \<rparr>)"
    "seq_ok p \<Longrightarrow> 8 \<le> ps_size p \<Longrightarrow> stems_ok (s\<lparr> ReconBuf := omap_upd k p (ReconBuf s) \<rparr>)"
    "stems_ok (s\<lparr> ReconBuf := omap_del k (ReconBuf s) \<rparr>)" "stems_ok (s\<lparr> AGT := omap_del k (AGT s) \<rparr>)"
  using assms by (auto simp: stems_ok_def omap_wf_upd omap_wf_del map_of_omap_upd map_of_omap_del)

lemma NotifyAccess_total:
  assumes "stems_ok s"
  shows "\<exists>s' l' ok. STeMS_NotifyAccess s x l = Inr (s', l', ok) \<and> stems_ok s'"
proof (cases "map_of (ReconBuf s) (rq_programCounter x)")
  case None
  then show ?thesis using assms by (auto simp: STeMS_NotifyAccess_def Let_def)
next
  case (Some p)
  let ?a = "physicalAddress (rq_address x)" and ?pc = "rq_programCounter x"
  have p: "seq_ok p" "8 \<le> ps_size p" using assms Some by (auto simp: stems_ok_def)
  obtain q l' ok where q: "fold_res (notify_at ?a) (positions p) (p, l, False) = Inr (q, l', ok)" "like p q"
    using notify_total [OF p(1)] by blast
  have lq: "seq_ok q" "8 \<le> ps_size q" using q(2) p(2) by (auto simp: like_def)
  obtain n where n: "count_used q = Inr n" using count_used_total [OF lq(1)] by blast
  have "\<exists>t. extend_PST s ?pc (?a - ps_address q) = Inr t \<and> stems_ok t"
  proof (cases "map_of (PST s) ?pc")
    case (Some r)
    then have r: "seq_ok r" "8 \<le> ps_size r" using assms by (auto simp: stems_ok_def)
    show ?thesis
    proof (cases "ps_size r < 16")
      case True
      obtain r' where "append_offset (?a - ps_address q) r = Inr r'" "seq_ok r'" "unat (ps_size r') = unat (ps_size r) + 1"
        using append_total [OF r(1) True] by blast
      then show ?thesis using stems_ok_upd(1) [OF assms] r(2) True by (simp add: extend_PST_def Some word_le_nat_alt)
    qed (use Some assms in \<open>simp add: extend_PST_def\<close>)
  qed (use assms in \<open>simp add: extend_PST_def\<close>)
  then obtain t where t: "(if mostly_used n (ps_size q) then extend_PST s ?pc (?a - ps_address q) else Inr s) = Inr t" "stems_ok t"
    using assms by (cases "mostly_used n (ps_size q)") auto
  show ?thesis
    using assms t n stems_ok_upd(3) [OF assms lq] stems_ok_upd(4) [OF t(2)]
    by (cases ok) (auto simp: STeMS_NotifyAccess_def Let_def Some q(1))
qed

lemma use_total:
  assumes "seq_ok p"
  shows "\<exists>q n'. fold_res (use_at address) (positions p) (p, n) = Inr (q, n') \<and> like p q"
proof -
  have "\<exists>t. fold_res (use_at address) (positions p) (p, n) = Inr t \<and> like p (fst t)"
  proof (rule fold_res_inv)
    show "like p (fst (p, n))" using assms by (simp add: like_refl)
    fix i and t :: "PatternSequence \<times> u64"
    assume i: "i \<in> set (positions p)" and t: "like p (fst t)"
    obtain q n where q: "t = (q, n)" by (cases t)
    have "seq_ok q" "unat i < 16" using t q position_in [OF assms i] by (auto simp: like_def)
    then show "\<exists>t'. use_at address i t = Inr t' \<and> like p (fst t')" using t by (auto simp: q array_total seq_ok_def like_def)
  qed
  then show ?thesis by auto
qed

lemma recon_total:
  assumes "seq_ok junk" "seq_ok p" "8 \<le> ps_size p"
  shows "\<exists>q. new_recon junk p address = Inr q \<and> seq_ok q \<and> ps_size q = ps_size p"
proof -
  let ?j = "junk\<lparr> ps_size := ps_size p, ps_address := address \<rparr>"
  have "\<exists>q. fold_res (copy_at p) (positions p) ?j = Inr q \<and> like ?j q"
  proof (rule fold_res_inv)
    show "like ?j ?j" using assms(1,2) by (simp add: like_def seq_ok_def)
    fix i q
    assume i: "i \<in> set (positions p)" and q: "like ?j q"
    have "seq_ok q" "unat i < 16" using q position_in [OF assms(2) i] by (auto simp: like_def)
    then show "\<exists>q'. copy_at p i q = Inr q' \<and> like ?j q'"
      using q assms(2) by (auto simp: copy_at_def array_total seq_ok_def like_def)
  qed
  then obtain q where q: "fold_res (copy_at p) (positions p) ?j = Inr q" "like ?j q" by blast
  then have "seq_ok q" by (simp add: like_def)
  then show ?thesis using q by (auto simp: new_recon_def array_total seq_ok_def like_def)
qed

lemma AGT_total: "seq_ok junk \<Longrightarrow> \<exists>q. new_AGT junk address = Inr q \<and> seq_ok q \<and> ps_size q = 1"
  by (auto simp: new_AGT_def array_total seq_ok_def)

lemma train_total:
  assumes "stems_ok s" "seq_ok junk" "map_of (PST s) pc = None"
  shows "\<exists>t. train s junk pc address = Inr t \<and> stems_ok t"
proof (cases "map_of (AGT s) pc")
  case None
  obtain q where "new_AGT junk address = Inr q" "seq_ok q" "ps_size q = 1" using AGT_total [OF assms(2)] by blast
  then show ?thesis using stems_ok_upd(2) [OF assms(1)] None by (auto simp: train_def word_less_nat_alt)
next
  case (Some p)
  let ?near = "(if address > ps_address p then address - ps_address p else ps_address p - address) div 64 < 256"
  have p: "seq_ok p" "1 \<le> ps_size p" "ps_size p < 8" using assms(1) Some by (auto simp: stems_ok_def)
  then have "ps_size p < 16" by (auto simp: word_less_nat_alt)
  then obtain q where q: "append_offset (address - ps_address p) p = Inr q" "seq_ok q" "unat (ps_size q) = unat (ps_size p) + 1"
    using append_total [OF p(1)] by blast
  have full: "stems_ok (s\<lparr> PST := omap_upd pc q (PST s), AGT := omap_del pc (AGT s) \<rparr>)" if "8 \<le> ps_size q"
    using stems_ok_upd(5) [OF stems_ok_upd(1) [OF assms(1) q(2) that], of pc pc] by simp
  have more: "stems_ok (s\<lparr> AGT := omap_upd pc q (AGT s) \<rparr>)" if "\<not> 8 \<le> ps_size q"
    using stems_ok_upd(2) [OF assms(1) q(2)] that q(3) by (auto simp: word_le_nat_alt word_less_nat_alt)
  show ?thesis
  proof (cases ?near)
    case True
    then show ?thesis using full more by (cases "8 \<le> ps_size q") (auto simp: train_def Some q(1) Let_def)
  next
    case False
    then show ?thesis using assms(1) by (auto simp: train_def Some Let_def)
  qed
qed

lemma DoPrefetch_total:
  assumes "stems_ok s" "seq_ok junk"
  shows "\<exists>s' l'. STeMS_DoPrefetch junk s x l = Inr (s', l', False) \<and> stems_ok s'"
proof (cases "map_of (PST s) (rq_programCounter x)")
  case None
  then show ?thesis using train_total [OF assms None, of "physicalAddress (rq_address x)"] by (auto simp: STeMS_DoPrefetch_def Let_def)
next
  case (Some ps)
  let ?pc = "rq_programCounter x" and ?a = "physicalAddress (rq_address x)"
  have ps: "seq_ok ps" "8 \<le> ps_size ps" using assms(1) Some by (auto simp: stems_ok_def)
  show ?thesis
  proof (cases "map_of (ReconBuf s) ?pc")
    case None
    obtain q where "new_recon junk ps ?a = Inr q" "seq_ok q" "ps_size q = ps_size ps" using recon_total [OF assms(2) ps] by blast
    then show ?thesis using stems_ok_upd(3) [OF assms(1)] ps(2) None Some by (auto simp: STeMS_DoPrefetch_def Let_def)
  next
    case (Some rps)
    have r: "seq_ok rps" "8 \<le> ps_size rps" using assms(1) Some by (auto simp: stems_ok_def)
    obtain q n where q: "fold_res (use_at ?a) (positions rps) (rps, 0) = Inr (q, n)" "like rps q" using use_total [OF r(1)] by blast
    then have "seq_ok q" by (simp add: like_def)
    then obtain q' l' where q': "(if n \<ge> 2 then FetchNextUnused 4 (q, l) else Inr (q, l)) = Inr (q', l')" "like q q'"
      using fetch_total [of q 4 l] like_refl by (cases "n \<ge> 2") auto
    have "stems_ok (s\<lparr> ReconBuf := omap_upd ?pc q' (ReconBuf s) \<rparr>)"
      using stems_ok_upd(3) [OF assms(1)] q(2) q'(2) r(2) by (simp add: like_def)
    then show ?thesis using Some \<open>map_of (PST s) ?pc = Some ps\<close> q(1) q'(1) by (simp add: STeMS_DoPrefetch_def Let_def)
  qed
qed

end
