(* ===== verification/Nvm_FrontEnd.thy ===== *)
theory Nvm_FrontEnd
  imports Nvm_Prefetch Nvm_Bank
begin

text \<open>
  \<^verbatim>\<open>NVM/nvmain.cpp\<close>: the root of a memory. It decodes the address of a request, passes it to the controller of its channel
  and issues and answers prefetches.

  Requests live in the heap of the \<open>world\<close> and are passed by their addresses. The decoder, the prefetcher and the
  controllers are reached by virtual calls, the record \<open>nv_ops\<close>; the answer to the parent is \<open>nv_up\<close>. A controller is
  reached by \<^verbatim>\<open>GetChild\<close> through its hook, or directly through the array \<^verbatim>\<open>memoryControllers\<close>, which holds the same objects.
\<close>

section \<open>State\<close>

record ('d, 'p, 'c) nv_ops =
  nv_Translate :: "'d \<Rightarrow> u64 \<Rightarrow> nvm_error + 'd \<times> partition_vals"
  nv_field :: "'d \<Rightarrow> TranslationField"
  nv_pf :: "'p prefetcher"
  ct_IsIssuable :: "world \<Rightarrow> 'c \<Rightarrow> nat \<Rightarrow> nvm_error + bool"
  ct_IssueCommand :: "world \<Rightarrow> 'c \<Rightarrow> nat \<Rightarrow> nvm_error + world \<times> 'c \<times> bool"
  ct_IssueAtomic :: "world \<Rightarrow> 'c \<Rightarrow> nat \<Rightarrow> nvm_error + world \<times> 'c \<times> bool"
  ct_Cycle :: "world \<Rightarrow> 'c \<Rightarrow> ncycle_t \<Rightarrow> nvm_error + world \<times> 'c"
  nv_up :: "world \<Rightarrow> nat \<Rightarrow> nvm_error + world \<times> bool"

record ('d, 'p, 'c) NVMain =
  nv_this :: nat
  nv_hooks :: "(nat \<times> nat) list"
  nv_configured :: bool
  nv_EventDriven :: bool
  nv_decoder :: 'd
  memoryControllers :: "'c list"
  numChannels :: nat
  prefetcher :: "'p option"
  PrefetchBufferSize :: u64
  prefetchBuffer :: "nat list"
  pendingMemoryRequests :: "nat list"
  totalReadRequests :: u64
  totalWriteRequests :: u64
  successfulPrefetches :: u64
  unsuccessfulPrefetches :: u64

text \<open>The members of the constructor; \<open>d\<close> is the decoder it does not have yet.\<close>

definition NVMain_init :: "nat \<Rightarrow> (nat \<times> nat) list \<Rightarrow> 'd \<Rightarrow> ('d, 'p, 'c) NVMain" where
  "NVMain_init this hooks d =
     \<lparr> nv_this = this, nv_hooks = hooks, nv_configured = False, nv_EventDriven = False, nv_decoder = d, memoryControllers = [],
       numChannels = 0, prefetcher = None, PrefetchBufferSize = 32, prefetchBuffer = [], pendingMemoryRequests = [],
       totalReadRequests = 0, totalWriteRequests = 0, successfulPrefetches = 0, unsuccessfulPrefetches = 0 \<rparr>"

section \<open>Configuration\<close>

record NVMainParams =
  np_MATHeight :: "u64 option"
  np_ROWS :: u64
  np_COLS :: u64
  np_BANKS :: u64
  np_RANKS :: u64
  np_CHANNELS :: u64
  np_AddressMappingScheme :: string
  np_PrefetchBufferSize :: u64
  np_EventDriven :: bool

text \<open>The number of bits of a dimension, from its \<^verbatim>\<open>int\<close>.\<close>

definition bits_of :: "u64 \<Rightarrow> nat" where
  "bits_of n = nat (mlog2 (to_int32 n))"

definition row_dimensions :: "NVMainParams \<Rightarrow> nvm_error + u64 \<times> u64" where
  "row_dimensions p =
     (case np_MATHeight p of
        None \<Rightarrow> Inr (np_ROWS p, 1)
      | Some h \<Rightarrow> if h = 0 then Inl DivisionByZero else Inr (h, np_ROWS p div h))"

definition NVMain_method :: "NVMainParams \<Rightarrow> (MemoryPartition \<Rightarrow> u64) \<Rightarrow> nvm_error + TranslationMethod" where
  "NVMain_method p garbage =
     bind_res (row_dimensions p) (\<lambda>(rows, subarrays).
     let m = SetBitWidths (TranslationMethod_init garbage) (bits_of rows) (bits_of (np_COLS p)) (bits_of (np_BANKS p))
               (bits_of (np_RANKS p)) (bits_of (np_CHANNELS p)) (bits_of subarrays);
         cut = (\<lambda>n. of_int (to_int32 n));
         m = SetCount m (cut rows) (cut (np_COLS p)) (cut (np_BANKS p)) (cut (np_RANKS p)) (cut (np_CHANNELS p)) (cut subarrays)
     in SetAddressMappingScheme m (np_AddressMappingScheme p))"

text \<open>\<open>set_up\<close> gives the new decoder, an \<^verbatim>\<open>AddressTranslator\<close> or a subclass, its method and field.\<close>

definition NVMain_SetConfig ::
  "('d, 'p, 'c) NVMain \<Rightarrow> NVMainParams \<Rightarrow> (MemoryPartition \<Rightarrow> u64) \<Rightarrow> (TranslationMethod \<Rightarrow> TranslationField \<Rightarrow> 'd)
     \<Rightarrow> (nat \<Rightarrow> 'c) \<Rightarrow> 'p option \<Rightarrow> nvm_error + ('d, 'p, 'c) NVMain" where
  "NVMain_SetConfig s p garbage set_up new_controller new_prefetcher =
     bind_res (NVMain_method p garbage) (\<lambda>m.
     Inr (s\<lparr> nv_configured := True, nv_EventDriven := np_EventDriven p, nv_decoder := set_up m CHANNEL_FIELD,
        memoryControllers := map new_controller [0..<nat (to_int32 (np_CHANNELS p))],
        numChannels := unat (ucast (np_CHANNELS p) :: 32 word), prefetcher := new_prefetcher,
        PrefetchBufferSize := np_PrefetchBufferSize p \<rparr>))"

section \<open>Addresses and children\<close>

definition w_set :: "world \<Rightarrow> nat \<Rightarrow> NVMainRequest \<Rightarrow> world" where
  "w_set w r x = w\<lparr> w_heap := (w_heap w)(r \<mapsto> x) \<rparr>"

text \<open>\<^verbatim>\<open>GetDecoder( )->Translate( address, &row, ... )\<close>.\<close>

definition decode :: "('d, 'p, 'c) nv_ops \<Rightarrow> ('d, 'p, 'c) NVMain \<Rightarrow> u64 \<Rightarrow> nvm_error + ('d, 'p, 'c) NVMain \<times> partition_vals" where
  "decode ops s address = bind_res (nv_Translate ops (nv_decoder s) address) (\<lambda>(d, v). Inr (s\<lparr> nv_decoder := d \<rparr>, v))"

definition translated_to :: "partition_vals \<Rightarrow> NVMAddress \<Rightarrow> NVMAddress" where
  "translated_to v a = SetTranslatedAddress a (v MEM_ROW) (v MEM_COL) (v MEM_BANK) (v MEM_RANK) (v MEM_CHANNEL) (v MEM_SUBARRAY)"

text \<open>Translating the address of a request, and copying the result into the request.\<close>

definition translate_request ::
  "('d, 'p, 'c) nv_ops \<Rightarrow> world \<Rightarrow> ('d, 'p, 'c) NVMain \<Rightarrow> nat \<Rightarrow> nvm_error + world \<times> ('d, 'p, 'c) NVMain \<times> u64" where
  "translate_request ops w s r =
     bind_res (w_req w r) (\<lambda>x.
     bind_res (decode ops s (physicalAddress (rq_address x))) (\<lambda>(s, v).
     Inr (w_set w r (x\<lparr> rq_address := translated_to v (rq_address x) \<rparr>), s, v MEM_CHANNEL)))"

definition child_of :: "('d, 'p, 'c) nv_ops \<Rightarrow> ('d, 'p, 'c) NVMain \<Rightarrow> NVMAddress \<Rightarrow> nvm_error + ('d, 'p, 'c) NVMain \<times> u64" where
  "child_of ops s a =
     (if translated a then Inr (s, select_field (nv_field ops (nv_decoder s)) (address_vals a))
      else bind_res (decode ops s (physicalAddress a)) (\<lambda>(s, v). Inr (s, select_field (nv_field ops (nv_decoder s)) v)))"

definition controller :: "('d, 'p, 'c) NVMain \<Rightarrow> u64 \<Rightarrow> nvm_error + 'c" where
  "controller s i = (if unat i < length (memoryControllers s) then Inr (memoryControllers s ! unat i) else Inl OutOfBounds)"

text \<open>\<^verbatim>\<open>GetChild( request )->IssueCommand( request )\<close>.\<close>

definition issue_to_child ::
  "('d, 'p, 'c) nv_ops \<Rightarrow> world \<Rightarrow> ('d, 'p, 'c) NVMain \<Rightarrow> nat \<Rightarrow> nvm_error + world \<times> ('d, 'p, 'c) NVMain \<times> bool" where
  "issue_to_child ops w s r =
     bind_res (w_req w r) (\<lambda>x.
     bind_res (child_of ops s (rq_address x)) (\<lambda>(s, i).
     bind_res (controller s i) (\<lambda>c.
     bind_res (ct_IssueCommand ops w c r) (\<lambda>(w, c, ok).
     Inr (w, s\<lparr> memoryControllers := (memoryControllers s)[unat i := c] \<rparr>, ok)))))"

definition NVMain_IsIssuable ::
  "('d, 'p, 'c) nv_ops \<Rightarrow> world \<Rightarrow> ('d, 'p, 'c) NVMain \<Rightarrow> nat \<Rightarrow> nvm_error + ('d, 'p, 'c) NVMain \<times> bool" where
  "NVMain_IsIssuable ops w s r =
     bind_res (w_req w r) (\<lambda>x.
     bind_res (decode ops s (physicalAddress (rq_address x))) (\<lambda>(s, v).
     bind_res (controller s (v MEM_CHANNEL)) (\<lambda>c.
     bind_res (ct_IsIssuable ops w c r) (\<lambda>ok. Inr (s, ok)))))"

section \<open>Prefetches\<close>

text \<open>
  A copy of the trigger with the address to prefetch. The address translated is the one of the trigger, and the result is
  stored there; \<^verbatim>\<open>GetChild\<close> then takes the address of the copy as it is.
\<close>

fun generate_prefetch ::
  "('d, 'p, 'c) nv_ops \<Rightarrow> nat \<Rightarrow> NVMAddress \<Rightarrow> world \<times> ('d, 'p, 'c) NVMain \<Rightarrow> nvm_error + world \<times> ('d, 'p, 'c) NVMain" where
  "generate_prefetch ops r a (w, s) =
     bind_res (w_req w r) (\<lambda>x.
     let pf = w_fresh w;
         y = (copy_request pf x)\<lparr> rq_address := a, rq_isPrefetch := True, rq_owner := nv_this s \<rparr>;
         w = w_set (w\<lparr> w_fresh := Suc pf \<rparr>) pf y
     in bind_res (translate_request ops w s r) (\<lambda>(w, s, _).
        bind_res (issue_to_child ops w s pf) (\<lambda>(w, s, _). Inr (w, s))))"

definition GeneratePrefetches ::
  "('d, 'p, 'c) nv_ops \<Rightarrow> nat \<Rightarrow> NVMAddress list \<Rightarrow> world \<times> ('d, 'p, 'c) NVMain \<Rightarrow> nvm_error + world \<times> ('d, 'p, 'c) NVMain" where
  "GeneratePrefetches ops r prefetchList ws = fold_res (generate_prefetch ops r) prefetchList ws"

text \<open>What both functions below do with an answer of the prefetcher.\<close>

fun take_advice ::
  "('d, 'p, 'c) nv_ops \<Rightarrow> world \<Rightarrow> ('d, 'p, 'c) NVMain \<Rightarrow> nat \<Rightarrow> 'p \<times> NVMAddress list \<times> bool
     \<Rightarrow> nvm_error + world \<times> ('d, 'p, 'c) NVMain" where
  "take_advice ops w s r (p, prefetchList, go) =
     (let s = s\<lparr> prefetcher := Some p \<rparr> in if go then GeneratePrefetches ops r prefetchList (w, s) else Inr (w, s))"

definition IssuePrefetch ::
  "('d, 'p, 'c) nv_ops \<Rightarrow> world \<Rightarrow> ('d, 'p, 'c) NVMain \<Rightarrow> nat \<Rightarrow> nvm_error + world \<times> ('d, 'p, 'c) NVMain" where
  "IssuePrefetch ops w s r =
     bind_res (w_req w r) (\<lambda>x.
     case prefetcher s of
       None \<Rightarrow> Inr (w, s)
     | Some p \<Rightarrow> if rq_type x = READ \<and> \<not> rq_isPrefetch x
         then bind_res (pf_DoPrefetch (nv_pf ops) p x []) (take_advice ops w s r) else Inr (w, s))"

fun find_prefetch :: "world \<Rightarrow> u64 \<Rightarrow> nat list \<Rightarrow> nvm_error + nat option" where
  "find_prefetch w address [] = Inr None"
| "find_prefetch w address (b # bs) =
     bind_res (w_req w b) (\<lambda>y. if physicalAddress (rq_address y) = address then Inr (Some b) else find_prefetch w address bs)"

text \<open>
  Without a prefetcher the buffer is empty; the call through the null pointer is \<open>NullPointer\<close>. The type of the request is
  not looked at.
\<close>

definition CheckPrefetch ::
  "('d, 'p, 'c) nv_ops \<Rightarrow> world \<Rightarrow> ('d, 'p, 'c) NVMain \<Rightarrow> nat \<Rightarrow> nvm_error + world \<times> ('d, 'p, 'c) NVMain \<times> bool" where
  "CheckPrefetch ops w s r =
     bind_res (w_req w r) (\<lambda>x.
     bind_res (find_prefetch w (physicalAddress (rq_address x)) (prefetchBuffer s)) (\<lambda>hit.
     case hit of
       None \<Rightarrow> Inr (w, s, False)
     | Some b \<Rightarrow> (case prefetcher s of
           None \<Rightarrow> Inl NullPointer
         | Some p \<Rightarrow>
             bind_res (pf_NotifyAccess (nv_pf ops) p x []) (\<lambda>advice.
             bind_res (take_advice ops w s r advice) (\<lambda>(w, s).
             Inr (w\<lparr> w_heap := (w_heap w)(b := None) \<rparr>,
                  s\<lparr> successfulPrefetches := successfulPrefetches s + 1, prefetchBuffer := removeAll b (prefetchBuffer s) \<rparr>, True))))))"

section \<open>Requests\<close>

definition count_request :: "('d, 'p, 'c) NVMain \<Rightarrow> NVMainRequest \<Rightarrow> ('d, 'p, 'c) NVMain" where
  "count_request s x =
     (if rq_type x = READ then s\<lparr> totalReadRequests := totalReadRequests s + 1 \<rparr>
      else s\<lparr> totalWriteRequests := totalWriteRequests s + 1 \<rparr>)"

text \<open>What follows when the controller has answered; the trace file is left out.\<close>

fun after_issue ::
  "('d, 'p, 'c) nv_ops \<Rightarrow> nat \<Rightarrow> world \<times> ('d, 'p, 'c) NVMain \<times> bool \<Rightarrow> nvm_error + world \<times> ('d, 'p, 'c) NVMain \<times> bool" where
  "after_issue ops r (w, s, ok) =
     (if ok then bind_res (IssuePrefetch ops w s r) (\<lambda>(w, s). bind_res (w_req w r) (\<lambda>x. Inr (w, count_request s x, True)))
      else Inr (w, s, False))"

definition respond_next :: "world \<Rightarrow> ('d, 'p, 'c) NVMain \<Rightarrow> nat \<Rightarrow> nvm_error + world" where
  "respond_next w s r =
     bind_res (InsertEvent_object (w_queue w) (nv_hooks s) (w_fresh w) EventResponse (nv_this s) (Some r) (w_now w + 1) None 0)
       (\<lambda>eq. Inr (w\<lparr> w_queue := eq, w_fresh := Suc (w_fresh w) \<rparr>))"

text \<open>The controller the decoder names is asserted to be the one of the channel.\<close>

definition send_request ::
  "('d, 'p, 'c) nv_ops \<Rightarrow> u64 \<Rightarrow> world \<Rightarrow> ('d, 'p, 'c) NVMain \<Rightarrow> nat \<Rightarrow> nvm_error + world \<times> ('d, 'p, 'c) NVMain \<times> bool" where
  "send_request ops channel w s r =
     bind_res (w_req w r) (\<lambda>x.
     bind_res (child_of ops s (rq_address x)) (\<lambda>(s, i).
     bind_res (controller s i) (\<lambda>_.
     bind_res (assert_res (i = channel)) (\<lambda>_.
     bind_res (issue_to_child ops w s r) (after_issue ops r)))))"

definition NVMain_IssueCommand ::
  "('d, 'p, 'c) nv_ops \<Rightarrow> world \<Rightarrow> ('d, 'p, 'c) NVMain \<Rightarrow> nat \<Rightarrow> nvm_error + world \<times> ('d, 'p, 'c) NVMain \<times> bool" where
  "NVMain_IssueCommand ops w s r =
     (if \<not> nv_configured s then Inr (w, s, False)
      else
        bind_res (translate_request ops w s r) (\<lambda>(w, s, channel).
        bind_res (CheckPrefetch ops w s r) (\<lambda>(w, s, hit).
        if hit then bind_res (respond_next w s r) (\<lambda>w. Inr (w, s, True)) else send_request ops channel w s r)))"

definition NVMain_IssueAtomic ::
  "('d, 'p, 'c) nv_ops \<Rightarrow> world \<Rightarrow> ('d, 'p, 'c) NVMain \<Rightarrow> nat \<Rightarrow> nvm_error + world \<times> ('d, 'p, 'c) NVMain \<times> bool" where
  "NVMain_IssueAtomic ops w s r =
     (if \<not> nv_configured s then Inr (w, s, False)
      else
        bind_res (translate_request ops w s r) (\<lambda>(w, s, channel).
        bind_res (CheckPrefetch ops w s r) (\<lambda>(w, s, hit).
        if hit then Inr (w, s, True)
        else
          bind_res (controller s channel) (\<lambda>c.
          bind_res (ct_IssueAtomic ops w c r) (\<lambda>(w, c, ok).
          after_issue ops r (w, s\<lparr> memoryControllers := (memoryControllers s)[unat channel := c] \<rparr>, ok))))))"

text \<open>A prefetch that has come back goes into the buffer, at the cost of the oldest one when it is full.\<close>

definition buffer_prefetch :: "world \<Rightarrow> ('d, 'p, 'c) NVMain \<Rightarrow> nat \<Rightarrow> nvm_error + world \<times> ('d, 'p, 'c) NVMain" where
  "buffer_prefetch w s r =
     (if of_nat (length (prefetchBuffer s)) \<ge> PrefetchBufferSize s then
        (case prefetchBuffer s of
           [] \<Rightarrow> Inl OutOfBounds
         | b # bs \<Rightarrow> bind_res (w_req w b) (\<lambda>_. Inr (w\<lparr> w_heap := (w_heap w)(b := None) \<rparr>,
             s\<lparr> unsuccessfulPrefetches := unsuccessfulPrefetches s + 1, prefetchBuffer := bs @ [r] \<rparr>)))
      else Inr (w, s\<lparr> prefetchBuffer := prefetchBuffer s @ [r] \<rparr>))"

definition complete_request ::
  "('d, 'p, 'c) nv_ops \<Rightarrow> world \<Rightarrow> ('d, 'p, 'c) NVMain \<Rightarrow> nat \<Rightarrow> nvm_error + world \<times> ('d, 'p, 'c) NVMain \<times> bool" where
  "complete_request ops w s r =
     bind_res (w_req w r) (\<lambda>x.
     if rq_owner x = nv_this s then
       (if rq_isPrefetch x then bind_res (buffer_prefetch w s r) (\<lambda>(w, s). Inr (w, s, True))
        else Inr (w\<lparr> w_heap := (w_heap w)(r := None) \<rparr>, s, True))
     else bind_res (nv_up ops w r) (\<lambda>(w, rv). Inr (w, s, rv)))"

text \<open>One stalled main memory request is tried again; whether it is accepted does not matter.\<close>

definition retry_pending ::
  "('d, 'p, 'c) nv_ops \<Rightarrow> world \<Rightarrow> ('d, 'p, 'c) NVMain \<Rightarrow> nvm_error + world \<times> ('d, 'p, 'c) NVMain" where
  "retry_pending ops w s =
     (case pendingMemoryRequests s of
        [] \<Rightarrow> Inr (w, s)
      | q # _ \<Rightarrow>
          bind_res (NVMain_IsIssuable ops w s q) (\<lambda>(s, ok).
          if ok then bind_res (NVMain_IssueCommand ops w s q) (\<lambda>(w, s, _).
            Inr (w, s\<lparr> pendingMemoryRequests := tl (pendingMemoryRequests s) \<rparr>))
          else Inr (w, s)))"

definition NVMain_RequestComplete ::
  "('d, 'p, 'c) nv_ops \<Rightarrow> world \<Rightarrow> ('d, 'p, 'c) NVMain \<Rightarrow> nat \<Rightarrow> nvm_error + world \<times> ('d, 'p, 'c) NVMain \<times> bool" where
  "NVMain_RequestComplete ops w s r =
     bind_res (complete_request ops w s r) (\<lambda>(w, s, rv).
     bind_res (retry_pending ops w s) (\<lambda>(w, s). Inr (w, s, rv)))"

definition EnqueuePendingMemoryRequests :: "('d, 'p, 'c) NVMain \<Rightarrow> nat \<Rightarrow> ('d, 'p, 'c) NVMain" where
  "EnqueuePendingMemoryRequests s r = s\<lparr> pendingMemoryRequests := pendingMemoryRequests s @ [r] \<rparr>"

text \<open>
  \<open>synced\<close>: whether the floating point sum of bus and CPU frequencies reaches 1 in this call; \<open>loop\<close>: \<^verbatim>\<open>Loop( steps )\<close> of the event
  queue, whose handlers reach the whole system.
\<close>

fun cycle_controller ::
  "('d, 'p, 'c) nv_ops \<Rightarrow> nat \<Rightarrow> world \<times> ('d, 'p, 'c) NVMain \<Rightarrow> nvm_error + world \<times> ('d, 'p, 'c) NVMain" where
  "cycle_controller ops i (w, s) =
     (if i < length (memoryControllers s) then
        bind_res (ct_Cycle ops w (memoryControllers s ! i) 1) (\<lambda>(w, c). Inr (w, s\<lparr> memoryControllers := (memoryControllers s)[i := c] \<rparr>))
      else Inl OutOfBounds)"

definition NVMain_Cycle ::
  "('d, 'p, 'c) nv_ops \<Rightarrow> (ncycle_t \<Rightarrow> world \<times> ('d, 'p, 'c) NVMain \<Rightarrow> nvm_error + world \<times> ('d, 'p, 'c) NVMain)
     \<Rightarrow> bool \<Rightarrow> world \<Rightarrow> ('d, 'p, 'c) NVMain \<Rightarrow> ncycle_t \<Rightarrow> nvm_error + world \<times> ('d, 'p, 'c) NVMain" where
  "NVMain_Cycle ops loop synced w s steps =
     bind_res (assert_res (\<not> nv_EventDriven s)) (\<lambda>_.
     if \<not> nv_configured s \<or> \<not> synced then Inr (w, s)
     else bind_res (fold_res (cycle_controller ops) [0..<numChannels s] (w, s)) (loop steps))"

text \<open>A decoder without migration.\<close>

definition plain_decoder :: "TranslationMethod \<Rightarrow> TranslationField \<Rightarrow> AddressTranslator" where
  "plain_decoder m f = SetDefaultField (SetTranslationMethod AddressTranslator_init m) f"

end
