(* ===== verification/Nvm_FrontEndRuns.thy ===== *)
theory Nvm_FrontEndRuns
  imports Nvm_FrontEnd
begin

text \<open>
  A memory with a prefetcher that never asks for a prefetch behaves as one without (locale \<open>silent_prefetcher\<close>), and
  \<^verbatim>\<open>STeMS\<close> is such a prefetcher.
\<close>

section \<open>A prefetcher that is never heard\<close>

text \<open>The same memory without its prefetcher.\<close>

definition mute :: "('d, 'p, 'c) NVMain \<Rightarrow> ('d, 'p, 'c) NVMain" where
  "mute s = s\<lparr> prefetcher := None \<rparr>"

fun muted :: "world \<times> ('d, 'p, 'c) NVMain \<times> 'x \<Rightarrow> nvm_error + world \<times> ('d, 'p, 'c) NVMain \<times> 'x" where
  "muted (w, s, x) = Inr (w, mute s, x)"

lemma mute_fields [simp]:
  "nv_this (mute s) = nv_this s" "nv_hooks (mute s) = nv_hooks s" "nv_configured (mute s) = nv_configured s" "nv_decoder (mute s) = nv_decoder s"
  "memoryControllers (mute s) = memoryControllers s" "prefetchBuffer (mute s) = prefetchBuffer s" "PrefetchBufferSize (mute s) = PrefetchBufferSize s"
  "pendingMemoryRequests (mute s) = pendingMemoryRequests s" "prefetcher (mute s) = None" "controller (mute s) = controller s"
  "mute (s\<lparr> nv_decoder := d \<rparr>) = (mute s)\<lparr> nv_decoder := d \<rparr>" "mute (s\<lparr> memoryControllers := cs \<rparr>) = (mute s)\<lparr> memoryControllers := cs \<rparr>"
  "mute (s\<lparr> prefetcher := p \<rparr>) = mute s" "mute (s\<lparr> pendingMemoryRequests := q \<rparr>) = (mute s)\<lparr> pendingMemoryRequests := q \<rparr>"
  "mute (count_request s x) = count_request (mute s) x" "totalReadRequests (mute s) = totalReadRequests s" "totalWriteRequests (mute s) = totalWriteRequests s"
  by (simp_all add: mute_def controller_def fun_eq_iff count_request_def)

lemma decode_mute: "decode ops (mute s) a = bind_res (decode ops s a) (\<lambda>(s, v). Inr (mute s, v))"
  by (simp add: decode_def bind_res_def split: sum.splits prod.splits)

lemma translate_mute: "translate_request ops w (mute s) r = bind_res (translate_request ops w s r) muted"
  by (simp add: translate_request_def decode_mute bind_res_def split: sum.splits prod.splits)

lemma child_mute: "child_of ops (mute s) a = bind_res (child_of ops s a) (\<lambda>(s, i). Inr (mute s, i))"
  by (simp add: child_of_def decode_mute bind_res_def split: sum.splits prod.splits)

lemma issue_mute: "issue_to_child ops w (mute s) r = bind_res (issue_to_child ops w s r) muted"
  by (simp add: issue_to_child_def child_mute bind_res_def split: sum.splits prod.splits)

lemma issuable_mute: "NVMain_IsIssuable ops w (mute s) r = bind_res (NVMain_IsIssuable ops w s r) (\<lambda>(s, ok). Inr (mute s, ok))"
  by (simp add: NVMain_IsIssuable_def decode_mute bind_res_def split: sum.splits prod.splits)

text \<open>A prefetcher in a good state with an empty buffer, and the operations that leave it so.\<close>

definition pf_idle :: "('p \<Rightarrow> bool) \<Rightarrow> ('d, 'p, 'c) NVMain \<Rightarrow> bool" where
  "pf_idle ok s \<longleftrightarrow> prefetchBuffer s = [] \<and> (\<exists>p. prefetcher s = Some p \<and> ok p)"

lemma pf_idle_upd [simp]:
  "pf_idle good (s\<lparr> nv_decoder := d \<rparr>) = pf_idle good s" "pf_idle good (s\<lparr> memoryControllers := cs \<rparr>) = pf_idle good s"
  "pf_idle good (s\<lparr> pendingMemoryRequests := q \<rparr>) = pf_idle good s" "pf_idle good (count_request s x) = pf_idle good s"
  by (simp_all add: pf_idle_def count_request_def)

lemma decode_idle: "decode ops s a = Inr (s', v) \<Longrightarrow> pf_idle good s' = pf_idle good s"
  by (auto simp: decode_def bind_res_eq_Inr)

lemma translate_idle: "translate_request ops w s r = Inr (w', s', c) \<Longrightarrow> pf_idle good s' = pf_idle good s"
  by (auto simp: translate_request_def decode_def elim!: bind_res_elim)

lemma child_idle: "child_of ops s a = Inr (s', i) \<Longrightarrow> pf_idle good s' = pf_idle good s"
  by (auto simp: child_of_def decode_def bind_res_eq_Inr split: if_splits)

lemma issue_idle: "issue_to_child ops w s r = Inr (w', s', ok) \<Longrightarrow> pf_idle good s' = pf_idle good s"
  by (auto simp: issue_to_child_def child_of_def decode_def elim!: bind_res_elim split: if_splits)

lemma CheckPrefetch_idle: "prefetchBuffer s = [] \<Longrightarrow> CheckPrefetch ops w s r = bind_res (w_req w r) (\<lambda>_. Inr (w, s, False))"
  by (simp add: CheckPrefetch_def)

lemma bind_muted:
  assumes "\<And>w s x. m = Inr (w, s, x) \<Longrightarrow> k' (w, mute s, x) = bind_res (k (w, s, x)) muted"
  shows "bind_res (bind_res m muted) k' = bind_res (bind_res m k) muted"
  using assms by (cases m) auto

lemma translated_alive:
  "translate_request ops w s r = Inr (w', s', c) \<Longrightarrow> (\<exists>y. w_req w' r = Inr y) \<and> prefetchBuffer s' = prefetchBuffer s"
  by (auto simp: translate_request_def decode_def w_set_def w_req_def elim!: bind_res_elim)

text \<open>Behind an empty buffer a request goes straight to its controller.\<close>

lemma issue_unbuffered:
  assumes "nv_configured s" "prefetchBuffer s = []"
  shows "NVMain_IssueCommand ops w s r = bind_res (translate_request ops w s r) (\<lambda>(w, s, c). send_request ops c w s r)"
proof (cases "translate_request ops w s r")
  case (Inr t)
  obtain w' s' c where t: "t = (w', s', c)" by (cases t) auto
  then obtain y where "prefetchBuffer s' = []" "w_req w' r = Inr y" using translated_alive Inr assms(2) by fastforce
  then show ?thesis by (simp add: NVMain_IssueCommand_def assms Inr t CheckPrefetch_idle)
qed (simp add: NVMain_IssueCommand_def assms)

definition own_prefetch :: "world \<Rightarrow> ('d, 'p, 'c) NVMain \<Rightarrow> nat \<Rightarrow> bool" where
  "own_prefetch w s r \<longleftrightarrow> (\<exists>x. w_heap w r = Some x \<and> rq_owner x = nv_this s \<and> rq_isPrefetch x)"

text \<open>
  The contract of a prefetcher that never asks for a prefetch: in its good states \<^verbatim>\<open>DoPrefetch\<close> ends and answers no. A memory with
  such a prefetcher behaves as one without.
\<close>

locale silent_prefetcher =
  fixes pf :: "'p prefetcher" and good :: "'p \<Rightarrow> bool"
  assumes answers_no: "good p \<Longrightarrow> \<exists>p' l. pf_DoPrefetch pf p x [] = Inr (p', l, False) \<and> good p'"
begin

lemma IssuePrefetch_idle:
  assumes "nv_pf ops = pf" "pf_idle good s"
  shows "IssuePrefetch ops w (mute s) r = bind_res (IssuePrefetch ops w s r) (\<lambda>(w, s). Inr (w, mute s))"
    and "IssuePrefetch ops w s r = Inr (w', s') \<Longrightarrow> pf_idle good s'"
proof -
  obtain p where p: "prefetcher s = Some p" "good p" "prefetchBuffer s = []" using assms(2) by (auto simp: pf_idle_def)
  have "\<exists>p'. good p' \<and> IssuePrefetch ops w s r = bind_res (w_req w r) (\<lambda>_. Inr (w, s\<lparr> prefetcher := Some p' \<rparr>))"
  proof (cases "w_req w r")
    case (Inr x)
    obtain p' l where "pf_DoPrefetch pf p x [] = Inr (p', l, False)" "good p'" using answers_no [OF p(2)] by blast
    moreover have "s = s\<lparr> prefetcher := Some p \<rparr>" using p(1) by simp
    ultimately show ?thesis using p Inr
      by (cases "rq_type x = READ \<and> \<not> rq_isPrefetch x") (auto simp: IssuePrefetch_def assms(1) intro: exI [of _ p])
  qed (use p(2) in \<open>auto simp: IssuePrefetch_def\<close>)
  then obtain p' where i: "good p'" "IssuePrefetch ops w s r = bind_res (w_req w r) (\<lambda>_. Inr (w, s\<lparr> prefetcher := Some p' \<rparr>))" by blast
  show "IssuePrefetch ops w (mute s) r = bind_res (IssuePrefetch ops w s r) (\<lambda>(w, s). Inr (w, mute s))"
    unfolding i(2) by (simp add: IssuePrefetch_def bind_res_def split: sum.split)
  show "IssuePrefetch ops w s r = Inr (w', s') \<Longrightarrow> pf_idle good s'"
    unfolding i(2) using i(1) p(3) by (auto simp: bind_res_eq_Inr pf_idle_def)
qed

lemma after_idle:
  assumes "nv_pf ops = pf" "pf_idle good s"
  shows "after_issue ops r (w, mute s, ok) = bind_res (after_issue ops r (w, s, ok)) muted"
    and "after_issue ops r (w, s, ok) = Inr (w', s', ok') \<Longrightarrow> pf_idle good s'"
proof -
  show "after_issue ops r (w, mute s, ok) = bind_res (after_issue ops r (w, s, ok)) muted"
    by (cases "IssuePrefetch ops w s r")
      (auto simp: IssuePrefetch_idle(1) [OF assms] bind_res_def split: sum.split)
  show "after_issue ops r (w, s, ok) = Inr (w', s', ok') \<Longrightarrow> pf_idle good s'"
    using IssuePrefetch_idle(2) [OF assms] assms(2) by (auto elim!: bind_res_elim split: if_splits)
qed

lemma send_mute:
  assumes "nv_pf ops = pf" "pf_idle good s"
  shows "send_request ops c w (mute s) r = bind_res (send_request ops c w s r) muted"
proof (cases "w_req w r")
  case (Inr x)
  show ?thesis
  proof (cases "child_of ops s (rq_address x)")
    case c: (Inr si)
    obtain t i where t: "si = (t, i)" by (cases si)
    have idle: "pf_idle good t" using child_idle [OF c [unfolded t]] assms(2) by simp
    have "bind_res (bind_res (issue_to_child ops w t r) muted) (after_issue ops r) = bind_res (bind_res (issue_to_child ops w t r) (after_issue ops r)) muted"
      by (rule bind_muted) (use after_idle(1) [OF assms(1)] issue_idle idle in blast)
    then show ?thesis
      by (cases "controller t i"; cases "i = c") (simp_all add: send_request_def Inr c t child_mute issue_mute)
  qed (simp add: send_request_def Inr child_mute)
qed (simp add: send_request_def)

lemma send_idle:
  assumes "nv_pf ops = pf" "pf_idle good s" "send_request ops c w s r = Inr (w', s', ok)"
  shows "pf_idle good s'"
proof -
  obtain x :: NVMainRequest and s2 i w3 s3 ok3 where ch: "child_of ops s (rq_address x) = Inr (s2, i)" "issue_to_child ops w s2 r = Inr (w3, s3, ok3)"
    "after_issue ops r (w3, s3, ok3) = Inr (w', s', ok)"
    using assms(3) by (auto simp: send_request_def simp del: after_issue.simps elim!: bind_res_elim)
  have "pf_idle good s3" using issue_idle [OF ch(2)] child_idle [OF ch(1)] assms(2) by simp
  then show ?thesis using after_idle(2) [OF assms(1)] ch(3) by blast
qed

lemma IssueCommand_mute:
  assumes "nv_pf ops = pf" "pf_idle good s"
  shows "NVMain_IssueCommand ops w (mute s) r = bind_res (NVMain_IssueCommand ops w s r) muted"
    and "NVMain_IssueCommand ops w s r = Inr (w', s', ok) \<Longrightarrow> pf_idle good s'"
proof -
  have empty: "prefetchBuffer s = []" "prefetchBuffer (mute s) = []" using assms(2) by (simp_all add: pf_idle_def)
  show "NVMain_IssueCommand ops w (mute s) r = bind_res (NVMain_IssueCommand ops w s r) muted"
  proof (cases "nv_configured s")
    case True
    have "bind_res (bind_res (translate_request ops w s r) muted) (\<lambda>(w, s, c). send_request ops c w s r)
      = bind_res (bind_res (translate_request ops w s r) (\<lambda>(w, s, c). send_request ops c w s r)) muted"
      by (rule bind_muted) (unfold prod.case, rule send_mute [OF assms(1)], use translate_idle assms(2) in blast)
    then show ?thesis using True issue_unbuffered [OF _ empty(1)] issue_unbuffered [OF _ empty(2)] by (simp add: translate_mute)
  qed (simp add: NVMain_IssueCommand_def)
  show "NVMain_IssueCommand ops w s r = Inr (w', s', ok) \<Longrightarrow> pf_idle good s'"
  proof (cases "nv_configured s")
    case True
    assume "NVMain_IssueCommand ops w s r = Inr (w', s', ok)"
    then obtain w1 s1 c where "translate_request ops w s r = Inr (w1, s1, c)" "send_request ops c w1 s1 r = Inr (w', s', ok)"
      using True issue_unbuffered [OF _ empty(1)] by (auto elim!: bind_res_elim)
    then show "pf_idle good s'" using send_idle [OF assms(1)] translate_idle assms(2) by blast
  qed (use assms(2) in \<open>simp add: NVMain_IssueCommand_def\<close>)
qed

lemma IssueAtomic_mute:
  assumes "nv_pf ops = pf" "pf_idle good s"
  shows "NVMain_IssueAtomic ops w (mute s) r = bind_res (NVMain_IssueAtomic ops w s r) muted"
    and "NVMain_IssueAtomic ops w s r = Inr (w', s', ok) \<Longrightarrow> pf_idle good s'"
proof -
  let ?send = "\<lambda>w s c. bind_res (controller s c) (\<lambda>k. bind_res (ct_IssueAtomic ops w k r) (\<lambda>(w, k, ok).
      after_issue ops r (w, s\<lparr> memoryControllers := (memoryControllers s)[unat c := k] \<rparr>, ok)))"
  have unbuffered: "NVMain_IssueAtomic ops w t r = bind_res (translate_request ops w t r) (\<lambda>(w, s, c). ?send w s c)"
    if c: "nv_configured t" "prefetchBuffer t = []" for t
  proof (cases "translate_request ops w t r")
    case (Inr x)
    obtain w' t' c where x: "x = (w', t', c)" by (cases x) auto
    then obtain y where "prefetchBuffer t' = []" "w_req w' r = Inr y" using translated_alive Inr c(2) by fastforce
    then show ?thesis by (simp add: NVMain_IssueAtomic_def c Inr x CheckPrefetch_idle)
  qed (simp add: NVMain_IssueAtomic_def c)
  have send: "?send w (mute t) c = bind_res (?send w t c) muted" if t: "pf_idle good t" for w t c
  proof -
    have "after_issue ops r (w, (mute t)\<lparr> memoryControllers := cs \<rparr>, ok) = bind_res (after_issue ops r (w, t\<lparr> memoryControllers := cs \<rparr>, ok)) muted" for w cs ok
      using after_idle(1) [OF assms(1), of "t\<lparr> memoryControllers := cs \<rparr>"] t by simp
    then show ?thesis by (auto simp: bind_res_def simp del: after_issue.simps split: sum.splits)
  qed
  have empty: "prefetchBuffer s = []" "prefetchBuffer (mute s) = []" using assms(2) by (simp_all add: pf_idle_def)
  show "NVMain_IssueAtomic ops w (mute s) r = bind_res (NVMain_IssueAtomic ops w s r) muted"
  proof (cases "nv_configured s")
    case True
    have "bind_res (bind_res (translate_request ops w s r) muted) (\<lambda>(w, s, c). ?send w s c)
      = bind_res (bind_res (translate_request ops w s r) (\<lambda>(w, s, c). ?send w s c)) muted"
      by (rule bind_muted) (unfold prod.case, rule send, use translate_idle assms(2) in blast)
    then show ?thesis using True unbuffered [OF _ empty(1)] unbuffered [OF _ empty(2)] by (simp add: translate_mute)
  qed (simp add: NVMain_IssueAtomic_def)
  show "NVMain_IssueAtomic ops w s r = Inr (w', s', ok) \<Longrightarrow> pf_idle good s'"
  proof (cases "nv_configured s")
    case True
    assume "NVMain_IssueAtomic ops w s r = Inr (w', s', ok)"
    then obtain w1 s1 c k w2 k2 ok2 where "translate_request ops w s r = Inr (w1, s1, c)"
      "after_issue ops r (w2, s1\<lparr> memoryControllers := (memoryControllers s1)[unat c := k2] \<rparr>, ok2) = Inr (w', s', ok)"
      using True unbuffered [OF _ empty(1)] by (auto simp del: after_issue.simps elim!: bind_res_elim)
    then show "pf_idle good s'" using translate_idle assms(2) after_idle(2) [OF assms(1)] by (metis pf_idle_upd(2))
  qed (use assms(2) in \<open>simp add: NVMain_IssueAtomic_def\<close>)
qed


lemma retry_mute:
  assumes "nv_pf ops = pf" "pf_idle good s"
  shows "retry_pending ops w (mute s) = bind_res (retry_pending ops w s) (\<lambda>(w, s). Inr (w, mute s))"
    and "retry_pending ops w s = Inr (w', s') \<Longrightarrow> pf_idle good s'"
proof -
  have "retry_pending ops w (mute s) = bind_res (retry_pending ops w s) (\<lambda>(w, s). Inr (w, mute s))
    \<and> (retry_pending ops w s = Inr (w', s') \<longrightarrow> pf_idle good s')"
  proof (cases "pendingMemoryRequests s")
    case (Cons q qs)
    show ?thesis
    proof (cases "NVMain_IsIssuable ops w s q")
      case (Inr x)
      obtain t ok where x: "x = (t, ok)" by (cases x)
      have idle: "pf_idle good t" using Inr x assms(2) by (auto simp: NVMain_IsIssuable_def decode_def elim!: bind_res_elim)
      note issue = IssueCommand_mute [OF assms(1) idle, of w q]
      show ?thesis
      proof (cases ok)
        case True
        then show ?thesis
          by (cases "NVMain_IssueCommand ops w t q") (auto simp: retry_pending_def Cons Inr x issuable_mute issue(1) dest: issue(2))
      qed (use idle in \<open>auto simp: retry_pending_def Cons Inr x issuable_mute\<close>)
    qed (simp add: retry_pending_def Cons issuable_mute)
  qed (use assms(2) in \<open>auto simp: retry_pending_def\<close>)
  then show "retry_pending ops w (mute s) = bind_res (retry_pending ops w s) (\<lambda>(w, s). Inr (w, mute s))"
    and "retry_pending ops w s = Inr (w', s') \<Longrightarrow> pf_idle good s'" by blast+
qed

end

lemma complete_mute:
  assumes "\<not> own_prefetch w s r"
  shows "complete_request ops w (mute s) r = bind_res (complete_request ops w s r) muted"
    and "complete_request ops w s r = Inr (w', s', rv) \<Longrightarrow> s' = s"
proof -
  have n: "w_req w r = Inr x \<Longrightarrow> rq_owner x = nv_this s \<Longrightarrow> \<not> rq_isPrefetch x" for x
    using assms by (auto simp: own_prefetch_def w_req_def split: option.splits)
  show "complete_request ops w (mute s) r = bind_res (complete_request ops w s r) muted"
    using n by (auto simp: complete_request_def bind_res_def split: sum.split)
  show "complete_request ops w s r = Inr (w', s', rv) \<Longrightarrow> s' = s"
    using n by (auto simp: complete_request_def elim!: bind_res_elim split: if_splits)
qed

definition no_prefetcher :: "unit prefetcher" where
  "no_prefetcher = \<lparr> pf_NotifyAccess = Prefetcher_NotifyAccess, pf_DoPrefetch = Prefetcher_DoPrefetch \<rparr>"

interpretation none: silent_prefetcher no_prefetcher "\<lambda>_. True"
  by unfold_locales (simp add: no_prefetcher_def Prefetcher_DoPrefetch_def)

interpretation stems_silent: silent_prefetcher "stems junk" "\<lambda>p. seq_ok junk \<and> stems_ok p"
  by unfold_locales (use DoPrefetch_total in \<open>fastforce simp: stems_def\<close>)

end
