(* ===== verification/Nvm_FrontEndProps.thy ===== *)
theory Nvm_FrontEndProps
  imports Nvm_FrontEndRuns Nvm_FRFCFS
begin

text \<open>
  The properties of a memory: what it decodes addresses to, what its prefetchers do, and what becomes of prefetch hits; with
  \<open>FRFCFS\<close> controllers as the example.
\<close>

section \<open>STeMS\<close>

text \<open>The calls a memory gets from its parent and its children.\<close>

datatype nv_call = Issue nat | Atomic nat | Complete nat | Pend nat

fun nv_do :: "('d, 'p, 'c) nv_ops \<Rightarrow> nv_call \<Rightarrow> world \<Rightarrow> ('d, 'p, 'c) NVMain \<Rightarrow> nvm_error + world \<times> ('d, 'p, 'c) NVMain \<times> bool" where
  "nv_do ops (Issue r) w s = NVMain_IssueCommand ops w s r"
| "nv_do ops (Atomic r) w s = NVMain_IssueAtomic ops w s r"
| "nv_do ops (Complete r) w s = NVMain_RequestComplete ops w s r"
| "nv_do ops (Pend r) w s = Inr (w, EnqueuePendingMemoryRequests s r, True)"

text \<open>C14: the prefetcher \<^verbatim>\<open>STeMS\<close> never prefetches. Whatever it has learned, its \<^verbatim>\<open>DoPrefetch\<close> answers no, so no prefetch is
  issued, the prefetch buffer stays empty and \<^verbatim>\<open>NotifyAccess\<close> is never called. Every call of a memory with this
  prefetcher and an empty buffer does and answers the same as without a prefetcher, errors included, as long as no prefetch of
  its own comes back, and it issues none.\<close>

theorem STeMS_never_heard:
  assumes "nv_pf ops = stems junk" "seq_ok junk" "prefetcher s = Some p" "stems_ok p" "prefetchBuffer s = []"
    and "\<And>r. call = Complete r \<Longrightarrow> \<not> own_prefetch w s r"
  shows "nv_do ops call w (s\<lparr> prefetcher := None \<rparr>)
      = bind_res (nv_do ops call w s) (\<lambda>(w', s', answer). Inr (w', s'\<lparr> prefetcher := None \<rparr>, answer))
    \<and> (\<forall>w' s' answer. nv_do ops call w s = Inr (w', s', answer) \<longrightarrow>
        prefetchBuffer s' = [] \<and> (\<exists>p'. prefetcher s' = Some p' \<and> stems_ok p'))"
proof -
  let ?good = "\<lambda>p. seq_ok junk \<and> stems_ok p"
  have idle: "pf_idle ?good s" using assms(2-5) by (simp add: pf_idle_def)
  have m: "(\<lambda>(w', s', answer). Inr (w', s'\<lparr> prefetcher := None \<rparr>, answer)) = muted" by (auto simp: fun_eq_iff mute_def)
  have "nv_do ops call w (mute s) = bind_res (nv_do ops call w s) muted
    \<and> (\<forall>w' s' answer. nv_do ops call w s = Inr (w', s', answer) \<longrightarrow> pf_idle ?good s')"
  proof (cases call)
    case (Complete r)
    have no: "\<not> own_prefetch w s r" using assms(6) Complete by blast
    show ?thesis
    proof (cases "complete_request ops w s r")
      case (Inr x)
      obtain w1 rv where x: "x = (w1, s, rv)" using complete_mute(2) [OF no] Inr by (cases x) blast
      note retry = stems_silent.retry_mute [OF assms(1) idle, of w1]
      show ?thesis
        by (cases "retry_pending ops w1 s")
          (auto simp: Complete NVMain_RequestComplete_def complete_mute(1) [OF no] Inr x retry(1) dest: retry(2))
    qed (simp add: Complete NVMain_RequestComplete_def complete_mute(1) [OF no])
  next
    case (Pend r)
    then show ?thesis using idle by (auto simp: EnqueuePendingMemoryRequests_def)
  qed (use stems_silent.IssueCommand_mute [OF assms(1) idle] stems_silent.IssueAtomic_mute [OF assms(1) idle] in auto)
  then show ?thesis unfolding m by (auto simp: mute_def pf_idle_def)
qed

text \<open>C18: the accesses of \<^verbatim>\<open>STeMS\<close> stay inside its arrays. The sequences in training have 1 to 7 offsets, the learned ones and
  the reconstruction buffers 8 to 16; this holds from the start, and both functions keep it and end without an access past
  the 16 elements of an array. \<^verbatim>\<open>DoPrefetch\<close> always answers no.\<close>

theorem STeMS_stays_in_arrays:
  assumes "s = STeMS_init \<or> stems_ok s" "seq_ok junk"
  shows "(\<exists>s' l'. STeMS_DoPrefetch junk s x l = Inr (s', l', False) \<and> stems_ok s')
    \<and> (\<exists>s' l' ok. STeMS_NotifyAccess s x l = Inr (s', l', ok) \<and> stems_ok s')"
proof -
  have "stems_ok STeMS_init" by (simp add: stems_ok_def STeMS_init_def omap_wf_def)
  then have "stems_ok s" using assms(1) by blast
  then show ?thesis using DoPrefetch_total [OF _ assms(2)] NotifyAccess_total by blast
qed

section \<open>Decoding\<close>

text \<open>The decoder of a memory without migration; \<open>garbage\<close> are the uninitialised coordinates of the caller.\<close>

definition plain_Translate :: "partition_vals \<Rightarrow> AddressTranslator \<Rightarrow> u64 \<Rightarrow> nvm_error + AddressTranslator \<times> partition_vals" where
  "plain_Translate garbage d address = Translate d address garbage"

definition dimension :: "NVMainParams \<Rightarrow> u64 \<Rightarrow> u64 \<Rightarrow> MemoryPartition \<Rightarrow> u64" where
  "dimension p rows subarrays part =
     (case part of MEM_ROW \<Rightarrow> rows | MEM_COL \<Rightarrow> np_COLS p | MEM_BANK \<Rightarrow> np_BANKS p | MEM_RANK \<Rightarrow> np_RANKS p
      | MEM_CHANNEL \<Rightarrow> np_CHANNELS p | MEM_SUBARRAY \<Rightarrow> subarrays | MEM_UNKNOWN \<Rightarrow> 0)"

lemma bits_of_bound:
  assumes "0 < n" "unat n < 2 ^ 31"
  shows "2 ^ bits_of n \<le> unat n" "bits_of n < 64"
proof -
  have i: "to_int32 n = int (unat n)" by (rule to_int32_small [OF assms(2)])
  have "1 \<le> unat n" using assms(1) by (simp add: word_less_nat_alt)
  then have "int 1 \<le> int (unat n)" by (simp only: of_nat_le_iff)
  then have "1 \<le> int (unat n)" by (simp only: of_nat_1)
  then have "2 ^ nat (mlog2 (int (unat n))) \<le> int (unat n)" using mlog2_spec by blast
  then have "int (2 ^ bits_of n) \<le> int (unat n)" by (simp add: bits_of_def i)
  then show b: "2 ^ bits_of n \<le> unat n" by (simp only: of_nat_le_iff)
  show "bits_of n < 64"
  proof (rule ccontr)
    assume "\<not> bits_of n < 64"
    then have "(2 ^ 31 :: nat) \<le> 2 ^ bits_of n" by (intro power_increasing) auto
    then show False using b assms(2) by simp
  qed
qed

lemma sum_bits_bound:
  fixes f g :: "'p \<Rightarrow> nat"
  assumes "list_all (\<lambda>p. 2 ^ f p \<le> g p) ps" "prod_list (map g ps) \<le> 2 ^ (58 :: nat)"
  shows "sum_list (map f ps) \<le> (58 :: nat)"
proof -
  have "2 ^ sum_list (map f ps) \<le> (prod_list (map g ps) :: nat)" using assms(1) by (induction ps) (auto simp: power_add mult_le_mono)
  then have "(2::nat) ^ sum_list (map f ps) \<le> 2 ^ 58" using assms(2) by (rule order_trans)
  then show ?thesis by (rule power_le_imp_le_exp [rotated]) simp
qed

text \<open>The method a configuration sets up.\<close>

lemma configured_method:
  assumes "row_dimensions p = Inr (rows, subarrays)"
    and "length (np_AddressMappingScheme p) < 16"
      "map scheme_token (strtok_colon [] (np_AddressMappingScheme p)) = map Some ps" "distinct ps"
  obtains m where "NVMain_method p garbage = Inr m" "order_ok m"
    "\<And>q. q \<in> set parts \<Longrightarrow> bitWidths m q = bits_of (dimension p rows subarrays q)"
proof -
  define m0 where "m0 = SetCount (SetBitWidths (TranslationMethod_init garbage) (bits_of rows) (bits_of (np_COLS p)) (bits_of (np_BANKS p))
      (bits_of (np_RANKS p)) (bits_of (np_CHANNELS p)) (bits_of subarrays)) (of_int (to_int32 rows)) (of_int (to_int32 (np_COLS p)))
      (of_int (to_int32 (np_BANKS p))) (of_int (to_int32 (np_RANKS p))) (of_int (to_int32 (np_CHANNELS p))) (of_int (to_int32 subarrays))"
  obtain m where "SetAddressMappingScheme m0 (np_AddressMappingScheme p) = Inr m" "order_ok m" "bitWidths m = bitWidths m0"
    using scheme_order_aux [OF assms(2-4), of m0] by blast
  moreover have "NVMain_method p garbage = SetAddressMappingScheme m0 (np_AddressMappingScheme p)"
    by (simp add: NVMain_method_def assms(1) Let_def m0_def)
  moreover have "bitWidths m0 q = bits_of (dimension p rows subarrays q)" if "q \<in> set parts" for q
    using that by (auto simp: m0_def SetCount_def SetBitWidths_def dimension_def)
  ultimately show ?thesis using that by metis
qed

lemma plain_decoder_offset: "offset_bits (plain_decoder m f) = 6" "at_method (plain_decoder m f) = Some m"
  by (simp_all add: offset_bits_def calc_lowColBits_def plain_decoder_def SetDefaultField_def SetTranslationMethod_def AddressTranslator_init_def
      mlog2_8 mlog2_64)

lemma configured_decoder:
  assumes "row_dimensions p = Inr (rows, subarrays)"
    and "length (np_AddressMappingScheme p) < 16"
      "map scheme_token (strtok_colon [] (np_AddressMappingScheme p)) = map Some ps" "distinct ps"
    and dims: "\<And>q. q \<in> set parts \<Longrightarrow> 0 < dimension p rows subarrays q \<and> unat (dimension p rows subarrays q) < 2 ^ 31"
    and room: "prod_list (map (\<lambda>q. unat (dimension p rows subarrays q)) parts) \<le> 2 ^ 58"
  obtains m where "NVMain_method p garbage = Inr m" "translator_ok (plain_decoder m f)"
    "\<And>q. q \<in> set parts \<Longrightarrow> 2 ^ bitWidths m q \<le> unat (dimension p rows subarrays q)"
proof -
  obtain m where m: "NVMain_method p garbage = Inr m" "order_ok m"
    "\<And>q. q \<in> set parts \<Longrightarrow> bitWidths m q = bits_of (dimension p rows subarrays q)"
    using configured_method [OF assms(1-4), of garbage] by blast
  have w: "2 ^ bitWidths m q \<le> unat (dimension p rows subarrays q)" "bitWidths m q < 64" if "q \<in> set parts" for q
    using bits_of_bound [of "dimension p rows subarrays q"] dims [OF that] m(3) [OF that] by simp_all
  have "list_all (\<lambda>q. 2 ^ bitWidths m q \<le> unat (dimension p rows subarrays q)) parts" using w(1) by (simp only: list_all_iff) blast
  from sum_bits_bound [OF this room] have "total_width m \<le> 58" by (simp only: total_width_def)
  moreover have "list_all (\<lambda>q. bitWidths m q < 64) parts" using w(2) by (simp only: list_all_iff) blast
  ultimately have "translator_ok (plain_decoder m f)"
    using m(2) by (simp add: translator_ok_def plain_decoder_offset)
  then show ?thesis using that m(1) w(1) by blast
qed

text \<open>C15: a configured memory decodes every address into itself. When the dimensions are positive \<^verbatim>\<open>int\<close>s, the memory has at most
  2^58 bursts and the mapping scheme names known partitions at most once, decoding an address never fails, every
  coordinate is below its dimension, whether or not that is a power of two, and the channel has a controller.\<close>

theorem NVMain_decodes_inside:
  assumes "NVMain_SetConfig s p garbage plain_decoder new_controller pf = Inr t" "nv_Translate ops = plain_Translate g"
    and "row_dimensions p = Inr (rows, subarrays)"
    and "length (np_AddressMappingScheme p) < 16"
      "map scheme_token (strtok_colon [] (np_AddressMappingScheme p)) = map Some ps" "distinct ps"
    and dims: "\<forall>q \<in> set parts. 0 < dimension p rows subarrays q \<and> unat (dimension p rows subarrays q) < 2 ^ 31"
    and room: "prod_list (map (\<lambda>q. unat (dimension p rows subarrays q)) parts) \<le> 2 ^ 58"
  shows "\<exists>t' v. decode ops t address = Inr (t', v) \<and> (\<forall>q \<in> set parts. v q < dimension p rows subarrays q)
    \<and> unat (v MEM_CHANNEL) < length (memoryControllers t') \<and> memoryControllers t' = memoryControllers t"
proof -
  obtain m where m: "NVMain_method p garbage = Inr m" "translator_ok (plain_decoder m CHANNEL_FIELD)"
    "\<And>q. q \<in> set parts \<Longrightarrow> 2 ^ bitWidths m q \<le> unat (dimension p rows subarrays q)"
    using configured_decoder [OF assms(3-6) bspec [OF dims] room, of garbage CHANNEL_FIELD] by blast
  have t: "nv_decoder t = plain_decoder m CHANNEL_FIELD" "length (memoryControllers t) = nat (to_int32 (np_CHANNELS p))"
    using assms(1) m(1) by (auto simp: NVMain_SetConfig_def)
  have mc: "dimension p rows subarrays MEM_CHANNEL = np_CHANNELS p" by (simp add: dimension_def)
  have len: "length (memoryControllers t) = unat (np_CHANNELS p)"
    using bspec [OF dims, of MEM_CHANNEL] to_int32_small [of "np_CHANNELS p"] by (simp add: t(2) mc)
  have ok: "translator_ok (nv_decoder t)" and at: "at_method (nv_decoder t) = Some m" using m(2) by (simp_all add: t(1) plain_decoder_offset)
  obtain v where v: "Translate (nv_decoder t) address g = Inr ((nv_decoder t)\<lparr> lowColBits := snd (calc_lowColBits (nv_decoder t)) \<rparr>, v)"
    "\<And>q. q \<in> set parts \<Longrightarrow> unat (v q) = digit (bitWidths m) (map (FindOrder m) [0, 1, 2, 3, 4, 5]) (unat address div 2 ^ offset_bits (nv_decoder t)) q"
    by (rule Translate_spec [OF ok at, of address g]) (rule that)
  have om: "order_ok m" using m(2) by (auto simp: translator_ok_def plain_decoder_offset)
  have less: "unat (v q) < unat (dimension p rows subarrays q)" if q: "q \<in> set parts" for q
  proof -
    have q': "q \<in> set (map (FindOrder m) [0, 1, 2, 3, 4, 5])" using q by (simp only: FindOrder_perm(2) [OF om])
    show ?thesis unfolding v(2) [OF q] by (rule less_le_trans [OF digit_cong [OF q', of "bitWidths m"] m(3) [OF q]])
  qed
  then have inside: "\<forall>q \<in> set parts. v q < dimension p rows subarrays q" by (simp only: word_less_nat_alt) blast
  have "decode ops t address = Inr (t\<lparr> nv_decoder := (nv_decoder t)\<lparr> lowColBits := snd (calc_lowColBits (nv_decoder t)) \<rparr> \<rparr>, v)"
    by (simp add: decode_def assms(2) plain_Translate_def v(1))
  moreover have "unat (v MEM_CHANNEL) < length (memoryControllers t)" using less [of MEM_CHANNEL] by (simp add: len mc)
  ultimately show ?thesis using inside
    by (intro exI conjI) (assumption | simp)+
qed

section \<open>Prefetch hits\<close>

lemma find_prefetch_hit:
  assumes "\<forall>c \<in> set bs. w_heap w c \<noteq> None" "b \<in> set bs" "w_heap w b = Some y" "physicalAddress (rq_address y) = a"
  shows "\<exists>b' \<in> set bs. find_prefetch w a bs = Inr (Some b')"
  using assms by (induction bs) (auto simp: w_req_def split: option.splits)

lemma find_prefetch_cong:
  assumes "\<And>c. map_option (\<lambda>y. physicalAddress (rq_address y)) (w_heap w c) = map_option (\<lambda>y. physicalAddress (rq_address y)) (w_heap w' c)"
  shows "find_prefetch w a bs = find_prefetch w' a bs"
proof (induction bs)
  case (Cons b bs)
  show ?case using assms [of b] Cons by (cases "w_heap w b"; cases "w_heap w' b") (simp_all add: w_req_def)
qed simp

lemma translated_to_physical [simp]: "physicalAddress (translated_to v a) = physicalAddress a" "translated (translated_to v a)"
  "na_channel (translated_to v a) = v MEM_CHANNEL"
  by (simp_all add: translated_to_def SetTranslatedAddress_def)

text \<open>C16: a write that meets its address in the prefetch buffer is lost. The buffer is asked for writes as for reads: the write is
  answered in the next cycle as if it were served, the prefetched read is thrown away, no controller is given the write, and it
  is not counted.\<close>

theorem prefetched_write_is_lost:
  assumes "nv_configured s" "w_heap w r = Some x" "rq_type x = WRITE" "decode ops s (physicalAddress (rq_address x)) = Inr (s1, v)"
    and "nv_pf ops = naive" "prefetcher s = Some p" "find_hook (nv_hooks s) (nv_this s) = Some hook"
    and "\<forall>c \<in> set (prefetchBuffer s). w_heap w c \<noteq> None"
    and "b \<in> set (prefetchBuffer s)" "w_heap w b = Some y" "physicalAddress (rq_address y) = physicalAddress (rq_address x)"
  shows "\<exists>w' s' b'. NVMain_IssueCommand ops w s r = Inr (w', s', True) \<and> memoryControllers s' = memoryControllers s
    \<and> b' \<in> set (prefetchBuffer s) \<and> prefetchBuffer s' = removeAll b' (prefetchBuffer s)
    \<and> totalWriteRequests s' = totalWriteRequests s
    \<and> w_queue w' = InsertEvent_hook (w_queue w) (w_fresh w) EventResponse (Some hook) (Some r) (w_now w + 1) None 0"
proof -
  let ?x = "x\<lparr> rq_address := translated_to v (rq_address x) \<rparr>"
  let ?w = "w_set w r ?x"
  obtain d where "s1 = s\<lparr> nv_decoder := d \<rparr>" using assms(4) by (auto simp: decode_def bind_res_eq_Inr)
  then have f: "prefetchBuffer s1 = prefetchBuffer s" "memoryControllers s1 = memoryControllers s" "totalWriteRequests s1 = totalWriteRequests s"
    "prefetcher s1 = prefetcher s" "nv_hooks s1 = nv_hooks s" "nv_this s1 = nv_this s" by simp_all
  obtain b' where b': "b' \<in> set (prefetchBuffer s)" "find_prefetch w (physicalAddress (rq_address x)) (prefetchBuffer s) = Inr (Some b')"
    using find_prefetch_hit [OF assms(8-11)] by blast
  have tr: "translate_request ops w s r = Inr (?w, s1, v MEM_CHANNEL)"
    by (simp add: translate_request_def w_req_def assms(2,4))
  have "find_prefetch ?w a bs = find_prefetch w a bs" for a bs
    by (rule find_prefetch_cong) (simp add: w_set_def assms(2))
  moreover have "w_req ?w r = Inr ?x" by (simp add: w_req_def w_set_def)
  ultimately have "CheckPrefetch ops ?w s1 r = Inr (?w\<lparr> w_heap := (w_heap ?w)(b' := None) \<rparr>,
      s1\<lparr> prefetcher := Some p, successfulPrefetches := successfulPrefetches s1 + 1, prefetchBuffer := removeAll b' (prefetchBuffer s) \<rparr>, True)"
    using b'(2) by (simp add: CheckPrefetch_def f assms(5,6) naive_def Prefetcher_NotifyAccess_def)
  then show ?thesis
    using assms(7) b'(1) by (auto simp add: NVMain_IssueCommand_def assms(1) tr respond_next_def InsertEvent_object_def f w_set_def)
qed

section \<open>Where prefetches go\<close>

lemma translate_frame:
  assumes "translate_request ops w s r = Inr (w', s', c)"
  shows "memoryControllers s' = memoryControllers s" "w_fresh w' = w_fresh w" "q \<noteq> r \<Longrightarrow> w_heap w' q = w_heap w q"
  using assms by (auto simp: translate_request_def decode_def w_set_def elim!: bind_res_elim)

lemma issue_frame:
  assumes "issue_to_child ops w s r = Inr (w', s', ok)" "\<forall>d. nv_field ops d = CHANNEL_FIELD" "w_heap w r = Some x" "translated (rq_address x)"
  shows "length (memoryControllers s') = length (memoryControllers s)"
    "i \<noteq> unat (na_channel (rq_address x)) \<Longrightarrow> memoryControllers s' ! i = memoryControllers s ! i"
  using assms by (auto simp: issue_to_child_def w_req_def child_of_def select_field_def address_vals_def elim!: bind_res_elim)

definition allocates_fresh :: "('d, 'p, 'c) nv_ops \<Rightarrow> bool" where
  "allocates_fresh ops \<longleftrightarrow> (\<forall>w c q w' c' ok. ct_IssueCommand ops w c q = Inr (w', c', ok) \<longrightarrow> w_fresh w \<le> w_fresh w')"

lemma issue_fresh:
  assumes "allocates_fresh ops" "issue_to_child ops w s r = Inr (w', s', ok)"
  shows "w_fresh w \<le> w_fresh w'"
  using assms(2) assms(1) [unfolded allocates_fresh_def, rule_format] by (auto simp: issue_to_child_def elim!: bind_res_elim)

lemma generate_frame:
  assumes "generate_prefetch ops r a (w, s) = Inr (w', s')" "allocates_fresh ops" "\<forall>d. nv_field ops d = CHANNEL_FIELD" "translated a" "r < w_fresh w"
  shows "length (memoryControllers s') = length (memoryControllers s)" "r < w_fresh w'"
    "i \<noteq> unat (na_channel a) \<Longrightarrow> memoryControllers s' ! i = memoryControllers s ! i"
proof -
  obtain x w1 s1 c ok where t: "translate_request ops (w_set (w\<lparr> w_fresh := Suc (w_fresh w) \<rparr>) (w_fresh w)
      ((copy_request (w_fresh w) x)\<lparr> rq_address := a, rq_isPrefetch := True, rq_owner := nv_this s \<rparr>)) s r = Inr (w1, s1, c)"
    and i: "issue_to_child ops w1 s1 (w_fresh w) = Inr (w', s', ok)"
    using assms(1) by (auto simp: Let_def elim!: bind_res_elim)
  let ?y = "(copy_request (w_fresh w) x)\<lparr> rq_address := a, rq_isPrefetch := True, rq_owner := nv_this s \<rparr>"
  have h: "w_heap w1 (w_fresh w) = Some ?y" using translate_frame(3) [OF t, of "w_fresh w"] assms(5) by (simp add: w_set_def)
  have a: "rq_address ?y = a" "translated (rq_address ?y)" using assms(4) by simp_all
  note f = issue_frame [OF i assms(3) h a(2)]
  show "length (memoryControllers s') = length (memoryControllers s)" using f(1) translate_frame(1) [OF t] by simp
  show "memoryControllers s' ! i = memoryControllers s ! i" if "i \<noteq> unat (na_channel a)"
    using f(2) translate_frame(1) [OF t] that a(1) by simp
  show "r < w_fresh w'" using issue_fresh [OF assms(2) i] translate_frame(2) [OF t] assms(5) by (simp add: w_set_def)
qed

lemma GeneratePrefetches_frame:
  assumes "GeneratePrefetches ops r l (w, s) = Inr (w', s')" "allocates_fresh ops" "\<forall>d. nv_field ops d = CHANNEL_FIELD"
    and "\<forall>a \<in> set l. translated a \<and> na_channel a = c" "r < w_fresh w"
  shows "length (memoryControllers s') = length (memoryControllers s) \<and> (\<forall>i. i \<noteq> unat c \<longrightarrow> memoryControllers s' ! i = memoryControllers s ! i)"
  using assms(1,4,5) unfolding GeneratePrefetches_def
proof (induction l arbitrary: w s)
  case (Cons a l)
  obtain w1 s1 where g: "generate_prefetch ops r a (w, s) = Inr (w1, s1)" "fold_res (generate_prefetch ops r) l (w1, s1) = Inr (w', s')"
    using Cons.prems(1) by (auto simp del: generate_prefetch.simps elim!: bind_res_elim)
  have a: "translated a" "na_channel a = c" using Cons.prems(2) by simp_all
  note f = generate_frame [OF g(1) assms(2,3) a(1) Cons.prems(3)]
  show ?case using Cons.IH [OF g(2) _ f(2)] Cons.prems(2) f(1,3) a(2) by auto
qed simp

text \<open>C17: the naive prefetcher only ever prefetches from the channel of the trigger. Its three addresses keep the translated
  coordinates of the trigger, and \<^verbatim>\<open>GeneratePrefetches\<close> translates the trigger again instead of the prefetch, so \<^verbatim>\<open>GetChild\<close>
  takes the channel of the trigger for all of them, whatever channel their lines are in. The other controllers see nothing.\<close>

theorem naive_prefetches_one_channel:
  assumes "IssuePrefetch ops w s r = Inr (w', s')" "nv_pf ops = naive" "\<forall>d. nv_field ops d = CHANNEL_FIELD" "allocates_fresh ops"
    and "w_heap w r = Some x" "translated (rq_address x)" "r < w_fresh w"
  shows "length (memoryControllers s') = length (memoryControllers s)
    \<and> (\<forall>i. i \<noteq> unat (na_channel (rq_address x)) \<longrightarrow> memoryControllers s' ! i = memoryControllers s ! i)"
proof (cases "\<exists>p. prefetcher s = Some p \<and> rq_type x = READ \<and> \<not> rq_isPrefetch x")
  case True
  then obtain p where p: "prefetcher s = Some p" "rq_type x = READ" "\<not> rq_isPrefetch x" by blast
  have g: "GeneratePrefetches ops r (map (next_line (rq_address x)) [1, 2, 3]) (w, s\<lparr> prefetcher := Some p \<rparr>) = Inr (w', s')"
    using assms(1) p by (simp add: IssuePrefetch_def w_req_def assms(2,5) naive_def Naive_DoPrefetch_def Let_def)
  have "\<forall>a \<in> set (map (next_line (rq_address x)) [1, 2, 3]). translated a \<and> na_channel a = na_channel (rq_address x)"
    using assms(6) by (simp add: next_line_def SetPhysicalAddress_def)
  from GeneratePrefetches_frame [OF g assms(4,3) this] show ?thesis using assms(7) by simp
next
  case False
  then show ?thesis using assms(1) by (auto simp: IssuePrefetch_def w_req_def assms(5) split: option.splits if_splits)
qed

section \<open>FRFCFS controllers\<close>

text \<open>The controllers of \<open>FRFCFS\<close>, with their event queue and their allocations in the world and their request in the heap.\<close>

definition in_world :: "world \<Rightarrow> 'c FRFCFS \<Rightarrow> 'c FRFCFS" where
  "in_world w c = c\<lparr> fr_mc := (fr_mc c)\<lparr> mc_queue := w_queue w, mc_fresh := w_fresh w \<rparr> \<rparr>"

definition frfcfs_issue :: "world \<Rightarrow> 'c FRFCFS \<Rightarrow> nat \<Rightarrow> nvm_error + world \<times> 'c FRFCFS \<times> bool" where
  "frfcfs_issue w c r =
     bind_res (w_req w r) (\<lambda>x. bind_res (FRFCFS_IssueCommand (\<lambda>_. 7) (in_world w c) x) (\<lambda>(c, ok).
     let w = w\<lparr> w_queue := mc_queue (fr_mc c), w_fresh := mc_fresh (fr_mc c) \<rparr>
     in Inr (if ok then w_set w r (last (memQueue c)) else w, c, ok)))"

definition frfcfs_cycle :: "'c child \<Rightarrow> world \<Rightarrow> 'c FRFCFS \<Rightarrow> ncycle_t \<Rightarrow> nvm_error + world \<times> 'c FRFCFS" where
  "frfcfs_cycle ch w c n =
     bind_res (FRFCFS_Cycle ch (in_world w c) n) (\<lambda>c. Inr (w\<lparr> w_queue := mc_queue (fr_mc c), w_fresh := mc_fresh (fr_mc c) \<rparr>, c))"

definition frfcfs_ops :: "'p prefetcher \<Rightarrow> 'c child \<Rightarrow> (AddressTranslator, 'p, 'c FRFCFS) nv_ops" where
  "frfcfs_ops pf ch =
     \<lparr> nv_Translate = plain_Translate (\<lambda>_. 7), nv_field = (\<lambda>_. CHANNEL_FIELD), nv_pf = pf, ct_IsIssuable = (\<lambda>w c r. Inr (FRFCFS_IsIssuable c)),
       ct_IssueCommand = frfcfs_issue, ct_IssueAtomic = (\<lambda>w c r. Inr (w, c, True)), ct_Cycle = frfcfs_cycle ch, nv_up = (\<lambda>w r. Inr (w, True)) \<rparr>"

lemma enqueue_fresh: "Enqueue g m q x = Inr m' \<Longrightarrow> mc_fresh m \<le> mc_fresh m'"
  by (auto simp: Enqueue_def enqueue_wake_def insert_cycle_def Let_def elim!: bind_res_elim split: if_splits)

lemma frfcfs_allocates: "allocates_fresh (frfcfs_ops pf ch)"
  by (auto simp: allocates_fresh_def frfcfs_ops_def frfcfs_issue_def FRFCFS_IssueCommand_def in_world_def w_set_def Let_def
      elim!: bind_res_elim dest!: enqueue_fresh split: if_splits)

section \<open>Examples\<close>

text \<open>Three channels, the channel in the lowest bits above the offset.\<close>

definition nv_params :: NVMainParams where
  "nv_params = \<lparr> np_MATHeight = None, np_ROWS = 1024, np_COLS = 16, np_BANKS = 8, np_RANKS = 2, np_CHANNELS = 3,
     np_AddressMappingScheme = ''R:RK:BK:C:CH'', np_PrefetchBufferSize = 4, np_EventDriven = True \<rparr>"

definition nv_new :: "'p option \<Rightarrow> nvm_error + (AddressTranslator, 'p, unit FRFCFS) NVMain" where
  "nv_new pf = NVMain_SetConfig (NVMain_init 50 [(51, 50)] AddressTranslator_init) nv_params (\<lambda>_. 0) plain_decoder (\<lambda>_. FRFCFS_init example_mc) pf"

definition nv_example :: "'p option \<Rightarrow> (AddressTranslator, 'p, unit FRFCFS) NVMain" where
  "nv_example pf = (case nv_new pf of Inr s \<Rightarrow> s | Inl _ \<Rightarrow> NVMain_init 50 [(51, 50)] AddressTranslator_init)"

lemma nv_scheme: "map scheme_token (strtok_colon [] ''R:RK:BK:C:CH'') = map Some [MEM_ROW, MEM_RANK, MEM_BANK, MEM_COL, MEM_CHANNEL]"
  by (simp add: scheme_token_def)

lemma nv_dims: "q \<in> set parts \<Longrightarrow> 0 < dimension nv_params 1024 1 q \<and> unat (dimension nv_params 1024 1 q) < 2 ^ 31"
  by (auto simp: dimension_def nv_params_def)

lemma nv_rows: "row_dimensions nv_params = Inr (1024, 1)"
  by (simp add: row_dimensions_def nv_params_def)

lemma nv_sch: "length (np_AddressMappingScheme nv_params) < 16"
    "map scheme_token (strtok_colon [] (np_AddressMappingScheme nv_params)) = map Some [MEM_ROW, MEM_RANK, MEM_BANK, MEM_COL, MEM_CHANNEL]"
    "distinct [MEM_ROW, MEM_RANK, MEM_BANK, MEM_COL, MEM_CHANNEL]"
  using nv_scheme by (simp_all add: nv_params_def)

lemma nv_configured: "nv_new pf = Inr (nv_example pf)"
proof -
  obtain m where "NVMain_method nv_params (\<lambda>_. 0) = Inr m"
    by (rule configured_method [OF nv_rows nv_sch]) (rule that)
  then show ?thesis by (simp add: nv_example_def nv_new_def NVMain_SetConfig_def)
qed

theorem NVMain_decodes_inside_witness:
  "\<exists>t' v. decode (frfcfs_ops naive example_child) (nv_example (None :: unit option)) 123456789 = Inr (t', v) \<and> v MEM_CHANNEL < 3 \<and> v MEM_ROW < 1024
     \<and> unat (v MEM_CHANNEL) < length (memoryControllers t')"
proof -
  have room: "prod_list (map (\<lambda>q. unat (dimension nv_params 1024 1 q)) parts) \<le> 2 ^ 58" by (simp add: dimension_def nv_params_def)
  have ops: "nv_Translate (frfcfs_ops naive example_child) = plain_Translate (\<lambda>_. 7)" by (simp add: frfcfs_ops_def)
  obtain t' v where v: "decode (frfcfs_ops naive example_child) (nv_example (None :: unit option)) 123456789 = Inr (t', v)"
    "\<forall>q \<in> set parts. v q < dimension nv_params 1024 1 q" "unat (v MEM_CHANNEL) < length (memoryControllers t')"
    using NVMain_decodes_inside [OF nv_configured [of "None :: unit option", unfolded nv_new_def] ops nv_rows nv_sch _ room, of 123456789] nv_dims by blast
  have "v MEM_CHANNEL < 3" "v MEM_ROW < 1024"
    using v(2) [rule_format, of MEM_CHANNEL] v(2) [rule_format, of MEM_ROW] by (simp_all add: dimension_def nv_params_def)
  then show ?thesis using v by blast
qed

text \<open>A read and a write of address 0 and a prefetched read of it in the buffer.\<close>

definition nv_request :: "nat \<Rightarrow> OpType \<Rightarrow> nat \<Rightarrow> NVMainRequest" where
  "nv_request k t owner = (NVMainRequest_init k)\<lparr> rq_type := t, rq_owner := owner, rq_programCounter := 5,
     rq_address := SetPhysicalAddress (SetTranslatedAddress (NVMAddress_init 0) 0 0 0 0 0 0) 0 \<rparr>"

definition nv_world :: world where
  "nv_world = \<lparr> w_queue = EventQueue_init, w_fresh = 100, w_heap = [1 \<mapsto> nv_request 1 READ 9, 2 \<mapsto> nv_request 2 WRITE 9,
     3 \<mapsto> (nv_request 3 READ 50)\<lparr> rq_isPrefetch := True \<rparr>], w_sim = None \<rparr>"

definition prefetched_lengths :: "world \<times> (AddressTranslator, unit, unit FRFCFS) NVMain \<Rightarrow> nat list" where
  "prefetched_lengths = (\<lambda>(w, s). map (\<lambda>c. length (memQueue c)) (memoryControllers s))"

definition naive_run :: "nvm_error + world \<times> (AddressTranslator, unit, unit FRFCFS) NVMain" where
  "naive_run = IssuePrefetch (frfcfs_ops naive example_child) nv_world (nv_example (Some ())) 1"

text \<open>A configured memory of two channels, the channel in the lowest bit above the offset.\<close>

definition nv_method :: TranslationMethod where
  "nv_method = \<lparr> bitWidths = (\<lambda>p. case p of MEM_ROW \<Rightarrow> 10 | MEM_COL \<Rightarrow> 4 | MEM_BANK \<Rightarrow> 3 | MEM_RANK \<Rightarrow> 1 | MEM_CHANNEL \<Rightarrow> 1 | _ \<Rightarrow> 0),
     tm_count = (\<lambda>_. 0), tm_order = (\<lambda>p. case p of MEM_ROW \<Rightarrow> 5 | MEM_RANK \<Rightarrow> 4 | MEM_BANK \<Rightarrow> 3 | MEM_COL \<Rightarrow> 2 | MEM_CHANNEL \<Rightarrow> 1 | _ \<Rightarrow> 0) \<rparr>"

definition nv_two :: "'p option \<Rightarrow> (AddressTranslator, 'p, unit FRFCFS) NVMain" where
  "nv_two pf = (NVMain_init 50 [(51, 50)] (plain_decoder nv_method CHANNEL_FIELD))\<lparr> nv_configured := True,
     memoryControllers := replicate 2 (FRFCFS_init example_mc), numChannels := 2, prefetcher := pf \<rparr>"

definition two_ops :: "'p prefetcher \<Rightarrow> (AddressTranslator, 'p, unit FRFCFS) nv_ops" where
  "two_ops pf = frfcfs_ops pf example_child"

definition decodes_to :: "u64 \<Rightarrow> u64 \<Rightarrow> bool" where
  "decodes_to a c \<longleftrightarrow> (case decode (two_ops naive) (nv_two (Some ())) a of Inr (_, v) \<Rightarrow> v MEM_CHANNEL = c | Inl _ \<Rightarrow> False)"

lemma nv_two_decodes: "decodes_to 0 0" "decodes_to 64 1"
  by code_simp+

definition prefetches :: "nat list \<Rightarrow> bool" where
  "prefetches ns \<longleftrightarrow> (case IssuePrefetch (two_ops naive) nv_world (nv_two (Some ())) 1 of Inr x \<Rightarrow> prefetched_lengths x = ns | Inl _ \<Rightarrow> False)"

lemma nv_two_prefetches: "prefetches [3, 0]"
  by code_simp

theorem naive_prefetches_one_channel_witness:
  "\<exists>w' s' t v. IssuePrefetch (two_ops naive) nv_world (nv_two (Some ())) 1 = Inr (w', s')
     \<and> length (memQueue (memoryControllers s' ! 0)) = 3 \<and> memoryControllers s' ! 1 = FRFCFS_init example_mc
     \<and> decode (two_ops naive) (nv_two (Some ())) 64 = Inr (t, v) \<and> v MEM_CHANNEL = 1"
proof -
  obtain w' s' where r: "IssuePrefetch (two_ops naive) nv_world (nv_two (Some ())) 1 = Inr (w', s')" "prefetched_lengths (w', s') = [3, 0]"
    using nv_two_prefetches by (auto simp: prefetches_def split: sum.splits)
  have ops: "nv_pf (two_ops naive) = naive" "\<forall>d. nv_field (two_ops naive) d = CHANNEL_FIELD" "allocates_fresh (two_ops naive)"
    using frfcfs_allocates by (simp_all add: two_ops_def frfcfs_ops_def)
  have x: "w_heap nv_world 1 = Some (nv_request 1 READ 9)" "translated (rq_address (nv_request 1 READ 9))" "(1::nat) < w_fresh nv_world"
    by (simp_all add: nv_world_def nv_request_def SetPhysicalAddress_def SetTranslatedAddress_def)
  have "length (memoryControllers s') = 2" "memoryControllers s' ! 1 = FRFCFS_init example_mc"
    using naive_prefetches_one_channel [OF r(1) ops x]
    by (simp_all add: nv_two_def nv_request_def SetPhysicalAddress_def SetTranslatedAddress_def)
  moreover have "length (memQueue (memoryControllers s' ! 0)) = 3"
    using r(2) calculation(1) by (cases "memoryControllers s'") (auto simp: prefetched_lengths_def)
  moreover obtain t v where "decode (two_ops naive) (nv_two (Some ())) 64 = Inr (t, v)" "v MEM_CHANNEL = 1"
    using nv_two_decodes(2) by (auto simp: decodes_to_def split: sum.splits)
  ultimately show ?thesis using r(1) by blast
qed

theorem prefetched_write_is_lost_witness:
  "\<exists>w' s'. NVMain_IssueCommand (two_ops naive) nv_world ((nv_two (Some ()))\<lparr> prefetchBuffer := [3] \<rparr>) 2 = Inr (w', s', True)
     \<and> memoryControllers s' = replicate 2 (FRFCFS_init example_mc) \<and> prefetchBuffer s' = []"
proof -
  let ?s = "(nv_two (Some ()))\<lparr> prefetchBuffer := [3] \<rparr>"
  obtain t v where "decode (two_ops naive) (nv_two (Some ())) 0 = Inr (t, v)"
    using nv_two_decodes(1) by (auto simp: decodes_to_def split: sum.splits)
  then obtain t' where d: "decode (two_ops naive) ?s (physicalAddress (rq_address (nv_request 2 WRITE 9))) = Inr (t', v)"
    by (auto simp: decode_def nv_request_def SetPhysicalAddress_def elim!: bind_res_elim)
  obtain w' s' b' where "NVMain_IssueCommand (two_ops naive) nv_world ?s 2 = Inr (w', s', True)" "memoryControllers s' = memoryControllers ?s"
    "b' \<in> set (prefetchBuffer ?s)" "prefetchBuffer s' = removeAll b' (prefetchBuffer ?s)"
    using prefetched_write_is_lost [OF _ _ _ d, where b = 3 and w = nv_world and r = 2 and hook = 51 and p = "()"
        and y = "(nv_request 3 READ 50)\<lparr> rq_isPrefetch := True \<rparr>"]
    by (auto simp: nv_two_def NVMain_init_def nv_world_def two_ops_def frfcfs_ops_def nv_request_def SetPhysicalAddress_def)
  then show ?thesis by (auto simp: nv_two_def)
qed

definition stems_junk :: PatternSequence where
  "stems_junk = \<lparr> ps_size = 0, ps_address = 7, ps_offset = replicate 16 7, ps_delta = replicate 16 7, ps_fetched = replicate 16 True,
     ps_used = replicate 16 True, useCount = 7, startedPrefetch = True \<rparr>"

lemma stems_junk_ok: "seq_ok stems_junk" and stems_init_ok: "stems_ok STeMS_init"
  by (simp_all add: seq_ok_def stems_junk_def stems_ok_def STeMS_init_def omap_wf_def)

definition stems_accepts :: bool where
  "stems_accepts \<longleftrightarrow> (case nv_do (two_ops (stems stems_junk)) (Issue 1) nv_world (nv_two (Some STeMS_init)) of Inr (_, _, ok) \<Rightarrow> ok | Inl _ \<Rightarrow> False)"

lemma nv_two_accepts: stems_accepts
  by code_simp

theorem STeMS_never_heard_witness:
  "\<exists>w' s'. nv_do (two_ops (stems stems_junk)) (Issue 1) nv_world (nv_two (Some STeMS_init)) = Inr (w', s', True) \<and> prefetchBuffer s' = []
     \<and> nv_do (two_ops (stems stems_junk)) (Issue 1) nv_world ((nv_two (Some STeMS_init))\<lparr> prefetcher := None \<rparr>)
        = Inr (w', s'\<lparr> prefetcher := None \<rparr>, True)"
proof -
  let ?s = "nv_two (Some STeMS_init)"
  obtain w' s' where r: "nv_do (two_ops (stems stems_junk)) (Issue 1) nv_world ?s = Inr (w', s', True)"
    using nv_two_accepts by (auto simp: stems_accepts_def split: sum.splits)
  have "nv_pf (two_ops (stems stems_junk)) = stems stems_junk" "prefetcher ?s = Some STeMS_init" "prefetchBuffer ?s = []"
    by (simp_all add: two_ops_def frfcfs_ops_def nv_two_def NVMain_init_def)
  from STeMS_never_heard [OF this(1) stems_junk_ok this(2) stems_init_ok this(3), of "Issue 1" nv_world] r
  show ?thesis by auto
qed

theorem STeMS_stays_in_arrays_witness:
  "\<exists>s' l'. STeMS_DoPrefetch stems_junk STeMS_init (nv_request 1 READ 9) [] = Inr (s', l', False) \<and> stems_ok s'"
  using STeMS_stays_in_arrays [OF _ stems_junk_ok, of STeMS_init "nv_request 1 READ 9" "[]"] by blast

end
