(* ===== verification/Spec2Isabelle.thy ===== *)
theory Spec2Isabelle
  imports Nvm_FRFCFS Nvm_CacheBank Nvm_FlipNWrite Nvm_Endurance Nvm_BusTiming Nvm_CachedBuffers Nvm_WriteQueueRuns
    Nvm_FrontEndProps
begin

text \<open>
  \<^bold>\<open>A verification of NVMain's memory controller, subarrays, banks, ranks and buses\<close>

  NVMain (\<^verbatim>\<open>src/nvmain-test\<close>) is a cycle-level simulator of main memories. A request enters a
  memory controller, which translates its address, keeps it in a transaction queue, turns it
  into commands of a command queue (activate, read, write, precharge, refresh) and sends these
  through an interconnect to ranks, banks and subarrays. Everything that happens later is an
  event of an event queue. Subarrays may encode the data they write and keep count of the
  wear of their cells; caches can be put in front of a memory.

  \<^bold>\<open>Theories\<close>

  \<^item> \<open>Nvm_Prelude\<close>: the types (\<open>u64\<close>, \<open>ncycle_t\<close>), the errors (a failed \<^verbatim>\<open>assert\<close>, \<^verbatim>\<open>exit\<close>, an
    access out of bounds, a division by zero, a use of freed memory), the error monad
    \<open>bind_res\<close> and \<open>fold_res\<close>, lemmas on words, and \<^verbatim>\<open>std::map\<close> as a sorted association list
    behind the locale \<open>ordered_map\<close>.
  \<^item> \<open>Nvm_Address\<close>: \<^verbatim>\<open>NVMAddress\<close>, \<^verbatim>\<open>TranslationMethod\<close>, \<^verbatim>\<open>AddressTranslator\<close>, \<^verbatim>\<open>mlog2\<close>. Composing and
    translating addresses are inverse (through the locale \<open>address_codec\<close>), composing is
    injective, mapping schemes give a permutation of the orders, and translation fails only
    for an order no partition has.
  \<^item> \<open>Nvm_EventQueue\<close>: \<^verbatim>\<open>EventQueue\<close>, with handlers as functions that schedule and cancel events.
    Events of a cycle are sorted by priority and run once, in order; advancing by many cycles
    is advancing one by one; scheduling into the running cycle is an error.
  \<^item> \<open>Nvm_DataBlock\<close>, \<open>Nvm_CacheBank\<close>: \<^verbatim>\<open>NVMDataBlock\<close> with bounds, and the set-associative cache
    \<^verbatim>\<open>CacheBank\<close> with its replacement order.
  \<^item> \<open>Nvm_FlipNWrite\<close>: the encoder \<^verbatim>\<open>FlipNWrite\<close>; decoding what was written gives the data, and at
    most half of the bits of a partition are written.
  \<^item> \<open>Nvm_Endurance\<close>: \<^verbatim>\<open>EnduranceModel\<close> and the null, row, word, byte and bit models, which differ
    in the keys they wear (locale \<open>wear_keys\<close>).
  \<^item> \<open>Nvm_Request\<close>, \<open>Nvm_Controller\<close>: \<^verbatim>\<open>NVMainRequest\<close> and \<^verbatim>\<open>MemoryController\<close>, one definition per
    member function. The module below the controller is a parameter, the record \<open>child\<close>.
  \<^item> \<open>Nvm_Queues\<close>: which addresses share a command queue; the invariant \<open>mc_inv\<close> of a configured
    controller: a bank counts as active exactly when one of its subarrays is.
  \<^item> \<open>Nvm_Refresh\<close>: the mutual recursion of \<^verbatim>\<open>HandleRefresh\<close>, \<^verbatim>\<open>NextIssuable\<close> and
    \<^verbatim>\<open>ScheduleCommandWake\<close> ends.
  \<^item> \<open>Nvm_RowBuffer\<close>: the commands \<^verbatim>\<open>IssueMemoryCommands\<close> queues refine an abstract machine of
    row buffers.
  \<^item> \<open>Nvm_FRFCFS\<close>: the controllers \<^verbatim>\<open>FRFCFS\<close> and \<^verbatim>\<open>FCFS\<close>. The scheduling functions share the
    contract of the locale \<open>request_finder\<close>; no request is lost, and requests are picked in the
    documented order.
  \<^item> \<open>Nvm_WriteQueue\<close>, \<open>Nvm_WriteQueueRuns\<close>: the controller \<^verbatim>\<open>FRFCFS_WQF\<close>, which drains writes in bursts. It serves
    one queue at a time and loses no request; a drain on demand during a drain is never over.
  \<^item> \<open>Nvm_Prefetch\<close>, \<open>Nvm_FrontEnd\<close>, \<open>Nvm_FrontEndRuns\<close>, \<open>Nvm_FrontEndProps\<close>: the root \<^verbatim>\<open>NVMain\<close> of a memory over decoder,
    prefetcher and controllers (record \<open>nv_ops\<close>), and the prefetchers. Addresses are decoded inside the memory; \<^verbatim>\<open>STeMS\<close>
    never prefetches (locale \<open>silent_prefetcher\<close>), the naive prefetcher stays in one channel, and a write can be lost in
    the prefetch buffer. The example has \<^verbatim>\<open>FRFCFS\<close> controllers.
  \<^item> \<open>Nvm_BitCount\<close>, \<open>Nvm_SubArray\<close>: \<^verbatim>\<open>SubArray\<close>, one definition per member function and per part of
    the long ones, and the data store \<^verbatim>\<open>SimInterface\<close>. The counters of cell values count, and the
    write times fail only for the data with no case in the code. The encoder, the endurance model, the
    normal distribution and the floating point test of a pause are the record \<open>sa_env\<close>.
  \<^item> \<open>Nvm_SubArrayTiming\<close>, \<open>Nvm_SubArrayWrites\<close>: commands keep the time between them the parameters
    ask for (locale \<open>deadlines\<close>); \<^verbatim>\<open>IsIssuable\<close> decides alone; an interrupted write leaves no
    trace in the deadlines, and is interrupted a bounded number of times.
  \<^item> \<open>Nvm_Bank\<close>, \<open>Nvm_BankState\<close>, \<open>Nvm_BankChecks\<close>: \<^verbatim>\<open>DDR3Bank\<close> over subarrays reached by the record
    \<open>sa_ops\<close>: power-down and power-up, the list of open subarrays, the deadlines, and that bank and
    subarrays agree on what can be issued (locale \<open>subarray_contract\<close>, interpreted by \<^verbatim>\<open>SubArray\<close>).
  \<^item> \<open>Nvm_Rank\<close>, \<open>Nvm_RankWindow\<close>, \<open>Nvm_RankPower\<close>: \<^verbatim>\<open>StandardRank\<close> over banks reached by the record \<open>bk_ops\<close>.
    The ring buffer of activations refines the list of the last ones and keeps the activation window
    (locales \<open>sa_clock\<close> and \<open>rank_banks\<close>); banks are powered down and up in lockstep (locale
    \<open>power_subarrays\<close>).
  \<^item> \<open>Nvm_CachedBank\<close>, \<open>Nvm_CachedBuffers\<close>: \<^verbatim>\<open>CachedDDR3Bank\<close>, a \<^verbatim>\<open>DDR3Bank\<close> with row data buffers. The buffers
    refine a list of row regions; hits leave the rows alone; writes can leave the array of dirty flags. A rank of
    cached banks is an instance of \<open>rank_banks\<close> too.
  \<^item> \<open>Nvm_Bus\<close>, \<open>Nvm_BusTiming\<close>: the interconnects \<^verbatim>\<open>OffChipBus\<close> and \<^verbatim>\<open>OnChipBus\<close> over ranks reached by the
    record \<open>rank_ops\<close>. Ranks are told of each other's reads and writes and never collide on the data bus
    (the locale \<open>deadlines\<close> again, now over the deadlines of all ranks).

  \<^bold>\<open>Bounds\<close>

  \<open>wake\<close> has a depth bound because the three functions it ties together recurse through one
  another. \<open>ScheduleCommandWake\<close> starts it with two more than \<open>refresh_debt\<close>, the number of
  refreshes all bank groups are owed; every level that recurses pays one refresh, so the bound
  is never reached from a consistent state. The loop of \<^verbatim>\<open>EventQueue::Loop\<close> is a
  \<open>partial_function\<close>, and its properties include that it returns.

  \<^bold>\<open>Not modelled\<close>

  Statistics, printing and floating point averages; configuration files and the creation of
  child objects; the energy of subarrays, banks and ranks and the I/O power of buses; the other
  controllers, decoders, prefetchers and migration; the glue to simulators; and gem5
  (\<^verbatim>\<open>src/gem5-cache\<close>), the full-system simulator NVMain is attached to.
\<close>

end
